(* ===== verification/Prelude.thy ===== *)
theory Prelude
  imports Main "HOL-Library.Sublist" "HOL-Library.Char_ord" "HOL-Library.List_Lexorder"
begin

text \<open>
  Shared vocabulary of the development: the collections of simplification rules the component
  theories fill, the result type of code that throws, canonical lists (what
  \<^verbatim>\<open>[...new Set(xs)].sort(...)\<close> computes), the insertion-ordered \<^verbatim>\<open>Map\<close> of JavaScript as an
  association list behind an interface, and the chain of ancestors that every process-tree
  walk of the guest follows.
\<close>

section \<open>Collections of rules\<close>

named_theorems js_defs \<open>definitions of the JavaScript string operations\<close>
named_theorems block_simps \<open>field access and update of lifecycle blocks\<close>

section \<open>Results of code that may throw\<close>

text \<open>A \<^verbatim>\<open>throw\<close> is \<open>Inl\<close>, a return is \<open>Inr\<close>.\<close>

type_synonym ('e, 'a) result = "'e + 'a"

definition rbind :: "('e, 'a) result \<Rightarrow> ('a \<Rightarrow> ('e, 'b) result) \<Rightarrow> ('e, 'b) result" where
  "rbind r f = (case r of Inl e \<Rightarrow> Inl e | Inr a \<Rightarrow> f a)"

lemma rbind_simps [simp]:
  "rbind (Inl e) f = Inl e"
  "rbind (Inr a) f = f a"
  by (simp_all add: rbind_def)

text \<open>A loop whose body may throw stops at the first throw.\<close>

fun rfold :: "('x \<Rightarrow> 's \<Rightarrow> ('e, 's) result) \<Rightarrow> 'x list \<Rightarrow> 's \<Rightarrow> ('e, 's) result" where
  "rfold f [] s = Inr s"
| "rfold f (x # xs) s = rbind (f x s) (rfold f xs)"

lemma rfold_append: "rfold f (xs @ ys) s = rbind (rfold f xs s) (rfold f ys)"
proof (induction xs arbitrary: s)
  case (Cons x xs)
  then show ?case by (cases "f x s") simp_all
qed simp

section \<open>Canonical lists\<close>

text \<open>\<^verbatim>\<open>[...new Set(xs)]\<close> keeps the first occurrence of each element, in order.\<close>

fun uniq_from :: "'a list \<Rightarrow> 'a list \<Rightarrow> 'a list" where
  "uniq_from seen [] = []"
| "uniq_from seen (x # xs) =
     (if x \<in> set seen then uniq_from seen xs else x # uniq_from (x # seen) xs)"

definition js_uniq :: "'a list \<Rightarrow> 'a list" where
  "js_uniq xs = uniq_from [] xs"

lemma set_uniq_from: "set (uniq_from seen xs) = set xs - set seen"
  by (induction xs arbitrary: seen) auto

lemma distinct_uniq_from: "distinct (uniq_from seen xs)"
  by (induction xs arbitrary: seen) (auto simp: set_uniq_from)

lemma set_js_uniq [simp]: "set (js_uniq xs) = set xs"
  by (simp add: js_uniq_def set_uniq_from)

lemma distinct_js_uniq [simp]: "distinct (js_uniq xs)"
  by (simp add: js_uniq_def distinct_uniq_from)

text \<open>
  The interface between the code that builds lock lists and the code that compares locks: a
  canonicaliser keeps the elements and forgets order and multiplicity.
\<close>

locale canonicaliser =
  fixes canon :: "'a list \<Rightarrow> 'a list"
  assumes canon_set: "set (canon xs) = set xs"
    and canon_cong: "set xs = set ys \<Longrightarrow> canon xs = canon ys"
begin

lemma canon_eq_iff: "canon xs = canon ys \<longleftrightarrow> set xs = set ys"
  using canon_set canon_cong by metis

lemma canon_idem: "canon (canon xs) = canon xs"
  by (rule canon_cong) (rule canon_set)

lemma canon_mem: "x \<in> set (canon xs) \<longleftrightarrow> x \<in> set xs"
  by (simp add: canon_set)

end

definition canon_strings :: "string list \<Rightarrow> string list" where
  "canon_strings xs = sort (js_uniq xs)"

lemma sort_distinct_cong:
  assumes "set xs = set ys" "distinct xs" "distinct ys"
  shows "sort xs = sort (ys :: 'a::linorder list)"
  using assms by (metis distinct_sort set_sort sorted_distinct_set_unique sorted_sort)

interpretation cs: canonicaliser canon_strings
  by unfold_locales (auto simp: canon_strings_def intro: sort_distinct_cong)

lemma sorted_canon_strings [simp]: "sorted (canon_strings xs)"
  by (simp add: canon_strings_def)

lemma distinct_canon_strings [simp]: "distinct (canon_strings xs)"
  by (simp add: canon_strings_def)

lemma find_SomeD: "find P xs = Some x \<Longrightarrow> x \<in> set xs \<and> P x"
  by (induction xs) (auto split: if_splits)

text \<open>The first hit in a list sorted by a key is a hit with the least key.\<close>

lemma find_sort_key_least:
  assumes "find P (sort_key f xs) = Some x"
  shows "x \<in> set xs \<and> P x \<and> (\<forall>y \<in> set xs. P y \<longrightarrow> f x \<le> (f y :: 'b::linorder))"
proof -
  obtain i where i: "i < length (sort_key f xs)" "P (sort_key f xs ! i)" "x = sort_key f xs ! i"
      "\<And>j. j < i \<Longrightarrow> \<not> P (sort_key f xs ! j)"
    using assms by (auto simp: find_Some_iff)
  have least: "f x \<le> f y" if "y \<in> set xs" "P y" for y
  proof -
    from that obtain j where j: "j < length (sort_key f xs)" "y = sort_key f xs ! j"
      by (metis in_set_conv_nth set_sort)
    with i that have "i \<le> j" by (metis not_less)
    then have "map f (sort_key f xs) ! i \<le> map f (sort_key f xs) ! j"
      using j by (intro sorted_nth_mono) auto
    with i j show ?thesis by simp
  qed
  moreover have "x \<in> set xs" using i by (metis nth_mem set_sort)
  ultimately show ?thesis using i by blast
qed

section \<open>The insertion-ordered Map of JavaScript\<close>

text \<open>
  \<^verbatim>\<open>Map.set\<close> on a present key keeps its position and replaces its value; on a new key it appends.
\<close>

type_synonym ('k, 'v) js_map = "('k \<times> 'v) list"

fun map_set :: "'k \<Rightarrow> 'v \<Rightarrow> ('k, 'v) js_map \<Rightarrow> ('k, 'v) js_map" where
  "map_set k v [] = [(k, v)]"
| "map_set k v ((k', v') # m) = (if k' = k then (k, v) # m else (k', v') # map_set k v m)"

definition map_delete :: "'k \<Rightarrow> ('k, 'v) js_map \<Rightarrow> ('k, 'v) js_map" where
  "map_delete k m = filter (\<lambda>(k', _). k' \<noteq> k) m"

definition map_wf :: "('k, 'v) js_map \<Rightarrow> bool" where
  "map_wf m \<longleftrightarrow> distinct (map fst m)"

text \<open>What the clients of a \<^verbatim>\<open>Map\<close> rely on.\<close>

locale js_map_spec =
  fixes empty :: "'m" and get :: "'m \<Rightarrow> 'k \<Rightarrow> 'v option"
    and put :: "'k \<Rightarrow> 'v \<Rightarrow> 'm \<Rightarrow> 'm" and del :: "'k \<Rightarrow> 'm \<Rightarrow> 'm"
    and wf :: "'m \<Rightarrow> bool"
  assumes get_empty: "get empty k = None"
    and get_put: "get (put k v m) k' = (if k' = k then Some v else get m k')"
    and get_del: "get (del k m) k' = (if k' = k then None else get m k')"
    and wf_empty: "wf empty"
    and wf_put: "wf m \<Longrightarrow> wf (put k v m)"
    and wf_del: "wf m \<Longrightarrow> wf (del k m)"
begin

lemma get_put_same: "get (put k v m) k = Some v"
  by (simp add: get_put)

lemma get_put_other: "k' \<noteq> k \<Longrightarrow> get (put k v m) k' = get m k'"
  by (simp add: get_put)

lemma get_del_put: "get (del k (put k v m)) = get (del k m)"
  by (simp add: get_del get_put fun_eq_iff)

end

lemma map_of_map_set: "map_of (map_set k v m) = (map_of m)(k \<mapsto> v)"
  by (induction m) auto

lemma keys_map_set: "set (map fst (map_set k v m)) = insert k (set (map fst m))"
proof (induction m)
  case (Cons p m)
  then show ?case by (cases p) (simp add: insert_commute del: set_map)
qed simp

lemma set_map_set: "set (map_set k v m) \<subseteq> insert (k, v) (set m)"
  by (induction k v m rule: map_set.induct) auto

lemma map_set_not_empty [simp]: "map_set k v m \<noteq> []"
  by (induction k v m rule: map_set.induct) auto

lemma distinct_keys_map_set:
  "distinct (map fst m) \<Longrightarrow> distinct (map fst (map_set k v m))"
proof (induction m)
  case (Cons p m)
  obtain a b where p: "p = (a, b)" by (cases p)
  show ?case
  proof (cases "a = k")
    case False
    with Cons show ?thesis
      using keys_map_set [of k v m] unfolding p by (simp del: set_map)
  qed (use Cons p in simp)
qed simp

lemma map_wf_set: "map_wf m \<Longrightarrow> map_wf (map_set k v m)"
  unfolding map_wf_def by (rule distinct_keys_map_set)

lemma map_of_map_delete: "map_of (map_delete k m) = (map_of m)(k := None)"
  by (induction m) (auto simp: map_delete_def)

lemma map_wf_delete: "map_wf m \<Longrightarrow> map_wf (map_delete k m)"
  by (induction m) (auto simp: map_wf_def map_delete_def)

interpretation jm: js_map_spec "[]" map_of map_set map_delete map_wf
  by unfold_locales
    (simp_all add: map_of_map_set map_of_map_delete map_wf_set map_wf_delete,
      simp add: map_wf_def)

text \<open>Two well-formed maps with the same lookups hold the same pairs.\<close>

lemma map_wf_mem: "map_wf m \<Longrightarrow> (k, v) \<in> set m \<longleftrightarrow> map_of m k = Some v"
  by (auto simp: map_wf_def map_of_eq_Some_iff intro: map_of_SomeD)

section \<open>Ancestors\<close>

text \<open>\<open>anc parent n p\<close> follows \<open>n\<close> parent edges from \<open>p\<close>.\<close>

fun anc :: "('a \<Rightarrow> 'a option) \<Rightarrow> nat \<Rightarrow> 'a \<Rightarrow> 'a option" where
  "anc parent 0 p = Some p"
| "anc parent (Suc n) p = (case parent p of None \<Rightarrow> None | Some q \<Rightarrow> anc parent n q)"

lemma anc_Suc_iff: "anc parent (Suc n) p = Some q \<longleftrightarrow> (\<exists>r. parent p = Some r \<and> anc parent n r = Some q)"
  by (auto split: option.splits)

lemma anc_Some_le: "anc parent n p = Some q \<Longrightarrow> m \<le> n \<Longrightarrow> \<exists>r. anc parent m p = Some r"
proof (induction n arbitrary: p m)
  case (Suc n)
  then show ?case by (cases m) (auto split: option.splits)
qed simp

lemma anc_add: "anc parent (m + n) p = (case anc parent m p of None \<Rightarrow> None | Some q \<Rightarrow> anc parent n q)"
  by (induction m arbitrary: p) (auto split: option.splits)

end
