(* ===== verification/JsString.thy ===== *)
theory JsString
  imports Prelude
begin

text \<open>
  The operations of JavaScript strings the program uses, and the pieces of its regular
  expressions. A string is its list of code units; a code unit is a \<^typ>\<open>char\<close>, so text outside
  Latin-1 is outside the model. \<^verbatim>\<open>a < b\<close> on strings compares code units, which is the order
  \<^theory_text>\<open>List_Lexorder\<close> gives to \<^typ>\<open>string\<close>.
\<close>

section \<open>Prefixes, suffixes, substrings\<close>

fun starts_with :: "string \<Rightarrow> string \<Rightarrow> bool" where
  "starts_with s [] = True"
| "starts_with [] (p # ps) = False"
| "starts_with (c # s) (p # ps) = (c = p \<and> starts_with s ps)"

definition ends_with :: "string \<Rightarrow> string \<Rightarrow> bool" where
  "ends_with s p = starts_with (rev s) (rev p)"

fun js_includes :: "string \<Rightarrow> string \<Rightarrow> bool" where
  "js_includes [] p = (p = [])"
| "js_includes (c # s) p = (starts_with (c # s) p \<or> js_includes s p)"

lemma starts_with_iff: "starts_with s p \<longleftrightarrow> (\<exists>t. s = p @ t)"
  by (induction s p rule: starts_with.induct) auto

lemma starts_with_prefix: "starts_with s p \<longleftrightarrow> prefix p s"
  by (simp add: starts_with_iff prefix_def)

lemma starts_with_append [simp]: "starts_with (p @ t) p"
  by (auto simp: starts_with_iff)

lemma starts_with_appendI: "starts_with s p \<Longrightarrow> starts_with (s @ t) p"
  by (auto simp: starts_with_iff)

lemma starts_with_refl [simp]: "starts_with s s"
  using starts_with_append [of s "[]"] by simp

lemma starts_with_length: "starts_with s p \<Longrightarrow> length p \<le> length s"
  by (auto simp: starts_with_iff)

lemma starts_with_split: "starts_with s p \<Longrightarrow> s = p @ drop (length p) s"
  by (auto simp: starts_with_iff)

lemma ends_with_iff: "ends_with s p \<longleftrightarrow> (\<exists>t. s = t @ p)"
proof -
  have "(\<exists>t. rev s = rev p @ t) \<longleftrightarrow> (\<exists>t. s = t @ p)"
    by (metis rev_append rev_rev_ident)
  then show ?thesis by (simp add: ends_with_def starts_with_iff)
qed

lemma js_includes_iff: "js_includes s p \<longleftrightarrow> (\<exists>a b. s = a @ p @ b)"
proof (induction s)
  case (Cons c s)
  show ?case
  proof
    assume "js_includes (c # s) p"
    then consider "starts_with (c # s) p" | "js_includes s p" by auto
    then show "\<exists>a b. c # s = a @ p @ b"
    proof cases
      case 1
      then obtain t where "c # s = [] @ p @ t" by (auto simp: starts_with_iff)
      then show ?thesis by blast
    next
      case 2
      with Cons.IH obtain a b where "s = a @ p @ b" by blast
      then have "c # s = (c # a) @ p @ b" by simp
      then show ?thesis by blast
    qed
  next
    assume "\<exists>a b. c # s = a @ p @ b"
    then obtain a b where ab: "c # s = a @ p @ b" by blast
    show "js_includes (c # s) p"
    proof (cases a)
      case Nil
      with ab have "starts_with (c # s) p" by simp
      then show ?thesis by simp
    next
      case (Cons d a')
      with ab have "s = a' @ p @ b" by simp
      with Cons.IH show ?thesis by auto
    qed
  qed
qed simp

lemma js_includes_sublist: "js_includes s p \<longleftrightarrow> sublist p s"
  by (simp add: js_includes_iff sublist_def)

lemma js_includes_infix [simp]: "js_includes (a @ p @ b) p"
  by (auto simp: js_includes_iff)

section \<open>Searching, joining, trimming\<close>

text \<open>\<^verbatim>\<open>s.slice(0, s.indexOf(c))\<close> and \<^verbatim>\<open>s.slice(s.indexOf(c) + 1)\<close> for a \<^verbatim>\<open>c\<close> that occurs.\<close>

definition before_char :: "char \<Rightarrow> string \<Rightarrow> string" where
  "before_char c s = takeWhile (\<lambda>x. x \<noteq> c) s"

definition after_char :: "char \<Rightarrow> string \<Rightarrow> string" where
  "after_char c s = drop 1 (dropWhile (\<lambda>x. x \<noteq> c) s)"

lemma before_after_char: "c \<in> set s \<Longrightarrow> before_char c s @ c # after_char c s = s"
  by (induction s) (auto simp: before_char_def after_char_def)

text \<open>\<^verbatim>\<open>s.slice(s.lastIndexOf('/') + 1)\<close>: the whole string when there is no slash.\<close>

definition basename :: "string \<Rightarrow> string" where
  "basename s = rev (takeWhile (\<lambda>x. x \<noteq> CHR ''/'') (rev s))"

fun join :: "string \<Rightarrow> string list \<Rightarrow> string" where
  "join sep [] = []"
| "join sep [s] = s"
| "join sep (s # t # ss) = s @ sep @ join sep (t # ss)"

text \<open>
  White space as \<^verbatim>\<open>trim\<close> and the regular expression \<^verbatim>\<open>\s\<close> see it, in Latin-1: tab, line feed,
  vertical tab, form feed, carriage return, space and no-break space.
\<close>

definition is_space :: "char \<Rightarrow> bool" where
  "is_space c = (let n = of_char c :: nat in (9 \<le> n \<and> n \<le> 13) \<or> n = 32 \<or> n = 160)"

definition trim_start :: "string \<Rightarrow> string" where
  "trim_start s = dropWhile is_space s"

definition trim :: "string \<Rightarrow> string" where
  "trim s = rev (dropWhile is_space (rev (trim_start s)))"

lemma trim_id:
  assumes "s = [] \<or> (\<not> is_space (hd s) \<and> \<not> is_space (last s))"
  shows "trim s = s"
proof (cases "s = []")
  case False
  with assms have "dropWhile is_space s = s" "dropWhile is_space (rev s) = rev s"
    by (cases s, simp_all) (metis dropWhile_eq_self_iff hd_rev rev_is_Nil_conv last.simps list.distinct(1) rev.simps(2))
  then show ?thesis by (simp add: trim_def trim_start_def)
qed (simp add: trim_def trim_start_def)

section \<open>Character classes\<close>

definition is_digit :: "char \<Rightarrow> bool" where
  "is_digit c = (CHR ''0'' \<le> c \<and> c \<le> CHR ''9'')"

definition is_upper :: "char \<Rightarrow> bool" where
  "is_upper c = (CHR ''A'' \<le> c \<and> c \<le> CHR ''Z'')"

definition is_lower :: "char \<Rightarrow> bool" where
  "is_lower c = (CHR ''a'' \<le> c \<and> c \<le> CHR ''z'')"

definition is_alnum :: "char \<Rightarrow> bool" where
  "is_alnum c = (is_digit c \<or> is_upper c \<or> is_lower c)"

text \<open>The regular expression \<^verbatim>\<open>\w\<close>.\<close>

definition is_word :: "char \<Rightarrow> bool" where
  "is_word c = (is_alnum c \<or> c = CHR ''_'')"

definition is_lower_hex :: "char \<Rightarrow> bool" where
  "is_lower_hex c = (is_digit c \<or> (CHR ''a'' \<le> c \<and> c \<le> CHR ''f''))"

definition is_hex :: "char \<Rightarrow> bool" where
  "is_hex c = (is_lower_hex c \<or> (CHR ''A'' \<le> c \<and> c \<le> CHR ''F''))"

definition is_octal :: "char \<Rightarrow> bool" where
  "is_octal c = (CHR ''0'' \<le> c \<and> c \<le> CHR ''7'')"

text \<open>\<^verbatim>\<open>toLowerCase\<close> on Latin-1: the letters \<^verbatim>\<open>A-Z\<close> and the accented capitals.\<close>

definition lower_char :: "char \<Rightarrow> char" where
  "lower_char c =
     (let n = of_char c :: nat
      in if (65 \<le> n \<and> n \<le> 90) \<or> (192 \<le> n \<and> n \<le> 222 \<and> n \<noteq> 215)
         then char_of (n + 32) else c)"

definition to_lower :: "string \<Rightarrow> string" where
  "to_lower s = map lower_char s"

section \<open>Numbers in templates\<close>

text \<open>\<^verbatim>\<open>${n}\<close> for a natural number and for an integer; \<^verbatim>\<open>parseInt(ds, base)\<close> on digits.\<close>

definition digit_char :: "nat \<Rightarrow> char" where
  "digit_char d = char_of (48 + d)"

fun nat_str :: "nat \<Rightarrow> string" where
  "nat_str n = (if n < 10 then [digit_char n] else nat_str (n div 10) @ [digit_char (n mod 10)])"

declare nat_str.simps [simp del]

definition int_str :: "int \<Rightarrow> string" where
  "int_str i = (if i < 0 then CHR ''-'' # nat_str (nat (- i)) else nat_str (nat i))"

definition digit_val :: "char \<Rightarrow> nat" where
  "digit_val c =
     (let n = of_char c :: nat
      in if is_digit c then n - 48
         else if is_lower c then n - 87
         else n - 55)"

definition digits_val :: "nat \<Rightarrow> string \<Rightarrow> nat" where
  "digits_val base ds = foldl (\<lambda>acc c. base * acc + digit_val c) 0 ds"

lemma digit_val_char [simp]: "d < 10 \<Longrightarrow> digit_val (digit_char d) = d"
  by (simp add: digit_val_def digit_char_def is_digit_def less_eq_char_def Let_def)

lemma digits_val_nat_str: "digits_val 10 (nat_str n) = n"
proof (induction n rule: nat_str.induct)
  case (1 n)
  then show ?case
    by (subst nat_str.simps) (auto simp: digits_val_def)
qed

section \<open>Regular expressions\<close>

text \<open>
  The regular expressions of the program are built from repetitions of one character class.
  A matcher returns the list of ways it can match at the front of a string, in the order a
  backtracking matcher tries them, each with the rest of the string; sequencing is list
  bind, alternation is append, and the first element is the match JavaScript reports.
\<close>

type_synonym 'a matcher = "string \<Rightarrow> ('a \<times> string) list"

text \<open>\<open>rep p lo hi\<close>: the greedy \<^verbatim>\<open>[p]{lo,hi}\<close> (\<open>hi = None\<close> for no bound), longest match first.\<close>

definition rep :: "(char \<Rightarrow> bool) \<Rightarrow> nat \<Rightarrow> nat option \<Rightarrow> string matcher" where
  "rep p lo hi s =
     (let k = length (takeWhile p s);
          m = (case hi of None \<Rightarrow> k | Some h \<Rightarrow> min h k)
      in map (\<lambda>n. (take n s, drop n s)) (rev [lo ..< Suc m]))"

definition rx_lit :: "string \<Rightarrow> string matcher" where
  "rx_lit p s = (if starts_with s p then [(p, drop (length p) s)] else [])"

definition rx_opt :: "'a matcher \<Rightarrow> 'a option matcher" where
  "rx_opt m s = map (\<lambda>(a, r). (Some a, r)) (m s) @ [(None, s)]"

definition rx_end :: "unit matcher" where
  "rx_end s = (if s = [] then [((), [])] else [])"

definition rx_bind :: "'a matcher \<Rightarrow> ('a \<Rightarrow> 'b matcher) \<Rightarrow> 'b matcher" where
  "rx_bind m f s = concat (map (\<lambda>(a, r). f a r) (m s))"

definition rx_ret :: "'a \<Rightarrow> 'a matcher" where
  "rx_ret a s = [(a, s)]"

text \<open>The leftmost match, when the expression is not anchored: the first success of the first
  position that has one.\<close>

fun rx_search :: "'a matcher \<Rightarrow> string \<Rightarrow> 'a option" where
  "rx_search m [] = (case m [] of [] \<Rightarrow> None | (a, _) # _ \<Rightarrow> Some a)"
| "rx_search m (c # s) =
     (case m (c # s) of [] \<Rightarrow> rx_search m s | (a, _) # _ \<Rightarrow> Some a)"

lemma rep_no_class [simp]: "takeWhile p s = [] \<Longrightarrow> lo \<noteq> 0 \<Longrightarrow> rep p lo hi s = []"
  by (simp add: rep_def Let_def split: option.splits)

lemmas rx_defs = rx_lit_def rx_opt_def rx_end_def rx_bind_def rx_ret_def rep_def

end
