(* ===== verification/Schema.thy ===== *)
theory Schema
  imports JsString
begin

text \<open>
  The events and lockfile blocks of \<^verbatim>\<open>src/lock/schema.ts\<close>. An optional field of the source is an
  \<open>option\<close>; a field whose only legal value is a literal (\<^verbatim>\<open>refused: true\<close>, the \<^verbatim>\<open>'blocked'\<close> result of a
  \<^verbatim>\<open>dlopen\<close>) carries no information and has no field here.
\<close>

section \<open>Lifecycle stages\<close>

datatype lifecycle_stage = Preinstall | Install | Postinstall | Prepare

fun stage_name :: "lifecycle_stage \<Rightarrow> string" where
  "stage_name Preinstall = ''preinstall''"
| "stage_name Install = ''install''"
| "stage_name Postinstall = ''postinstall''"
| "stage_name Prepare = ''prepare''"

definition stage_options :: "lifecycle_stage list" where
  "stage_options = [Preinstall, Install, Postinstall, Prepare]"

definition stage_of :: "string \<Rightarrow> lifecycle_stage option" where
  "stage_of s = find (\<lambda>st. stage_name st = s) stage_options"

lemma stage_of_name [simp]: "stage_of (stage_name st) = Some st"
  by (cases st) (simp_all add: stage_of_def stage_options_def)

lemma stage_of_SomeD: "stage_of s = Some st \<Longrightarrow> stage_name st = s"
  by (auto simp: stage_of_def find_Some_iff)

lemma stage_name_inject [simp]: "stage_name a = stage_name b \<longleftrightarrow> a = b"
  by (cases a; cases b) simp_all

section \<open>Raw events\<close>

datatype errno = ENOENT | EACCES

record fs_event =
  fs_path :: string
  fs_pid :: int
  fs_ts :: nat
  fs_hidden :: bool
  fs_errno :: "errno option"
  fs_dirfd :: "int option"
  fs_retFd :: "nat option"
  fs_root_anchored :: "bool option"

record env_read_event =
  er_name :: string
  er_pid :: int
  er_ts :: nat
  er_hidden :: bool
  er_root_anchored :: "bool option"

datatype spawn_result = SpawnOk | SpawnEnoent | SpawnEacces

record spawn_event =
  sp_argv :: "string list"
  sp_result :: spawn_result
  sp_pid :: int
  sp_ts :: nat
  sp_audit_blind :: "bool option"
  sp_root_anchored :: "bool option"

record dlopen_event =
  dl_filename :: string
  dl_pid :: int
  dl_ts :: nat

datatype connect_result = ConnOk | ConnBlocked

record network_event =
  nw_host :: string
  nw_port :: nat
  nw_result :: connect_result
  nw_pid :: int
  nw_ts :: nat
  nw_root_anchored :: "bool option"

datatype exec_result = ExecOk | ExecFailed

record exec_event =
  ex_prog :: string
  ex_argv0 :: "string option"
  ex_envp_alloc_failed :: bool
  ex_syscall_bypass :: bool
  ex_events_file_forgery :: bool
  ex_unresolved_path :: bool
  ex_result :: exec_result
  ex_pid :: int
  ex_ts :: nat
  ex_audit_blind :: "bool option"
  ex_argv :: "string list option"
  ex_exec_errno :: "string option"

datatype tamper_op = Setenv | Unsetenv | Putenv | Clearenv | AuditFdLost

fun tamper_op_name :: "tamper_op \<Rightarrow> string" where
  "tamper_op_name Setenv = ''setenv''"
| "tamper_op_name Unsetenv = ''unsetenv''"
| "tamper_op_name Putenv = ''putenv''"
| "tamper_op_name Clearenv = ''clearenv''"
| "tamper_op_name AuditFdLost = ''audit_fd_lost''"

record env_tamper_event =
  et_op :: tamper_op
  et_name :: "string option"
  et_reason :: "string option"
  et_pid :: int
  et_ts :: nat
  et_root_anchored :: "bool option"

datatype raw_event =
    ReadEv fs_event
  | WriteEv fs_event
  | EnvReadEv env_read_event
  | SpawnEv spawn_event
  | DlopenEv dlopen_event
  | ConnectEv network_event
  | ExecEv exec_event
  | EnvTamperEv env_tamper_event

record attributed_event =
  ev_raw :: raw_event
  ev_pkg :: string
  ev_lifecycle :: lifecycle_stage

text \<open>The fs event of a read or a write, the events most of the pipeline looks at.\<close>

fun fs_of :: "raw_event \<Rightarrow> fs_event option" where
  "fs_of (ReadEv e) = Some e"
| "fs_of (WriteEv e) = Some e"
| "fs_of _ = None"

fun is_read :: "raw_event \<Rightarrow> bool" where
  "is_read (ReadEv _) = True"
| "is_read _ = False"

section \<open>Lock blocks\<close>

record lifecycle_block =
  external_reads :: "string list"
  escaped_writes :: "string list"
  env_read :: "string list"
  spawn_attempts :: "string list"
  spawn_blocked :: "string list"
  dlopen_attempts :: "string list"
  network_attempts :: "string list"
  audit_bypass :: "string list"
  env_tamper :: "string list"

text \<open>The key of a block's list, for the code that indexes \<^verbatim>\<open>block[f]\<close>.\<close>

datatype block_field =
    FExternalReads | FEscapedWrites | FEnvRead | FSpawnAttempts | FSpawnBlocked
  | FDlopenAttempts | FNetworkAttempts | FAuditBypass | FEnvTamper

fun get_field :: "block_field \<Rightarrow> lifecycle_block \<Rightarrow> string list" where
  "get_field FExternalReads b = external_reads b"
| "get_field FEscapedWrites b = escaped_writes b"
| "get_field FEnvRead b = env_read b"
| "get_field FSpawnAttempts b = spawn_attempts b"
| "get_field FSpawnBlocked b = spawn_blocked b"
| "get_field FDlopenAttempts b = dlopen_attempts b"
| "get_field FNetworkAttempts b = network_attempts b"
| "get_field FAuditBypass b = audit_bypass b"
| "get_field FEnvTamper b = env_tamper b"

fun set_field :: "block_field \<Rightarrow> string list \<Rightarrow> lifecycle_block \<Rightarrow> lifecycle_block" where
  "set_field FExternalReads v b = b\<lparr>external_reads := v\<rparr>"
| "set_field FEscapedWrites v b = b\<lparr>escaped_writes := v\<rparr>"
| "set_field FEnvRead v b = b\<lparr>env_read := v\<rparr>"
| "set_field FSpawnAttempts v b = b\<lparr>spawn_attempts := v\<rparr>"
| "set_field FSpawnBlocked v b = b\<lparr>spawn_blocked := v\<rparr>"
| "set_field FDlopenAttempts v b = b\<lparr>dlopen_attempts := v\<rparr>"
| "set_field FNetworkAttempts v b = b\<lparr>network_attempts := v\<rparr>"
| "set_field FAuditBypass v b = b\<lparr>audit_bypass := v\<rparr>"
| "set_field FEnvTamper v b = b\<lparr>env_tamper := v\<rparr>"

lemma get_set_field [simp, block_simps]:
  "get_field f (set_field g v b) = (if f = g then v else get_field f b)"
  by (cases f; cases g) simp_all

lemma block_eqI:
  assumes "\<And>f. get_field f a = get_field f b"
  shows "a = (b :: lifecycle_block)"
proof -
  have "external_reads a = external_reads b" using assms [of FExternalReads] by simp
  moreover have "escaped_writes a = escaped_writes b" using assms [of FEscapedWrites] by simp
  moreover have "env_read a = env_read b" using assms [of FEnvRead] by simp
  moreover have "spawn_attempts a = spawn_attempts b" using assms [of FSpawnAttempts] by simp
  moreover have "spawn_blocked a = spawn_blocked b" using assms [of FSpawnBlocked] by simp
  moreover have "dlopen_attempts a = dlopen_attempts b" using assms [of FDlopenAttempts] by simp
  moreover have "network_attempts a = network_attempts b" using assms [of FNetworkAttempts] by simp
  moreover have "audit_bypass a = audit_bypass b" using assms [of FAuditBypass] by simp
  moreover have "env_tamper a = env_tamper b" using assms [of FEnvTamper] by simp
  ultimately show ?thesis by (cases a, cases b) simp
qed

text \<open>A package's stages in the order they were first written, as the keys of the object.\<close>

type_synonym package_block = "(lifecycle_stage, lifecycle_block) js_map"

end
