(* ===== verification/Tokenize.thy ===== *)
theory Tokenize
  imports Schema
begin

text \<open>
  Rewriting of absolute paths to tokens: \<^verbatim>\<open>src/lock/tokenize.ts\<close> and
  \<^verbatim>\<open>src/lock/private-realpath.ts\<close>. The regular expressions of \<^verbatim>\<open>collapseUnstable\<close> are written as the
  scans they denote.
\<close>

section \<open>Roots\<close>

record tokenize_roots =
  r_repo :: string
  r_nodeModules :: string
  r_home :: string
  r_tmp :: string
  r_tmpLegacy :: "string option"
  r_cache :: string

text \<open>\<open>strip_loop p e\<close> is the \<^verbatim>\<open>while\<close> loop over \<^verbatim>\<open>end\<close>.\<close>

fun strip_loop :: "string \<Rightarrow> nat \<Rightarrow> nat" where
  "strip_loop p (Suc (Suc n)) =
     (if p ! Suc n = CHR ''/'' then strip_loop p (Suc n) else Suc (Suc n))"
| "strip_loop p e = e"

definition stripTrailingSlashes :: "string \<Rightarrow> string" where
  "stripTrailingSlashes p =
     (let e = strip_loop p (length p) in if e = length p then p else take e p)"

definition canonicalizeTokenizeRoots :: "tokenize_roots \<Rightarrow> tokenize_roots" where
  "canonicalizeTokenizeRoots roots =
     roots\<lparr>r_repo := stripTrailingSlashes (r_repo roots),
           r_nodeModules := stripTrailingSlashes (r_nodeModules roots),
           r_home := stripTrailingSlashes (r_home roots),
           r_tmp := stripTrailingSlashes (r_tmp roots),
           r_tmpLegacy := map_option stripTrailingSlashes (r_tmpLegacy roots),
           r_cache := stripTrailingSlashes (r_cache roots)\<rparr>"

section \<open>Collapsing unstable names\<close>

text \<open>\<^verbatim>\<open>TEMP_SUFFIX\<close>: \<^verbatim>\<open>.tmp\<close>, or \<^verbatim>\<open>.tmp.\<close> and letters or digits, up to the end.\<close>

definition temp_suffix_at :: "string \<Rightarrow> bool" where
  "temp_suffix_at s =
     (starts_with s ''.tmp'' \<and>
      (case drop 4 s of
         [] \<Rightarrow> True
       | c # xs \<Rightarrow> c = CHR ''.'' \<and> xs \<noteq> [] \<and> list_all is_alnum xs))"

fun replace_temp_suffix :: "string \<Rightarrow> string" where
  "replace_temp_suffix [] = []"
| "replace_temp_suffix (c # s) =
     (if temp_suffix_at (c # s) then ''.tmp<hash>'' else c # replace_temp_suffix s)"

text \<open>\<^verbatim>\<open>YARN_FSLIB_TEMP\<close>: \<^verbatim>\<open>$TMPDIR/xfs-\<close> and eight or nine hexadecimal digits that end the segment.\<close>

definition hex_segment :: "nat \<Rightarrow> string \<Rightarrow> bool" where
  "hex_segment n r =
     (n \<le> length r \<and> list_all is_lower_hex (take n r) \<and>
      (case drop n r of [] \<Rightarrow> True | c # _ \<Rightarrow> c = CHR ''/''))"

definition replace_yarn_temp :: "string \<Rightarrow> string" where
  "replace_yarn_temp s =
     (if starts_with s ''$TMPDIR/xfs-'' then
        (let r = drop 12 s
         in if hex_segment 9 r then ''$TMPDIR/<hash>'' @ drop 9 r
            else if hex_segment 8 r then ''$TMPDIR/<hash>'' @ drop 8 r
            else s)
      else s)"

text \<open>
  \<^verbatim>\<open>HASH_PATTERN\<close>: every maximal run of sixteen or more letters, digits, underscores and hyphens,
  except one that looks like a capitalised word.
\<close>

definition is_hash_char :: "char \<Rightarrow> bool" where
  "is_hash_char c = (is_alnum c \<or> c = CHR ''_'' \<or> c = CHR ''-'')"

definition hash_replacement :: "string \<Rightarrow> string" where
  "hash_replacement w =
     (case w of
        [] \<Rightarrow> ''<hash>''
      | c # cs \<Rightarrow>
          if is_upper c \<and> 15 \<le> length cs \<and> list_all (\<lambda>x. is_upper x \<or> is_lower x) cs
          then w else ''<hash>'')"

function replace_hashes :: "string \<Rightarrow> string" where
  "replace_hashes [] = []"
| "replace_hashes (c # s) =
     (let w = takeWhile is_hash_char (c # s)
      in if 16 \<le> length w then hash_replacement w @ replace_hashes (drop (length w) (c # s))
         else c # replace_hashes s)"
  by pat_completeness auto
termination
  by (relation "measure length") auto

declare replace_temp_suffix.simps(2) [simp del] replace_hashes.simps(2) [simp del]

definition collapseUnstable :: "string \<Rightarrow> string" where
  "collapseUnstable path = replace_hashes (replace_yarn_temp (replace_temp_suffix path))"

section \<open>Tokens\<close>

definition pathHasPrefix :: "string \<Rightarrow> string \<Rightarrow> bool" where
  "pathHasPrefix path p =
     (starts_with path p \<and> (length path = length p \<or> path ! length p = CHR ''/''))"

text \<open>\<^verbatim>\<open>currentPkgDir ? ... : null\<close> also skips an empty directory name.\<close>

definition token_prefixes :: "tokenize_roots \<Rightarrow> string option \<Rightarrow> (string \<times> string) list" where
  "token_prefixes roots currentPkgDir =
     (case currentPkgDir of None \<Rightarrow> [] | Some d \<Rightarrow> if d = [] then [] else [(d, ''$PKG'')]) @
     [(r_nodeModules roots, ''$NODE_MODULES''),
      (r_repo roots, ''$REPO''),
      (r_cache roots, ''$CACHE''),
      (r_home roots, ''$HOME''),
      (r_tmp roots, ''$TMPDIR'')] @
     (case r_tmpLegacy roots of None \<Rightarrow> [] | Some t \<Rightarrow> [(t, ''$TMPDIR'')])"

text \<open>The comparison \<^verbatim>\<open>b[0].length - a[0].length\<close> is a stable sort, longest prefix first.\<close>

definition sorted_prefixes :: "tokenize_roots \<Rightarrow> string option \<Rightarrow> (string \<times> string) list" where
  "sorted_prefixes roots currentPkgDir =
     sort_key (\<lambda>(p, _). - int (length p)) (token_prefixes roots currentPkgDir)"

definition token_result :: "string \<Rightarrow> string \<Rightarrow> string \<Rightarrow> string" where
  "token_result rawPath p token =
     (let tail = drop (length p) rawPath;
          tokenized = token @ (if tail = ''/'' then [] else tail)
      in if token = ''$TMPDIR'' \<or> token = ''$CACHE'' then collapseUnstable tokenized else tokenized)"

definition tokenize :: "string \<Rightarrow> tokenize_roots \<Rightarrow> string option \<Rightarrow> string" where
  "tokenize rawPath roots currentPkgDir =
     (if \<not> starts_with rawPath ''/'' then rawPath
      else case find (\<lambda>(p, _). pathHasPrefix rawPath p) (sorted_prefixes roots currentPkgDir) of
             None \<Rightarrow> rawPath
           | Some (p, token) \<Rightarrow> token_result rawPath p token)"

definition isInsidePkg :: "string \<Rightarrow> bool" where
  "isInsidePkg t = (t = ''$PKG'' \<or> starts_with t ''$PKG/'')"

definition isCrossPackage :: "string \<Rightarrow> bool" where
  "isCrossPackage t =
     (\<not> isInsidePkg t \<and> (t = ''$NODE_MODULES'' \<or> starts_with t ''$NODE_MODULES/''))"

section \<open>The private realpath of macOS\<close>

definition private_prefixes :: "(string \<times> string) list" where
  "private_prefixes =
     [(''/private/var'', ''/var''), (''/private/tmp'', ''/tmp''), (''/private/etc'', ''/etc'')]"

definition canonicalizePrivateRealpath :: "string \<Rightarrow> string" where
  "canonicalizePrivateRealpath path =
     (case find (\<lambda>(from, _). path = from \<or> starts_with path (from @ ''/'')) private_prefixes of
        None \<Rightarrow> path
      | Some (from, to) \<Rightarrow> to @ drop (length from) path)"

section \<open>Roots are canonical\<close>

lemma strip_loop_le: "strip_loop p e \<le> e"
  by (induction p e rule: strip_loop.induct) auto

lemma strip_loop_slashes: "strip_loop p e \<le> i \<Longrightarrow> i < e \<Longrightarrow> p ! i = CHR ''/''"
proof (induction p e rule: strip_loop.induct)
  case (1 p n)
  then show ?case by (cases "i = Suc n") (auto split: if_splits)
qed auto

lemma strip_loop_stops: "1 < strip_loop p e \<Longrightarrow> p ! (strip_loop p e - 1) \<noteq> CHR ''/''"
  by (induction p e rule: strip_loop.induct) auto

lemma strip_loop_pos: "0 < e \<Longrightarrow> 0 < strip_loop p e"
  by (induction p e rule: strip_loop.induct) auto

lemma strip_eq_take: "stripTrailingSlashes p = take (strip_loop p (length p)) p"
  by (simp add: stripTrailingSlashes_def Let_def)

lemma strip_shape:
  "stripTrailingSlashes p = [] \<and> p = [] \<or> length (stripTrailingSlashes p) = 1 \<or>
   last (stripTrailingSlashes p) \<noteq> CHR ''/''"
proof -
  let ?e = "strip_loop p (length p)"
  have len: "length (stripTrailingSlashes p) = ?e"
    using strip_loop_le [of p "length p"] by (simp add: strip_eq_take)
  show ?thesis
  proof (cases "1 < ?e")
    case True
    then have "last (stripTrailingSlashes p) = p ! (?e - 1)"
      using len by (subst last_conv_nth) (auto simp: strip_eq_take)
    with strip_loop_stops [OF True] show ?thesis by simp
  next
    case False
    then show ?thesis
      using len strip_loop_pos [of "length p" p] by (cases "p = []") auto
  qed
qed

lemma strip_loop_id:
  assumes "length p \<le> 1 \<or> p ! (length p - 1) \<noteq> CHR ''/''"
  shows "strip_loop p (length p) = length p"
  using assms by (cases "(p, length p)" rule: strip_loop.cases) auto

lemma strip_idem [simp]: "stripTrailingSlashes (stripTrailingSlashes p) = stripTrailingSlashes p"
proof -
  let ?q = "stripTrailingSlashes p"
  have "length ?q \<le> 1 \<or> ?q ! (length ?q - 1) \<noteq> CHR ''/''"
    using strip_shape [of p] by (cases "?q = []") (auto simp: last_conv_nth)
  then have "strip_loop ?q (length ?q) = length ?q" by (rule strip_loop_id)
  then show ?thesis by (simp add: strip_eq_take [of ?q])
qed

lemma pathHasPrefix_iff:
  "pathHasPrefix p q \<longleftrightarrow> (\<exists>t. p = q @ t \<and> (t = [] \<or> (\<exists>t'. t = CHR ''/'' # t')))"
proof
  assume h: "pathHasPrefix p q"
  then obtain t where t: "p = q @ t" by (auto simp: pathHasPrefix_def starts_with_iff)
  with h show "\<exists>t. p = q @ t \<and> (t = [] \<or> (\<exists>t'. t = CHR ''/'' # t'))"
    by (cases t) (auto simp: pathHasPrefix_def nth_append)
qed (auto simp: pathHasPrefix_def nth_append)

text \<open>
  Stripping a root's trailing slashes loses no path: whatever was under the root is under the
  stripped root, unless the root is nothing but slashes.
\<close>

lemma strip_keeps_under:
  assumes "pathHasPrefix p r" and "stripTrailingSlashes r \<noteq> ''/''"
  shows "pathHasPrefix p (stripTrailingSlashes r)"
proof -
  let ?e = "strip_loop r (length r)"
  obtain t where t: "p = r @ t" "t = [] \<or> (\<exists>t'. t = CHR ''/'' # t')"
    using assms(1) by (auto simp: pathHasPrefix_iff)
  have r: "r = stripTrailingSlashes r @ drop ?e r" by (simp add: strip_eq_take)
  show ?thesis
  proof (cases "drop ?e r")
    case Nil
    then have "stripTrailingSlashes r = r" by (simp add: strip_eq_take)
    with assms(1) show ?thesis by simp
  next
    case (Cons c cs)
    then have e: "?e < length r" and c: "c = r ! ?e"
      by (metis drop_all leI list.discI) (metis Cons drop_all hd_drop_conv_nth leI list.discI list.sel(1))
    have "c = CHR ''/''" using strip_loop_slashes [of r "length r" ?e] e c by simp
    then have "p = stripTrailingSlashes r @ CHR ''/'' # (cs @ t)"
      using t(1) r Cons by (metis append.assoc append_Cons)
    then show ?thesis by (auto simp: pathHasPrefix_iff)
  qed
qed

section \<open>What a token says of a path\<close>

lemma replace_temp_suffix_dollar [simp]:
  "replace_temp_suffix (CHR ''$'' # s) = CHR ''$'' # replace_temp_suffix s"
  by (simp add: replace_temp_suffix.simps temp_suffix_at_def)

lemma replace_hashes_dollar [simp]: "replace_hashes (CHR ''$'' # s) = CHR ''$'' # replace_hashes s"
  by (simp add: replace_hashes.simps is_hash_char_def is_alnum_def is_digit_def is_upper_def
      is_lower_def less_eq_char_def)

lemma replace_yarn_temp_dollar: "\<exists>t. replace_yarn_temp (CHR ''$'' # s) = CHR ''$'' # t"
  by (auto simp: replace_yarn_temp_def Let_def)

lemma collapse_dollar: "\<exists>t. collapseUnstable (CHR ''$'' # s) = CHR ''$'' # t"
proof -
  obtain t where "replace_yarn_temp (CHR ''$'' # replace_temp_suffix s) = CHR ''$'' # t"
    using replace_yarn_temp_dollar by blast
  then show ?thesis by (simp add: collapseUnstable_def)
qed

lemma token_prefixes_cases:
  assumes "(q, t) \<in> set (token_prefixes roots d)"
  obtains "t = ''$PKG''" "d = Some q" "q \<noteq> []"
    | "t = ''$NODE_MODULES''" "q = r_nodeModules roots"
    | "t = ''$REPO''" "q = r_repo roots"
    | "t = ''$CACHE''" "q = r_cache roots"
    | "t = ''$HOME''" "q = r_home roots"
    | "t = ''$TMPDIR''" "q = r_tmp roots \<or> r_tmpLegacy roots = Some q"
  using assms by (auto simp: token_prefixes_def split: option.splits if_splits)

lemma token_dollar: "(q, t) \<in> set (token_prefixes roots d) \<Longrightarrow> \<exists>u. t = CHR ''$'' # u"
  by (erule token_prefixes_cases) simp_all

lemma token_result_dollar:
  assumes "(q, t) \<in> set (token_prefixes roots d)"
  shows "\<exists>u. token_result p q t = CHR ''$'' # u"
  using token_dollar [OF assms] collapse_dollar by (auto simp: token_result_def Let_def)

lemma tokenize_relative [simp]: "\<not> starts_with p ''/'' \<Longrightarrow> tokenize p roots d = p"
  by (simp add: tokenize_def)

lemma tokenize_cases:
  assumes "starts_with p ''/''"
  obtains (unmatched) "tokenize p roots d = p"
      "\<forall>(q, t) \<in> set (token_prefixes roots d). \<not> pathHasPrefix p q"
    | (root) q t where "tokenize p roots d = token_result p q t"
      "(q, t) \<in> set (token_prefixes roots d)" "pathHasPrefix p q"
      "\<forall>(q', t') \<in> set (token_prefixes roots d). pathHasPrefix p q' \<longrightarrow> length q' \<le> length q"
proof (cases "find (\<lambda>(q, _). pathHasPrefix p q) (sorted_prefixes roots d)")
  case None
  then have "\<forall>(q, t) \<in> set (token_prefixes roots d). \<not> pathHasPrefix p q"
    by (auto simp: find_None_iff sorted_prefixes_def)
  with None assms unmatched show ?thesis by (simp add: tokenize_def)
next
  case (Some x)
  obtain q t where x: "x = (q, t)" by (cases x)
  from find_sort_key_least [OF Some [unfolded sorted_prefixes_def]]
  have "(q, t) \<in> set (token_prefixes roots d)" "pathHasPrefix p q"
    "\<forall>(q', t') \<in> set (token_prefixes roots d). pathHasPrefix p q' \<longrightarrow> length q' \<le> length q"
    unfolding x by auto
  moreover have "tokenize p roots d = token_result p q t"
    using Some assms x by (simp add: tokenize_def)
  ultimately show ?thesis using root by blast
qed

text \<open>Tokenizing is idempotent: a token is never itself rewritten, so a path that has already
  been canonicalised comes out unchanged.\<close>

theorem tokenize_idempotent: "tokenize (tokenize p roots d) roots d = tokenize p roots d"
proof (cases "starts_with p ''/''")
  case True
  then show ?thesis
  proof (cases rule: tokenize_cases [where roots = roots and d = d])
    case (root q t)
    then obtain u where "tokenize p roots d = CHR ''$'' # u"
      using token_result_dollar by metis
    then show ?thesis by simp
  qed simp
qed simp

text \<open>The longest registered root wins, and a root only matches whole path segments: the token
  of a path is the token of a root of greatest length among the roots it lies under, followed by
  the rest of the path; a path under no root is unchanged.\<close>

theorem tokenize_longest_root:
  assumes "starts_with p ''/''"
  shows "(\<exists>q t. (q, t) \<in> set (token_prefixes roots d) \<and> tokenize p roots d = token_result p q t \<and>
            (\<exists>rest. p = q @ rest \<and> (rest = [] \<or> starts_with rest ''/'')) \<and>
            (\<forall>(q', t') \<in> set (token_prefixes roots d). pathHasPrefix p q' \<longrightarrow> length q' \<le> length q)) \<or>
         (tokenize p roots d = p \<and> (\<forall>(q, t) \<in> set (token_prefixes roots d). \<not> pathHasPrefix p q))"
  using assms
proof (cases rule: tokenize_cases [where roots = roots and d = d])
  case (root q t)
  moreover from root(3) have "\<exists>rest. p = q @ rest \<and> (rest = [] \<or> starts_with rest ''/'')"
    by (auto simp: pathHasPrefix_iff)
  ultimately show ?thesis by blast
qed simp

definition sample_roots :: tokenize_roots where
  "sample_roots =
     \<lparr>r_repo = ''/work'', r_nodeModules = ''/work/node_modules'', r_home = ''/root'',
      r_tmp = ''/tmp'', r_tmpLegacy = None, r_cache = ''/root/.npm''\<rparr>"

theorem tokenize_longest_root_witness:
  "starts_with ''/worker/x'' ''/'' \<and> tokenize ''/worker/x'' sample_roots None = ''/worker/x''"
  using tokenize_longest_root [of "''/worker/x''" sample_roots None]
  by (auto simp: sample_roots_def token_prefixes_def tokenize_def sorted_prefixes_def pathHasPrefix_def)

section \<open>Tokens lose no signal\<close>

text \<open>A path whose token is not collapsed: one under neither the cache nor a temporary directory.\<close>

definition stable_path :: "tokenize_roots \<Rightarrow> string \<Rightarrow> bool" where
  "stable_path roots p =
     (\<not> pathHasPrefix p (r_cache roots) \<and> \<not> pathHasPrefix p (r_tmp roots) \<and>
      (case r_tmpLegacy roots of None \<Rightarrow> True | Some t \<Rightarrow> \<not> pathHasPrefix p t))"

lemma stable_token:
  assumes "stable_path roots p" "(q, t) \<in> set (token_prefixes roots d)" "pathHasPrefix p q"
  shows "t \<in> {''$PKG'', ''$NODE_MODULES'', ''$REPO'', ''$HOME''}"
  using assms(2) assms(1,3) by (cases rule: token_prefixes_cases) (auto simp: stable_path_def)

lemma token_root:
  "(q, ''$PKG'') \<in> set (token_prefixes roots d) \<Longrightarrow> d = Some q"
  "(q, ''$NODE_MODULES'') \<in> set (token_prefixes roots d) \<Longrightarrow> q = r_nodeModules roots"
  "(q, ''$REPO'') \<in> set (token_prefixes roots d) \<Longrightarrow> q = r_repo roots"
  "(q, ''$HOME'') \<in> set (token_prefixes roots d) \<Longrightarrow> q = r_home roots"
  by (erule token_prefixes_cases, simp_all)+

lemma stable_token_unique:
  assumes "(q, t) \<in> set (token_prefixes roots d)" "(q', t) \<in> set (token_prefixes roots d)"
    "t \<in> {''$PKG'', ''$NODE_MODULES'', ''$REPO'', ''$HOME''}"
  shows "q = q'"
proof -
  from assms(3) consider "t = ''$PKG''" | "t = ''$NODE_MODULES''" | "t = ''$REPO''" | "t = ''$HOME''"
    by blast
  then show ?thesis
  proof cases
    case 1
    have "d = Some q" by (rule token_root(1)) (use assms(1) 1 in simp)
    moreover have "d = Some q'" by (rule token_root(1)) (use assms(2) 1 in simp)
    ultimately show ?thesis by simp
  next
    case 2
    then show ?thesis using assms(1,2) token_root(2) by metis
  next
    case 3
    then show ?thesis using assms(1,2) token_root(3) by metis
  next
    case 4
    then show ?thesis using assms(1,2) token_root(4) by metis
  qed
qed

lemma stable_token_no_slash:
  "t \<in> {''$PKG'', ''$NODE_MODULES'', ''$REPO'', ''$HOME''} \<Longrightarrow> CHR ''/'' \<notin> set t"
  by auto

lemma segment_split_unique:
  assumes "t @ u = t' @ u'" "CHR ''/'' \<notin> set t" "CHR ''/'' \<notin> set t'"
    and "u = [] \<or> (\<exists>v. u = CHR ''/'' # v)" "u' = [] \<or> (\<exists>v. u' = CHR ''/'' # v)"
  shows "t = t' \<and> u = u'"
proof -
  have "takeWhile (\<lambda>c. c \<noteq> CHR ''/'') (t @ u) = t"
    using assms(2,4) by (subst takeWhile_append2) auto
  moreover have "takeWhile (\<lambda>c. c \<noteq> CHR ''/'') (t' @ u') = t'"
    using assms(3,5) by (subst takeWhile_append2) auto
  ultimately have "t = t'" using assms(1) by simp
  with assms(1) show ?thesis by simp
qed

definition cut_slash :: "string \<Rightarrow> string" where
  "cut_slash u = (if u = ''/'' then [] else u)"

lemma cut_slash_segment:
  "u = [] \<or> (\<exists>v. u = CHR ''/'' # v) \<Longrightarrow> cut_slash u = [] \<or> (\<exists>v. cut_slash u = CHR ''/'' # v)"
  by (auto simp: cut_slash_def)

lemma cut_slash_eqD: "cut_slash u = cut_slash u' \<Longrightarrow> u = u' \<or> u = u' @ ''/'' \<or> u' = u @ ''/''"
  by (auto simp: cut_slash_def split: if_splits)

lemma token_result_stable:
  "t \<in> {''$PKG'', ''$NODE_MODULES'', ''$REPO'', ''$HOME''} \<Longrightarrow>
   token_result (q @ u) q t = t @ cut_slash u"
  by (auto simp: token_result_def cut_slash_def Let_def)

lemma tokenize_stable_form:
  assumes "starts_with p ''/''" "stable_path roots p"
  obtains "tokenize p roots d = p"
    | q t u where "(q, t) \<in> set (token_prefixes roots d)" "p = q @ u"
      "t \<in> {''$PKG'', ''$NODE_MODULES'', ''$REPO'', ''$HOME''}"
      "u = [] \<or> (\<exists>v. u = CHR ''/'' # v)" "tokenize p roots d = t @ cut_slash u"
  using assms(1)
proof (cases rule: tokenize_cases [where roots = roots and d = d])
  case unmatched
  with that(1) show ?thesis by simp
next
  case (root q t)
  from root(3) obtain u where u: "p = q @ u" "u = [] \<or> (\<exists>v. u = CHR ''/'' # v)"
    by (auto simp: pathHasPrefix_iff)
  have t: "t \<in> {''$PKG'', ''$NODE_MODULES'', ''$REPO'', ''$HOME''}"
    using stable_token [OF assms(2) root(2,3)] .
  have "tokenize p roots d = t @ cut_slash u"
    using root(1) unfolding u(1) token_result_stable [OF t] .
  with that(2) root(2) u t show ?thesis by blast
qed

lemma tokenize_abs_head:
  assumes "starts_with p ''/''" "tokenize p roots d = tokenize p' roots d" "tokenize p roots d = p"
    "tokenize p' roots d = t @ u" "t \<in> {''$PKG'', ''$NODE_MODULES'', ''$REPO'', ''$HOME''}"
  shows False
proof -
  obtain v where "p = CHR ''/'' # v" using assms(1) by (auto simp: starts_with_iff)
  with assms show False by auto
qed

text \<open>Outside the cache and the temporary directories a token identifies the path: two absolute
  paths with the same token differ at most by a trailing slash, so no two files of a package, of
  the repository or of the home directory are merged into one lock entry.\<close>

theorem tokenize_injective:
  assumes "starts_with p ''/''" "starts_with p' ''/''"
    and "stable_path roots p" "stable_path roots p'"
    and eq: "tokenize p roots d = tokenize p' roots d"
  shows "p = p' \<or> p = p' @ ''/'' \<or> p' = p @ ''/''"
  using assms(1,3)
proof (cases rule: tokenize_stable_form [where d = d])
  case 1
  note p = this
  show ?thesis using assms(2,4)
  proof (cases rule: tokenize_stable_form [where d = d])
    case 1
    with p eq show ?thesis by simp
  next
    case (2 q t u)
    with p eq assms(1) tokenize_abs_head show ?thesis by blast
  qed
next
  case (2 q t u)
  note p = this
  show ?thesis using assms(2,4)
  proof (cases rule: tokenize_stable_form [where d = d])
    case 1
    with p eq assms(2) tokenize_abs_head show ?thesis by metis
  next
    case (2 q' t' u')
    have "t @ cut_slash u = t' @ cut_slash u'" using eq p(5) 2(5) by simp
    then have tu: "t = t'" "cut_slash u = cut_slash u'"
      using segment_split_unique [of t "cut_slash u" t' "cut_slash u'"]
        stable_token_no_slash p(3) 2(3) cut_slash_segment p(4) 2(4) by blast+
    then have "q = q'" using stable_token_unique p(1,3) 2(1) by blast
    with cut_slash_eqD [OF tu(2)] p(2) 2(2) show ?thesis by auto
  qed
qed

theorem tokenize_injective_witness:
  "stable_path sample_roots ''/work/'' \<and> stable_path sample_roots ''/work'' \<and>
   tokenize ''/work/'' sample_roots None = tokenize ''/work'' sample_roots None \<and>
   ''/work/'' = ''/work'' @ ''/''"
proof -
  have s: "stable_path sample_roots ''/work/''" "stable_path sample_roots ''/work''"
    by (simp_all add: stable_path_def sample_roots_def pathHasPrefix_def)
  have t: "tokenize ''/work/'' sample_roots None = tokenize ''/work'' sample_roots None"
    by (simp add: tokenize_def sample_roots_def token_prefixes_def sorted_prefixes_def
        pathHasPrefix_def token_result_def)
  have "''/work/'' = ''/work'' \<or> ''/work/'' = ''/work'' @ ''/'' \<or> ''/work'' = ''/work/'' @ ''/''"
    by (rule tokenize_injective [OF _ _ s t]) simp_all
  with s t show ?thesis by simp
qed

section \<open>Facts for the clients\<close>

lemma canonicalize_roots_idem [simp]:
  "canonicalizeTokenizeRoots (canonicalizeTokenizeRoots r) = canonicalizeTokenizeRoots r"
  by (cases r) (simp add: canonicalizeTokenizeRoots_def option.map_comp comp_def)

lemma private_prefixed:
  "(f, t) \<in> set private_prefixes \<Longrightarrow> f = ''/private'' @ t"
  by (auto simp: private_prefixes_def)

lemma canonicalizePrivateRealpath_form:
  "canonicalizePrivateRealpath p = p \<or> p = ''/private'' @ canonicalizePrivateRealpath p"
proof (cases "find (\<lambda>(from, _). p = from \<or> starts_with p (from @ ''/'')) private_prefixes")
  case (Some x)
  obtain f t where x: "x = (f, t)" by (cases x)
  from find_SomeD [OF Some] x
  have mem: "(f, t) \<in> set private_prefixes" and "p = f \<or> starts_with p (f @ ''/'')"
    by simp_all
  then have "p = f @ drop (length f) p" by (auto simp: starts_with_iff)
  with private_prefixed [OF mem] Some x show ?thesis
    by (simp add: canonicalizePrivateRealpath_def)
qed (simp add: canonicalizePrivateRealpath_def)

end
