(* ===== verification/ProtectedPaths.thy ===== *)
theory ProtectedPaths
  imports Tokenize
begin

text \<open>
  The protected-paths policy between attribution and emission: \<^verbatim>\<open>src/guest/protected-paths.ts\<close>.
  The glob matcher \<^verbatim>\<open>micromatch.isMatch\<close> is a third-party package and a parameter (\<open>glob\<close>) of the
  definitions that use it; no property needs a law of it.
\<close>

datatype host_os = Linux | Darwin

record matcher =
  m_patterns :: "string list"
  m_roots :: tokenize_roots
  m_os :: host_os

definition normalizePattern :: "string \<Rightarrow> string" where
  "normalizePattern p =
     (if p = ''~'' then ''$HOME''
      else if starts_with p ''~/'' then ''$HOME/'' @ drop 2 p
      else p)"

definition newProtectedPathsMatcher ::
  "string list \<Rightarrow> tokenize_roots \<Rightarrow> host_os option \<Rightarrow> matcher" where
  "newProtectedPathsMatcher patterns roots os =
     \<lparr>m_patterns = map normalizePattern patterns,
      m_roots = canonicalizeTokenizeRoots roots,
      m_os = (case os of None \<Rightarrow> Linux | Some x \<Rightarrow> x)\<rparr>"

definition matcher_canon :: "matcher \<Rightarrow> string \<Rightarrow> string" where
  "matcher_canon m rawPath =
     (if m_os m = Darwin then canonicalizePrivateRealpath rawPath else rawPath)"

definition isProtected :: "(string \<Rightarrow> string list \<Rightarrow> bool) \<Rightarrow> matcher \<Rightarrow> string \<Rightarrow> bool" where
  "isProtected glob m rawPath =
     (if m_patterns m = [] then False
      else glob (tokenize (matcher_canon m rawPath) (m_roots m) None) (m_patterns m))"

definition isUnderNodeModules :: "matcher \<Rightarrow> string \<Rightarrow> bool" where
  "isUnderNodeModules m rawPath =
     (let nm = r_nodeModules (m_roots m)
      in if nm = [] then False
         else (let p = matcher_canon m rawPath in p = nm \<or> starts_with p (nm @ ''/'')))"

definition stripTransport :: "fs_event \<Rightarrow> fs_event" where
  "stripTransport e = e\<lparr>fs_errno := None, fs_dirfd := None, fs_retFd := None\<rparr>"

text \<open>Replacing the event of a read by a read and of a write by a write (\<^verbatim>\<open>{ ...ev, raw }\<close>).\<close>

fun with_fs :: "raw_event \<Rightarrow> fs_event \<Rightarrow> raw_event" where
  "with_fs (ReadEv _) e = ReadEv e"
| "with_fs (WriteEv _) e = WriteEv e"
| "with_fs r e = r"

definition applyProtectedPathsPolicy ::
  "(string \<Rightarrow> string list \<Rightarrow> bool) \<Rightarrow> matcher \<Rightarrow> attributed_event \<Rightarrow> attributed_event option" where
  "applyProtectedPathsPolicy glob m ev =
     (case fs_of (ev_raw ev) of
        None \<Rightarrow> Some ev
      | Some e \<Rightarrow>
          if is_read (ev_raw ev) \<and> isUnderNodeModules m (fs_path e) \<and> \<not> isProtected glob m (fs_path e)
          then None
          else (case fs_errno e of
                  None \<Rightarrow>
                    if fs_dirfd e = None \<and> fs_retFd e = None then Some ev
                    else Some (ev\<lparr>ev_raw := with_fs (ev_raw ev) (stripTransport e)\<rparr>)
                | Some err \<Rightarrow>
                    if isProtected glob m (fs_path e)
                    then Some (ev\<lparr>ev_raw := with_fs (ev_raw ev) (stripTransport (e\<lparr>fs_hidden := True\<rparr>))\<rparr>)
                    else if err = ENOENT then None
                    else Some (ev\<lparr>ev_raw := with_fs (ev_raw ev) (stripTransport e)\<rparr>)))"

section \<open>What the policy does\<close>

lemma fs_of_with_fs [simp]: "fs_of r \<noteq> None \<Longrightarrow> fs_of (with_fs r e) = Some e"
  by (cases r) simp_all

lemma is_read_with_fs [simp]: "is_read (with_fs r e) = is_read r"
  by (cases r) simp_all

lemma with_fs_same: "fs_of r = Some e \<Longrightarrow> with_fs r e = r"
  by (cases r) simp_all

lemma strip_transport_id:
  "fs_errno e = None \<Longrightarrow> fs_dirfd e = None \<Longrightarrow> fs_retFd e = None \<Longrightarrow> stripTransport e = e"
  by (cases e) (simp add: stripTransport_def)

definition policy_drops :: "(string \<Rightarrow> string list \<Rightarrow> bool) \<Rightarrow> matcher \<Rightarrow> raw_event \<Rightarrow> fs_event \<Rightarrow> bool" where
  "policy_drops glob m r e \<longleftrightarrow> \<not> isProtected glob m (fs_path e) \<and>
     (is_read r \<and> isUnderNodeModules m (fs_path e) \<or> fs_errno e = Some ENOENT)"

definition policy_event :: "(string \<Rightarrow> string list \<Rightarrow> bool) \<Rightarrow> matcher \<Rightarrow> fs_event \<Rightarrow> fs_event" where
  "policy_event glob m e =
     stripTransport (e\<lparr>fs_hidden := fs_hidden e \<or> fs_errno e \<noteq> None \<and> isProtected glob m (fs_path e)\<rparr>)"

text \<open>C38: the policy on file events, exactly: an unprotected event is dropped when it is a read below
  node_modules or a failed probe of a file that does not exist, and nothing else is ever dropped;
  every other event keeps its path, process, time and root verdict, loses the transport fields,
  and is marked hidden exactly when it was already or is a failed access to a protected path.\<close>

theorem policy_exact:
  assumes "fs_of (ev_raw ev) = Some e"
  shows "applyProtectedPathsPolicy glob m ev =
     (if policy_drops glob m (ev_raw ev) e then None
      else Some (ev\<lparr>ev_raw := with_fs (ev_raw ev) (policy_event glob m e)\<rparr>))"
proof -
  have id: "policy_event glob m e = e"
    if "fs_errno e = None" "fs_dirfd e = None" "fs_retFd e = None"
    using that by (cases e) (simp add: policy_event_def stripTransport_def)
  have h: "e\<lparr>fs_hidden := fs_hidden e\<rparr> = e" by (cases e) simp
  show ?thesis
    using assms id h
    by (auto simp: applyProtectedPathsPolicy_def policy_drops_def policy_event_def with_fs_same
        split: option.splits)
qed

definition sample_probe :: attributed_event where
  "sample_probe =
     \<lparr>ev_raw = ReadEv \<lparr>fs_path = ''/root/.npmrc'', fs_pid = 7, fs_ts = 0, fs_hidden = False,
                       fs_errno = Some ENOENT, fs_dirfd = None, fs_retFd = None,
                       fs_root_anchored = None\<rparr>,
      ev_pkg = ''dep@1'', ev_lifecycle = Install\<rparr>"

definition sample_glob :: "string \<Rightarrow> string list \<Rightarrow> bool" where
  "sample_glob s ps = (s \<in> set ps)"

definition sample_matcher :: matcher where
  "sample_matcher = newProtectedPathsMatcher [''~/.npmrc''] sample_roots None"

lemma sample_protected: "isProtected sample_glob sample_matcher ''/root/.npmrc''"
  by (simp add: isProtected_def sample_matcher_def newProtectedPathsMatcher_def normalizePattern_def
      matcher_canon_def sample_roots_def canonicalizeTokenizeRoots_def stripTrailingSlashes_def
      tokenize_def token_prefixes_def sorted_prefixes_def pathHasPrefix_def token_result_def
      sample_glob_def Let_def eval_nat_numeral)

theorem policy_exact_witness:
  "\<exists>ev'. applyProtectedPathsPolicy sample_glob sample_matcher sample_probe = Some ev' \<and>
     map_option fs_hidden (fs_of (ev_raw ev')) = Some True"
proof -
  obtain e where e: "fs_of (ev_raw sample_probe) = Some e" "fs_path e = ''/root/.npmrc''"
    "fs_errno e = Some ENOENT"
    by (simp add: sample_probe_def)
  show ?thesis
    using policy_exact [OF e(1), of sample_glob sample_matcher] sample_protected e
    by (simp add: policy_drops_def policy_event_def stripTransport_def)
qed

text \<open>Applying the policy again changes nothing: what it emitted passes through unchanged.\<close>

theorem policy_idempotent:
  assumes "applyProtectedPathsPolicy glob m ev = Some ev'"
  shows "applyProtectedPathsPolicy glob m ev' = Some ev'"
proof (cases "fs_of (ev_raw ev)")
  case None
  with assms show ?thesis by (simp add: applyProtectedPathsPolicy_def)
next
  case (Some e)
  let ?e = "policy_event glob m e"
  from assms have nd: "\<not> policy_drops glob m (ev_raw ev) e"
    and ev': "ev' = ev\<lparr>ev_raw := with_fs (ev_raw ev) ?e\<rparr>"
    unfolding policy_exact [OF Some] by (auto split: if_splits)
  have fs: "fs_of (ev_raw ev') = Some ?e" using Some ev' by simp
  have plain: "fs_errno ?e = None" "fs_path ?e = fs_path e" "policy_event glob m ?e = ?e"
    by (cases e; simp add: policy_event_def stripTransport_def)+
  have "\<not> policy_drops glob m (ev_raw ev') ?e"
    using nd plain ev' by (auto simp: policy_drops_def)
  then show ?thesis
    unfolding policy_exact [OF fs] using plain(3) fs by (simp add: with_fs_same)
qed

theorem policy_idempotent_witness:
  "\<exists>ev'. applyProtectedPathsPolicy sample_glob sample_matcher sample_probe = Some ev' \<and>
     applyProtectedPathsPolicy sample_glob sample_matcher ev' = Some ev'"
proof -
  have "fs_of (ev_raw sample_probe) \<noteq> None" by (simp add: sample_probe_def)
  then obtain ev' where "applyProtectedPathsPolicy sample_glob sample_matcher sample_probe = Some ev'"
    using sample_protected
    by (auto simp: applyProtectedPathsPolicy_def sample_probe_def split: option.splits)
  with policy_idempotent show ?thesis by blast
qed

end
