(* ===== verification/Normalize.thy ===== *)
theory Normalize
  imports ProtectedPaths
begin

text \<open>
  From attributed events to the blocks of the lock: \<^verbatim>\<open>src/lock/normalize.ts\<close>. The loop over the
  events is \<^verbatim>\<open>rfold\<close> over \<open>normalize_step\<close>; the body's decision (skip, throw, or record these
  entries) is \<open>event_verdict\<close>, and the entries of the \<^verbatim>\<open>switch\<close> are \<open>event_entries\<close>.
\<close>

section \<open>Context\<close>

record normalize_context =
  nc_roots :: tokenize_roots
  nc_pkgDirs :: "string \<Rightarrow> string option"
  nc_rootPkgKeys :: "string set option"
  nc_os :: "host_os option"
  nc_installMode :: "bool option"
  nc_injectedEnvNames :: "string set option"

datatype normalize_error = PkgDirsMissing string string string

definition NORMALIZABLE_BINARIES :: "string list" where
  "NORMALIZABLE_BINARIES =
     [''node'', ''npm'', ''pnpm'', ''yarn'', ''corepack'', ''sh'', ''bash'', ''busybox'']"

definition SYSTEM_NOISE_PREFIXES :: "string list" where
  "SYSTEM_NOISE_PREFIXES =
     [''/usr/lib/'', ''/usr/share/'', ''/usr/local/lib/'', ''/lib/'', ''/lib64/'',
      ''/etc/ld.so.'', ''/etc/nsswitch.conf'', ''/etc/localtime'', ''/etc/resolv.conf'',
      ''/etc/host.conf'', ''/etc/hosts'', ''/proc/'', ''/sys/'', ''/dev/'', ''/opt'']"

definition SYSTEM_NOISE_PREFIXES_DARWIN :: "string list" where
  "SYSTEM_NOISE_PREFIXES_DARWIN =
     [''/System/'', ''/Library/'', ''/Library/Caches/com.apple.dyld/'', ''/var/db/dyld/'',
      ''/System/Library/dyld/'']"

definition DYLD_SHARED_CACHE_BASENAME :: string where
  "DYLD_SHARED_CACHE_BASENAME = ''dyld_shared_cache_''"

definition PROVISIONED_NODE_CACHE_SEGMENT :: string where
  "PROVISIONED_NODE_CACHE_SEGMENT = ''/script-jail-cache/''"

section \<open>Paths\<close>

definition isUnderRoot :: "string \<Rightarrow> string \<Rightarrow> bool" where
  "isUnderRoot path root =
     (starts_with path root \<and> (length path = length root \<or> path ! length root = CHR ''/''))"

definition isStrictAncestorDir :: "string \<Rightarrow> string \<Rightarrow> bool" where
  "isStrictAncestorDir dir repo =
     (let d = stripTrailingSlashes dir; r = stripTrailingSlashes repo
      in length d < length r \<and> isUnderRoot r d)"

definition isSystemNoise :: "raw_event \<Rightarrow> string option \<Rightarrow> host_os \<Rightarrow> tokenize_roots \<Rightarrow> bool" where
  "isSystemNoise r fsPath os roots =
     (case fs_of r of
        None \<Rightarrow> False
      | Some e \<Rightarrow>
          if fs_hidden e then False
          else (let p = (case fsPath of Some q \<Rightarrow> q | None \<Rightarrow> fs_path e)
                in if isUnderRoot p (r_repo roots) \<or> isUnderRoot p (r_nodeModules roots) then False
                   else if list_ex (\<lambda>prefix. starts_with p prefix) SYSTEM_NOISE_PREFIXES then True
                   else if os = Darwin then
                     list_ex (\<lambda>prefix. starts_with p prefix) SYSTEM_NOISE_PREFIXES_DARWIN
                     \<or> starts_with (basename p) DYLD_SHARED_CACHE_BASENAME
                     \<or> js_includes p PROVISIONED_NODE_CACHE_SEGMENT
                   else False))"

text \<open>\<^verbatim>\<open>fsPath\<close>, the path of a file event after the macOS canonicalisation.\<close>

definition event_fs_path :: "host_os \<Rightarrow> raw_event \<Rightarrow> string option" where
  "event_fs_path os r =
     map_option (\<lambda>e. if os = Darwin then canonicalizePrivateRealpath (fs_path e) else fs_path e)
       (fs_of r)"

text \<open>
  \<^verbatim>\<open>NPM_DEBUG_LOG_BASENAME\<close>: a \<^verbatim>\<open>0\<close> of the template stands for a digit, every other character for
  itself; the result is the captured number. The expression is not anchored in front, so the
  leftmost position that matches up to the end of the string counts.
\<close>

definition debug_log_template :: string where
  "debug_log_template = ''0000-00-00T00_00_00_000Z-debug-''"

definition debug_log_at :: "string \<Rightarrow> string option" where
  "debug_log_at s =
     (let n = length debug_log_template; ds = takeWhile is_digit (drop n s)
      in if n \<le> length s \<and>
            list_all2 (\<lambda>t c. if t = CHR ''0'' then is_digit c else c = t) debug_log_template (take n s) \<and>
            ds \<noteq> [] \<and> drop (n + length ds) s = ''.log''
         then Some ds else None)"

definition isNpmDebugLogDir :: "string \<Rightarrow> bool" where
  "isNpmDebugLogDir p =
     (ends_with p ''/.npm/_logs/'' \<or> ends_with p ''$HOME/.npm/_logs/'' \<or> ends_with p ''$CACHE/_logs/'')"

definition normalizeVolatilePath :: "string \<Rightarrow> string" where
  "normalizeVolatilePath path =
     (case find (\<lambda>i. debug_log_at (drop i path) \<noteq> None) [0 ..< length path] of
        None \<Rightarrow> path
      | Some i \<Rightarrow>
          (let p = take i path
           in if \<not> isNpmDebugLogDir p then path
              else (case debug_log_at (drop i path) of
                      Some n \<Rightarrow> p @ ''<timestamp>-debug-'' @ n @ ''.log''
                    | None \<Rightarrow> path)))"

section \<open>Root claims\<close>

definition claimsRoot :: "normalize_context \<Rightarrow> string \<Rightarrow> bool" where
  "claimsRoot ctx pkg = (case nc_rootPkgKeys ctx of None \<Rightarrow> False | Some ks \<Rightarrow> pkg \<in> ks)"

text \<open>The verdict field of the kinds that carry one.\<close>

fun root_anchored_field :: "raw_event \<Rightarrow> bool option option" where
  "root_anchored_field (ReadEv e) = Some (fs_root_anchored e)"
| "root_anchored_field (WriteEv e) = Some (fs_root_anchored e)"
| "root_anchored_field (EnvReadEv e) = Some (er_root_anchored e)"
| "root_anchored_field (SpawnEv e) = Some (sp_root_anchored e)"
| "root_anchored_field (ConnectEv e) = Some (nw_root_anchored e)"
| "root_anchored_field (EnvTamperEv e) = Some (et_root_anchored e)"
| "root_anchored_field (DlopenEv _) = None"
| "root_anchored_field (ExecEv _) = None"

definition isForgedRoot :: "bool \<Rightarrow> raw_event \<Rightarrow> bool" where
  "isForgedRoot claims r =
     (claims \<and> (case root_anchored_field r of None \<Rightarrow> False | Some v \<Rightarrow> v \<noteq> Some True))"

definition install_mode_drops :: "normalize_context \<Rightarrow> attributed_event \<Rightarrow> bool" where
  "install_mode_drops ctx ev =
     (nc_installMode ctx = Some True \<and> claimsRoot ctx (ev_pkg ev) \<and>
      \<not> isForgedRoot (claimsRoot ctx (ev_pkg ev)) (ev_raw ev) \<and>
      (case ev_raw ev of
         EnvReadEv e \<Rightarrow> (case nc_injectedEnvNames ctx of None \<Rightarrow> False | Some ns \<Rightarrow> er_name e \<in> ns)
       | ReadEv e \<Rightarrow>
           \<not> fs_hidden e \<and>
           isStrictAncestorDir
             (case event_fs_path (case nc_os ctx of None \<Rightarrow> Linux | Some os \<Rightarrow> os) (ev_raw ev) of
                Some p \<Rightarrow> p | None \<Rightarrow> fs_path e)
             (r_repo (canonicalizeTokenizeRoots (nc_roots ctx)))
       | _ \<Rightarrow> False))"

section \<open>The entries of one event\<close>

definition hidden_tag :: "bool \<Rightarrow> string" where
  "hidden_tag h = (if h then ''<HIDDEN> '' else [])"

definition spawn_arg :: "tokenize_roots \<Rightarrow> string option \<Rightarrow> nat \<Rightarrow> string \<Rightarrow> string" where
  "spawn_arg roots pkgDir i a =
     (if \<not> starts_with a ''/'' then a
      else (let t = tokenize a roots pkgDir
            in if i = 0 \<and> starts_with t ''/'' \<and> basename t \<in> set NORMALIZABLE_BINARIES
               then basename t else t))"

definition spawn_cmd :: "tokenize_roots \<Rightarrow> string option \<Rightarrow> string list \<Rightarrow> string" where
  "spawn_cmd roots pkgDir argv =
     join '' '' (map (\<lambda>(i, a). spawn_arg roots pkgDir i a) (enumerate 0 argv))"

fun spawn_result_upper :: "spawn_result \<Rightarrow> string" where
  "spawn_result_upper SpawnOk = ''OK''"
| "spawn_result_upper SpawnEnoent = ''ENOENT''"
| "spawn_result_upper SpawnEacces = ''EACCES''"

text \<open>\<^verbatim>\<open>argv0\<close> when it is present and not empty, else \<^verbatim>\<open>prog\<close>; only an absolute one is tokenized.\<close>

definition exec_ident :: "tokenize_roots \<Rightarrow> string option \<Rightarrow> exec_event \<Rightarrow> string" where
  "exec_ident roots pkgDir e =
     (let ident = (case ex_argv0 e of
                     Some a \<Rightarrow> if a \<noteq> [] then a else ex_prog e
                   | None \<Rightarrow> ex_prog e)
      in if starts_with ident ''/'' then tokenize ident roots pkgDir else ident)"

definition exec_entries :: "tokenize_roots \<Rightarrow> string option \<Rightarrow> exec_event \<Rightarrow> (block_field \<times> string) list" where
  "exec_entries roots pkgDir e =
     (if ex_envp_alloc_failed e
      then [(FAuditBypass, ''<EXEC_FAIL_OPEN> '' @ tokenize (ex_prog e) roots pkgDir)] else []) @
     (if ex_syscall_bypass e
      then [(FAuditBypass, ''<SYSCALL_EXEC_BYPASS> '' @ exec_ident roots pkgDir e)] else []) @
     (if ex_events_file_forgery e
      then [(FAuditBypass, ''<EVENTS_FILE_FORGERY> '' @ exec_ident roots pkgDir e)] else []) @
     (if ex_unresolved_path e
      then [(FAuditBypass, ''<UNRESOLVED_PATH> '' @ exec_ident roots pkgDir e)] else [])"

definition tamper_entries :: "string \<Rightarrow> env_tamper_event \<Rightarrow> (block_field \<times> string) list" where
  "tamper_entries forgedPrefix e =
     (if et_op e = AuditFdLost then [(FAuditBypass, ''<AUDIT_FD_LOST>'')]
      else [(FEnvTamper,
             forgedPrefix @ ''<REFUSED> '' @ tamper_op_name (et_op e) @
             (case et_name e of Some n \<Rightarrow> '' '' @ n | None \<Rightarrow> []))])"

fun event_entries ::
  "tokenize_roots \<Rightarrow> string option \<Rightarrow> string option \<Rightarrow> string \<Rightarrow> raw_event \<Rightarrow> (block_field \<times> string) list" where
  "event_entries roots pkgDir fsPath forgedPrefix (ReadEv e) =
     (let t = normalizeVolatilePath
                (tokenize (case fsPath of Some p \<Rightarrow> p | None \<Rightarrow> fs_path e) roots pkgDir)
      in if isInsidePkg t then []
         else [(FExternalReads, forgedPrefix @ hidden_tag (fs_hidden e) @ t)])"
| "event_entries roots pkgDir fsPath forgedPrefix (WriteEv e) =
     (let t = normalizeVolatilePath
                (tokenize (case fsPath of Some p \<Rightarrow> p | None \<Rightarrow> fs_path e) roots pkgDir)
      in if isInsidePkg t then []
         else [(FEscapedWrites,
                forgedPrefix @ hidden_tag (fs_hidden e) @
                (if isCrossPackage t then ''<CROSS_PACKAGE> '' else []) @ t)])"
| "event_entries roots pkgDir fsPath forgedPrefix (EnvReadEv e) =
     [(FEnvRead, forgedPrefix @ hidden_tag (er_hidden e) @ er_name e)]"
| "event_entries roots pkgDir fsPath forgedPrefix (SpawnEv e) =
     (let cmd = spawn_cmd roots pkgDir (sp_argv e);
          auditBlind = (if sp_audit_blind e = Some True then ''<AUDIT_BLIND> '' else [])
      in if sp_result e = SpawnOk
         then [(FSpawnAttempts, forgedPrefix @ auditBlind @ cmd)]
         else [(FSpawnBlocked,
                forgedPrefix @ ''<'' @ spawn_result_upper (sp_result e) @ ''> '' @ auditBlind @ cmd)])"
| "event_entries roots pkgDir fsPath forgedPrefix (DlopenEv e) =
     [(FDlopenAttempts, ''<BLOCKED> '' @ tokenize (dl_filename e) roots pkgDir)]"
| "event_entries roots pkgDir fsPath forgedPrefix (ConnectEv e) =
     [(FNetworkAttempts,
       forgedPrefix @ (if nw_result e = ConnBlocked then ''<BLOCKED> '' else []) @
       ''connect '' @ nw_host e @ '':'' @ nat_str (nw_port e))]"
| "event_entries roots pkgDir fsPath forgedPrefix (ExecEv e) = exec_entries roots pkgDir e"
| "event_entries roots pkgDir fsPath forgedPrefix (EnvTamperEv e) = tamper_entries forgedPrefix e"

section \<open>The loop\<close>

datatype event_outcome = Skip | Fail normalize_error | Record "(block_field \<times> string) list"

definition raw_kind :: "raw_event \<Rightarrow> string" where
  "raw_kind r = (if is_read r then ''read'' else ''write'')"

definition event_verdict :: "normalize_context \<Rightarrow> attributed_event \<Rightarrow> event_outcome" where
  "event_verdict ctx ev =
     (let os = (case nc_os ctx of None \<Rightarrow> Linux | Some os \<Rightarrow> os);
          roots = canonicalizeTokenizeRoots (nc_roots ctx);
          r = ev_raw ev;
          fsPath = event_fs_path os r;
          pkgDir = nc_pkgDirs ctx (ev_pkg ev);
          claims = claimsRoot ctx (ev_pkg ev);
          forgedPrefix = (if isForgedRoot claims r then ''<FORGED_ROOT> '' else [])
      in if isSystemNoise r fsPath os roots then Skip
         else if pkgDir = None \<and> \<not> claims \<and> ev_pkg ev \<noteq> ''<unattributed>'' \<and> fs_of r \<noteq> None
         then Fail (PkgDirsMissing (ev_pkg ev) (raw_kind r)
                      (case fs_of r of Some e \<Rightarrow> fs_path e | None \<Rightarrow> []))
         else if install_mode_drops ctx ev then Skip
         else Record (event_entries roots pkgDir fsPath forgedPrefix r))"

definition empty_block :: lifecycle_block where
  "empty_block =
     \<lparr>external_reads = [], escaped_writes = [], env_read = [], spawn_attempts = [],
      spawn_blocked = [], dlopen_attempts = [], network_attempts = [], audit_bypass = [],
      env_tamper = []\<rparr>"

type_synonym lock_map = "(string, package_block) js_map"

text \<open>\<open>getLifecycleBlock\<close> returns the block, creating it; the pushes then go into it in place.\<close>

definition getLifecycleBlock :: "lock_map \<Rightarrow> string \<Rightarrow> lifecycle_stage \<Rightarrow> package_block \<times> lifecycle_block" where
  "getLifecycleBlock out pkg stage =
     (let pkgBlock = (case map_of out pkg of Some pb \<Rightarrow> pb | None \<Rightarrow> [])
      in (pkgBlock, case map_of pkgBlock stage of Some b \<Rightarrow> b | None \<Rightarrow> empty_block))"

fun push_all :: "(block_field \<times> string) list \<Rightarrow> lifecycle_block \<Rightarrow> lifecycle_block" where
  "push_all [] b = b"
| "push_all ((f, s) # es) b = push_all es (set_field f (get_field f b @ [s]) b)"

definition record_entries ::
  "string \<Rightarrow> lifecycle_stage \<Rightarrow> (block_field \<times> string) list \<Rightarrow> lock_map \<Rightarrow> lock_map" where
  "record_entries pkg stage es out =
     (case getLifecycleBlock out pkg stage of
        (pkgBlock, b) \<Rightarrow> map_set pkg (map_set stage (push_all es b) pkgBlock) out)"

definition normalize_step ::
  "normalize_context \<Rightarrow> attributed_event \<Rightarrow> lock_map \<Rightarrow> (normalize_error, lock_map) result" where
  "normalize_step ctx ev out =
     (case event_verdict ctx ev of
        Skip \<Rightarrow> Inr out
      | Fail e \<Rightarrow> Inl e
      | Record es \<Rightarrow> Inr (record_entries (ev_pkg ev) (ev_lifecycle ev) es out))"

section \<open>Deduplication and order\<close>

definition unwrapShC :: "string \<Rightarrow> string option" where
  "unwrapShC command =
     (if \<not> starts_with command ''sh -c '' then None
      else (let direct = drop (length ''sh -c '') command
            in if direct \<noteq> [] then Some direct else None))"

text \<open>\<^verbatim>\<open>/^<[A-Z]+> (.+)$/\<close>; the dot matches no line terminator.\<close>

definition parseBlockedSpawn :: "string \<Rightarrow> string option" where
  "parseBlockedSpawn entry =
     (case entry of
        [] \<Rightarrow> None
      | c # s \<Rightarrow>
          (let w = takeWhile is_upper s; r = drop (length w) s; cmd = drop 2 r
           in if c = CHR ''<'' \<and> w \<noteq> [] \<and> starts_with r ''> '' \<and> cmd \<noteq> [] \<and>
                 list_all (\<lambda>x. x \<noteq> CHR 0x0A \<and> x \<noteq> CHR 0x0D) cmd
              then Some cmd else None))"

definition directCommands :: "lifecycle_block \<Rightarrow> string set" where
  "directCommands b =
     set (spawn_attempts b) \<union> set (List.map_filter parseBlockedSpawn (spawn_blocked b))"

definition wrapper_is_redundant :: "string set \<Rightarrow> string \<Rightarrow> bool" where
  "wrapper_is_redundant direct cmd =
     (case unwrapShC cmd of None \<Rightarrow> False | Some d \<Rightarrow> d \<in> direct)"

definition dropRedundantShellWrappers :: "lifecycle_block \<Rightarrow> lifecycle_block" where
  "dropRedundantShellWrappers b =
     (let direct = directCommands b
      in b\<lparr>spawn_attempts := filter (\<lambda>e. \<not> wrapper_is_redundant direct e) (spawn_attempts b),
           spawn_blocked :=
             filter (\<lambda>e. case parseBlockedSpawn e of
                           None \<Rightarrow> True
                         | Some cmd \<Rightarrow> \<not> wrapper_is_redundant direct cmd) (spawn_blocked b)\<rparr>)"

definition lock_fields :: "block_field list" where
  "lock_fields =
     [FExternalReads, FEscapedWrites, FEnvRead, FSpawnAttempts, FSpawnBlocked, FDlopenAttempts,
      FNetworkAttempts, FAuditBypass, FEnvTamper]"

definition sortAndDedupe :: "lifecycle_block \<Rightarrow> lifecycle_block" where
  "sortAndDedupe b = fold (\<lambda>f b. set_field f (canon_strings (get_field f b)) b) lock_fields b"

definition finish_block :: "lifecycle_block \<Rightarrow> lifecycle_block" where
  "finish_block b = sortAndDedupe (dropRedundantShellWrappers b)"

definition finish_lock :: "lock_map \<Rightarrow> lock_map" where
  "finish_lock out = map (\<lambda>(pkg, pb). (pkg, map (\<lambda>(st, b). (st, finish_block b)) pb)) out"

definition normalize ::
  "attributed_event list \<Rightarrow> normalize_context \<Rightarrow> (normalize_error, lock_map) result" where
  "normalize events ctx =
     rbind (rfold (normalize_step ctx) events []) (\<lambda>out. Inr (finish_lock out))"

section \<open>What the loop accumulates\<close>

definition block_of :: "lock_map \<Rightarrow> string \<Rightarrow> lifecycle_stage \<Rightarrow> lifecycle_block option" where
  "block_of out pkg stage = Option.bind (map_of out pkg) (\<lambda>pb. map_of pb stage)"

lemma push_all_append: "push_all (xs @ ys) b = push_all ys (push_all xs b)"
  by (induction xs arbitrary: b) auto

lemma get_push_all:
  "get_field f (push_all es b) = get_field f b @ map snd (filter (\<lambda>p. fst p = f) es)"
  by (induction es arbitrary: b) auto

lemma get_empty_block [simp]: "get_field f empty_block = []"
  by (cases f) (simp_all add: empty_block_def)

lemma block_of_record_entries:
  "block_of (record_entries pkg stage es out) p st =
     (if p = pkg \<and> st = stage
      then Some (push_all es (case block_of out pkg stage of Some b \<Rightarrow> b | None \<Rightarrow> empty_block))
      else block_of out p st)"
  by (auto simp: record_entries_def getLifecycleBlock_def block_of_def Let_def jm.get_put
      split: option.splits)

text \<open>The entries the events record for one package and stage, in order.\<close>

fun recorded :: "normalize_context \<Rightarrow> string \<Rightarrow> lifecycle_stage \<Rightarrow> attributed_event list
    \<Rightarrow> (block_field \<times> string) list list" where
  "recorded ctx p st [] = []"
| "recorded ctx p st (ev # evs) =
     (case event_verdict ctx ev of
        Record es \<Rightarrow> if ev_pkg ev = p \<and> ev_lifecycle ev = st then es # recorded ctx p st evs
                      else recorded ctx p st evs
      | _ \<Rightarrow> recorded ctx p st evs)"

lemma set_recorded:
  "set (recorded ctx p st evs) =
     {es. \<exists>ev \<in> set evs. ev_pkg ev = p \<and> ev_lifecycle ev = st \<and> event_verdict ctx ev = Record es}"
  by (induction evs) (auto split: event_outcome.splits)

lemma normalize_step_simps:
  "event_verdict ctx ev = Skip \<Longrightarrow> normalize_step ctx ev out = Inr out"
  "event_verdict ctx ev = Fail e \<Longrightarrow> normalize_step ctx ev out = Inl e"
  "event_verdict ctx ev = Record es \<Longrightarrow>
   normalize_step ctx ev out = Inr (record_entries (ev_pkg ev) (ev_lifecycle ev) es out)"
  by (simp_all add: normalize_step_def)

lemma loop_blocks:
  "rfold (normalize_step ctx) evs out = Inr out' \<Longrightarrow>
   block_of out' p st =
     (if recorded ctx p st evs = [] then block_of out p st
      else Some (push_all (concat (recorded ctx p st evs))
                   (case block_of out p st of Some b \<Rightarrow> b | None \<Rightarrow> empty_block)))"
proof (induction evs arbitrary: out)
  case (Cons ev evs)
  show ?case
  proof (cases "event_verdict ctx ev")
    case (Record es)
    from Cons.prems have
      loop: "rfold (normalize_step ctx) evs (record_entries (ev_pkg ev) (ev_lifecycle ev) es out) = Inr out'"
      by (simp add: normalize_step_simps(3) [OF Record])
    show ?thesis
      unfolding Cons.IH [OF loop] block_of_record_entries
      using Record by (auto simp: push_all_append split: option.splits)
  next
    case Skip
    then show ?thesis using Cons by (simp add: normalize_step_simps)
  next
    case (Fail e)
    then show ?thesis using Cons.prems by (simp add: normalize_step_simps)
  qed
qed simp

lemma loop_fails_iff:
  "(\<exists>e. rfold (normalize_step ctx) evs out = Inl e) \<longleftrightarrow>
   (\<exists>ev \<in> set evs. \<exists>e. event_verdict ctx ev = Fail e)"
proof (induction evs arbitrary: out)
  case (Cons ev evs)
  then show ?case by (cases "event_verdict ctx ev") (simp_all add: normalize_step_simps)
qed simp

lemma map_of_finish:
  "map_of (map (\<lambda>(k, v). (k, f v)) m) k = map_option f (map_of m k)"
  by (induction m) auto

lemma block_of_finish_lock: "block_of (finish_lock out) p st = map_option finish_block (block_of out p st)"
  by (simp add: block_of_def finish_lock_def map_of_finish bind_map_option)
    (simp add: map_of_finish split: bind_splits option.splits)

definition lock_block :: "normalize_context \<Rightarrow> attributed_event list \<Rightarrow> string \<Rightarrow> lifecycle_stage
    \<Rightarrow> lifecycle_block option" where
  "lock_block ctx evs p st =
     (if recorded ctx p st evs = [] then None
      else Some (finish_block (push_all (concat (recorded ctx p st evs)) empty_block)))"

lemma normalize_blocks:
  "normalize evs ctx = Inr out \<Longrightarrow> block_of out p st = lock_block ctx evs p st"
proof -
  assume "normalize evs ctx = Inr out"
  then obtain o1 where o1: "rfold (normalize_step ctx) evs [] = Inr o1" "out = finish_lock o1"
    by (cases "rfold (normalize_step ctx) evs []") (auto simp: normalize_def)
  show ?thesis
    unfolding o1(2) block_of_finish_lock loop_blocks [OF o1(1)] lock_block_def
    by (simp add: block_of_def)
qed

section \<open>The final pass\<close>

lemma get_fold_canon:
  "get_field f (fold (\<lambda>g b. set_field g (canon_strings (get_field g b)) b) fs b) =
     (if f \<in> set fs then canon_strings (get_field f b) else get_field f b)"
  by (induction fs arbitrary: b) (auto simp: cs.canon_idem)

lemma lock_fields_all [simp]: "f \<in> set lock_fields"
  by (cases f) (simp_all add: lock_fields_def)

lemma get_sortAndDedupe [simp]: "get_field f (sortAndDedupe b) = canon_strings (get_field f b)"
  by (simp add: sortAndDedupe_def get_fold_canon)

lemma get_drop_wrappers:
  "get_field f (dropRedundantShellWrappers b) =
     (case f of
        FSpawnAttempts \<Rightarrow>
          filter (\<lambda>e. \<not> wrapper_is_redundant (directCommands b) e) (get_field f b)
      | FSpawnBlocked \<Rightarrow>
          filter (\<lambda>e. case parseBlockedSpawn e of None \<Rightarrow> True
                      | Some cmd \<Rightarrow> \<not> wrapper_is_redundant (directCommands b) cmd) (get_field f b)
      | _ \<Rightarrow> get_field f b)"
  by (cases f) (simp_all add: dropRedundantShellWrappers_def Let_def)

lemma directCommands_iff:
  "c \<in> directCommands b \<longleftrightarrow>
     c \<in> set (spawn_attempts b) \<or> (\<exists>e \<in> set (spawn_blocked b). parseBlockedSpawn e = Some c)"
proof -
  have "c \<in> set (List.map_filter parseBlockedSpawn es) \<longleftrightarrow>
      (\<exists>e \<in> set es. parseBlockedSpawn e = Some c)" for es
    by (force simp: List.map_filter_def)
  then show ?thesis by (simp add: directCommands_def)
qed

lemma directCommands_cong:
  assumes "\<And>f. set (get_field f a) = set (get_field f b)"
  shows "directCommands a = directCommands b"
proof -
  have "set (spawn_attempts a) = set (spawn_attempts b)" using assms [of FSpawnAttempts] by simp
  moreover have "set (spawn_blocked a) = set (spawn_blocked b)" using assms [of FSpawnBlocked] by simp
  ultimately show ?thesis by (auto simp: directCommands_def List.map_filter_def)
qed

text \<open>A finished block depends only on which entries were recorded.\<close>

lemma finish_block_cong:
  assumes "\<And>f. set (get_field f a) = set (get_field f b)"
  shows "finish_block a = finish_block b"
proof (rule block_eqI)
  fix f
  have "set (get_field f (dropRedundantShellWrappers a)) = set (get_field f (dropRedundantShellWrappers b))"
    unfolding get_drop_wrappers directCommands_cong [of a b, OF assms]
    using assms [of f] by (cases f) simp_all
  then show "get_field f (finish_block a) = get_field f (finish_block b)"
    by (simp add: finish_block_def cs.canon_eq_iff)
qed

lemma set_finish_block:
  "f \<noteq> FSpawnAttempts \<Longrightarrow> f \<noteq> FSpawnBlocked \<Longrightarrow>
   set (get_field f (finish_block b)) = set (get_field f b)"
  by (cases f) (simp_all add: finish_block_def get_drop_wrappers cs.canon_set)

lemma finish_block_keeps_attempt:
  "s \<in> set (spawn_attempts b) \<Longrightarrow> unwrapShC s = None \<Longrightarrow> s \<in> set (get_field FSpawnAttempts (finish_block b))"
  by (simp add: finish_block_def get_drop_wrappers cs.canon_set wrapper_is_redundant_def)

lemma finish_block_keeps_blocked:
  "s \<in> set (spawn_blocked b) \<Longrightarrow> parseBlockedSpawn s = None \<Longrightarrow>
   s \<in> set (get_field FSpawnBlocked (finish_block b))"
  by (simp add: finish_block_def get_drop_wrappers cs.canon_set)

section \<open>What a field of the lock lists\<close>

definition in_lock :: "lock_map \<Rightarrow> string \<Rightarrow> lifecycle_stage \<Rightarrow> block_field \<Rightarrow> string \<Rightarrow> bool" where
  "in_lock out p st f s =
     (case block_of out p st of None \<Rightarrow> False | Some b \<Rightarrow> s \<in> set (get_field f b))"

text \<open>An event of the trace records the entry \<open>s\<close> in the field \<open>f\<close> of its package and stage.\<close>

definition records ::
  "normalize_context \<Rightarrow> attributed_event \<Rightarrow> string \<Rightarrow> lifecycle_stage \<Rightarrow> block_field \<Rightarrow> string \<Rightarrow> bool" where
  "records ctx ev p st f s =
     (ev_pkg ev = p \<and> ev_lifecycle ev = st \<and>
      (case event_verdict ctx ev of Record es \<Rightarrow> (f, s) \<in> set es | _ \<Rightarrow> False))"

lemma records_iff:
  "records ctx ev p st f s \<longleftrightarrow>
     ev_pkg ev = p \<and> ev_lifecycle ev = st \<and> (\<exists>es. event_verdict ctx ev = Record es \<and> (f, s) \<in> set es)"
  by (cases "event_verdict ctx ev") (simp_all add: records_def)

lemma set_accumulated:
  "set (get_field f (push_all (concat (recorded ctx p st evs)) empty_block)) =
     {s. \<exists>ev \<in> set evs. records ctx ev p st f s}"
proof -
  have "(\<exists>es \<in> set (recorded ctx p st evs). (f, s) \<in> set es) \<longleftrightarrow>
        (\<exists>ev \<in> set evs. records ctx ev p st f s)" for s
    unfolding set_recorded records_iff by blast
  then show ?thesis by (force simp: get_push_all)
qed

lemma records_block:
  assumes "normalize evs ctx = Inr out" "ev \<in> set evs" "records ctx ev p st f s"
  obtains b where "block_of out p st = Some (finish_block b)"
    "\<And>g. set (get_field g b) = {s. \<exists>ev \<in> set evs. records ctx ev p st g s}"
proof -
  from assms(3) obtain es where "event_verdict ctx ev = Record es" "ev_pkg ev = p" "ev_lifecycle ev = st"
    by (auto simp: records_iff)
  with assms(2) have "recorded ctx p st evs \<noteq> []"
    using set_recorded [of ctx p st evs] by auto
  with normalize_blocks [OF assms(1), of p st] show ?thesis
    by (intro that) (auto simp: lock_block_def set_accumulated)
qed

lemma in_lock_iff:
  assumes "normalize evs ctx = Inr out" "f \<noteq> FSpawnAttempts" "f \<noteq> FSpawnBlocked"
  shows "in_lock out p st f s \<longleftrightarrow> (\<exists>ev \<in> set evs. records ctx ev p st f s)"
  using assms set_accumulated [of f ctx p st evs]
  by (auto simp: in_lock_def normalize_blocks [OF assms(1)] lock_block_def set_finish_block)

lemma in_lock_attempt:
  assumes "normalize evs ctx = Inr out" "ev \<in> set evs" "records ctx ev p st FSpawnAttempts s"
    and "unwrapShC s = None"
  shows "in_lock out p st FSpawnAttempts s"
proof -
  obtain b where b: "block_of out p st = Some (finish_block b)"
    and "\<And>g. set (get_field g b) = {s. \<exists>ev \<in> set evs. records ctx ev p st g s}"
    by (rule records_block [OF assms(1-3)]) (rule that)
  from this(2) [of FSpawnAttempts] assms(2,3) have "s \<in> set (spawn_attempts b)" by auto
  from finish_block_keeps_attempt [OF this assms(4)] b show ?thesis by (simp add: in_lock_def)
qed

lemma in_lock_blocked:
  assumes "normalize evs ctx = Inr out" "ev \<in> set evs" "records ctx ev p st FSpawnBlocked s"
    and "parseBlockedSpawn s = None"
  shows "in_lock out p st FSpawnBlocked s"
proof -
  obtain b where b: "block_of out p st = Some (finish_block b)"
    and "\<And>g. set (get_field g b) = {s. \<exists>ev \<in> set evs. records ctx ev p st g s}"
    by (rule records_block [OF assms(1-3)]) (rule that)
  from this(2) [of FSpawnBlocked] assms(2,3) have "s \<in> set (spawn_blocked b)" by auto
  from finish_block_keeps_blocked [OF this assms(4)] b show ?thesis by (simp add: in_lock_def)
qed

section \<open>The lock is a function of what happened\<close>

definition sample_ctx :: normalize_context where
  "sample_ctx =
     \<lparr>nc_roots = sample_roots, nc_pkgDirs = (\<lambda>_. None), nc_rootPkgKeys = Some {''app@1''},
      nc_os = None, nc_installMode = Some True, nc_injectedEnvNames = Some {''CI''}\<rparr>"

definition sample_env_event :: "string \<Rightarrow> bool option \<Rightarrow> attributed_event" where
  "sample_env_event name anchored =
     \<lparr>ev_raw = EnvReadEv \<lparr>er_name = name, er_pid = 1, er_ts = 1, er_hidden = False,
        er_root_anchored = anchored\<rparr>,
      ev_pkg = ''app@1'', ev_lifecycle = Install\<rparr>"

lemma normalize_set_cong:
  assumes "set evs = set evs'"
  shows "case (normalize evs ctx, normalize evs' ctx) of
           (Inl _, Inl _) \<Rightarrow> True
         | (Inr out, Inr out') \<Rightarrow> block_of out = block_of out'
         | _ \<Rightarrow> False"
proof -
  have fails: "(\<exists>e. normalize evs ctx = Inl e) \<longleftrightarrow> (\<exists>ev \<in> set evs. \<exists>e. event_verdict ctx ev = Fail e)"
    for evs
    unfolding loop_fails_iff [where out = "[]", symmetric]
    by (cases "rfold (normalize_step ctx) evs []") (simp_all add: normalize_def)
  have blocks: "lock_block ctx evs p st = lock_block ctx evs' p st" for p st
  proof -
    have "set (recorded ctx p st evs) = set (recorded ctx p st evs')"
      using assms by (simp add: set_recorded)
    moreover from this have "recorded ctx p st evs = [] \<longleftrightarrow> recorded ctx p st evs' = []"
      by (metis set_empty)
    moreover have "finish_block (push_all (concat (recorded ctx p st evs)) empty_block) =
        finish_block (push_all (concat (recorded ctx p st evs')) empty_block)"
      by (rule finish_block_cong) (simp add: set_accumulated assms)
    ultimately show ?thesis by (simp add: lock_block_def)
  qed
  from fails [of evs] fails [of evs'] assms
  have "(\<exists>e. normalize evs ctx = Inl e) \<longleftrightarrow> (\<exists>e. normalize evs' ctx = Inl e)" by simp
  then show ?thesis
    using normalize_blocks blocks
    by (cases "normalize evs ctx"; cases "normalize evs' ctx") (auto simp: fun_eq_iff)
qed

text \<open>C15: order and repetition of the trace do not matter: two traces with the same set of events
  either both make the run throw or give the same block for every package and stage.\<close>

theorem normalize_order_independent:
  assumes "set evs = set evs'"
  shows "case (normalize evs ctx, normalize evs' ctx) of
           (Inl _, Inl _) \<Rightarrow> True
         | (Inr out, Inr out') \<Rightarrow> block_of out = block_of out'
         | _ \<Rightarrow> False"
  using assms by (rule normalize_set_cong)

theorem normalize_order_independent_witness:
  "set [sample_env_event ''A'' None, sample_env_event ''B'' None, sample_env_event ''A'' None] =
     set [sample_env_event ''B'' None, sample_env_event ''A'' None] \<and>
   (case (normalize [sample_env_event ''A'' None, sample_env_event ''B'' None,
                     sample_env_event ''A'' None] sample_ctx,
          normalize [sample_env_event ''B'' None, sample_env_event ''A'' None] sample_ctx) of
           (Inl _, Inl _) \<Rightarrow> True
         | (Inr out, Inr out') \<Rightarrow> block_of out = block_of out'
         | _ \<Rightarrow> False)"
proof -
  have s: "set [sample_env_event ''A'' None, sample_env_event ''B'' None, sample_env_event ''A'' None] =
     set [sample_env_event ''B'' None, sample_env_event ''A'' None]" by auto
  show ?thesis
    by (rule conjI [OF s]) (rule normalize_order_independent [OF s, of sample_ctx])
qed

text \<open>C16: outside the two spawn lists the lock is exact: an entry is listed for a package and stage
  if and only if some event of the trace, attributed there, records it.\<close>

theorem lock_entries_exact:
  assumes "normalize evs ctx = Inr out" "f \<noteq> FSpawnAttempts" "f \<noteq> FSpawnBlocked"
  shows "in_lock out p st f s \<longleftrightarrow>
     (\<exists>ev \<in> set evs. ev_pkg ev = p \<and> ev_lifecycle ev = st \<and>
        (\<exists>es. event_verdict ctx ev = Record es \<and> (f, s) \<in> set es))"
  unfolding in_lock_iff [OF assms] records_iff ..

lemma sample_normalize:
  "normalize [sample_env_event ''A'' None] sample_ctx =
     Inr [(''app@1'', [(Install, empty_block\<lparr>env_read := [''<FORGED_ROOT> A'']\<rparr>)])]"
  by (simp add: normalize_def normalize_step_def event_verdict_def sample_env_event_def sample_ctx_def
      isSystemNoise_def claimsRoot_def isForgedRoot_def install_mode_drops_def hidden_tag_def
      record_entries_def getLifecycleBlock_def empty_block_def finish_lock_def finish_block_def
      dropRedundantShellWrappers_def sortAndDedupe_def lock_fields_def canon_strings_def js_uniq_def Let_def)

theorem lock_entries_exact_witness:
  "\<exists>out. normalize [sample_env_event ''A'' None] sample_ctx = Inr out \<and>
     in_lock out ''app@1'' Install FEnvRead ''<FORGED_ROOT> A'' \<and>
     (\<exists>es. event_verdict sample_ctx (sample_env_event ''A'' None) = Record es \<and>
        (FEnvRead, ''<FORGED_ROOT> A'') \<in> set es)"
  using lock_entries_exact [OF sample_normalize, of FEnvRead "''app@1''" Install "''<FORGED_ROOT> A''"]
    sample_normalize
  by (simp add: in_lock_def block_of_def)

section \<open>Forged root claims\<close>

text \<open>Without a package directory no absolute path is read as inside the package.\<close>

lemma replace_temp_suffix_head: "\<exists>t. replace_temp_suffix (c # s) = c # t"
  by (cases "temp_suffix_at (c # s)")
    (auto simp: replace_temp_suffix.simps(2) temp_suffix_at_def starts_with_iff)

lemma replace_hashes_head: "\<exists>t. replace_hashes (c # s) = c # t \<or> replace_hashes (c # s) = CHR ''<'' # t"
proof -
  have w: "\<exists>t. hash_replacement (c # v) @ r = c # t \<or> hash_replacement (c # v) @ r = CHR ''<'' # t" for v r
    by (auto simp: hash_replacement_def)
  show ?thesis
    using w [of "takeWhile is_hash_char s"]
    by (auto simp: replace_hashes.simps(2) Let_def)
qed

lemma replace_yarn_temp_head: "\<exists>t. replace_yarn_temp (a # c # s) = a # c # t"
  by (auto simp: replace_yarn_temp_def Let_def)

lemma collapse_second:
  "\<exists>t. collapseUnstable (CHR ''$'' # c # s) = CHR ''$'' # c # t \<or>
       collapseUnstable (CHR ''$'' # c # s) = CHR ''$'' # CHR ''<'' # t"
proof -
  obtain u where "replace_temp_suffix (CHR ''$'' # c # s) = CHR ''$'' # c # u"
    using replace_temp_suffix_head [of c s] by auto
  moreover obtain v where "replace_yarn_temp (CHR ''$'' # c # u) = CHR ''$'' # c # v"
    using replace_yarn_temp_head by blast
  ultimately show ?thesis
    using replace_hashes_head [of c v] by (auto simp: collapseUnstable_def)
qed

lemma tokenize_not_pkg:
  assumes "starts_with p ''/''"
  shows "\<not> starts_with (tokenize p roots None) ''$P''"
  using assms
proof (cases rule: tokenize_cases [where roots = roots and d = None])
  case unmatched
  with assms show ?thesis by (auto simp: starts_with_iff)
next
  case (root q t)
  have not_pkg: "\<not> starts_with (token_result p q (CHR ''$'' # c # u)) ''$P''" if "c \<noteq> CHR ''P''" for c u
  proof -
    define tail where "tail = u @ (if drop (length q) p = ''/'' then [] else drop (length q) p)"
    have "token_result p q (CHR ''$'' # c # u) = CHR ''$'' # c # tail \<or>
        token_result p q (CHR ''$'' # c # u) = collapseUnstable (CHR ''$'' # c # tail)"
      by (simp add: token_result_def Let_def tail_def)
    with that collapse_second [of c tail] show ?thesis by auto
  qed
  from root(2) have "\<exists>c u. t = CHR ''$'' # c # u \<and> c \<noteq> CHR ''P''"
    by (cases rule: token_prefixes_cases) simp_all
  with not_pkg root(1) show ?thesis by auto
qed

lemma normalizeVolatilePath_head:
  "starts_with (normalizeVolatilePath t) ''$P'' \<Longrightarrow> starts_with t ''$P''"
proof -
  assume a: "starts_with (normalizeVolatilePath t) ''$P''"
  have long: "8 \<le> length q" if "isNpmDebugLogDir q" for q
    using that by (auto simp: isNpmDebugLogDir_def ends_with_iff)
  show ?thesis
  proof (cases "normalizeVolatilePath t = t")
    case False
    then obtain i r where "normalizeVolatilePath t = take i t @ r" "isNpmDebugLogDir (take i t)"
      by (auto simp: normalizeVolatilePath_def Let_def split: option.splits if_splits)
    moreover from this(2) have "8 \<le> length (take i t)" by (rule long)
    ultimately have "\<exists>x y u v. t = x # y # u \<and> normalizeVolatilePath t = x # y # v"
      by (cases t rule: remdups_adj.cases; cases i rule: nat.exhaust; cases "i - 1") auto
    then show ?thesis using a by auto
  qed (use a in simp)
qed

lemma abs_not_inside_pkg:
  "starts_with p ''/'' \<Longrightarrow> \<not> isInsidePkg (normalizeVolatilePath (tokenize p roots None))"
proof
  assume "starts_with p ''/''" "isInsidePkg (normalizeVolatilePath (tokenize p roots None))"
  then have "starts_with (normalizeVolatilePath (tokenize p roots None)) ''$P''"
    by (auto simp: isInsidePkg_def starts_with_iff)
  with \<open>starts_with p ''/''\<close> tokenize_not_pkg normalizeVolatilePath_head show False by blast
qed

lemma event_fs_path_abs:
  assumes "fs_of r = Some e" "starts_with (fs_path e) ''/''" "event_fs_path os r = Some p"
  shows "starts_with p ''/''"
proof -
  have "starts_with (canonicalizePrivateRealpath q) ''/''" if "starts_with q ''/''" for q
  proof (cases "find (\<lambda>(from, _). q = from \<or> starts_with q (from @ ''/'')) private_prefixes")
    case (Some x)
    then have "x \<in> set private_prefixes" using find_SomeD by fastforce
    then show ?thesis using Some
      by (auto simp: canonicalizePrivateRealpath_def private_prefixes_def)
  qed (use that in \<open>simp add: canonicalizePrivateRealpath_def\<close>)
  with assms show ?thesis by (auto simp: event_fs_path_def split: if_splits)
qed

lemma forged_entry:
  assumes r: "isForgedRoot True r" and pathless: "\<And>e. fs_of r = Some e \<Longrightarrow> starts_with p ''/''"
    and tamper: "\<And>e. r = EnvTamperEv e \<Longrightarrow> et_op e \<noteq> AuditFdLost"
    and fsp: "fs_of r \<noteq> None \<Longrightarrow> fsPath = Some p"
  shows "\<exists>f u. (f, ''<FORGED_ROOT> '' @ u) \<in> set (event_entries roots None fsPath ''<FORGED_ROOT> '' r)"
  using assms abs_not_inside_pkg [of p roots]
  by (cases r) (auto simp: isForgedRoot_def Let_def tamper_entries_def)

lemma forged_kept:
  "unwrapShC (''<FORGED_ROOT> '' @ u) = None" "parseBlockedSpawn (''<FORGED_ROOT> '' @ u) = None"
  by (simp_all add: unwrapShC_def parseBlockedSpawn_def is_upper_def)

text \<open>Whatever kind of list it is in, an entry with the forged tag survives the final pass.\<close>

lemma forged_in_lock:
  assumes "normalize evs ctx = Inr out" "ev \<in> set evs" "records ctx ev p st f (''<FORGED_ROOT> '' @ u)"
  shows "in_lock out p st f (''<FORGED_ROOT> '' @ u)"
proof (cases "f = FSpawnAttempts \<or> f = FSpawnBlocked")
  case True
  then show ?thesis using in_lock_attempt [OF assms(1,2)] in_lock_blocked [OF assms(1,2)] assms(3) forged_kept
    by blast
next
  case False
  then show ?thesis using in_lock_iff [OF assms(1)] assms(2,3) by blast
qed

lemma forged_surfaces:
  assumes run: "normalize evs ctx = Inr out" and mem: "ev \<in> set evs"
    and claims: "claimsRoot ctx (ev_pkg ev)" and forged: "isForgedRoot True (ev_raw ev)"
    and no_dir: "nc_pkgDirs ctx (ev_pkg ev) = None"
    and absolute: "\<And>e. fs_of (ev_raw ev) = Some e \<Longrightarrow> starts_with (fs_path e) ''/''"
    and audible: "\<And>os. \<not> isSystemNoise (ev_raw ev) (event_fs_path os (ev_raw ev)) os
                     (canonicalizeTokenizeRoots (nc_roots ctx))"
    and tamper: "\<And>e. ev_raw ev = EnvTamperEv e \<Longrightarrow> et_op e \<noteq> AuditFdLost"
  shows "\<exists>f u. in_lock out (ev_pkg ev) (ev_lifecycle ev) f (''<FORGED_ROOT> '' @ u)"
proof -
  define os where "os = (case nc_os ctx of None \<Rightarrow> Linux | Some os \<Rightarrow> os)"
  let ?es = "event_entries (canonicalizeTokenizeRoots (nc_roots ctx)) None
               (event_fs_path os (ev_raw ev)) ''<FORGED_ROOT> '' (ev_raw ev)"
  have verdict: "event_verdict ctx ev = Record ?es"
    using audible claims forged no_dir
    by (simp add: event_verdict_def install_mode_drops_def Let_def os_def)
  have "\<exists>f u. (f, ''<FORGED_ROOT> '' @ u) \<in> set ?es"
  proof (rule forged_entry [OF forged, where p = "the (event_fs_path os (ev_raw ev))"])
    show "starts_with (the (event_fs_path os (ev_raw ev))) ''/''" if "fs_of (ev_raw ev) = Some e" for e
      using event_fs_path_abs [OF that absolute [OF that], of os] that by (auto simp: event_fs_path_def)
  qed (use tamper in \<open>auto simp: event_fs_path_def\<close>)
  with verdict obtain f u where "records ctx ev (ev_pkg ev) (ev_lifecycle ev) f (''<FORGED_ROOT> '' @ u)"
    by (auto simp: records_iff)
  from forged_in_lock [OF run mem this] show ?thesis by blast
qed

text \<open>A package that claims to be the audited root without having been launched by the runner
  cannot hide: each of its events that is not system noise leaves an entry tagged \<^verbatim>\<open><FORGED_ROOT>\<close>
  in the lock, so the entry never coincides with one of the genuine root and no deduplication or
  install-mode drop removes it. (The loss of the audit descriptor has its own hard gate.)\<close>

theorem forged_root_surfaces:
  assumes run: "normalize evs ctx = Inr out" and mem: "ev \<in> set evs"
    and claims: "claimsRoot ctx (ev_pkg ev)" and forged: "isForgedRoot True (ev_raw ev)"
    and no_dir: "nc_pkgDirs ctx (ev_pkg ev) = None"
    and absolute: "\<And>e. fs_of (ev_raw ev) = Some e \<Longrightarrow> starts_with (fs_path e) ''/''"
    and audible: "\<And>os. \<not> isSystemNoise (ev_raw ev) (event_fs_path os (ev_raw ev)) os
                     (canonicalizeTokenizeRoots (nc_roots ctx))"
    and tamper: "\<And>e. ev_raw ev = EnvTamperEv e \<Longrightarrow> et_op e \<noteq> AuditFdLost"
  shows "\<exists>f u. in_lock out (ev_pkg ev) (ev_lifecycle ev) f (''<FORGED_ROOT> '' @ u)"
  by (rule forged_surfaces [OF assms])

theorem forged_root_surfaces_witness:
  "\<exists>out. normalize [sample_env_event ''A'' None] sample_ctx = Inr out \<and>
     (\<exists>f u. in_lock out ''app@1'' Install f (''<FORGED_ROOT> '' @ u))"
  using forged_root_surfaces [OF sample_normalize, of "sample_env_event ''A'' None"] sample_normalize
  by (simp add: sample_env_event_def claimsRoot_def sample_ctx_def isForgedRoot_def isSystemNoise_def)

section \<open>The audit-bypass list\<close>

text \<open>The kinds of events after which the rest of the trace cannot be trusted.\<close>

fun bypass_signal :: "raw_event \<Rightarrow> bool" where
  "bypass_signal (ExecEv e) =
     (ex_envp_alloc_failed e \<or> ex_syscall_bypass e \<or> ex_events_file_forgery e \<or> ex_unresolved_path e)"
| "bypass_signal (EnvTamperEv e) = (et_op e = AuditFdLost)"
| "bypass_signal _ = False"

lemma exec_entries_bypass:
  "(\<exists>s. (FAuditBypass, s) \<in> set (exec_entries roots d e)) \<longleftrightarrow> bypass_signal (ExecEv e)"
  unfolding exec_entries_def bypass_signal.simps
  by (cases "ex_envp_alloc_failed e"; cases "ex_syscall_bypass e"; cases "ex_events_file_forgery e";
      cases "ex_unresolved_path e"; simp only: if_True if_False append_Nil append_Nil2; simp; blast?)

lemma bypass_recorded:
  "(\<exists>s. records ctx ev p st FAuditBypass s) \<longleftrightarrow>
     ev_pkg ev = p \<and> ev_lifecycle ev = st \<and> bypass_signal (ev_raw ev)"
proof (cases "ev_raw ev")
  case (ExecEv e)
  then have "event_verdict ctx ev = Record (exec_entries (canonicalizeTokenizeRoots (nc_roots ctx))
      (nc_pkgDirs ctx (ev_pkg ev)) e)"
    by (simp add: event_verdict_def isSystemNoise_def install_mode_drops_def Let_def)
  with exec_entries_bypass show ?thesis using ExecEv by (simp add: records_iff)
next
  case (EnvTamperEv e)
  define pre where "pre = (if isForgedRoot (claimsRoot ctx (ev_pkg ev)) (ev_raw ev)
      then ''<FORGED_ROOT> '' else [])"
  have "event_verdict ctx ev = Record (tamper_entries pre e)"
    using EnvTamperEv by (simp add: event_verdict_def isSystemNoise_def install_mode_drops_def Let_def pre_def)
  then show ?thesis using EnvTamperEv by (auto simp: records_iff tamper_entries_def)
qed (auto simp: records_iff event_verdict_def Let_def split: if_splits)

lemma in_lock_bypass:
  assumes "normalize evs ctx = Inr out"
  shows "(\<exists>s. in_lock out p st FAuditBypass s) \<longleftrightarrow>
     (\<exists>ev \<in> set evs. ev_pkg ev = p \<and> ev_lifecycle ev = st \<and> bypass_signal (ev_raw ev))"
proof -
  have "(\<exists>s. in_lock out p st FAuditBypass s) \<longleftrightarrow> (\<exists>ev \<in> set evs. \<exists>s. records ctx ev p st FAuditBypass s)"
    using in_lock_iff [OF assms, of FAuditBypass p st] by auto
  then show ?thesis unfolding bypass_recorded .
qed

lemma bypass_entry_nonempty:
  assumes "normalize evs ctx = Inr out" "in_lock out p st FAuditBypass s"
  shows "s \<noteq> []"
proof -
  from assms(2) in_lock_iff [OF assms(1), of FAuditBypass p st s] obtain ev where r: "records ctx ev p st FAuditBypass s"
    by auto
  show ?thesis
  proof (cases "ev_raw ev")
    case (ExecEv e)
    then have "event_verdict ctx ev = Record (exec_entries (canonicalizeTokenizeRoots (nc_roots ctx))
        (nc_pkgDirs ctx (ev_pkg ev)) e)"
      by (simp add: event_verdict_def isSystemNoise_def install_mode_drops_def Let_def)
    with r show ?thesis by (auto simp: records_iff exec_entries_def split: if_splits)
  next
    case (EnvTamperEv e)
    define pre where "pre = (if isForgedRoot (claimsRoot ctx (ev_pkg ev)) (ev_raw ev)
        then ''<FORGED_ROOT> '' else [])"
    have "event_verdict ctx ev = Record (tamper_entries pre e)"
      using EnvTamperEv by (simp add: event_verdict_def isSystemNoise_def install_mode_drops_def Let_def pre_def)
    with r show ?thesis by (auto simp: records_iff tamper_entries_def split: if_splits)
  qed (use r in \<open>auto simp: records_iff event_verdict_def Let_def split: if_splits\<close>)
qed

text \<open>C13: the \<^verbatim>\<open>audit_bypass\<close> list of a package and stage is non-empty exactly when the trace holds a
  bypass signal attributed there: none of the filters of the loop (noise, install mode, missing
  directory) ever loses such a signal, and nothing else puts an entry there.\<close>

theorem audit_bypass_exact:
  assumes "normalize evs ctx = Inr out"
  shows "(\<exists>s. in_lock out p st FAuditBypass s) \<longleftrightarrow>
     (\<exists>ev \<in> set evs. ev_pkg ev = p \<and> ev_lifecycle ev = st \<and> bypass_signal (ev_raw ev))"
  by (rule in_lock_bypass [OF assms])

definition sample_exec :: attributed_event where
  "sample_exec =
     \<lparr>ev_raw = ExecEv \<lparr>ex_prog = ''/bin/true'', ex_argv0 = None, ex_envp_alloc_failed = False,
        ex_syscall_bypass = True, ex_events_file_forgery = False, ex_unresolved_path = False,
        ex_result = ExecOk, ex_pid = 7, ex_ts = 1, ex_audit_blind = None, ex_argv = None,
        ex_exec_errno = None\<rparr>,
      ev_pkg = ''dep@2'', ev_lifecycle = Postinstall\<rparr>"

lemma sample_exec_normalize:
  "\<exists>out. normalize [sample_exec] sample_ctx = Inr out"
  by (simp add: normalize_def normalize_step_def event_verdict_def sample_exec_def sample_ctx_def
      isSystemNoise_def Let_def)

theorem audit_bypass_exact_witness:
  "\<exists>out. normalize [sample_exec] sample_ctx = Inr out \<and>
     (\<exists>s. in_lock out ''dep@2'' Postinstall FAuditBypass s)"
proof -
  obtain out where out: "normalize [sample_exec] sample_ctx = Inr out"
    using sample_exec_normalize by blast
  with audit_bypass_exact [OF out, of "''dep@2''" Postinstall] show ?thesis
    by (simp add: sample_exec_def)
qed

section \<open>Install mode\<close>

lemma verdict_install_mode:
  "event_verdict ctx ev =
     (if install_mode_drops ctx ev then Skip else event_verdict (ctx\<lparr>nc_installMode := None\<rparr>) ev)"
proof -
  have "\<not> install_mode_drops (ctx\<lparr>nc_installMode := None\<rparr>) ev" by (simp add: install_mode_drops_def)
  moreover have "install_mode_drops ctx ev \<Longrightarrow> claimsRoot ctx (ev_pkg ev)"
    by (simp add: install_mode_drops_def)
  ultimately show ?thesis by (simp add: event_verdict_def claimsRoot_def Let_def)
qed

text \<open>The install mode only removes events before normalisation: the lock it yields is the lock
  of the trace without the dropped events in the ordinary mode. What it drops comes from the
  genuine root only, and is the read of an injected variable or a plain (never protected) read of
  a directory above the repository; writes, spawns, connections and the events of dependencies
  and of forged roots are never dropped.\<close>

theorem install_mode_exact:
  "normalize evs ctx =
     normalize (filter (\<lambda>ev. \<not> install_mode_drops ctx ev) evs) (ctx\<lparr>nc_installMode := None\<rparr>) \<and>
   {ev. install_mode_drops ctx ev} \<subseteq>
     {ev. claimsRoot ctx (ev_pkg ev) \<and> root_anchored_field (ev_raw ev) = Some (Some True) \<and>
        ((\<exists>e. ev_raw ev = EnvReadEv e \<and> er_name e \<in> the (nc_injectedEnvNames ctx)) \<or>
         (\<exists>e. ev_raw ev = ReadEv e \<and> \<not> fs_hidden e))}"
proof
  have step: "normalize_step ctx ev out =
      (if install_mode_drops ctx ev then Inr out
       else normalize_step (ctx\<lparr>nc_installMode := None\<rparr>) ev out)" for ev out
    by (simp add: normalize_step_def verdict_install_mode [of ctx ev])
  have "rfold (normalize_step ctx) evs out =
      rfold (normalize_step (ctx\<lparr>nc_installMode := None\<rparr>))
        (filter (\<lambda>ev. \<not> install_mode_drops ctx ev) evs) out" for out
    by (induction evs arbitrary: out) (auto simp: step rbind_def split: sum.splits)
  then show "normalize evs ctx =
     normalize (filter (\<lambda>ev. \<not> install_mode_drops ctx ev) evs) (ctx\<lparr>nc_installMode := None\<rparr>)"
    by (simp add: normalize_def)
next
  show "{ev. install_mode_drops ctx ev} \<subseteq>
     {ev. claimsRoot ctx (ev_pkg ev) \<and> root_anchored_field (ev_raw ev) = Some (Some True) \<and>
        ((\<exists>e. ev_raw ev = EnvReadEv e \<and> er_name e \<in> the (nc_injectedEnvNames ctx)) \<or>
         (\<exists>e. ev_raw ev = ReadEv e \<and> \<not> fs_hidden e))}"
  proof clarify
    fix ev assume "install_mode_drops ctx ev"
    then show "claimsRoot ctx (ev_pkg ev) \<and> root_anchored_field (ev_raw ev) = Some (Some True) \<and>
        ((\<exists>e. ev_raw ev = EnvReadEv e \<and> er_name e \<in> the (nc_injectedEnvNames ctx)) \<or>
         (\<exists>e. ev_raw ev = ReadEv e \<and> \<not> fs_hidden e))"
      by (cases "ev_raw ev"; cases "nc_injectedEnvNames ctx")
        (auto simp: install_mode_drops_def isForgedRoot_def)
  qed
qed

section \<open>When the run throws\<close>

text \<open>C39: normalisation throws exactly when a file event that is not system noise belongs to a real
  package without a known directory: the audited root and the unattributed package never make it
  throw.\<close>

theorem normalize_throws_iff:
  "(\<exists>e. normalize evs ctx = Inl e) \<longleftrightarrow>
   (\<exists>ev \<in> set evs. fs_of (ev_raw ev) \<noteq> None \<and> nc_pkgDirs ctx (ev_pkg ev) = None \<and>
      ev_pkg ev \<noteq> ''<unattributed>'' \<and> \<not> claimsRoot ctx (ev_pkg ev) \<and>
      (let os = (case nc_os ctx of None \<Rightarrow> Linux | Some os \<Rightarrow> os)
       in \<not> isSystemNoise (ev_raw ev) (event_fs_path os (ev_raw ev)) os
             (canonicalizeTokenizeRoots (nc_roots ctx))))"
proof -
  have "(\<exists>e. normalize evs ctx = Inl e) \<longleftrightarrow> (\<exists>e. rfold (normalize_step ctx) evs [] = Inl e)"
    by (cases "rfold (normalize_step ctx) evs []") (simp_all add: normalize_def)
  moreover have "(\<exists>e. event_verdict ctx ev = Fail e) \<longleftrightarrow>
      fs_of (ev_raw ev) \<noteq> None \<and> nc_pkgDirs ctx (ev_pkg ev) = None \<and>
      ev_pkg ev \<noteq> ''<unattributed>'' \<and> \<not> claimsRoot ctx (ev_pkg ev) \<and>
      (let os = (case nc_os ctx of None \<Rightarrow> Linux | Some os \<Rightarrow> os)
       in \<not> isSystemNoise (ev_raw ev) (event_fs_path os (ev_raw ev)) os
             (canonicalizeTokenizeRoots (nc_roots ctx)))" for ev
    by (simp add: event_verdict_def Let_def)
  ultimately show ?thesis by (simp only: loop_fails_iff)
qed

section \<open>Spawns\<close>

lemma unwrap_shorter: "unwrapShC c = Some d \<Longrightarrow> length d < length c"
  by (auto simp: unwrapShC_def Let_def starts_with_iff split: if_splits)

text \<open>Following the \<^verbatim>\<open>sh -c\<close> wrappers down from a recorded command ends at a command that is kept.\<close>

lemma unwrapped_kept:
  assumes "c \<in> directCommands b"
  shows "\<exists>n d. anc unwrapShC n c = Some d \<and>
     (d \<in> set (get_field FSpawnAttempts (finish_block b)) \<or>
      (\<exists>e \<in> set (get_field FSpawnBlocked (finish_block b)). parseBlockedSpawn e = Some d))"
  using assms
proof (induction "length c" arbitrary: c rule: less_induct)
  case less
  show ?case
  proof (cases "wrapper_is_redundant (directCommands b) c")
    case True
    then obtain d where d: "unwrapShC c = Some d" "d \<in> directCommands b"
      by (auto simp: wrapper_is_redundant_def split: option.splits)
    from less.hyps [OF unwrap_shorter [OF d(1)] d(2)] obtain n e where "anc unwrapShC n d = Some e"
      "e \<in> set (get_field FSpawnAttempts (finish_block b)) \<or>
       (\<exists>x \<in> set (get_field FSpawnBlocked (finish_block b)). parseBlockedSpawn x = Some e)"
      by blast
    moreover from this(1) d(1) have "anc unwrapShC (Suc n) c = Some e" by simp
    ultimately show ?thesis by blast
  next
    case False
    have "c \<in> set (get_field FSpawnAttempts (finish_block b)) \<or>
      (\<exists>e \<in> set (get_field FSpawnBlocked (finish_block b)). parseBlockedSpawn e = Some c)"
    proof -
      from less.prems consider "c \<in> set (spawn_attempts b)"
        | e where "e \<in> set (spawn_blocked b)" "parseBlockedSpawn e = Some c"
        unfolding directCommands_iff by blast
      then show ?thesis
        by cases (use False in \<open>auto simp: finish_block_def get_drop_wrappers cs.canon_set\<close>)
    qed
    moreover have "anc unwrapShC 0 c = Some c" by simp
    ultimately show ?thesis by blast
  qed
qed

text \<open>C17: dropping redundant shell wrappers loses no command: when an event recorded the command
  line \<open>c\<close>, as an attempt or as a blocked spawn, then \<open>c\<close> itself or a command it wraps in
  \<^verbatim>\<open>sh -c\<close> (after some number of wrappers) is still listed for the same package and stage.\<close>

theorem spawn_never_lost:
  assumes "normalize evs ctx = Inr out" "ev \<in> set evs"
    and "records ctx ev p st FSpawnAttempts c \<or>
         (\<exists>e. records ctx ev p st FSpawnBlocked e \<and> parseBlockedSpawn e = Some c)"
  shows "\<exists>n d. anc unwrapShC n c = Some d \<and>
     (in_lock out p st FSpawnAttempts d \<or>
      (\<exists>e. in_lock out p st FSpawnBlocked e \<and> parseBlockedSpawn e = Some d))"
proof -
  from assms(3) obtain f s where fs: "records ctx ev p st f s" by blast
  obtain b where b: "block_of out p st = Some (finish_block b)"
    "\<And>g. set (get_field g b) = {s. \<exists>ev \<in> set evs. records ctx ev p st g s}"
    by (rule records_block [OF assms(1,2) fs]) (rule that)
  have "c \<in> directCommands b"
    using assms(2,3) b(2) [of FSpawnAttempts] b(2) [of FSpawnBlocked]
    unfolding directCommands_iff by auto
  from unwrapped_kept [OF this] show ?thesis by (auto simp: in_lock_def b(1))
qed

definition sample_spawn :: "string list \<Rightarrow> attributed_event" where
  "sample_spawn argv =
     \<lparr>ev_raw = SpawnEv \<lparr>sp_argv = argv, sp_result = SpawnOk, sp_pid = 7, sp_ts = 1,
        sp_audit_blind = None, sp_root_anchored = None\<rparr>,
      ev_pkg = ''dep@2'', ev_lifecycle = Install\<rparr>"

theorem spawn_never_lost_witness:
  "\<exists>out n d. normalize [sample_spawn [''sh'', ''-c'', ''ls''], sample_spawn [''ls'']] sample_ctx = Inr out \<and>
     anc unwrapShC n ''sh -c ls'' = Some d \<and>
     (in_lock out ''dep@2'' Install FSpawnAttempts d \<or>
      (\<exists>e. in_lock out ''dep@2'' Install FSpawnBlocked e \<and> parseBlockedSpawn e = Some d))"
proof -
  let ?evs = "[sample_spawn [''sh'', ''-c'', ''ls''], sample_spawn [''ls'']]"
  have "\<exists>out. normalize ?evs sample_ctx = Inr out"
    by (simp add: normalize_def normalize_step_def event_verdict_def sample_spawn_def sample_ctx_def
        isSystemNoise_def install_mode_drops_def Let_def)
  then obtain out where out: "normalize ?evs sample_ctx = Inr out" by blast
  have "records sample_ctx (sample_spawn [''sh'', ''-c'', ''ls'']) ''dep@2'' Install FSpawnAttempts ''sh -c ls''"
    by (simp add: records_iff event_verdict_def sample_spawn_def sample_ctx_def claimsRoot_def isForgedRoot_def
        isSystemNoise_def install_mode_drops_def Let_def spawn_cmd_def spawn_arg_def enumerate_eq_zip)
  with spawn_never_lost [OF out, of "sample_spawn [''sh'', ''-c'', ''ls'']"] out show ?thesis by fastforce
qed

section \<open>The shape of the lock\<close>

lemma normalize_canonical:
  assumes "normalize evs ctx = Inr out"
  shows "map_wf out \<and> (\<forall>(p, pb) \<in> set out. map_wf pb \<and> pb \<noteq> [] \<and>
     (\<forall>(st, b) \<in> set pb. \<forall>f. sorted (get_field f b) \<and> distinct (get_field f b)))"
proof -
  let ?wf = "\<lambda>out :: lock_map. map_wf out \<and> (\<forall>(p, pb) \<in> set out. map_wf pb \<and> pb \<noteq> [])"
  have put: "?wf (record_entries p st es out)" if "?wf out" for p st es out
  proof -
    define pb0 where "pb0 = (case map_of out p of Some pb \<Rightarrow> pb | None \<Rightarrow> [])"
    define pb where "pb = map_set st (push_all es (snd (getLifecycleBlock out p st))) pb0"
    have "map_wf pb0"
      using that map_of_SomeD [of out p] by (force simp: pb0_def jm.wf_empty split: option.splits)
    then have "map_wf pb" by (simp add: pb_def jm.wf_put)
    moreover have "record_entries p st es out = map_set p pb out"
      by (simp add: record_entries_def getLifecycleBlock_def pb_def pb0_def Let_def)
    moreover have "pb \<noteq> []" by (simp add: pb_def)
    ultimately show ?thesis
      using that set_map_set [of p pb out] by (auto simp: jm.wf_put)
  qed
  have loop: "?wf out \<Longrightarrow> rfold (normalize_step ctx) evs out = Inr out' \<Longrightarrow> ?wf out'" for evs out out'
  proof (induction evs arbitrary: out)
    case (Cons ev evs)
    show ?case
    proof (cases "event_verdict ctx ev")
      case (Record es)
      then show ?thesis
        using Cons.IH [OF put [OF Cons.prems(1)]] Cons.prems(2) by (simp add: normalize_step_simps)
    next
      case Skip
      then show ?thesis using Cons.IH [OF Cons.prems(1)] Cons.prems(2) by (simp add: normalize_step_simps)
    next
      case (Fail e)
      then show ?thesis using Cons.prems(2) by (simp add: normalize_step_simps)
    qed
  qed simp
  from assms obtain o1 where "rfold (normalize_step ctx) evs [] = Inr o1" and out: "out = finish_lock o1"
    by (cases "rfold (normalize_step ctx) evs []") (auto simp: normalize_def)
  with loop [of "[]" evs o1] have wf: "?wf o1" by (simp add: jm.wf_empty)
  have fin: "map_wf (map (\<lambda>(k, v). (k, f v)) m) = map_wf m" for f :: "'a \<Rightarrow> 'b" and m :: "('c, 'a) js_map"
    by (simp add: map_wf_def comp_def case_prod_unfold)
  from wf show ?thesis
    unfolding out by (auto simp: finish_lock_def fin finish_block_def)
qed

text \<open>C40: every list of every block is sorted by code unit and free of duplicates, every package and
  every stage occurs once, and a package is only listed with at least one stage.\<close>

theorem lock_canonical:
  assumes "normalize evs ctx = Inr out"
  shows "map_wf out \<and> (\<forall>(p, pb) \<in> set out. map_wf pb \<and> pb \<noteq> [] \<and>
     (\<forall>(st, b) \<in> set pb. \<forall>f. sorted (get_field f b) \<and> distinct (get_field f b)))"
  using assms by (rule normalize_canonical)

theorem lock_canonical_witness:
  "\<exists>out. normalize [sample_env_event ''A'' None] sample_ctx = Inr out \<and> map_wf out"
  using lock_canonical [OF sample_normalize] sample_normalize by auto

end
