(* ===== verification/Render.thy ===== *)
theory Render
  imports Normalize
begin

text \<open>
  The rendering of the lock: \<^verbatim>\<open>src/lock/render.ts\<close>. The document handed to the YAML library is a
  \<open>yaml\<close> value; the library's \<^verbatim>\<open>stringify\<close> is a parameter. An object is the list of its own properties in
  their order. The object of the packages is a plain one with keys that the run chose: assigning
  \<^verbatim>\<open>__proto__\<close> sets its prototype and adds no property, and keys that are array indices come first.
\<close>

section \<open>Documents\<close>

datatype yaml =
    YNull
  | YBool bool
  | YNum int
  | YStr string
  | YArr "yaml list"
  | YObj "(string \<times> yaml) list"

fun field_name :: "block_field \<Rightarrow> string" where
  "field_name FExternalReads = ''external_reads''"
| "field_name FEscapedWrites = ''escaped_writes''"
| "field_name FEnvRead = ''env_read''"
| "field_name FSpawnAttempts = ''spawn_attempts''"
| "field_name FSpawnBlocked = ''spawn_blocked''"
| "field_name FDlopenAttempts = ''dlopen_attempts''"
| "field_name FNetworkAttempts = ''network_attempts''"
| "field_name FAuditBypass = ''audit_bypass''"
| "field_name FEnvTamper = ''env_tamper''"

lemma field_name_inject [simp]: "field_name f = field_name g \<longleftrightarrow> f = g"
  by (cases f; cases g) simp_all

section \<open>The renderer\<close>

definition LIFECYCLE_ORDER :: "string list" where
  "LIFECYCLE_ORDER = [''preinstall'', ''install'', ''postinstall'', ''prepare'']"

definition EMPTY_LIST_FIELDS :: "block_field list" where
  "EMPTY_LIST_FIELDS =
     [FExternalReads, FEscapedWrites, FEnvRead, FSpawnAttempts, FSpawnBlocked, FDlopenAttempts,
      FNetworkAttempts]"

definition OPTIONAL_LIST_FIELDS :: "block_field list" where
  "OPTIONAL_LIST_FIELDS = [FAuditBypass, FEnvTamper]"

datatype manager = Npm | Pnpm | Yarn

fun manager_name :: "manager \<Rightarrow> string" where
  "manager_name Npm = ''npm''"
| "manager_name Pnpm = ''pnpm''"
| "manager_name Yarn = ''yarn''"

record render_input =
  ri_manager :: manager
  ri_manager_lockfile_sha256 :: string
  ri_node_version :: string
  ri_generated_at :: string
  ri_packages :: lock_map

definition yaml_strings :: "string list \<Rightarrow> yaml" where
  "yaml_strings xs = YArr (map YStr xs)"

definition renderBlock :: "lifecycle_block \<Rightarrow> yaml" where
  "renderBlock block =
     YObj (fold (\<lambda>f out. if get_field f block \<noteq> []
                          then map_set (field_name f) (yaml_strings (get_field f block)) out else out)
             OPTIONAL_LIST_FIELDS
             (fold (\<lambda>f out. map_set (field_name f) (yaml_strings (get_field f block)) out)
                EMPTY_LIST_FIELDS []))"

text \<open>\<^verbatim>\<open>indexOf\<close>, with \<^verbatim>\<open>99\<close> for a stage that is not listed.\<close>

definition stage_rank :: "string \<Rightarrow> nat" where
  "stage_rank s =
     (case find (\<lambda>i. LIFECYCLE_ORDER ! i = s) [0 ..< length LIFECYCLE_ORDER] of
        Some i \<Rightarrow> i | None \<Rightarrow> 99)"

definition renderPackage :: "package_block \<Rightarrow> yaml" where
  "renderPackage pkg =
     (let stages = sort_key (\<lambda>st. stage_rank (stage_name st)) (map fst pkg)
      in YObj [(''lifecycle'',
           YObj (fold (\<lambda>st out. case map_of pkg st of
                                   None \<Rightarrow> out
                                 | Some block \<Rightarrow> map_set (stage_name st) (renderBlock block) out)
                   stages []))])"

record stringify_options =
  so_indent :: nat
  so_lineWidth :: nat
  so_minContentWidth :: nat
  so_defaultStringType :: string
  so_defaultKeyType :: string
  so_sortMapEntries :: bool

definition render_options :: stringify_options where
  "render_options =
     \<lparr>so_indent = 2, so_lineWidth = 0, so_minContentWidth = 0, so_defaultStringType = ''PLAIN'',
      so_defaultKeyType = ''PLAIN'', so_sortMapEntries = False\<rparr>"

text \<open>\<^verbatim>\<open>out[k] = v\<close> on a plain object: the own properties afterwards.\<close>

definition obj_set :: "string \<Rightarrow> 'v \<Rightarrow> (string, 'v) js_map \<Rightarrow> (string, 'v) js_map" where
  "obj_set k v out = (if k = ''__proto__'' then out else map_set k v out)"

text \<open>The order in which JavaScript lists the own properties of an object that got them in a given
  order: array indices first, by number.\<close>

definition is_index :: "string \<Rightarrow> bool" where
  "is_index k =
     (k \<noteq> [] \<and> list_all is_digit k \<and> (k = ''0'' \<or> hd k \<noteq> CHR ''0'') \<and> digits_val 10 k < 4294967295)"

definition own_order :: "(string \<times> 'v) list \<Rightarrow> (string \<times> 'v) list" where
  "own_order kvs =
     sort_key (\<lambda>p. digits_val 10 (fst p)) (filter (\<lambda>p. is_index (fst p)) kvs) @
     filter (\<lambda>p. \<not> is_index (fst p)) kvs"

definition render_packages :: "lock_map \<Rightarrow> (string \<times> yaml) list" where
  "render_packages pkgs =
     own_order (fold (\<lambda>k out. case map_of pkgs k of
                                 None \<Rightarrow> out
                               | Some pkg \<Rightarrow> obj_set k (renderPackage pkg) out)
       (sort (map fst pkgs)) [])"

definition render_doc :: "render_input \<Rightarrow> yaml" where
  "render_doc input =
     YObj [(''schema_version'', YNum 1),
           (''manager'', YStr (manager_name (ri_manager input))),
           (''manager_lockfile_sha256'', YStr (ri_manager_lockfile_sha256 input)),
           (''node_version'', YStr (ri_node_version input)),
           (''generated_at'', YStr (ri_generated_at input)),
           (''packages'', YObj (render_packages (ri_packages input)))]"

definition render :: "(yaml \<Rightarrow> stringify_options \<Rightarrow> string) \<Rightarrow> render_input \<Rightarrow> string" where
  "render stringify input = stringify (render_doc input) render_options"

section \<open>Rendered objects\<close>

text \<open>Building an object key by key, in a given order, from a lookup.\<close>

lemma fold_put_new:
  assumes "distinct (map key ks)" "inj_on key (set ks)"
    and "\<And>k. k \<in> set ks \<Longrightarrow> key k \<notin> set (map fst out)"
  shows "fold (\<lambda>k out. case look k of None \<Rightarrow> out | Some v \<Rightarrow> map_set (key k) (rend v) out) ks out =
     out @ List.map_filter (\<lambda>k. map_option (\<lambda>v. (key k, rend v)) (look k)) ks"
  using assms
proof (induction ks arbitrary: out)
  case (Cons k ks)
  have new: "map_set (key k) v out = out @ [(key k, v)]" for v
    using Cons.prems(3) [of k] by (induction out) auto
  show ?case
  proof (cases "look k")
    case None
    with Cons show ?thesis by (simp add: List.map_filter_simps)
  next
    case (Some v)
    have "key j \<notin> set (map fst (out @ [(key k, rend v)]))" if "j \<in> set ks" for j
      using Cons.prems that by (auto simp: inj_on_def)
    with Cons.IH [of "out @ [(key k, rend v)]"] Cons.prems Some new show ?thesis
      by (simp add: List.map_filter_simps)
  qed
qed (simp add: List.map_filter_simps)

lemma map_filter_cong_look:
  "(\<And>k. k \<in> set ks \<Longrightarrow> look k = look' k) \<Longrightarrow> List.map_filter look ks = List.map_filter look' ks"
  by (induction ks) (simp_all add: List.map_filter_simps split: option.splits)

text \<open>The renderer reads a block map only through its lookups: the order of insertion is lost.\<close>

lemma stage_rank_inject: "stage_rank (stage_name a) = stage_rank (stage_name b) \<longleftrightarrow> a = b"
  by (cases a; cases b) (simp_all add: stage_rank_def LIFECYCLE_ORDER_def)

lemma set_keys_lookup: "set (map fst m) = {k. map_of m k \<noteq> None}"
  by (induction m) auto

lemma sorted_keys_cong:
  assumes same: "set ks = set ks'" and dist: "distinct ks" "distinct ks'" and "inj rank"
  shows "sort_key rank ks = sort_key (rank :: 'a \<Rightarrow> 'b::linorder) ks'"
proof -
  have "distinct (map rank (sort_key rank ks))" "distinct (map rank (sort_key rank ks'))"
    using dist inj_on_subset [OF \<open>inj rank\<close> subset_UNIV] by (simp_all add: distinct_map)
  moreover have "set (map rank (sort_key rank ks)) = set (map rank (sort_key rank ks'))"
    using same by simp
  ultimately have "map rank (sort_key rank ks) = map rank (sort_key rank ks')"
    by (intro sorted_distinct_set_unique) simp_all
  with \<open>inj rank\<close> show ?thesis by (simp add: inj_map_eq_map)
qed

lemma fold_put_lookup:
  assumes "distinct ks" "inj key"
  shows "fold (\<lambda>k out. case look k of None \<Rightarrow> out | Some v \<Rightarrow> map_set (key k) (rend v) out) ks [] =
     List.map_filter (\<lambda>k. map_option (\<lambda>v. (key k, rend v)) (look k)) ks"
  using assms by (subst fold_put_new) (auto simp: distinct_map intro: inj_on_subset)

lemma inj_stage_rank: "inj (\<lambda>st. stage_rank (stage_name st))"
  by (rule injI) (simp add: stage_rank_inject)

lemma renderPackage_cong:
  assumes "map_wf pb" "map_wf pb'" "map_of pb = map_of pb'"
  shows "renderPackage pb = renderPackage pb'"
proof -
  have "sort_key (\<lambda>st. stage_rank (stage_name st)) (map fst pb) =
      sort_key (\<lambda>st. stage_rank (stage_name st)) (map fst pb')"
    using assms by (intro sorted_keys_cong inj_stage_rank)
      (auto simp: map_wf_def set_keys_lookup simp del: set_map)
  with assms(3) show ?thesis by (simp add: renderPackage_def)
qed

lemma set_own_order [simp]: "set (own_order kvs) = set kvs"
  by (auto simp: own_order_def)

lemma fold_obj_set:
  "fold (\<lambda>k out. case look k of None \<Rightarrow> out | Some v \<Rightarrow> obj_set k (rend v) out) ks out =
   fold (\<lambda>k out. case look k of None \<Rightarrow> out | Some v \<Rightarrow> map_set k (rend v) out)
     (filter (\<lambda>k. k \<noteq> ''__proto__'') ks) out"
  by (induction ks arbitrary: out) (simp_all add: obj_set_def split: option.splits)

lemma render_packages_form:
  "map_wf pkgs \<Longrightarrow> render_packages pkgs =
     own_order (List.map_filter (\<lambda>k. map_option (\<lambda>pkg. (k, renderPackage pkg)) (map_of pkgs k))
       (filter (\<lambda>k. k \<noteq> ''__proto__'') (sort (map fst pkgs))))"
  unfolding render_packages_def map_wf_def fold_obj_set
  using fold_put_lookup [where ks = "filter (\<lambda>k. k \<noteq> ''__proto__'') (sort (map fst pkgs))" and key = "\<lambda>k. k"
      and look = "map_of pkgs" and rend = renderPackage]
  by simp

lemma render_packages_cong:
  assumes wf: "map_wf m" "map_wf m'" "\<forall>(p, pb) \<in> set m. map_wf pb \<and> pb \<noteq> []"
    "\<forall>(p, pb) \<in> set m'. map_wf pb \<and> pb \<noteq> []"
    and same: "block_of m = block_of m'"
  shows "render_packages m = render_packages m'"
proof -
  have look: "map_option renderPackage (map_of m p) = map_option renderPackage (map_of m' p)" for p
  proof -
    have wfp: "map_wf pb \<and> pb \<noteq> []" if "map_of m p = Some pb \<or> map_of m' p = Some pb" for pb
      using that wf(3,4) map_of_SomeD by fastforce
    have look_block: "block_of n p = (case map_of n p of None \<Rightarrow> (\<lambda>_. None) | Some pb \<Rightarrow> map_of pb)" for n
      by (auto simp: block_of_def split: option.splits)
    have nonempty: "map_of pb \<noteq> (\<lambda>_. None)" if "pb \<noteq> []" for pb :: package_block
      using that by (cases pb) (auto simp: fun_eq_iff)
    have b: "block_of m p = block_of m' p" using same by simp
    show ?thesis
    proof (cases "map_of m p"; cases "map_of m' p")
      fix pb pb' assume "map_of m p = Some pb" "map_of m' p = Some pb'"
      with b wfp [of pb] wfp [of pb'] show ?thesis
        by (simp add: look_block renderPackage_cong)
    qed (use b wfp nonempty in \<open>auto simp: look_block\<close>)
  qed
  have "k \<in> set (map fst m) \<longleftrightarrow> k \<in> set (map fst m')" for k
    unfolding set_keys_lookup using look [of k] by (metis (mono_tags) mem_Collect_eq option.map_disc_iff)
  then have "set (map fst m) = set (map fst m')" by blast
  then have "sort (map fst m) = sort (map fst m')"
    using wf(1,2) by (simp add: map_wf_def sort_distinct_cong)
  moreover have "map_option (\<lambda>pkg. (k, renderPackage pkg)) (map_of m k) =
      map_option (\<lambda>pkg. (k, renderPackage pkg)) (map_of m' k)" for k
    using look [of k] by (cases "map_of m k"; cases "map_of m' k") simp_all
  ultimately show ?thesis
    using wf(1,2) by (simp add: render_packages_form)
qed

section \<open>Byte stability\<close>

text \<open>The lock of a run: the events are normalised, then rendered with the run's other fields.\<close>

definition lock_text ::
  "(yaml \<Rightarrow> stringify_options \<Rightarrow> string) \<Rightarrow> render_input \<Rightarrow> attributed_event list \<Rightarrow> normalize_context
    \<Rightarrow> string option" where
  "lock_text stringify input evs ctx =
     (case normalize evs ctx of
        Inl _ \<Rightarrow> None
      | Inr out \<Rightarrow> Some (render stringify (input\<lparr>ri_packages := out\<rparr>)))"

text \<open>C14: the lock is byte-stable: two traces with the same set of events, in any order and with any
  repetition, render to the same text (or both make the run throw), whatever the YAML library
  makes of the document.\<close>

theorem lock_byte_stable:
  assumes "set evs = set evs'"
  shows "lock_text stringify input evs ctx = lock_text stringify input evs' ctx"
proof (cases "normalize evs ctx"; cases "normalize evs' ctx")
  fix out out' assume n: "normalize evs ctx = Inr out" "normalize evs' ctx = Inr out'"
  with normalize_set_cong [OF assms, of ctx] have same: "block_of out = block_of out'" by simp
  have "render_packages out = render_packages out'"
    by (rule render_packages_cong [OF _ _ _ _ same])
      (use normalize_canonical [OF n(1)] normalize_canonical [OF n(2)] in auto)
  with n show ?thesis by (simp add: lock_text_def render_def render_doc_def)
qed (use normalize_set_cong [OF assms, of ctx] in \<open>simp_all add: lock_text_def\<close>)

definition sample_input :: render_input where
  "sample_input =
     \<lparr>ri_manager = Npm, ri_manager_lockfile_sha256 = ''00'', ri_node_version = ''v20'',
      ri_generated_at = ''now'', ri_packages = []\<rparr>"

theorem lock_byte_stable_witness:
  "set [sample_env_event ''A'' None, sample_env_event ''B'' None, sample_env_event ''A'' None] =
     set [sample_env_event ''B'' None, sample_env_event ''A'' None] \<and>
   lock_text (\<lambda>_ _. ''text'') sample_input
     [sample_env_event ''A'' None, sample_env_event ''B'' None, sample_env_event ''A'' None] sample_ctx =
   lock_text (\<lambda>_ _. ''text'') sample_input
     [sample_env_event ''B'' None, sample_env_event ''A'' None] sample_ctx"
proof -
  have s: "set [sample_env_event ''A'' None, sample_env_event ''B'' None, sample_env_event ''A'' None] =
     set [sample_env_event ''B'' None, sample_env_event ''A'' None]" by auto
  show ?thesis by (rule conjI [OF s]) (rule lock_byte_stable [OF s])
qed

end
