(* ===== verification/DiffGate.thy ===== *)
theory DiffGate
  imports Render
begin

text \<open>
  What the host does with the generated lock: \<^verbatim>\<open>src/action/diff.ts\<close>. The comparison that ignores the
  two volatile fields, the annotations of a drift, the gate on \<^verbatim>\<open>audit_bypass\<close> entries and the
  egress warning. The YAML parser and the diff library are parameters; the schema the parsed
  document is checked against first is translated from \<^verbatim>\<open>src/lock/schema.ts\<close>.
\<close>

section \<open>Volatile fields\<close>

text \<open>A line terminator of JavaScript regular expressions, in Latin-1.\<close>

definition is_term :: "char \<Rightarrow> bool" where
  "is_term c = (c = CHR 0x0A \<or> c = CHR 0x0D)"

text \<open>What the replacement does to one line.\<close>

definition canon_line :: "string \<Rightarrow> string" where
  "canon_line l =
     (if starts_with l ''generated_at:'' then ''generated_at: <canonicalized>''
      else if starts_with l ''manager_lockfile_sha256:'' then ''manager_lockfile_sha256: <canonicalized>''
      else l)"

function canonicalizeVolatileFields :: "string \<Rightarrow> string" where
  "canonicalizeVolatileFields s =
     (let l = takeWhile (\<lambda>c. \<not> is_term c) s
      in case drop (length l) s of
           [] \<Rightarrow> canon_line l
         | t # r \<Rightarrow> canon_line l @ t # canonicalizeVolatileFields r)"
  by pat_completeness auto
termination
  by (relation "measure length") (auto simp: Let_def dest!: arg_cong [where f = length])

declare canonicalizeVolatileFields.simps [simp del]

section \<open>The diff\<close>

record diff_result =
  dr_unified :: string
  dr_annotations :: "string list"
  dr_match :: bool

record hunk =
  hk_newStart :: int
  hk_lines :: "string list"

text \<open>The em dash of the messages is outside Latin-1; its UTF-8 bytes stand for it.\<close>

definition em_dash :: string where
  "em_dash = [CHR 0xE2, CHR 0x80, CHR 0x94]"

definition countLines :: "string \<Rightarrow> nat" where
  "countLines s =
     (if s = [] then 0
      else length (filter (\<lambda>c. c = CHR 0x0A) s) + (if last s \<noteq> CHR 0x0A then 1 else 0))"

definition hunk_annotation :: "string \<Rightarrow> hunk \<Rightarrow> string" where
  "hunk_annotation lockPath h =
     (let added = length (filter (\<lambda>l. case l of c # _ \<Rightarrow> c = CHR ''+'' | [] \<Rightarrow> False) (hk_lines h));
          removed = length (filter (\<lambda>l. case l of c # _ \<Rightarrow> c = CHR ''-'' | [] \<Rightarrow> False) (hk_lines h));
          startLine = max 1 (hk_newStart h)
      in ''::error file='' @ lockPath @ '',line='' @ int_str startLine @ ''::lockfile drifted ('' @
         nat_str added @ '' lines added, '' @ nat_str removed @ '' lines removed in this hunk)'')"

definition renderDiff ::
  "(string \<Rightarrow> string \<Rightarrow> string \<Rightarrow> string \<Rightarrow> nat \<Rightarrow> string)
   \<Rightarrow> (string \<Rightarrow> string \<Rightarrow> string \<Rightarrow> string \<Rightarrow> nat \<Rightarrow> hunk list)
   \<Rightarrow> string \<Rightarrow> string \<Rightarrow> string \<Rightarrow> diff_result" where
  "renderDiff createTwoFilesPatch structuredPatch lockPath committed generated =
     (if committed = generated then \<lparr>dr_unified = [], dr_annotations = [], dr_match = True\<rparr>
      else if canonicalizeVolatileFields committed = canonicalizeVolatileFields generated
      then \<lparr>dr_unified = [], dr_annotations = [], dr_match = True\<rparr>
      else (let oldLabel = ''a/'' @ lockPath; newLabel = ''b/'' @ lockPath;
                unified = createTwoFilesPatch oldLabel newLabel committed generated 3
            in if committed = []
               then \<lparr>dr_unified = unified,
                     dr_annotations =
                       [''::error file='' @ lockPath @ '',line=1::lockfile missing '' @ em_dash @
                        '' would be created ('' @ nat_str (countLines generated) @ '' lines)''],
                     dr_match = False\<rparr>
               else \<lparr>dr_unified = unified,
                     dr_annotations = map (hunk_annotation lockPath)
                       (structuredPatch oldLabel newLabel committed generated 3),
                     dr_match = False\<rparr>))"

section \<open>The schema of the document\<close>

fun is_str :: "yaml \<Rightarrow> bool" where
  "is_str (YStr _) = True"
| "is_str _ = False"

fun is_object :: "yaml \<Rightarrow> bool" where
  "is_object (YArr _) = True"
| "is_object (YObj _) = True"
| "is_object _ = False"

fun js_prop :: "yaml \<Rightarrow> string \<Rightarrow> yaml option" where
  "js_prop (YObj kvs) k = map_of kvs k"
| "js_prop _ k = None"

text \<open>\<^verbatim>\<open>Object.entries\<close>; the keys of an array are its indices.\<close>

fun js_entries :: "yaml \<Rightarrow> (string \<times> yaml) list" where
  "js_entries (YObj kvs) = kvs"
| "js_entries (YArr vs) = map (\<lambda>(i, v). (nat_str i, v)) (enumerate 0 vs)"
| "js_entries _ = []"

text \<open>\<^verbatim>\<open>z.array(z.string()).default([])\<close>: an absent list is empty.\<close>

fun zod_strings :: "yaml option \<Rightarrow> yaml option" where
  "zod_strings None = Some (YArr [])"
| "zod_strings (Some (YArr vs)) = (if list_all is_str vs then Some (YArr vs) else None)"
| "zod_strings (Some _) = None"

text \<open>\<^verbatim>\<open>z.object\<close> keeps the keys of its shape and no other.\<close>

definition zod_block :: "yaml \<Rightarrow> yaml option" where
  "zod_block y =
     (case y of
        YObj kvs \<Rightarrow>
          map_option YObj
            (those (map (\<lambda>f. map_option (Pair (field_name f)) (zod_strings (map_of kvs (field_name f))))
                      lock_fields))
      | _ \<Rightarrow> None)"

text \<open>\<^verbatim>\<open>z.record\<close> neither checks nor keeps a property called \<^verbatim>\<open>__proto__\<close>.\<close>

definition zod_record :: "(yaml \<Rightarrow> yaml option) \<Rightarrow> yaml \<Rightarrow> yaml option" where
  "zod_record f y =
     (case y of
        YObj kvs \<Rightarrow> map_option YObj (those (map (\<lambda>(k, v). map_option (Pair k) (f v)) (filter (\<lambda>(k, _). k \<noteq> ''__proto__'') kvs)))
      | _ \<Rightarrow> None)"

definition zod_package :: "yaml \<Rightarrow> yaml option" where
  "zod_package y =
     (case y of
        YObj kvs \<Rightarrow>
          (case map_of kvs ''lifecycle'' of
             None \<Rightarrow> None
           | Some l \<Rightarrow> map_option (\<lambda>l. YObj [(''lifecycle'', l)]) (zod_record zod_block l))
      | _ \<Rightarrow> None)"

text \<open>\<^verbatim>\<open>Lock.safeParse(doc)\<close>: the packages of the parsed data, when the document is valid.\<close>

definition Lock_safeParse :: "yaml \<Rightarrow> yaml option" where
  "Lock_safeParse doc =
     (case doc of
        YObj kvs \<Rightarrow>
          if map_of kvs ''schema_version'' = Some (YNum 1) \<and>
             map_of kvs ''manager'' \<in> set (map (Some \<circ> YStr) [''npm'', ''pnpm'', ''yarn'']) \<and>
             list_all (\<lambda>k. case map_of kvs k of None \<Rightarrow> False | Some v \<Rightarrow> is_str v)
               [''manager_lockfile_sha256'', ''node_version'', ''generated_at'']
          then (case map_of kvs ''packages'' of
                  None \<Rightarrow> None
                | Some ps \<Rightarrow> zod_record zod_package ps)
          else None
      | _ \<Rightarrow> None)"

section \<open>The scan for entries\<close>

record lock_entry =
  le_packageId :: string
  le_stage :: string
  le_entry :: string

definition string_entries :: "string \<Rightarrow> string \<Rightarrow> yaml list \<Rightarrow> lock_entry list" where
  "string_entries pkg stage vs =
     List.map_filter (\<lambda>v. case v of
         YStr e \<Rightarrow> if e \<noteq> [] then Some \<lparr>le_packageId = pkg, le_stage = stage, le_entry = e\<rparr> else None
       | _ \<Rightarrow> None) vs"

definition scan_package :: "string \<Rightarrow> string \<times> yaml \<Rightarrow> lock_entry list" where
  "scan_package field p =
     (case p of (packageId, pkgRaw) \<Rightarrow>
        if \<not> is_object pkgRaw then []
        else (case js_prop pkgRaw ''lifecycle'' of
                None \<Rightarrow> []
              | Some lifecycleRaw \<Rightarrow>
                  if \<not> is_object lifecycleRaw then []
                  else concat (map (\<lambda>(stage, blockRaw).
                         if \<not> is_object blockRaw then []
                         else (case js_prop blockRaw field of
                                 Some (YArr ab) \<Rightarrow> string_entries packageId stage ab
                               | _ \<Rightarrow> [])) (js_entries lifecycleRaw))))"

definition packages_raw :: "yaml \<Rightarrow> yaml option" where
  "packages_raw doc =
     (case Lock_safeParse doc of Some ps \<Rightarrow> Some ps | None \<Rightarrow> js_prop doc ''packages'')"

definition scan_doc :: "string \<Rightarrow> yaml \<Rightarrow> lock_entry list" where
  "scan_doc field doc =
     (if \<not> is_object doc then []
      else (case packages_raw doc of
              None \<Rightarrow> []
            | Some ps \<Rightarrow>
                if \<not> is_object ps then [] else concat (map (scan_package field) (js_entries ps))))"

definition findAuditBypass :: "(string \<Rightarrow> yaml option) \<Rightarrow> string \<Rightarrow> lock_entry list" where
  "findAuditBypass parseYaml generated =
     (case parseYaml generated of None \<Rightarrow> [] | Some doc \<Rightarrow> scan_doc ''audit_bypass'' doc)"

definition collectNetworkAttempts :: "(string \<Rightarrow> yaml option) \<Rightarrow> string \<Rightarrow> lock_entry list" where
  "collectNetworkAttempts parseYaml generated =
     (case parseYaml generated of None \<Rightarrow> [] | Some doc \<Rightarrow> scan_doc ''network_attempts'' doc)"

section \<open>Messages\<close>

definition entry_label :: "lock_entry \<Rightarrow> string" where
  "entry_label e = le_packageId e @ '' ('' @ le_stage e @ ''): '' @ le_entry e"

definition formatAuditBypassError :: "lock_entry list \<Rightarrow> string" where
  "formatAuditBypassError entries =
     ''Audit envelope was bypassed '' @ em_dash @ '' see audit_bypass entries: ['' @
     join ''; '' (map entry_label (take 10 entries)) @ '']'' @
     (if 10 < length entries then '' (+'' @ nat_str (length entries - 10) @ '' more)'' else [])"

record egress_opts =
  eo_manager :: manager
  eo_rootPackageIds :: "string set"

text \<open>The condition of the loop that splits the entries.\<close>

definition audited_only :: "egress_opts \<Rightarrow> lock_entry \<Rightarrow> bool" where
  "audited_only opts e =
     (le_stage e = ''prepare'' \<and> eo_manager opts \<noteq> Pnpm \<and> le_packageId e \<in> eo_rootPackageIds opts \<and>
      \<not> starts_with (le_entry e) ''<FORGED_ROOT> '')"

definition egress_line :: "lock_entry \<Rightarrow> string" where
  "egress_line e = ''  '' @ le_packageId e @ '' ('' @ le_stage e @ '')  '' @ le_entry e"

definition more_line :: "nat \<Rightarrow> string" where
  "more_line n = ''  (+'' @ nat_str (n - 20) @ '' more '' @ em_dash @ '' see the committed lock)''"

definition egress_summary :: "lock_entry list \<Rightarrow> string" where
  "egress_summary hostBound =
     (if hostBound \<noteq> [] then
        ''script-jail install: part 2 runs lifecycle scripts ONLINE on the host. '' @
        ''The offline audit recorded '' @ nat_str (length hostBound) @ '' network egress attempt(s) that '' @
        ''WILL now succeed (listed below). IPs are offline-audit values '' @ em_dash @ '' the host '' @
        ''may resolve different addresses; review the committed lock before trusting this install.''
      else
        ''script-jail install: part 2 runs lifecycle scripts on the host; the root '' @
        [CHR 0x60] @ ''prepare'' @ [CHR 0x60] @
        '' egress below was audited in the sandbox and will NOT run on the host.'')"

definition egress_lines :: "lock_entry list \<Rightarrow> lock_entry list \<Rightarrow> string list" where
  "egress_lines hostBound auditedOnly =
     map egress_line (take 20 hostBound) @
     (if 20 < length hostBound then [more_line (length hostBound)] else []) @
     (if auditedOnly \<noteq> [] then
        [''  audited in the sandbox; NOT run on the host (root '' @ [CHR 0x60] @ ''prepare'' @
         [CHR 0x60] @ ''):''] @
        map egress_line (take 20 auditedOnly) @
        (if 20 < length auditedOnly then [more_line (length auditedOnly)] else [])
      else [])"

text \<open>The pair of the summary and the detail.\<close>

definition formatEgressWarning :: "lock_entry list \<Rightarrow> egress_opts \<Rightarrow> string \<times> string" where
  "formatEgressWarning entries opts =
     (let auditedOnly = filter (audited_only opts) entries;
          hostBound = filter (\<lambda>e. \<not> audited_only opts e) entries
      in (egress_summary hostBound, join [CHR 0x0A] (egress_lines hostBound auditedOnly) @ [CHR 0x0A]))"

section \<open>The comparison of two locks\<close>

text \<open>The lines of a text, each with its terminator; the last one has none.\<close>

function text_lines :: "string \<Rightarrow> (string \<times> char option) list" where
  "text_lines s =
     (let l = takeWhile (\<lambda>c. \<not> is_term c) s
      in case drop (length l) s of
           [] \<Rightarrow> [(l, None)]
         | t # r \<Rightarrow> (l, Some t) # text_lines r)"
  by pat_completeness auto
termination
  by (relation "measure length") (auto simp: Let_def dest!: arg_cong [where f = length])

declare text_lines.simps [simp del]

text \<open>Two lines that only differ in the value of a volatile field.\<close>

definition same_volatile :: "string \<Rightarrow> string \<Rightarrow> bool" where
  "same_volatile l l' =
     ((starts_with l ''generated_at:'' \<and> starts_with l' ''generated_at:'') \<or>
      (starts_with l ''manager_lockfile_sha256:'' \<and> starts_with l' ''manager_lockfile_sha256:''))"

lemma canon_line_eq_iff: "canon_line l = canon_line l' \<longleftrightarrow> l = l' \<or> same_volatile l l'"
proof (cases "starts_with l ''generated_at:'' \<or> starts_with l ''manager_lockfile_sha256:''")
  case True
  then show ?thesis
    by (auto simp: canon_line_def same_volatile_def starts_with_iff)
next
  case False
  then show ?thesis
    by (auto simp: canon_line_def same_volatile_def)
qed

lemma canon_line_no_term:
  "list_all (\<lambda>c. \<not> is_term c) l \<Longrightarrow> list_all (\<lambda>c. \<not> is_term c) (canon_line l)"
  by (simp add: canon_line_def is_term_def)

lemma text_lines_step:
  "list_all (\<lambda>c. \<not> is_term c) l \<Longrightarrow> is_term t \<Longrightarrow> text_lines (l @ t # r) = (l, Some t) # text_lines r"
  "list_all (\<lambda>c. \<not> is_term c) l \<Longrightarrow> text_lines l = [(l, None)]"
proof -
  assume l: "list_all (\<lambda>c. \<not> is_term c) l"
  then have [simp]: "takeWhile (\<lambda>c. \<not> is_term c) l = l" by (simp add: list_all_iff)
  then show "text_lines l = [(l, None)]" by (subst text_lines.simps) (simp add: Let_def)
  assume "is_term t"
  with l have "takeWhile (\<lambda>c. \<not> is_term c) (l @ t # r) = l"
    by (simp add: list_all_iff takeWhile_append)
  then show "text_lines (l @ t # r) = (l, Some t) # text_lines r"
    by (subst text_lines.simps) simp
qed

lemma line_cases:
  obtains (last) "list_all (\<lambda>c. \<not> is_term c) s"
    | (step) l t r where "s = l @ t # r" "list_all (\<lambda>c. \<not> is_term c) l" "is_term t"
proof (cases "list_all (\<lambda>c. \<not> is_term c) s")
  case False
  define l where "l = takeWhile (\<lambda>c. \<not> is_term c) s"
  from False obtain t r where "dropWhile (\<lambda>c. \<not> is_term c) s = t # r"
    by (cases "dropWhile (\<lambda>c. \<not> is_term c) s") (auto simp: list_all_iff dropWhile_eq_Nil_conv)
  moreover from this have "is_term t" by (metis hd_dropWhile list.distinct(1) list.sel(1))
  moreover have "list_all (\<lambda>c. \<not> is_term c) l"
    unfolding l_def list_all_iff by (auto dest: set_takeWhileD)
  ultimately show ?thesis
    using step [of l t r] takeWhile_dropWhile_id [of "\<lambda>c. \<not> is_term c" s] by (simp add: l_def)
qed (use last in blast)

lemma canonicalize_step:
  "list_all (\<lambda>c. \<not> is_term c) l \<Longrightarrow> is_term t \<Longrightarrow>
   canonicalizeVolatileFields (l @ t # r) = canon_line l @ t # canonicalizeVolatileFields r"
  "list_all (\<lambda>c. \<not> is_term c) l \<Longrightarrow> canonicalizeVolatileFields l = canon_line l"
proof -
  assume l: "list_all (\<lambda>c. \<not> is_term c) l"
  then have [simp]: "takeWhile (\<lambda>c. \<not> is_term c) l = l" by (simp add: list_all_iff)
  then show "canonicalizeVolatileFields l = canon_line l"
    by (subst canonicalizeVolatileFields.simps) (simp add: Let_def)
  assume "is_term t"
  with l have "takeWhile (\<lambda>c. \<not> is_term c) (l @ t # r) = l"
    by (simp add: list_all_iff takeWhile_append)
  then show "canonicalizeVolatileFields (l @ t # r) = canon_line l @ t # canonicalizeVolatileFields r"
    by (subst canonicalizeVolatileFields.simps) simp
qed

lemma text_lines_canonicalize:
  "text_lines (canonicalizeVolatileFields s) = map (\<lambda>(l, t). (canon_line l, t)) (text_lines s)"
proof (induction "length s" arbitrary: s rule: less_induct)
  case less
  show ?case
  proof (cases s rule: line_cases)
    case last
    then show ?thesis by (simp add: text_lines_step canonicalize_step canon_line_no_term)
  next
    case (step l t r)
    with less.hyps [of r] show ?thesis
      by (simp add: text_lines_step canonicalize_step canon_line_no_term)
  qed
qed

lemma text_lines_inject: "text_lines a = text_lines b \<Longrightarrow> a = b"
proof (induction "length a" arbitrary: a b rule: less_induct)
  case less
  show ?case
  proof (cases a rule: line_cases)
    case last
    with less.prems show ?thesis by (cases b rule: line_cases) (simp_all add: text_lines_step)
  next
    case (step l t r)
    note a = this
    with less show ?thesis by (cases b rule: line_cases) (auto simp: text_lines_step)
  qed
qed

lemma canonicalize_eq_iff:
  "canonicalizeVolatileFields a = canonicalizeVolatileFields b \<longleftrightarrow>
   list_all2 (\<lambda>(l, t) (l', t'). t = t' \<and> (l = l' \<or> same_volatile l l')) (text_lines a) (text_lines b)"
proof -
  have "canonicalizeVolatileFields a = canonicalizeVolatileFields b \<longleftrightarrow>
      map (\<lambda>(l, t). (canon_line l, t)) (text_lines a) = map (\<lambda>(l, t). (canon_line l, t)) (text_lines b)"
    using text_lines_inject text_lines_canonicalize by metis
  also have "\<dots> \<longleftrightarrow> list_all2 (\<lambda>p q. (case p of (l, t) \<Rightarrow> (canon_line l, t)) =
      (case q of (l, t) \<Rightarrow> (canon_line l, t))) (text_lines a) (text_lines b)"
    by (auto simp: list_eq_iff_nth_eq list_all2_conv_all_nth)
  also have "\<dots> \<longleftrightarrow> list_all2 (\<lambda>(l, t) (l', t'). t = t' \<and> (l = l' \<or> same_volatile l l'))
      (text_lines a) (text_lines b)"
    by (rule arg_cong [where f = "\<lambda>R. list_all2 R (text_lines a) (text_lines b)"])
      (auto simp: canon_line_eq_iff fun_eq_iff)
  finally show ?thesis .
qed

text \<open>Two locks match exactly when they have the same lines, terminators included, up to the
  values of the two volatile fields at the start of a line: every other change is a drift, whatever
  the diff library returns, and a match shows nothing.\<close>

theorem match_iff_same_lines:
  "dr_match (renderDiff patch hunks lockPath committed generated) \<longleftrightarrow>
   list_all2 (\<lambda>(l, t) (l', t'). t = t' \<and> (l = l' \<or> same_volatile l l'))
     (text_lines committed) (text_lines generated)"
  unfolding canonicalize_eq_iff [symmetric] by (simp add: renderDiff_def Let_def)

section \<open>The scan is exact\<close>

text \<open>The entry \<open>e\<close> is a non-empty string of the list \<open>field\<close> of the stage \<open>st\<close> of the package \<open>p\<close>.\<close>

definition entry_at :: "string \<Rightarrow> yaml \<Rightarrow> string \<Rightarrow> string \<Rightarrow> string \<Rightarrow> bool" where
  "entry_at field ps p st e \<longleftrightarrow>
     (\<exists>pkg lc blk ab. (p, pkg) \<in> set (js_entries ps) \<and> js_prop pkg ''lifecycle'' = Some lc \<and>
        (st, blk) \<in> set (js_entries lc) \<and> js_prop blk field = Some (YArr ab) \<and>
        YStr e \<in> set ab \<and> e \<noteq> [])"

definition mk_entry :: "string \<Rightarrow> string \<Rightarrow> string \<Rightarrow> lock_entry" where
  "mk_entry p st e = \<lparr>le_packageId = p, le_stage = st, le_entry = e\<rparr>"

lemma mk_entry_inject [simp]: "mk_entry p st e = mk_entry p' st' e' \<longleftrightarrow> p = p' \<and> st = st' \<and> e = e'"
  by (simp add: mk_entry_def)

lemma those_Some_iff: "those xs = Some ys \<longleftrightarrow> xs = map Some ys"
proof (induction xs arbitrary: ys)
  case (Cons x xs)
  then show ?case by (cases x; cases ys) auto
qed auto

lemma not_object: "\<not> is_object y \<Longrightarrow> js_prop y k = None \<and> js_entries y = []"
  by (cases y) simp_all

lemma string_entries_mem:
  "mk_entry p st e \<in> set (string_entries p' st' vs) \<longleftrightarrow>
     p' = p \<and> st' = st \<and> YStr e \<in> set vs \<and> e \<noteq> []"
proof (induction vs)
  case (Cons v vs)
  then show ?case
    by (cases v) (auto simp: string_entries_def mk_entry_def List.map_filter_simps)
qed (simp add: string_entries_def List.map_filter_simps)

lemma bex_pair: "(\<exists>x \<in> set xs. P x) \<longleftrightarrow> (\<exists>a b. (a, b) \<in> set xs \<and> P (a, b))"
  by auto

lemma scan_package_mem:
  "mk_entry p st e \<in> set (scan_package field (p', pkg)) \<longleftrightarrow>
     p' = p \<and> (\<exists>lc blk ab. js_prop pkg ''lifecycle'' = Some lc \<and> (st, blk) \<in> set (js_entries lc) \<and>
        js_prop blk field = Some (YArr ab) \<and> YStr e \<in> set ab \<and> e \<noteq> [])"
proof (cases "js_prop pkg ''lifecycle''")
  case (Some lc)
  then have obj: "is_object pkg" using not_object by fastforce
  let ?blk = "\<lambda>(stage, blockRaw). if \<not> is_object blockRaw then []
      else (case js_prop blockRaw field of Some (YArr ab) \<Rightarrow> string_entries p' stage ab | _ \<Rightarrow> [])"
  have blk: "mk_entry p st e \<in> set (?blk (st', b)) \<longleftrightarrow>
      p' = p \<and> st' = st \<and> (\<exists>ab. js_prop b field = Some (YArr ab) \<and> YStr e \<in> set ab \<and> e \<noteq> [])" for st' b
  proof (cases "js_prop b field")
    case (Some y)
    then have "is_object b" using not_object by fastforce
    then show ?thesis using Some by (cases y) (simp_all add: string_entries_mem)
  qed simp
  have "scan_package field (p', pkg) = concat (map ?blk (js_entries lc))"
    using obj Some not_object [of lc] by (cases "is_object lc") (simp_all add: scan_package_def)
  then have "mk_entry p st e \<in> set (scan_package field (p', pkg)) \<longleftrightarrow>
      (\<exists>x \<in> set (js_entries lc). mk_entry p st e \<in> set (?blk x))"
    by simp
  also have "\<dots> \<longleftrightarrow> (\<exists>st' b. (st', b) \<in> set (js_entries lc) \<and> mk_entry p st e \<in> set (?blk (st', b)))"
    by (rule bex_pair)
  finally show ?thesis unfolding blk using Some by auto
qed (simp add: scan_package_def)

lemma scan_packages_mem:
  "mk_entry p st e \<in> set (concat (map (scan_package field) (js_entries ps))) \<longleftrightarrow> entry_at field ps p st e"
proof -
  have "mk_entry p st e \<in> set (concat (map (scan_package field) (js_entries ps))) \<longleftrightarrow>
      (\<exists>p' pkg. (p', pkg) \<in> set (js_entries ps) \<and> mk_entry p st e \<in> set (scan_package field (p', pkg)))"
    by (auto simp del: split_paired_Ex)
  then show ?thesis unfolding scan_package_mem entry_at_def by blast
qed

lemma scan_doc_mem:
  "mk_entry p st e \<in> set (scan_doc field doc) \<longleftrightarrow>
     (\<exists>ps. packages_raw doc = Some ps \<and> entry_at field ps p st e)"
proof (cases "is_object doc")
  case True
  then show ?thesis
    using not_object scan_packages_mem [of p st e field]
    by (cases "packages_raw doc") (auto simp: scan_doc_def entry_at_def)
next
  case False
  then have "packages_raw doc = None"
    by (cases doc) (simp_all add: packages_raw_def Lock_safeParse_def)
  with False show ?thesis by (simp add: scan_doc_def)
qed

text \<open>What the validation keeps of a document.\<close>

lemma zod_record_mem:
  assumes "zod_record f y = Some y'"
  shows "(k, v') \<in> set (js_entries y') \<longleftrightarrow>
     k \<noteq> ''__proto__'' \<and> (\<exists>v. (k, v) \<in> set (js_entries y) \<and> f v = Some v')"
proof -
  obtain kvs where y: "y = YObj kvs" using assms by (cases y) (simp_all add: zod_record_def)
  with assms obtain kvs' where y': "y' = YObj kvs'"
    and m: "map (\<lambda>(k, v). map_option (Pair k) (f v)) (filter (\<lambda>(k, _). k \<noteq> ''__proto__'') kvs) = map Some kvs'"
    by (auto simp: zod_record_def those_Some_iff)
  have "(k, v') \<in> set kvs' \<longleftrightarrow> Some (k, v') \<in> set (map Some kvs')" by auto
  also have "\<dots> \<longleftrightarrow> k \<noteq> ''__proto__'' \<and> (\<exists>v. (k, v) \<in> set kvs \<and> f v = Some v')"
  proof -
    have one: "Some (k, v') = (case x of (a, b) \<Rightarrow> map_option (Pair a) (f b)) \<longleftrightarrow>
        fst x = k \<and> f (snd x) = Some v'" for x
      by (cases x; cases "f (snd x)") auto
    show ?thesis unfolding m [symmetric] set_map image_iff one by force
  qed
  finally show ?thesis using y y' by simp
qed

lemma map_of_fields:
  "g \<in> set fs \<Longrightarrow> map_of (map (\<lambda>f. (field_name f, h f)) fs) (field_name g) = Some (h g)"
  by (induction fs) auto

lemma zod_block_some:
  assumes "zod_block y = Some y'"
  shows "zod_strings (js_prop y (field_name f)) \<noteq> None"
proof -
  obtain kvs where y: "y = YObj kvs" using assms by (cases y) (simp_all add: zod_block_def)
  let ?z = "\<lambda>f. zod_strings (map_of kvs (field_name f))"
  from assms y obtain fs where
    m: "map (\<lambda>f. map_option (Pair (field_name f)) (?z f)) lock_fields = map Some fs"
    by (auto simp: zod_block_def those_Some_iff)
  have "map_option (Pair (field_name f)) (?z f) \<in> set (map Some fs)"
    unfolding m [symmetric] using lock_fields_all [of f] by (simp del: lock_fields_all)
  then show ?thesis using y by auto
qed

lemma zod_block_prop:
  assumes "zod_block y = Some y'"
  shows "js_prop y' (field_name f) = zod_strings (js_prop y (field_name f))"
proof -
  obtain kvs where y: "y = YObj kvs" using assms by (cases y) (simp_all add: zod_block_def)
  let ?z = "\<lambda>f. zod_strings (map_of kvs (field_name f))"
  from assms y obtain fs where y': "y' = YObj fs"
    and m: "map (\<lambda>f. map_option (Pair (field_name f)) (?z f)) lock_fields = map Some fs"
    by (auto simp: zod_block_def those_Some_iff)
  have some: "?z f \<noteq> None" for f
    using zod_block_some [OF assms, of f] y by simp
  have "fs = map the (map Some fs)" by (simp add: comp_def)
  also have "\<dots> = map (\<lambda>f. the (map_option (Pair (field_name f)) (?z f))) lock_fields"
    unfolding m [symmetric] by (simp add: comp_def)
  also have "\<dots> = map (\<lambda>f. (field_name f, the (?z f))) lock_fields"
    using some by (intro map_cong refl option.map_sel) blast
  finally have "fs = map (\<lambda>f. (field_name f, the (?z f))) lock_fields" .
  then show ?thesis using y y' some [of f] by (simp add: map_of_fields)
qed

lemma zod_strings_mem:
  assumes "zod_strings o1 = Some y'"
  shows "(\<exists>ab. y' = YArr ab \<and> YStr e \<in> set ab) \<longleftrightarrow> (\<exists>ab. o1 = Some (YArr ab) \<and> YStr e \<in> set ab)"
  using assms by (cases o1 rule: zod_strings.cases) (auto split: if_splits)

lemma zod_package_prop:
  assumes "zod_package y = Some y'"
  shows "\<exists>lc lc'. js_prop y ''lifecycle'' = Some lc \<and> js_prop y' ''lifecycle'' = Some lc' \<and>
     zod_record zod_block lc = Some lc'"
  using assms by (cases y) (auto simp: zod_package_def split: option.splits)

lemma entry_at_zod:
  assumes "zod_record zod_package ps = Some ps'"
  shows "entry_at (field_name f) ps' p st e \<longleftrightarrow>
     p \<noteq> ''__proto__'' \<and> st \<noteq> ''__proto__'' \<and> entry_at (field_name f) ps p st e"
proof
  assume "entry_at (field_name f) ps' p st e"
  then obtain pkg' lc' blk' ab where e: "(p, pkg') \<in> set (js_entries ps')" "js_prop pkg' ''lifecycle'' = Some lc'"
    "(st, blk') \<in> set (js_entries lc')" "js_prop blk' (field_name f) = Some (YArr ab)"
    "YStr e \<in> set ab" "e \<noteq> []"
    by (auto simp: entry_at_def)
  from e(1) obtain pkg where p: "p \<noteq> ''__proto__''" and pkg: "(p, pkg) \<in> set (js_entries ps)" "zod_package pkg = Some pkg'"
    using zod_record_mem [OF assms] by blast
  from zod_package_prop [OF pkg(2)] e(2) obtain lc where lc: "js_prop pkg ''lifecycle'' = Some lc"
    "zod_record zod_block lc = Some lc'" by auto
  from e(3) obtain blk where st: "st \<noteq> ''__proto__''" and blk: "(st, blk) \<in> set (js_entries lc)" "zod_block blk = Some blk'"
    using zod_record_mem [OF lc(2)] by blast
  from zod_block_prop [OF blk(2), of f] e(4,5) zod_strings_mem [of "js_prop blk (field_name f)" "YArr ab" e]
  obtain ab' where "js_prop blk (field_name f) = Some (YArr ab')" "YStr e \<in> set ab'" by auto
  with pkg(1) lc(1) blk(1) e(6) p st
  show "p \<noteq> ''__proto__'' \<and> st \<noteq> ''__proto__'' \<and> entry_at (field_name f) ps p st e"
    unfolding entry_at_def by blast
next
  assume "p \<noteq> ''__proto__'' \<and> st \<noteq> ''__proto__'' \<and> entry_at (field_name f) ps p st e"
  then obtain pkg lc blk ab where e: "(p, pkg) \<in> set (js_entries ps)" "js_prop pkg ''lifecycle'' = Some lc"
    "(st, blk) \<in> set (js_entries lc)" "js_prop blk (field_name f) = Some (YArr ab)"
    "YStr e \<in> set ab" "e \<noteq> []" and kept: "p \<noteq> ''__proto__''" "st \<noteq> ''__proto__''"
    by (auto simp: entry_at_def)
  have total: "\<exists>v'. g v = Some v'"
    if "zod_record g y = Some y'" "(k, v) \<in> set (js_entries y)" "k \<noteq> ''__proto__''" for g y y' k v
  proof (cases y)
    case (YObj kvs)
    let ?kept = "filter (\<lambda>(k, _). k \<noteq> ''__proto__'') kvs"
    from that YObj obtain kvs' where "map (\<lambda>(k, v). map_option (Pair k) (g v)) ?kept = map Some kvs'"
      by (auto simp: zod_record_def those_Some_iff)
    moreover have "map_option (Pair k) (g v) \<in> set (map (\<lambda>(k, v). map_option (Pair k) (g v)) ?kept)"
      using that YObj by force
    ultimately have "map_option (Pair k) (g v) \<in> set (map Some kvs')" by simp
    then show ?thesis by auto
  qed (use that in \<open>simp_all add: zod_record_def\<close>)
  from total [OF assms e(1) kept(1)] obtain pkg' where pkg': "zod_package pkg = Some pkg'" ..
  with zod_record_mem [OF assms] e(1) kept(1) have p': "(p, pkg') \<in> set (js_entries ps')" by blast
  from zod_package_prop [OF pkg'] e(2) obtain lc' where lc': "js_prop pkg' ''lifecycle'' = Some lc'"
    "zod_record zod_block lc = Some lc'" by auto
  from total [OF lc'(2) e(3) kept(2)] obtain blk' where blk': "zod_block blk = Some blk'" ..
  with zod_record_mem [OF lc'(2)] e(3) kept(2) have b': "(st, blk') \<in> set (js_entries lc')" by blast
  have "\<exists>ab'. js_prop blk' (field_name f) = Some (YArr ab') \<and> YStr e \<in> set ab'"
    using zod_block_prop [OF blk', of f] e(4,5) blk' zod_strings_mem [of "js_prop blk (field_name f)" _ e]
      zod_block_some [OF blk', of f] by fastforce
  with p' lc'(1) b' e(6) show "entry_at (field_name f) ps' p st e"
    unfolding entry_at_def by blast
qed

text \<open>A valid document is scanned in its parsed form, which has lost what is filed under \<^verbatim>\<open>__proto__\<close>.\<close>

definition scanned :: "yaml \<Rightarrow> string \<Rightarrow> string \<Rightarrow> bool" where
  "scanned doc p st = (Lock_safeParse doc = None \<or> (p \<noteq> ''__proto__'' \<and> st \<noteq> ''__proto__''))"

lemma packages_raw_entry:
  "(\<exists>ps. packages_raw doc = Some ps \<and> entry_at (field_name f) ps p st e) \<longleftrightarrow>
   scanned doc p st \<and> (\<exists>ps. js_prop doc ''packages'' = Some ps \<and> entry_at (field_name f) ps p st e)"
proof (cases "Lock_safeParse doc")
  case (Some ps')
  then obtain kvs ps where "doc = YObj kvs" "map_of kvs ''packages'' = Some ps"
    "zod_record zod_package ps = Some ps'"
    by (cases doc) (auto simp: Lock_safeParse_def split: if_splits option.splits)
  with Some entry_at_zod [OF this(3)] show ?thesis by (simp add: packages_raw_def scanned_def)
qed (simp add: packages_raw_def scanned_def)

lemma scan_doc_exact:
  "mk_entry p st e \<in> set (scan_doc (field_name f) doc) \<longleftrightarrow>
     scanned doc p st \<and> (\<exists>ps. js_prop doc ''packages'' = Some ps \<and> entry_at (field_name f) ps p st e)"
  unfolding scan_doc_mem packages_raw_entry ..

text \<open>C30: the gate on bypass entries and the collection of egress entries report exactly the
  non-empty strings of the \<^verbatim>\<open>audit_bypass\<close> and \<^verbatim>\<open>network_attempts\<close> lists under
  \<^verbatim>\<open>packages.<pkg>.lifecycle.<stage>\<close>, whether or not the document passes the schema, with one exception: of a
  document that passes it, what stands under a package or a stage called \<^verbatim>\<open>__proto__\<close> is not reported. An invalid
  part elsewhere in the lock cannot switch the gate off, and a valid document is not changed by the defaults of
  the schema.\<close>

theorem gate_scan_exact:
  assumes "parseYaml generated = Some doc"
  shows "(mk_entry p st e \<in> set (findAuditBypass parseYaml generated) \<longleftrightarrow>
      (Lock_safeParse doc = None \<or> (p \<noteq> ''__proto__'' \<and> st \<noteq> ''__proto__'')) \<and>
      (\<exists>ps. js_prop doc ''packages'' = Some ps \<and> entry_at ''audit_bypass'' ps p st e)) \<and>
     (mk_entry p st e \<in> set (collectNetworkAttempts parseYaml generated) \<longleftrightarrow>
      (Lock_safeParse doc = None \<or> (p \<noteq> ''__proto__'' \<and> st \<noteq> ''__proto__'')) \<and>
      (\<exists>ps. js_prop doc ''packages'' = Some ps \<and> entry_at ''network_attempts'' ps p st e))"
  using assms scan_doc_exact [of p st e FAuditBypass doc] scan_doc_exact [of p st e FNetworkAttempts doc]
  by (simp add: findAuditBypass_def collectNetworkAttempts_def scanned_def)

definition sample_lock_doc :: yaml where
  "sample_lock_doc =
     YObj [(''packages'', YObj [(''dep@2'', YObj [(''lifecycle'', YObj [(''install'',
       YObj [(''audit_bypass'', YArr [YStr ''<AUDIT_FD_LOST>'', YNum 3])])])])])]"

theorem gate_scan_exact_witness:
  "(\<lambda>_. Some sample_lock_doc) ''text'' = Some sample_lock_doc \<and>
   mk_entry ''dep@2'' ''install'' ''<AUDIT_FD_LOST>''
     \<in> set (findAuditBypass (\<lambda>_. Some sample_lock_doc) ''text'')"
proof -
  have "\<exists>ps. js_prop sample_lock_doc ''packages'' = Some ps \<and>
      entry_at ''audit_bypass'' ps ''dep@2'' ''install'' ''<AUDIT_FD_LOST>''"
    by (simp add: sample_lock_doc_def entry_at_def)
  then show ?thesis
    using gate_scan_exact [of "\<lambda>_. Some sample_lock_doc" "''text''" sample_lock_doc] by simp
qed

section \<open>The scan of a rendered lock\<close>

lemma renderBlock_prop:
  "js_prop (renderBlock b) (field_name f) =
     (if f \<in> set OPTIONAL_LIST_FIELDS \<and> get_field f b = [] then None
      else Some (yaml_strings (get_field f b)))"
  by (cases f) (simp_all add: renderBlock_def EMPTY_LIST_FIELDS_def OPTIONAL_LIST_FIELDS_def jm.get_put)

lemma mem_map_filter: "y \<in> set (List.map_filter g xs) \<longleftrightarrow> (\<exists>x \<in> set xs. g x = Some y)"
  by (force simp: List.map_filter_def)

lemma renderPackage_prop:
  assumes "map_wf pb"
  obtains lc where "js_prop (renderPackage pb) ''lifecycle'' = Some lc"
    "\<And>st y. (st, y) \<in> set (js_entries lc) \<longleftrightarrow>
       (\<exists>stage b. map_of pb stage = Some b \<and> st = stage_name stage \<and> y = renderBlock b)"
proof -
  let ?ks = "sort_key (\<lambda>st. stage_rank (stage_name st)) (map fst pb)"
  let ?kvs = "List.map_filter (\<lambda>st. map_option (\<lambda>b. (stage_name st, renderBlock b)) (map_of pb st)) ?ks"
  have "inj stage_name" by (rule injI) simp
  then have "js_prop (renderPackage pb) ''lifecycle'' = Some (YObj ?kvs)"
    using assms fold_put_lookup [where ks = ?ks and key = stage_name and look = "map_of pb" and rend = renderBlock]
    by (simp add: renderPackage_def map_wf_def Let_def)
  moreover have "stage \<in> set ?ks" if "map_of pb stage = Some b" for stage b
    using that by (simp add: set_keys_lookup del: set_map)
  ultimately show ?thesis
    by (intro that) (auto simp: mem_map_filter, blast)
qed

lemma rendered_entry_at:
  assumes "map_wf out" "\<forall>(p, pb) \<in> set out. map_wf pb"
  shows "entry_at (field_name f) (YObj (render_packages out)) p st e \<longleftrightarrow>
     p \<noteq> ''__proto__'' \<and> (\<exists>stage. st = stage_name stage \<and> in_lock out p stage f e \<and> e \<noteq> [])"
proof (cases "p = ''__proto__''")
  case True
  then show ?thesis
    unfolding entry_at_def js_entries.simps render_packages_form [OF assms(1)] set_own_order mem_map_filter by auto
next
  case p: False
  have pk: "(p, y) \<in> set (render_packages out) \<longleftrightarrow> (\<exists>pb. map_of out p = Some pb \<and> y = renderPackage pb)" for y
    unfolding render_packages_form [OF assms(1)] set_own_order mem_map_filter set_filter set_sort set_keys_lookup
    using p by auto
  have wf: "map_wf pb" if "map_of out p = Some pb" for pb
    using that assms(2) map_of_SomeD by fastforce
  have blk: "(\<exists>ab. js_prop (renderBlock b) (field_name f) = Some (YArr ab) \<and> YStr e \<in> set ab) \<longleftrightarrow>
      e \<in> set (get_field f b)" for b
    by (auto simp: renderBlock_prop yaml_strings_def)
  have pkg: "(\<exists>lc blk ab. js_prop (renderPackage pb) ''lifecycle'' = Some lc \<and> (st, blk) \<in> set (js_entries lc) \<and>
        js_prop blk (field_name f) = Some (YArr ab) \<and> YStr e \<in> set ab) \<longleftrightarrow>
      (\<exists>stage b. map_of pb stage = Some b \<and> st = stage_name stage \<and> e \<in> set (get_field f b))"
    if "map_wf pb" for pb
  proof -
    from that obtain lc where lc: "js_prop (renderPackage pb) ''lifecycle'' = Some lc"
      "\<And>st y. (st, y) \<in> set (js_entries lc) \<longleftrightarrow>
         (\<exists>stage b. map_of pb stage = Some b \<and> st = stage_name stage \<and> y = renderBlock b)"
      by (rule renderPackage_prop) (rule that)
    show ?thesis unfolding lc(1) by (simp add: lc(2)) (use blk in blast)
  qed
  have "entry_at (field_name f) (YObj (render_packages out)) p st e \<longleftrightarrow>
      (\<exists>pb. map_of out p = Some pb \<and>
        (\<exists>lc blk ab. js_prop (renderPackage pb) ''lifecycle'' = Some lc \<and> (st, blk) \<in> set (js_entries lc) \<and>
          js_prop blk (field_name f) = Some (YArr ab) \<and> YStr e \<in> set ab)) \<and> e \<noteq> []"
    unfolding entry_at_def using pk by auto
  also have "\<dots> \<longleftrightarrow> (\<exists>pb. map_of out p = Some pb \<and>
      (\<exists>stage b. map_of pb stage = Some b \<and> st = stage_name stage \<and> e \<in> set (get_field f b))) \<and> e \<noteq> []"
  proof (cases "map_of out p")
    case (Some pb)
    show ?thesis unfolding Some by (simp only: option.inject simp_thms pkg [OF wf [OF Some]])
  qed simp
  also have "\<dots> \<longleftrightarrow> (\<exists>stage. st = stage_name stage \<and> in_lock out p stage f e \<and> e \<noteq> [])"
    by (cases "map_of out p") (auto simp: in_lock_def block_of_def split: option.splits)
  finally show ?thesis using p by simp
qed

text \<open>The documented behaviour of the YAML library the gate relies on: parsing what \<^verbatim>\<open>stringify\<close>
  wrote gives the document back.\<close>

definition yaml_round_trip ::
  "(yaml \<Rightarrow> stringify_options \<Rightarrow> string) \<Rightarrow> (string \<Rightarrow> yaml option) \<Rightarrow> yaml \<Rightarrow> bool" where
  "yaml_round_trip stringify parseYaml doc = (parseYaml (stringify doc render_options) = Some doc)"

lemma scan_rendered:
  assumes out: "normalize evs ctx = Inr out"
    and lib: "yaml_round_trip stringify parseYaml (render_doc (input\<lparr>ri_packages := out\<rparr>))"
  shows "mk_entry p st e \<in> set (findAuditBypass parseYaml (render stringify (input\<lparr>ri_packages := out\<rparr>))) \<longleftrightarrow>
      p \<noteq> ''__proto__'' \<and> (\<exists>stage. st = stage_name stage \<and> in_lock out p stage FAuditBypass e \<and> e \<noteq> [])"
    and "mk_entry p st e \<in> set (collectNetworkAttempts parseYaml (render stringify (input\<lparr>ri_packages := out\<rparr>))) \<longleftrightarrow>
      p \<noteq> ''__proto__'' \<and> (\<exists>stage. st = stage_name stage \<and> in_lock out p stage FNetworkAttempts e \<and> e \<noteq> [])"
proof -
  have parsed: "parseYaml (render stringify (input\<lparr>ri_packages := out\<rparr>)) =
      Some (render_doc (input\<lparr>ri_packages := out\<rparr>))"
    using lib by (simp add: yaml_round_trip_def render_def)
  have pkgs: "js_prop (render_doc (input\<lparr>ri_packages := out\<rparr>)) ''packages'' = Some (YObj (render_packages out))"
    by (simp add: render_doc_def)
  have at: "entry_at (field_name f) (YObj (render_packages out)) p st e \<longleftrightarrow>
      p \<noteq> ''__proto__'' \<and> (\<exists>stage. st = stage_name stage \<and> in_lock out p stage f e \<and> e \<noteq> [])" for f
    by (rule rendered_entry_at) (use normalize_canonical [OF out] in auto)
  have not_proto: "p \<noteq> ''__proto__'' \<and> st \<noteq> ''__proto__''"
    if "entry_at (field_name f) (YObj (render_packages out)) p st e" for f
  proof -
    from that obtain stage where "p \<noteq> ''__proto__''" "st = stage_name stage" unfolding at by blast
    then show ?thesis by (cases stage) simp_all
  qed
  show "mk_entry p st e \<in> set (findAuditBypass parseYaml (render stringify (input\<lparr>ri_packages := out\<rparr>))) \<longleftrightarrow>
      p \<noteq> ''__proto__'' \<and> (\<exists>stage. st = stage_name stage \<and> in_lock out p stage FAuditBypass e \<and> e \<noteq> [])"
    unfolding at [of FAuditBypass, symmetric]
    using scan_doc_exact [of p st e FAuditBypass] parsed pkgs not_proto [of FAuditBypass] by (auto simp: findAuditBypass_def scanned_def)
  show "mk_entry p st e \<in> set (collectNetworkAttempts parseYaml (render stringify (input\<lparr>ri_packages := out\<rparr>))) \<longleftrightarrow>
      p \<noteq> ''__proto__'' \<and> (\<exists>stage. st = stage_name stage \<and> in_lock out p stage FNetworkAttempts e \<and> e \<noteq> [])"
    unfolding at [of FNetworkAttempts, symmetric]
    using scan_doc_exact [of p st e FNetworkAttempts] parsed pkgs not_proto [of FNetworkAttempts] by (auto simp: collectNetworkAttempts_def scanned_def)
qed

section \<open>The egress warning\<close>

lemma egress_partition_facts:
  fixes entries opts
  defines "audited \<equiv> filter (audited_only opts) entries"
    and "host \<equiv> filter (\<lambda>e. \<not> audited_only opts e) entries"
  shows "formatEgressWarning entries opts =
      (egress_summary host, join [CHR 0x0A] (egress_lines host audited) @ [CHR 0x0A])"
    and "set host \<union> set audited = set entries" and "length host + length audited = length entries"
    and "set audited \<subseteq> {e. le_stage e = ''prepare'' \<and> eo_manager opts \<noteq> Pnpm \<and>
           le_packageId e \<in> eo_rootPackageIds opts \<and> \<not> starts_with (le_entry e) ''<FORGED_ROOT> ''}"
    and "js_includes (egress_summary host) ''WILL now succeed'' \<longleftrightarrow> host \<noteq> []"
    and "set (map egress_line (take 20 host)) \<subseteq> set (egress_lines host audited)"
proof -
  show "formatEgressWarning entries opts =
      (egress_summary host, join [CHR 0x0A] (egress_lines host audited) @ [CHR 0x0A])"
    by (simp add: formatEgressWarning_def audited_def host_def Let_def)
  show "set host \<union> set audited = set entries" by (auto simp: audited_def host_def)
  show "length host + length audited = length entries"
    using sum_length_filter_compl [of "audited_only opts" entries] by (simp add: audited_def host_def)
  show "set audited \<subseteq> {e. le_stage e = ''prepare'' \<and> eo_manager opts \<noteq> Pnpm \<and>
           le_packageId e \<in> eo_rootPackageIds opts \<and> \<not> starts_with (le_entry e) ''<FORGED_ROOT> ''}"
    by (auto simp: audited_def audited_only_def)
  show "js_includes (egress_summary host) ''WILL now succeed'' \<longleftrightarrow> host \<noteq> []"
  proof (cases "host = []")
    case False
    define a where "a = ''script-jail install: part 2 runs lifecycle scripts ONLINE on the host. '' @
        ''The offline audit recorded '' @ nat_str (length host) @ '' network egress attempt(s) that ''"
    define b where "b = '' (listed below). IPs are offline-audit values '' @ em_dash @ '' the host '' @
        ''may resolve different addresses; review the committed lock before trusting this install.''"
    have "egress_summary host = a @ ''WILL now succeed'' @ b"
      using False by (simp add: egress_summary_def a_def b_def)
    then show ?thesis using False by (simp only: js_includes_infix simp_thms)
  qed (simp add: egress_summary_def)
  show "set (map egress_line (take 20 host)) \<subseteq> set (egress_lines host audited)"
    by (auto simp: egress_lines_def)
qed

text \<open>The egress warning accounts for every recorded attempt once: each entry is announced as
  bound for the host or as only audited; only the \<^verbatim>\<open>prepare\<close> of a root package is ever only
  audited, never under pnpm and never an entry of a forged root; and the warning that attempts
  will now succeed is given exactly when some entry is bound for the host.\<close>

theorem egress_partition:
  fixes entries opts
  defines "audited \<equiv> filter (audited_only opts) entries"
   and "host \<equiv> filter (\<lambda>e. \<not> audited_only opts e) entries"
  shows "(formatEgressWarning entries opts =
      (egress_summary host, join [CHR 0x0A] (egress_lines host audited) @ [CHR 0x0A])) \<and>
     (set host \<union> set audited = set entries) \<and>
     (length host + length audited = length entries) \<and>
     (set audited \<subseteq> {e. le_stage e = ''prepare'' \<and> eo_manager opts \<noteq> Pnpm \<and>
           le_packageId e \<in> eo_rootPackageIds opts \<and> \<not> starts_with (le_entry e) ''<FORGED_ROOT> ''}) \<and>
     (js_includes (egress_summary host) ''WILL now succeed'' \<longleftrightarrow> host \<noteq> []) \<and>
     (set (map egress_line (take 20 host)) \<subseteq> set (egress_lines host audited))"
  unfolding audited_def host_def by (intro conjI egress_partition_facts)

lemma join_includes: "x \<in> set xs \<Longrightarrow> js_includes (join sep xs) x"
proof (induction sep xs rule: join.induct)
  case (3 sep s t ss)
  show ?case
  proof (cases "x = s")
    case True
    then show ?thesis using js_includes_infix [of "[]" x "sep @ join sep (t # ss)"] by simp
  next
    case False
    with 3 obtain a b where "join sep (t # ss) = a @ x @ b" by (auto simp: js_includes_iff)
    then have "join sep (s # t # ss) = (s @ sep @ a) @ x @ b" by simp
    then show ?thesis by (simp only: js_includes_infix)
  qed
qed (auto simp: js_includes_iff intro: exI [of _ "[]"])

text \<open>The error line of the gate shows every entry up to the tenth in full, and says how many more
  there are.\<close>

theorem bypass_error_shows_entries:
  "set (take 10 entries) \<subseteq> {e. js_includes (formatAuditBypassError entries) (entry_label e)}"
proof
  fix e assume "e \<in> set (take 10 entries)"
  then have "entry_label e \<in> set (map entry_label (take 10 entries))" by simp
  from join_includes [OF this, of "''; ''"] obtain a b where
    ab: "join ''; '' (map entry_label (take 10 entries)) = a @ entry_label e @ b"
    by (auto simp: js_includes_iff)
  define pre where "pre = ''Audit envelope was bypassed '' @ em_dash @ '' see audit_bypass entries: ['' @ a"
  define post where "post = b @ '']'' @
     (if 10 < length entries then '' (+'' @ nat_str (length entries - 10) @ '' more)'' else [])"
  have "formatAuditBypassError entries = pre @ entry_label e @ post"
    by (simp only: formatAuditBypassError_def ab pre_def post_def append_assoc)
  then show "e \<in> {e. js_includes (formatAuditBypassError entries) (entry_label e)}" by simp
qed

end
