(* ===== verification/PmCommands.thy ===== *)
theory PmCommands
  imports Render "HOL-Library.Multiset"
begin

text \<open>
  The package-manager commands and the fail-closed filter of developer arguments:
  \<^verbatim>\<open>src/shared/pm-commands.ts\<close>. The WHATWG \<^verbatim>\<open>URL\<close> parser of the runtime is a parameter: on a value it
  cannot parse it gives \<open>None\<close>, else the user name and the password.
\<close>

section \<open>Commands\<close>

record pm_command =
  pc_cmd :: string
  pc_args :: "string list"

fun FETCH_CMD :: "manager \<Rightarrow> pm_command" where
  "FETCH_CMD Npm = \<lparr>pc_cmd = ''npm'', pc_args = [''ci'', ''--ignore-scripts'']\<rparr>"
| "FETCH_CMD Pnpm =
     \<lparr>pc_cmd = ''pnpm'',
      pc_args = [''install'', ''--frozen-lockfile'', ''--ignore-scripts'',
                 ''--config.side-effects-cache=false'']\<rparr>"
| "FETCH_CMD Yarn = \<lparr>pc_cmd = ''yarn'', pc_args = [''install'', ''--immutable'', ''--mode=skip-build'']\<rparr>"

fun INSTALL_CMD :: "manager \<Rightarrow> pm_command" where
  "INSTALL_CMD Npm =
     \<lparr>pc_cmd = ''npm'', pc_args = [''rebuild'', ''--foreground-scripts'', ''--no-node-options'']\<rparr>"
| "INSTALL_CMD Pnpm =
     \<lparr>pc_cmd = ''pnpm'', pc_args = [''rebuild'', ''--pending'', ''--config.side-effects-cache=false'']\<rparr>"
| "INSTALL_CMD Yarn = \<lparr>pc_cmd = ''yarn'', pc_args = [''install'', ''--immutable'']\<rparr>"

definition pnpmStoreDirArg :: "manager \<Rightarrow> string \<Rightarrow> string list" where
  "pnpmStoreDirArg pm cwd = (if pm = Pnpm then [''--store-dir='' @ cwd @ ''/.pnpm-store''] else [])"

section \<open>Flags\<close>

definition isBareFlag :: "string \<Rightarrow> bool" where
  "isBareFlag token = (\<not> js_includes token ''='')"

text \<open>\<^verbatim>\<open>/^[a-z][a-z0-9+.-]{0,31}:/i\<close>: the length of the match, colon included.\<close>

definition scheme_prefix :: "string \<Rightarrow> nat option" where
  "scheme_prefix s =
     (case s of
        [] \<Rightarrow> None
      | c # r \<Rightarrow>
          (let w = takeWhile (\<lambda>x. is_alnum x \<or> x = CHR ''+'' \<or> x = CHR ''.'' \<or> x = CHR ''-'') r
           in if (is_upper c \<or> is_lower c) \<and> length w \<le> 31 \<and> starts_with (drop (length w) r) '':''
              then Some (length w + 2) else None))"

text \<open>The part of the value that may hold a user name.\<close>

definition registry_authority :: "string \<Rightarrow> string" where
  "registry_authority value =
     (let s = trim value;
          s1 = (case scheme_prefix s of None \<Rightarrow> s | Some n \<Rightarrow> drop n s);
          s2 = (if starts_with s1 ''//'' then drop 2 s1 else s1)
      in takeWhile (\<lambda>c. c \<noteq> CHR ''/'' \<and> c \<noteq> CHR ''?'' \<and> c \<noteq> CHR ''#'') s2)"

definition registryUrlHasCredentials :: "(string \<Rightarrow> (string \<times> string) option) \<Rightarrow> string \<Rightarrow> bool" where
  "registryUrlHasCredentials parseUrl value =
     (case parseUrl value of
        Some (username, password) \<Rightarrow>
          if username \<noteq> [] \<or> password \<noteq> [] then True
          else js_includes (registry_authority value) ''@''
      | None \<Rightarrow> js_includes (registry_authority value) ''@'')"

definition peel :: "string \<Rightarrow> string \<Rightarrow> string" where
  "peel p s = (if starts_with s p then drop (length p) s else s)"

definition canonicalFlagKey :: "string \<Rightarrow> string option" where
  "canonicalFlagKey token =
     (if token = [] \<or> hd token \<noteq> CHR ''-'' then None
      else (let body = dropWhile (\<lambda>c. c = CHR ''-'') token;
                name = before_char (CHR ''='') body;
                key = peel ''config.'' (peel ''no-'' (to_lower name))
            in Some (filter (\<lambda>c. c \<noteq> CHR ''-'' \<and> c \<noteq> CHR ''_'' \<and> c \<noteq> CHR ''.'') key)))"

text \<open>The em dash of one message is outside Latin-1; its UTF-8 bytes stand for it.\<close>

definition drop_reasons :: "(string \<times> string) list" where
  "drop_reasons =
     [(''ignorescripts'', ''--ignore-scripts''), (''frozenlockfile'', ''--frozen-lockfile''),
      (''fixlockfile'', ''--fix-lockfile''), (''lockfiledir'', ''--lockfile-dir''),
      (''lockfileonly'', ''--lockfile-only''), (''lockfile'', ''--lockfile''),
      (''modulesdir'', ''--modules-dir''), (''virtualstoredir'', ''--virtual-store-dir''),
      (''storedir'', ''--store-dir''), (''workspaceroot'', ''--workspace-root''),
      (''dir'', ''--dir''), (''prefix'', ''--prefix''), (''global'', ''--global''),
      (''filter'', ''--filter''), (''recursive'', ''--recursive''), (''mode'', ''--mode''),
      (''immutable'', ''--immutable''),
      (''registry'', ''--registry (inline credentials '' @ [CHR 0xE2, CHR 0x80, CHR 0x94] @
         '' set registry auth in .npmrc/env)'')]"

definition dropReason :: "string \<Rightarrow> string" where
  "dropReason key = (case map_of drop_reasons key of Some r \<Rightarrow> r | None \<Rightarrow> ''<flag>'')"

record allow_entry =
  takesValue :: bool
  rejectValue :: "(string \<Rightarrow> bool) option"

type_synonym allowlist = "string \<Rightarrow> allow_entry option"

definition plain_entry :: "bool \<Rightarrow> allow_entry" where
  "plain_entry v = \<lparr>takesValue = v, rejectValue = None\<rparr>"

definition ALLOWED_FLAG_KEYS :: "(string \<Rightarrow> (string \<times> string) option) \<Rightarrow> allowlist" where
  "ALLOWED_FLAG_KEYS parseUrl = map_of
     [(''omit'', plain_entry True), (''include'', plain_entry True), (''prod'', plain_entry False),
      (''production'', plain_entry False), (''dev'', plain_entry False), (''optional'', plain_entry False),
      (''p'', plain_entry False), (''d'', plain_entry False),
      (''registry'', \<lparr>takesValue = True, rejectValue = Some (registryUrlHasCredentials parseUrl)\<rparr>)]"

definition ALLOWED_ARCH_KEYS :: allowlist where
  "ALLOWED_ARCH_KEYS = map_of
     [(''cpu'', plain_entry True), (''os'', plain_entry True), (''libc'', plain_entry True)]"

section \<open>The filter\<close>

record sanitize_result =
  kept :: "string list"
  dropped :: "string list"
  droppedKeys :: "string list"

definition keep_args :: "string list \<Rightarrow> sanitize_result \<Rightarrow> sanitize_result" where
  "keep_args xs r = r\<lparr>kept := kept r @ xs\<rparr>"

definition drop_args :: "string list \<Rightarrow> string \<Rightarrow> sanitize_result \<Rightarrow> sanitize_result" where
  "drop_args xs reason r = r\<lparr>dropped := dropped r @ xs, droppedKeys := droppedKeys r @ [reason]\<rparr>"

text \<open>The following token, when it exists and does not look like a flag.\<close>

definition next_value :: "string list \<Rightarrow> string option" where
  "next_value rest =
     (case rest of [] \<Rightarrow> None | v # _ \<Rightarrow> if starts_with v ''-'' then None else Some v)"

definition option_list :: "'a option \<Rightarrow> 'a list" where
  "option_list o1 = (case o1 of None \<Rightarrow> [] | Some v \<Rightarrow> [v])"

text \<open>The value of an allowed flag and the token it consumes.\<close>

definition split_value :: "allow_entry \<Rightarrow> string \<Rightarrow> string list \<Rightarrow> string option" where
  "split_value e a rest = (if takesValue e \<and> isBareFlag a then next_value rest else None)"

definition flag_value :: "allow_entry \<Rightarrow> string \<Rightarrow> string list \<Rightarrow> string option" where
  "flag_value e a rest =
     (if isBareFlag a then split_value e a rest else Some (after_char (CHR ''='') a))"

definition value_rejected :: "allow_entry \<Rightarrow> string \<Rightarrow> string list \<Rightarrow> bool" where
  "value_rejected e a rest =
     (case (rejectValue e, flag_value e a rest) of (Some f, Some v) \<Rightarrow> f v | _ \<Rightarrow> False)"

text \<open>One pass of the loop: what it does with the token \<open>a\<close>, and how many tokens it consumes after it.\<close>

definition filter_step ::
  "allowlist \<Rightarrow> string \<Rightarrow> string list \<Rightarrow> sanitize_result \<Rightarrow> sanitize_result \<times> nat" where
  "filter_step allow a rest r =
     (case canonicalFlagKey a of
        None \<Rightarrow> (drop_args [a] ''<positional>'' r, 0)
      | Some key \<Rightarrow>
          if key = [] then (drop_args [a] ''<positional>'' r, 0)
          else (case allow key of
                  Some e \<Rightarrow>
                    (let sv = option_list (split_value e a rest)
                     in if value_rejected e a rest then (drop_args (a # sv) (dropReason key) r, length sv)
                        else (keep_args (a # sv) r, length sv))
                | None \<Rightarrow>
                    (let sv = option_list (if isBareFlag a then next_value rest else None)
                     in (drop_args (a # sv) (dropReason key) r, length sv))))"

function filter_loop :: "allowlist \<Rightarrow> string list \<Rightarrow> sanitize_result \<Rightarrow> sanitize_result" where
  "filter_loop allow [] r = r"
| "filter_loop allow (a # rest) r =
     (case filter_step allow a rest r of (r', n) \<Rightarrow> filter_loop allow (drop n rest) r')"
  by pat_completeness auto
termination
  by (relation "measure (\<lambda>(_, args, _). length args)") auto

definition filterAgainstAllowlist :: "string list \<Rightarrow> allowlist \<Rightarrow> sanitize_result" where
  "filterAgainstAllowlist args allow = filter_loop allow args \<lparr>kept = [], dropped = [], droppedKeys = []\<rparr>"

definition sanitizeInstallArgs ::
  "(string \<Rightarrow> (string \<times> string) option) \<Rightarrow> string list \<Rightarrow> sanitize_result" where
  "sanitizeInstallArgs parseUrl args = filterAgainstAllowlist args (ALLOWED_FLAG_KEYS parseUrl)"

definition sanitizeArchInstallArgs :: "string list \<Rightarrow> sanitize_result" where
  "sanitizeArchInstallArgs args = filterAgainstAllowlist args ALLOWED_ARCH_KEYS"

section \<open>Splitting an argument string\<close>

record split_state =
  ss_out :: "string list"
  ss_cur :: string
  ss_quote :: "char option"
  ss_started :: bool

definition split_char :: "char \<Rightarrow> split_state \<Rightarrow> split_state" where
  "split_char ch st =
     (case ss_quote st of
        Some q \<Rightarrow> if ch = q then st\<lparr>ss_quote := None\<rparr> else st\<lparr>ss_cur := ss_cur st @ [ch]\<rparr>
      | None \<Rightarrow>
          if ch = CHR 0x22 \<or> ch = CHR 0x27 then st\<lparr>ss_quote := Some ch, ss_started := True\<rparr>
          else if ch = CHR '' '' \<or> ch = CHR 0x09 \<or> ch = CHR 0x0A \<or> ch = CHR 0x0D
          then (if ss_started st
                then st\<lparr>ss_out := ss_out st @ [ss_cur st], ss_cur := [], ss_started := False\<rparr>
                else st)
          else st\<lparr>ss_cur := ss_cur st @ [ch], ss_started := True\<rparr>)"

definition splitInstallArgs :: "string \<Rightarrow> string list" where
  "splitInstallArgs raw =
     (let st = fold split_char raw \<lparr>ss_out = [], ss_cur = [], ss_quote = None, ss_started = False\<rparr>
      in if ss_started st then ss_out st @ [ss_cur st] else ss_out st)"

section \<open>Argument lists the filter keeps as they are\<close>

text \<open>A list made of allowed flags, each with the value token it consumes and none of them rejected.\<close>

function kept_ok :: "allowlist \<Rightarrow> string list \<Rightarrow> bool" where
  "kept_ok allow [] = True"
| "kept_ok allow (a # rest) =
     (case canonicalFlagKey a of
        None \<Rightarrow> False
      | Some key \<Rightarrow> key \<noteq> [] \<and>
          (case allow key of
             None \<Rightarrow> False
           | Some e \<Rightarrow> \<not> value_rejected e a rest \<and>
               kept_ok allow (drop (length (option_list (split_value e a rest))) rest)))"
  by pat_completeness auto
termination
  by (relation "measure (\<lambda>(_, args). length args)") auto

lemma next_value_SomeD: "next_value rest = Some v \<Longrightarrow> \<exists>r. rest = v # r \<and> \<not> starts_with v ''-''"
  by (auto simp: next_value_def split: list.splits if_splits)

lemma split_value_SomeD:
  "split_value e a rest = Some v \<Longrightarrow>
   takesValue e \<and> isBareFlag a \<and> (\<exists>r. rest = v # r \<and> \<not> starts_with v ''-'')"
  by (auto simp: split_value_def dest: next_value_SomeD split: if_splits)

lemma split_value_rest:
  obtains "split_value e a rest = None"
    | v r where "split_value e a rest = Some v" "rest = v # r" "\<not> starts_with v ''-''"
  using split_value_SomeD by (cases "split_value e a rest") blast+

lemma flag_dash: "canonicalFlagKey a = Some key \<Longrightarrow> starts_with a ''-''"
  by (cases a) (auto simp: canonicalFlagKey_def split: if_splits)

lemma kept_ok_head:
  assumes "kept_ok allow ys"
  shows "next_value ys = None"
proof (cases ys)
  case (Cons a rest)
  with assms obtain key where "canonicalFlagKey a = Some key" by (auto split: option.splits)
  with flag_dash Cons show ?thesis by (auto simp: next_value_def)
qed (simp add: next_value_def)

lemma split_value_append:
  "next_value ys = None \<Longrightarrow> split_value e a (rest @ ys) = split_value e a rest"
  by (cases rest) (simp_all add: split_value_def next_value_def)

lemma value_rejected_cong:
  "split_value e a rest = split_value e a rest' \<Longrightarrow> value_rejected e a rest = value_rejected e a rest'"
  unfolding value_rejected_def flag_value_def by metis

lemma value_rejected_append:
  "next_value ys = None \<Longrightarrow> value_rejected e a (rest @ ys) = value_rejected e a rest"
  by (rule value_rejected_cong) (rule split_value_append)

lemma kept_ok_append: "kept_ok allow xs \<Longrightarrow> kept_ok allow ys \<Longrightarrow> kept_ok allow (xs @ ys)"
proof (induction allow xs rule: kept_ok.induct)
  case (2 allow a rest)
  from "2.prems" obtain key e where k: "canonicalFlagKey a = Some key" "key \<noteq> []" "allow key = Some e"
    "\<not> value_rejected e a rest" "kept_ok allow (drop (length (option_list (split_value e a rest))) rest)"
    by (auto split: option.splits)
  have n: "length (option_list (split_value e a rest)) \<le> length rest"
    by (cases rule: split_value_rest [of e a rest]) (simp_all add: option_list_def)
  from "2.IH" [OF k(1) k(3) k(5)] k n kept_ok_head [OF "2.prems"(2)] "2.prems"(2) show ?case
    by (simp add: split_value_append value_rejected_append)
qed simp

text \<open>The group of an allowed flag stands on its own.\<close>

lemma kept_ok_group:
  assumes "canonicalFlagKey a = Some key" "key \<noteq> []" "allow key = Some e" "\<not> value_rejected e a rest"
  shows "kept_ok allow (a # option_list (split_value e a rest))"
proof (cases rule: split_value_rest [of e a rest])
  case 1
  then have "split_value e a [] = split_value e a rest" by (simp add: split_value_def next_value_def)
  with 1 assms value_rejected_cong [OF this] show ?thesis by (simp add: option_list_def)
next
  case (2 v r)
  then have "split_value e a [v] = split_value e a rest"
    using split_value_SomeD [OF 2(1)] by (simp add: split_value_def next_value_def)
  with 2 assms value_rejected_cong [OF this] show ?thesis by (simp add: option_list_def)
qed

lemma filter_loop_kept_ok: "kept_ok allow (kept r) \<Longrightarrow> kept_ok allow (kept (filter_loop allow args r))"
proof (induction allow args r rule: filter_loop.induct)
  case (2 allow a rest r)
  obtain r' n where s: "filter_step allow a rest r = (r', n)" by fastforce
  have "kept_ok allow (kept r')"
  proof -
    have "kept r' = kept r \<or> (\<exists>key e. canonicalFlagKey a = Some key \<and> key \<noteq> [] \<and> allow key = Some e \<and>
        \<not> value_rejected e a rest \<and> kept r' = kept r @ a # option_list (split_value e a rest))"
      using s by (auto simp: filter_step_def keep_args_def drop_args_def Let_def split: option.splits if_splits)
    with kept_ok_append kept_ok_group "2.prems" show ?thesis by fastforce
  qed
  with 2 s show ?case by simp
qed simp

lemma filter_loop_fixed: "kept_ok allow args \<Longrightarrow> filter_loop allow args r = keep_args args r"
proof (induction allow args arbitrary: r rule: kept_ok.induct)
  case (1 allow)
  then show ?case by (simp add: keep_args_def)
next
  case (2 allow a rest)
  from "2.prems" obtain key e where k: "canonicalFlagKey a = Some key" "key \<noteq> []" "allow key = Some e"
    "\<not> value_rejected e a rest" "kept_ok allow (drop (length (option_list (split_value e a rest))) rest)"
    by (auto split: option.splits)
  have "option_list (split_value e a rest) @ drop (length (option_list (split_value e a rest))) rest = rest"
    by (cases rule: split_value_rest [of e a rest]) (simp_all add: option_list_def)
  with k "2.IH" [OF k(1) k(3) k(5)] show ?case by (simp add: filter_step_def keep_args_def Let_def)
qed

section \<open>The filter as an interface\<close>

text \<open>
  What the host and the guest rely on: each side filters the developer's arguments itself, so
  filtering what the other side kept must change nothing and must drop nothing.
\<close>

locale argument_filter =
  fixes filt :: "string list \<Rightarrow> sanitize_result"
  assumes filt_kept: "filt (kept (filt args)) = \<lparr>kept = kept (filt args), dropped = [], droppedKeys = []\<rparr>"
begin

lemma kept_again: "kept (filt (kept (filt args))) = kept (filt args)"
  by (simp add: filt_kept)

lemma kept_many: "((\<lambda>xs. kept (filt xs)) ^^ Suc n) args = kept (filt args)"
  by (induction n) (simp_all add: kept_again)

lemma nothing_dropped_downstream: "droppedKeys (filt (kept (filt args))) = []"
  by (simp add: filt_kept)

end

lemma filter_kept_ok: "kept_ok allow (kept (filterAgainstAllowlist args allow))"
  unfolding filterAgainstAllowlist_def by (rule filter_loop_kept_ok) simp

lemma filter_idempotent:
  "filterAgainstAllowlist (kept (filterAgainstAllowlist args allow)) allow =
     \<lparr>kept = kept (filterAgainstAllowlist args allow), dropped = [], droppedKeys = []\<rparr>"
  unfolding filterAgainstAllowlist_def [of "kept (filterAgainstAllowlist args allow)"]
    filter_loop_fixed [OF filter_kept_ok] by (simp add: keep_args_def)

interpretation user_args: argument_filter "sanitizeInstallArgs parseUrl"
  by unfold_locales (simp add: sanitizeInstallArgs_def filter_idempotent)

interpretation arch_args: argument_filter sanitizeArchInstallArgs
  by unfold_locales (simp add: sanitizeArchInstallArgs_def filter_idempotent)

section \<open>What is kept, what is dropped\<close>

lemma kept_ok_at:
  "kept_ok allow (xs @ a # ys) \<Longrightarrow> starts_with a ''-'' \<Longrightarrow>
   \<exists>key e. canonicalFlagKey a = Some key \<and> key \<noteq> [] \<and> allow key = Some e \<and> \<not> value_rejected e a ys"
proof (induction "length xs" arbitrary: xs rule: less_induct)
  case less
  show ?case
  proof (cases xs)
    case Nil
    with less.prems show ?thesis by (auto split: option.splits)
  next
    case (Cons b rest)
    with less.prems obtain key e where k: "canonicalFlagKey b = Some key" "allow key = Some e"
      "kept_ok allow (drop (length (option_list (split_value e b (rest @ a # ys)))) (rest @ a # ys))"
      by (auto split: option.splits)
    show ?thesis
    proof (cases rule: split_value_rest [of e b "rest @ a # ys"])
      case 1
      with less.hyps [of rest] less.prems(2) Cons k(3) show ?thesis by (simp add: option_list_def)
    next
      case (2 v r)
      with less.prems(2) obtain rest' where "rest = v # rest'" "r = rest' @ a # ys"
        by (cases rest) auto
      with less.hyps [of rest'] less.prems(2) Cons 2(1) k(3) show ?thesis by (simp add: option_list_def)
    qed
  qed
qed

text \<open>An allowed flag that takes the next token as its value.\<close>

definition takes_next :: "allowlist \<Rightarrow> string \<Rightarrow> bool" where
  "takes_next allow a =
     (isBareFlag a \<and>
      (case canonicalFlagKey a of
         None \<Rightarrow> False
       | Some key \<Rightarrow> (case allow key of None \<Rightarrow> False | Some e \<Rightarrow> takesValue e)))"

lemma kept_ok_value:
  "kept_ok allow (xs @ a # ys) \<Longrightarrow> \<not> starts_with a ''-'' \<Longrightarrow> xs \<noteq> [] \<and> takes_next allow (last xs)"
proof (induction "length xs" arbitrary: xs rule: less_induct)
  case less
  show ?case
  proof (cases xs)
    case Nil
    with less.prems flag_dash [of a] show ?thesis by (auto split: option.splits)
  next
    case (Cons b rest)
    with less.prems obtain key e where k: "canonicalFlagKey b = Some key" "allow key = Some e"
      "kept_ok allow (drop (length (option_list (split_value e b (rest @ a # ys)))) (rest @ a # ys))"
      by (auto split: option.splits)
    show ?thesis
    proof (cases rule: split_value_rest [of e b "rest @ a # ys"])
      case 1
      with less.hyps [of rest] less.prems(2) Cons k(3) show ?thesis by (simp add: option_list_def)
    next
      case (2 v r)
      show ?thesis
      proof (cases rest)
        case Nil
        with 2(1) Cons k(1,2) split_value_SomeD [OF 2(1)] show ?thesis by (simp add: takes_next_def)
      next
        case (Cons v' rest')
        with 2 k(3) have "kept_ok allow (rest' @ a # ys)" by (simp add: option_list_def)
        moreover have "length rest' < length xs" using Cons \<open>xs = b # rest\<close> by simp
        ultimately have "rest' \<noteq> [] \<and> takes_next allow (last rest')" using less.hyps less.prems(2) by blast
        with Cons \<open>xs = b # rest\<close> show ?thesis by simp
      qed
    qed
  qed
qed

definition drop_constants :: "string set" where
  "drop_constants = insert ''<positional>'' (insert ''<flag>'' (set (map snd drop_reasons)))"

lemma dropReason_constant: "dropReason key \<in> drop_constants"
  by (auto simp: dropReason_def drop_constants_def split: option.splits dest!: map_of_SomeD intro: rev_image_eqI)

lemma filter_step_cases:
  obtains g n where "n \<le> length rest" "g = a # take n rest" "filter_step allow a rest r = (keep_args g r, n)"
  | g n reason where "n \<le> length rest" "g = a # take n rest" "reason \<in> drop_constants"
      "filter_step allow a rest r = (drop_args g reason r, n)"
proof -
  have sv: "\<exists>n \<le> length rest. option_list (next_value rest) = take n rest \<and> length (option_list (next_value rest)) = n"
    by (cases rest) (auto simp: next_value_def option_list_def)
  have none: "option_list None = take 0 rest" by (simp add: option_list_def)
  have pos: "''<positional>'' \<in> drop_constants" by (simp add: drop_constants_def)
  have sv': "\<exists>n \<le> length rest. option_list (split_value e a rest) = take n rest \<and>
      length (option_list (split_value e a rest)) = n" for e
    using sv none by (auto simp: split_value_def option_list_def)
  show ?thesis
  proof (cases "canonicalFlagKey a")
    case None
    then show ?thesis using that(2) [of 0 "[a]" "''<positional>''"] pos by (simp add: filter_step_def)
  next
    case (Some key)
    show ?thesis
    proof (cases "key = []")
      case True
      with Some show ?thesis using that(2) [of 0 "[a]" "''<positional>''"] pos by (simp add: filter_step_def)
    next
      case False
      show ?thesis
      proof (cases "allow key")
        case None
        obtain n where n: "n \<le> length rest"
          "option_list (if isBareFlag a then next_value rest else None) = take n rest"
          "length (option_list (if isBareFlag a then next_value rest else None)) = n"
          using sv none by (cases "isBareFlag a") (auto simp: option_list_def)
        then show ?thesis
          using that(2) [of n "a # take n rest" "dropReason key"] Some False None dropReason_constant
          by (simp add: filter_step_def)
      next
        case (Some e)
        obtain n where n: "n \<le> length rest" "option_list (split_value e a rest) = take n rest"
          "length (option_list (split_value e a rest)) = n"
          using sv' by blast
        show ?thesis
        proof (cases "value_rejected e a rest")
          case True
          then have "filter_step allow a rest r = (drop_args (a # take n rest) (dropReason key) r, n)"
            using n \<open>canonicalFlagKey a = Some key\<close> \<open>key \<noteq> []\<close> Some by (simp add: filter_step_def Let_def)
          then show ?thesis using that(2) n(1) dropReason_constant by blast
        next
          case False
          then have "filter_step allow a rest r = (keep_args (a # take n rest) r, n)"
            using n \<open>canonicalFlagKey a = Some key\<close> \<open>key \<noteq> []\<close> Some by (simp add: filter_step_def Let_def)
          then show ?thesis using that(1) n(1) by blast
        qed
      qed
    qed
  qed
qed

lemma filter_loop_splits:
  "\<exists>ks ds keys. filter_loop allow args r =
       \<lparr>kept = kept r @ ks, dropped = dropped r @ ds, droppedKeys = droppedKeys r @ keys\<rparr> \<and>
     subseq ks args \<and> subseq ds args \<and> mset ks + mset ds = mset args \<and>
     set keys \<subseteq> drop_constants \<and> length keys \<le> length ds \<and> (keys = [] \<longleftrightarrow> ds = [])"
proof (induction allow args r rule: filter_loop.induct)
  case (2 allow a rest r)
  have part: "subseq xs (drop n rest) \<Longrightarrow> subseq xs (a # rest)"
    "subseq xs (drop n rest) \<Longrightarrow> subseq (a # take n rest @ xs) (a # rest)"
    "mset (take n rest) + mset (drop n rest) = mset rest" for xs n
  proof -
    assume s: "subseq xs (drop n rest)"
    have "subseq ([] @ xs) ((a # take n rest) @ drop n rest)"
      using s by (intro list_emb_append_mono) simp_all
    then show "subseq xs (a # rest)" by simp
    have "subseq ((a # take n rest) @ xs) ((a # take n rest) @ drop n rest)"
      using s by (intro list_emb_append_mono) simp_all
    then show "subseq (a # take n rest @ xs) (a # rest)" by simp
  next
    show "mset (take n rest) + mset (drop n rest) = mset rest"
      by (metis append_take_drop_id mset_append)
  qed
  show ?case
  proof (cases rule: filter_step_cases [of rest a allow r])
    case (1 g n)
    from "2.IH" [OF 1(3) [symmetric]] obtain ks ds keys where
      ih: "filter_loop allow (drop n rest) (keep_args g r) =
         \<lparr>kept = kept (keep_args g r) @ ks, dropped = dropped (keep_args g r) @ ds,
          droppedKeys = droppedKeys (keep_args g r) @ keys\<rparr>"
      "subseq ks (drop n rest)" "subseq ds (drop n rest)" "mset ks + mset ds = mset (drop n rest)"
      "set keys \<subseteq> drop_constants" "length keys \<le> length ds" "keys = [] \<longleftrightarrow> ds = []" by blast
    show ?thesis
      by (rule exI [of _ "g @ ks"], rule exI [of _ ds], rule exI [of _ keys])
        (use ih part(1,2) [of _ n] 1 in \<open>simp add: keep_args_def ac_simps flip: part(3) [of n]\<close>)
  next
    case (2 g n reason)
    from "2.IH" [OF 2(4) [symmetric]] obtain ks ds keys where
      ih: "filter_loop allow (drop n rest) (drop_args g reason r) =
         \<lparr>kept = kept (drop_args g reason r) @ ks, dropped = dropped (drop_args g reason r) @ ds,
          droppedKeys = droppedKeys (drop_args g reason r) @ keys\<rparr>"
      "subseq ks (drop n rest)" "subseq ds (drop n rest)" "mset ks + mset ds = mset (drop n rest)"
      "set keys \<subseteq> drop_constants" "length keys \<le> length ds" "keys = [] \<longleftrightarrow> ds = []" by blast
    show ?thesis
      by (rule exI [of _ ks], rule exI [of _ "g @ ds"], rule exI [of _ "reason # keys"])
        (use ih part(1,2) [of _ n] 2 in \<open>simp add: drop_args_def ac_simps flip: part(3) [of n]\<close>)
  qed
qed simp

section \<open>Properties of the filter\<close>

text \<open>The keys of the allowlist of the \<^verbatim>\<open>args\<close> channel.\<close>

definition safe_keys :: "string set" where
  "safe_keys = {''omit'', ''include'', ''prod'', ''production'', ''dev'', ''optional'', ''p'', ''d'', ''registry''}"

lemma allowed_flag_key: "ALLOWED_FLAG_KEYS parseUrl key = Some e \<Longrightarrow> key \<in> safe_keys"
  by (auto simp: ALLOWED_FLAG_KEYS_def safe_keys_def split: if_splits)

lemma registry_entry:
  "ALLOWED_FLAG_KEYS parseUrl ''registry'' =
     Some \<lparr>takesValue = True, rejectValue = Some (registryUrlHasCredentials parseUrl)\<rparr>"
  by (simp add: ALLOWED_FLAG_KEYS_def)

lemma no_credentials:
  "\<not> registryUrlHasCredentials parseUrl v \<Longrightarrow>
   \<not> js_includes (registry_authority v) ''@'' \<and> parseUrl v \<in> {None, Some ([], [])}"
  by (auto simp: registryUrlHasCredentials_def split: option.splits if_splits)

text \<open>C31: every kept token that looks like a flag is, under any spelling, one of the nine
  dependency-selection flags: none that chooses the lockfile, the install root, the output
  directory or whether scripts run. The value a kept \<^verbatim>\<open>--registry\<close> carries, joined or as the next
  token, has no credentials: neither by the URL parser of the runtime, whatever it does, nor by the
  shape of its authority.\<close>

theorem kept_flags_safe:
  assumes "kept (sanitizeInstallArgs parseUrl args) = xs @ a # ys" and "starts_with a ''-''"
  shows "\<exists>key \<in> safe_keys. canonicalFlagKey a = Some key \<and>
     (\<forall>v. key = ''registry'' \<and> flag_value (plain_entry True) a ys = Some v \<longrightarrow>
        \<not> js_includes (registry_authority v) ''@'' \<and> parseUrl v \<in> {None, Some ([], [])})"
proof -
  have "kept_ok (ALLOWED_FLAG_KEYS parseUrl) (xs @ a # ys)"
    using filter_kept_ok [of "ALLOWED_FLAG_KEYS parseUrl" args] assms(1) by (simp add: sanitizeInstallArgs_def)
  from kept_ok_at [OF this assms(2)] obtain key e where k: "canonicalFlagKey a = Some key"
    "ALLOWED_FLAG_KEYS parseUrl key = Some e" "\<not> value_rejected e a ys" by blast
  have "\<not> registryUrlHasCredentials parseUrl v"
    if "key = ''registry''" "flag_value (plain_entry True) a ys = Some v" for v
  proof -
    have e: "e = \<lparr>takesValue = True, rejectValue = Some (registryUrlHasCredentials parseUrl)\<rparr>"
      using k(2) that(1) registry_entry by simp
    have "flag_value e a ys = Some v"
      using that(2) by (auto simp: e flag_value_def split_value_def plain_entry_def split: if_splits)
    with k(3) show ?thesis by (simp add: value_rejected_def e)
  qed
  with no_credentials k allowed_flag_key [OF k(2)] show ?thesis by blast
qed

lemma sample_sanitize:
  "sanitizeInstallArgs (\<lambda>_. None) [''--registry=https://host/'', ''--dir'', ''alt''] =
     \<lparr>kept = [''--registry=https://host/''], dropped = [''--dir'', ''alt''], droppedKeys = [''--dir'']\<rparr>"
  by (simp add: sanitizeInstallArgs_def filterAgainstAllowlist_def filter_step_def canonicalFlagKey_def
      before_char_def peel_def to_lower_def lower_char_def ALLOWED_FLAG_KEYS_def plain_entry_def
      value_rejected_def flag_value_def isBareFlag_def split_value_def option_list_def
      registryUrlHasCredentials_def registry_authority_def scheme_prefix_def trim_def trim_start_def
      is_space_def is_alnum_def is_digit_def is_upper_def is_lower_def after_char_def less_eq_char_def
      keep_args_def drop_args_def dropReason_def drop_reasons_def next_value_def Let_def)

theorem kept_flags_safe_witness:
  "kept (sanitizeInstallArgs (\<lambda>_. None) [''--registry=https://host/'', ''--dir'', ''alt'']) =
     [] @ ''--registry=https://host/'' # [] \<and>
   (\<exists>key \<in> safe_keys. canonicalFlagKey ''--registry=https://host/'' = Some key)"
proof -
  have k: "kept (sanitizeInstallArgs (\<lambda>_. None) [''--registry=https://host/'', ''--dir'', ''alt'']) =
      [] @ ''--registry=https://host/'' # []" by (simp add: sample_sanitize)
  from kept_flags_safe [OF k] k show ?thesis by auto
qed

lemma sanitize_partition_facts:
  fixes args parseUrl
  defines "r \<equiv> sanitizeInstallArgs parseUrl args"
  shows "mset (kept r) + mset (dropped r) = mset args"
    and "subseq (kept r) args" and "subseq (dropped r) args"
    and "set (droppedKeys r) \<subseteq> drop_constants" and "length (droppedKeys r) \<le> length (dropped r)"
    and "droppedKeys r = [] \<longleftrightarrow> kept r = args"
proof -
  obtain ks ds keys where "filter_loop (ALLOWED_FLAG_KEYS parseUrl) args
        \<lparr>kept = [], dropped = [], droppedKeys = []\<rparr> = \<lparr>kept = ks, dropped = ds, droppedKeys = keys\<rparr>"
    and p: "subseq ks args" "subseq ds args" "mset ks + mset ds = mset args" "set keys \<subseteq> drop_constants"
    "length keys \<le> length ds" "keys = [] \<longleftrightarrow> ds = []"
    using filter_loop_splits [of "ALLOWED_FLAG_KEYS parseUrl" args "\<lparr>kept = [], dropped = [], droppedKeys = []\<rparr>"]
    by auto
  then have r: "r = \<lparr>kept = ks, dropped = ds, droppedKeys = keys\<rparr>"
    by (simp add: r_def sanitizeInstallArgs_def filterAgainstAllowlist_def)
  have "ds = [] \<longleftrightarrow> ks = args"
  proof
    assume "ds = []"
    then have "length ks = length args" using p(3) by (metis add.right_neutral mset.simps(1) size_mset)
    with p(1) show "ks = args" by (simp add: subseq_same_length)
  qed (use p(3) in simp)
  with p r show "mset (kept r) + mset (dropped r) = mset args"
    "subseq (kept r) args" "subseq (dropped r) args" "set (droppedKeys r) \<subseteq> drop_constants"
    "length (droppedKeys r) \<le> length (dropped r)" "droppedKeys r = [] \<longleftrightarrow> kept r = args"
    by simp_all
qed

text \<open>The filter loses and invents nothing: the kept and the dropped arguments are together the
  given ones and each keeps their order; what it reports about the dropped ones is made of fixed
  constants, at most one for each, and something is reported exactly when something is dropped, so
  no text of the user reaches the log.\<close>

theorem sanitize_partition:
  fixes args parseUrl
  defines "r \<equiv> sanitizeInstallArgs parseUrl args"
  shows "(mset (kept r) + mset (dropped r) = mset args) \<and>
     (subseq (kept r) args) \<and>
     (subseq (dropped r) args) \<and>
     (set (droppedKeys r) \<subseteq> drop_constants) \<and>
     (length (droppedKeys r) \<le> length (dropped r)) \<and>
     (droppedKeys r = [] \<longleftrightarrow> kept r = args)"
  unfolding r_def by (intro conjI sanitize_partition_facts)

section \<open>Splitting inverts quoting\<close>

text \<open>How a user writes one argument: as it is when it has no space and no quote, else between quotes
  of a kind it does not contain.\<close>

definition plain_char :: "char \<Rightarrow> bool" where
  "plain_char c = (c \<noteq> CHR 0x22 \<and> c \<noteq> CHR 0x27 \<and> c \<noteq> CHR '' '' \<and> c \<noteq> CHR 0x09 \<and> c \<noteq> CHR 0x0A \<and> c \<noteq> CHR 0x0D)"

definition quote_arg :: "string \<Rightarrow> string" where
  "quote_arg a =
     (if a \<noteq> [] \<and> list_all plain_char a then a
      else if CHR 0x22 \<notin> set a then CHR 0x22 # a @ [CHR 0x22]
      else CHR 0x27 # a @ [CHR 0x27])"

lemma split_quoted:
  "q \<notin> set a \<Longrightarrow> ss_quote st = Some q \<Longrightarrow> fold split_char a st = st\<lparr>ss_cur := ss_cur st @ a\<rparr>"
  by (induction a arbitrary: st) (auto simp: split_char_def)

lemma split_plain:
  "list_all plain_char a \<Longrightarrow> ss_quote st = None \<Longrightarrow> a \<noteq> [] \<Longrightarrow>
   fold split_char a st = st\<lparr>ss_cur := ss_cur st @ a, ss_started := True\<rparr>"
proof (induction a arbitrary: st)
  case (Cons c a)
  then show ?case by (cases "a = []") (simp_all add: split_char_def plain_char_def)
qed simp

lemma split_arg:
  assumes "CHR 0x22 \<notin> set a \<or> CHR 0x27 \<notin> set a"
  shows "fold split_char (quote_arg a) \<lparr>ss_out = out, ss_cur = [], ss_quote = None, ss_started = s\<rparr> =
     \<lparr>ss_out = out, ss_cur = a, ss_quote = None, ss_started = True\<rparr>"
proof (cases "a \<noteq> [] \<and> list_all plain_char a")
  case True
  then show ?thesis by (simp add: quote_arg_def split_plain)
next
  case False
  define q where "q = (if CHR 0x22 \<notin> set a then CHR 0x22 else CHR 0x27)"
  have q: "quote_arg a = q # a @ [q]" "q \<notin> set a" "q = CHR 0x22 \<or> q = CHR 0x27"
    using False assms by (auto simp: quote_arg_def q_def)
  let ?st = "\<lparr>ss_out = out, ss_cur = [], ss_quote = Some q, ss_started = True\<rparr>"
  have "split_char q \<lparr>ss_out = out, ss_cur = [], ss_quote = None, ss_started = s\<rparr> = ?st"
    using q(3) by (auto simp: split_char_def)
  with q(1) split_quoted [OF q(2), of ?st] show ?thesis by (simp add: split_char_def)
qed

lemma split_args:
  assumes "list_all (\<lambda>a. CHR 0x22 \<notin> set a \<or> CHR 0x27 \<notin> set a) args"
  shows "(let st = fold split_char (join '' '' (map quote_arg args))
              \<lparr>ss_out = out, ss_cur = [], ss_quote = None, ss_started = False\<rparr>
          in if ss_started st then ss_out st @ [ss_cur st] else ss_out st) = out @ args"
  using assms
proof (induction args arbitrary: out rule: induct_list012)
  case (2 a)
  then show ?case by (simp add: split_arg)
next
  case (3 a b args)
  then show ?case by (simp add: split_arg split_char_def [of "CHR '' ''"])
qed simp

text \<open>Splitting an argument string gives back the arguments it was written from: for arguments
  that do not contain both kinds of quotes (spaces, newlines and the empty argument included),
  quoting each and joining them with spaces is undone by the splitter.\<close>

theorem split_quote_round_trip:
  assumes "list_all (\<lambda>a. CHR 0x22 \<notin> set a \<or> CHR 0x27 \<notin> set a) args"
  shows "splitInstallArgs (join '' '' (map quote_arg args)) = args"
  using split_args [OF assms, of "[]"] by (simp add: splitInstallArgs_def Let_def)

theorem split_quote_round_trip_witness:
  "splitInstallArgs (join '' '' (map quote_arg [''--filter'', ''my pkg'', []])) = [''--filter'', ''my pkg'', []]"
  by (rule split_quote_round_trip) simp

end
