(* ===== verification/InstallArgs.thy ===== *)
theory InstallArgs
  imports PmCommands
begin

text \<open>
  The argument vectors of the four places that run a package manager, and the sidecar that carries
  the developer's arguments from the host into the guest: the part of \<^verbatim>\<open>src/shared/run-audit.ts\<close> that
  writes it, \<^verbatim>\<open>src/guest/load-pm-flags.ts\<close> that reads it, and the assembly of the arguments in
  \<^verbatim>\<open>src/guest/phase-fetch.ts\<close>, \<^verbatim>\<open>src/guest/phase-install.ts\<close> and \<^verbatim>\<open>src/action/host-install.ts\<close>.
  The file system and the JSON parser followed by the schema check are parameters.
\<close>

record pm_flags =
  pf_extra_install_args :: "string list"
  pf_user_install_args :: "string list option"

section \<open>The sidecar\<close>

definition run_audit_pm_flags ::
  "(string \<Rightarrow> (string \<times> string) option) \<Rightarrow> string list option \<Rightarrow> string list option \<Rightarrow> pm_flags" where
  "run_audit_pm_flags parseUrl args archExtra =
     (let userInstallArgs = kept (sanitizeInstallArgs parseUrl (case args of None \<Rightarrow> [] | Some a \<Rightarrow> a))
      in \<lparr>pf_extra_install_args = (case archExtra of None \<Rightarrow> [] | Some x \<Rightarrow> x),
          pf_user_install_args = (if userInstallArgs \<noteq> [] then Some userInstallArgs else None)\<rparr>)"

text \<open>The pair of \<^verbatim>\<open>extraInstallArgs\<close> and \<^verbatim>\<open>userInstallArgs\<close>; every failure gives two empty lists.\<close>

definition loadPmFlags ::
  "(string \<Rightarrow> (string \<times> string) option) \<Rightarrow> (string \<Rightarrow> string option) \<Rightarrow> (string \<Rightarrow> pm_flags option)
   \<Rightarrow> string \<Rightarrow> string option \<Rightarrow> string list \<times> string list" where
  "loadPmFlags parseUrl readFile parseFlags filePath content =
     (case (case content of Some c \<Rightarrow> Some c | None \<Rightarrow> readFile filePath) of
        None \<Rightarrow> ([], [])
      | Some raw \<Rightarrow>
          (case parseFlags raw of
             None \<Rightarrow> ([], [])
           | Some f \<Rightarrow>
               (kept (sanitizeArchInstallArgs (pf_extra_install_args f)),
                kept (sanitizeInstallArgs parseUrl
                        (case pf_user_install_args f of None \<Rightarrow> [] | Some u \<Rightarrow> u)))))"

section \<open>The guest\<close>

text \<open>The arguments \<^verbatim>\<open>runFetchPhase\<close> spawns, from the two channels.\<close>

definition guest_fetch_args :: "manager \<Rightarrow> string \<Rightarrow> string list \<times> string list \<Rightarrow> string list" where
  "guest_fetch_args pm cwd flags =
     (case flags of (extraInstallArgs, userInstallArgs) \<Rightarrow>
        (let args = pc_args (FETCH_CMD pm);
             args = (if pm = Npm \<and> extraInstallArgs \<noteq> [] then args @ extraInstallArgs else args);
             args = (if userInstallArgs \<noteq> [] then args @ userInstallArgs else args)
         in args @ pnpmStoreDirArg pm cwd))"

text \<open>\<^verbatim>\<open>builtArgs\<close> of \<^verbatim>\<open>runInstallPhase\<close>.\<close>

definition guest_install_args ::
  "pm_command option \<Rightarrow> manager \<Rightarrow> string \<Rightarrow> string list option \<Rightarrow> string list" where
  "guest_install_args commandOverride pm cwd userInstallArgs =
     (let baseArgs = pc_args (case commandOverride of Some c \<Rightarrow> c | None \<Rightarrow> INSTALL_CMD pm);
          userArgs = (if commandOverride = None \<and> pm = Npm
                      then (case userInstallArgs of Some u \<Rightarrow> u | None \<Rightarrow> []) else [])
      in baseArgs @ userArgs @ pnpmStoreDirArg pm cwd)"

section \<open>The host\<close>

definition host_fetch_args ::
  "(string \<Rightarrow> (string \<times> string) option) \<Rightarrow> manager \<Rightarrow> string \<Rightarrow> string list \<Rightarrow> string list" where
  "host_fetch_args parseUrl pm repoDir args =
     (let hostHardening = (if pm = Pnpm then [''--ignore-pnpmfile''] else [])
      in pc_args (FETCH_CMD pm) @ kept (sanitizeInstallArgs parseUrl args) @
         pnpmStoreDirArg pm repoDir @ hostHardening)"

definition host_run_args ::
  "(string \<Rightarrow> (string \<times> string) option) \<Rightarrow> manager \<Rightarrow> string \<Rightarrow> string list \<Rightarrow> string list" where
  "host_run_args parseUrl pm repoDir args =
     (let hostHardening =
            (if pm = Pnpm then [''--config.ignore-pnpmfile=true'', ''--config.script-shell=/bin/sh''] else []);
          userArgs = (if pm = Npm then kept (sanitizeInstallArgs parseUrl args) else [])
      in pc_args (INSTALL_CMD pm) @ userArgs @ pnpmStoreDirArg pm repoDir @ hostHardening)"

section \<open>Parity\<close>

lemma sanitize_nil: "kept (sanitizeInstallArgs parseUrl []) = []" "kept (sanitizeArchInstallArgs []) = []"
  by (simp_all add: sanitizeInstallArgs_def sanitizeArchInstallArgs_def filterAgainstAllowlist_def)

lemma loaded_flags:
  assumes "parseFlags content = Some (run_audit_pm_flags parseUrl (Some args) None)"
  shows "loadPmFlags parseUrl readFile parseFlags filePath (Some content) =
     ([], kept (sanitizeInstallArgs parseUrl args))"
  using assms by (simp add: loadPmFlags_def run_audit_pm_flags_def sanitize_nil user_args.kept_again Let_def)

lemma host_guest_parity_facts:
  fixes readFile filePath parseUrl parseFlags content args
  assumes "parseFlags content = Some (run_audit_pm_flags parseUrl (Some args) None)"
  defines "flags \<equiv> loadPmFlags parseUrl readFile parseFlags filePath (Some content)"
  shows "host_fetch_args parseUrl pm dir args =
       guest_fetch_args pm dir flags @ (if pm = Pnpm then [''--ignore-pnpmfile''] else [])"
    and "host_run_args parseUrl pm dir args =
       guest_install_args None pm dir (Some (snd flags)) @
       (if pm = Pnpm then [''--config.ignore-pnpmfile=true'', ''--config.script-shell=/bin/sh''] else [])"
proof -
  have f: "flags = ([], kept (sanitizeInstallArgs parseUrl args))"
    unfolding flags_def using assms(1) by (rule loaded_flags [of parseFlags content parseUrl args readFile filePath])
  show "host_fetch_args parseUrl pm dir args =
       guest_fetch_args pm dir flags @ (if pm = Pnpm then [''--ignore-pnpmfile''] else [])"
    unfolding f by (simp add: host_fetch_args_def guest_fetch_args_def Let_def)
  show "host_run_args parseUrl pm dir args =
       guest_install_args None pm dir (Some (snd flags)) @
       (if pm = Pnpm then [''--config.ignore-pnpmfile=true'', ''--config.script-shell=/bin/sh''] else [])"
    unfolding f by (cases pm) (simp_all add: host_run_args_def guest_install_args_def)
qed

text \<open>C33: host and guest install the same tree. With no architecture overlay, when the sidecar the
  host wrote for the developer's arguments arrives (its text parses to what was written), the
  guest's fetch and install run with the arguments of the host's two steps for the same directory,
  up to the hardening flags the host appends for pnpm.\<close>

theorem host_guest_parity:
  fixes readFile filePath parseUrl parseFlags content args
  assumes "parseFlags content = Some (run_audit_pm_flags parseUrl (Some args) None)"
  defines "flags \<equiv> loadPmFlags parseUrl readFile parseFlags filePath (Some content)"
  shows "(host_fetch_args parseUrl pm dir args =
       guest_fetch_args pm dir flags @ (if pm = Pnpm then [''--ignore-pnpmfile''] else [])) \<and>
     (host_run_args parseUrl pm dir args =
       guest_install_args None pm dir (Some (snd flags)) @
       (if pm = Pnpm then [''--config.ignore-pnpmfile=true'', ''--config.script-shell=/bin/sh''] else []))"
  unfolding flags_def using host_guest_parity_facts [of parseFlags content, OF assms(1)] by (intro conjI)

theorem host_guest_parity_witness:
  "host_fetch_args (\<lambda>_. None) Pnpm ''/r'' [''--prod''] =
     guest_fetch_args Pnpm ''/r''
       (loadPmFlags (\<lambda>_. None) (\<lambda>_. None) (\<lambda>_. Some (run_audit_pm_flags (\<lambda>_. None) (Some [''--prod'']) None))
          ''/etc/script-jail/pm-flags.json'' (Some ''{}'')) @ [''--ignore-pnpmfile'']"
  using host_guest_parity [of "\<lambda>_. Some (run_audit_pm_flags (\<lambda>_. None) (Some [''--prod'']) None)" "''{}''"
      "\<lambda>_. None" "[''--prod'']" Pnpm "''/r''" "\<lambda>_. None" "''/etc/script-jail/pm-flags.json''"]
  by simp

text \<open>C32: a tampered sidecar cannot steer the install. Whatever the sidecar holds, and however it arrives, the
  guest's fetch runs the fixed command, the hints (npm only), the developer's arguments and the store directory of
  pnpm. Every token of the arguments that looks like a flag is one of the nine dependency-selection flags, every
  such token of the hints one of the three architecture hints, and none has a rejected value; every other token,
  so every path and package name, stands right after an allowed flag that takes it as its value.\<close>

theorem tampered_sidecar_harmless:
  fixes pm cwd parseUrl readFile parseFlags filePath content
  defines "flags \<equiv> loadPmFlags parseUrl readFile parseFlags filePath content"
  shows "guest_fetch_args pm cwd flags =
       pc_args (FETCH_CMD pm) @ (if pm = Npm then fst flags else []) @ snd flags @ pnpmStoreDirArg pm cwd \<and>
     kept_ok (ALLOWED_FLAG_KEYS parseUrl) (snd flags) \<and> kept_ok ALLOWED_ARCH_KEYS (fst flags) \<and>
     canonicalFlagKey ` {a \<in> set (snd flags). starts_with a ''-''} \<subseteq> Some ` safe_keys \<and>
     canonicalFlagKey ` {a \<in> set (fst flags). starts_with a ''-''} \<subseteq> Some ` {''cpu'', ''os'', ''libc''} \<and>
     (\<forall>us a vs. snd flags = us @ a # vs \<and> \<not> starts_with a ''-'' \<longrightarrow>
        us \<noteq> [] \<and> takes_next (ALLOWED_FLAG_KEYS parseUrl) (last us)) \<and>
     (\<forall>us a vs. fst flags = us @ a # vs \<and> \<not> starts_with a ''-'' \<longrightarrow>
        us \<noteq> [] \<and> takes_next ALLOWED_ARCH_KEYS (last us))"
proof -
  have keys: "canonicalFlagKey ` {a \<in> set xs. starts_with a ''-''} \<subseteq> Some ` {k. allow k \<noteq> None}"
    if "kept_ok allow xs" for allow xs
  proof -
    have "canonicalFlagKey a \<in> Some ` {k. allow k \<noteq> None}" if "a \<in> set xs" "starts_with a ''-''" for a
    proof -
      from that(1) obtain us vs where "xs = us @ a # vs" by (meson split_list)
      with kept_ok_at [of allow us a vs] that(2) \<open>kept_ok allow xs\<close> show ?thesis by auto
    qed
    then show ?thesis by auto
  qed
  have user: "kept_ok (ALLOWED_FLAG_KEYS parseUrl) (snd flags)"
    using filter_kept_ok by (auto simp: flags_def loadPmFlags_def sanitizeInstallArgs_def split: option.splits)
  have hint: "kept_ok ALLOWED_ARCH_KEYS (fst flags)"
    using filter_kept_ok by (auto simp: flags_def loadPmFlags_def sanitizeArchInstallArgs_def split: option.splits)
  have "{k. ALLOWED_FLAG_KEYS parseUrl k \<noteq> None} \<subseteq> safe_keys" using allowed_flag_key by blast
  with keys [OF user] have u: "canonicalFlagKey ` {a \<in> set (snd flags). starts_with a ''-''} \<subseteq> Some ` safe_keys"
    by blast
  have "{k. ALLOWED_ARCH_KEYS k \<noteq> None} \<subseteq> {''cpu'', ''os'', ''libc''}"
    by (auto simp: ALLOWED_ARCH_KEYS_def split: if_splits)
  with keys [OF hint] have h: "canonicalFlagKey ` {a \<in> set (fst flags). starts_with a ''-''} \<subseteq> Some ` {''cpu'', ''os'', ''libc''}"
    by blast
  have "guest_fetch_args pm cwd flags =
      pc_args (FETCH_CMD pm) @ (if pm = Npm then fst flags else []) @ snd flags @ pnpmStoreDirArg pm cwd"
    by (cases flags) (simp add: guest_fetch_args_def Let_def)
  moreover have "\<forall>us a vs. xs = us @ a # vs \<and> \<not> starts_with a ''-'' \<longrightarrow> us \<noteq> [] \<and> takes_next allow (last us)"
    if "kept_ok allow xs" for allow xs
    using that kept_ok_value by blast
  ultimately show ?thesis using u h user hint by blast
qed

definition sample_sidecar :: pm_flags where
  "sample_sidecar = \<lparr>pf_extra_install_args = [''--dir'', ''/x''],
     pf_user_install_args = Some [''--omit'', ''dev'', ''evil'', ''--prefix=/y'']\<rparr>"

theorem tampered_sidecar_harmless_witness:
  "loadPmFlags (\<lambda>_. None) (\<lambda>_. None) (\<lambda>_. Some sample_sidecar) ''/etc/script-jail/pm-flags.json'' (Some ''{}'') =
     ([], [''--omit''] @ ''dev'' # []) \<and>
   takes_next (ALLOWED_FLAG_KEYS (\<lambda>_. None)) ''--omit''"
proof -
  let ?flags = "loadPmFlags (\<lambda>_. None) (\<lambda>_. None) (\<lambda>_. Some sample_sidecar) ''/etc/script-jail/pm-flags.json'' (Some ''{}'')"
  have flags: "?flags = ([], [''--omit''] @ ''dev'' # [])" by code_simp
  have "\<forall>us a vs. snd ?flags = us @ a # vs \<and> \<not> starts_with a ''-'' \<longrightarrow>
      us \<noteq> [] \<and> takes_next (ALLOWED_FLAG_KEYS (\<lambda>_. None)) (last us)"
    using tampered_sidecar_harmless [where parseUrl = "\<lambda>_. None" and readFile = "\<lambda>_. None" and parseFlags = "\<lambda>_. Some sample_sidecar"
        and filePath = "''/etc/script-jail/pm-flags.json''" and content = "Some ''{}''"] by blast
  then have "takes_next (ALLOWED_FLAG_KEYS (\<lambda>_. None)) (last [''--omit''])"
    unfolding flags snd_conv by (elim allE [where x = "[''--omit'']"] allE [where x = "''dev''"] allE [where x = "[]"]) simp
  with flags show ?thesis by simp
qed

end
