(* ===== verification/Attribution.thy ===== *)
theory Attribution
  imports Schema
begin

text \<open>
  Which package and lifecycle stage a process belongs to: \<^verbatim>\<open>src/guest/attribution.ts\<close>. The
  \<^verbatim>\<open>/proc\<close> file system is outside the program; a \<^verbatim>\<open>ProcReader\<close> is a snapshot of it, passed to every
  call because it changes between calls. The class keeps a cache, so its methods take and
  return the state.
\<close>

section \<open>Attribution from environment variables\<close>

record attribution_result =
  ar_pkg :: string
  ar_lifecycle :: lifecycle_stage

definition PNPM_ROOT_REBUILD_HOOKS :: "string list" where
  "PNPM_ROOT_REBUILD_HOOKS = [''prepublish'', ''prerebuild'', ''rebuild'', ''postrebuild'']"

definition NPM_ROOT_PREPARE_WRAPPER_HOOKS :: "string list" where
  "NPM_ROOT_PREPARE_WRAPPER_HOOKS = [''preprepare'', ''postprepare'']"

definition buildPkg :: "string \<Rightarrow> string option \<Rightarrow> string" where
  "buildPkg name version = (case version of Some v \<Rightarrow> name @ ''@'' @ v | None \<Rightarrow> name)"

definition ROOT_SENTINEL :: string where
  "ROOT_SENTINEL = ''<repo-root>''"

text \<open>A field of the parsed manifest: absent, a string, or a value that is not a string.\<close>

datatype manifest_field = Absent | StrField string | NonStr

definition buildRootPkgKeys :: "manifest_field \<Rightarrow> manifest_field \<Rightarrow> string set \<times> string option" where
  "buildRootPkgKeys name version =
     (case name of
        NonStr \<Rightarrow> ({}, None)
      | Absent \<Rightarrow> ({ROOT_SENTINEL}, Some ROOT_SENTINEL)
      | StrField n \<Rightarrow>
          if n = [] then ({ROOT_SENTINEL}, Some ROOT_SENTINEL)
          else (case version of
                  StrField v \<Rightarrow> ({n, n @ ''@'' @ v}, Some (n @ ''@'' @ v))
                | _ \<Rightarrow> ({n}, Some n)))"

text \<open>The hooks of a root folded into the canonical stages.\<close>

definition fold_root_hook :: "string \<Rightarrow> lifecycle_stage option" where
  "fold_root_hook event =
     (if event \<in> set PNPM_ROOT_REBUILD_HOOKS then Some Install
      else if event \<in> set NPM_ROOT_PREPARE_WRAPPER_HOOKS then Some Prepare
      else None)"

definition named_attribution ::
  "string option \<Rightarrow> string option \<Rightarrow> string option \<Rightarrow> string set option \<Rightarrow> attribution_result option" where
  "named_attribution name version event rootKeys =
     (case (name, event, rootKeys) of
        (Some n, Some e, Some ks) \<Rightarrow>
          if n \<noteq> [] \<and> buildPkg n version \<in> ks
          then map_option (\<lambda>st. \<lparr>ar_pkg = buildPkg n version, ar_lifecycle = st\<rparr>) (fold_root_hook e)
          else None
      | _ \<Rightarrow> None)"

definition sentinel_attribution ::
  "string option \<Rightarrow> string option \<Rightarrow> string option \<Rightarrow> attribution_result option" where
  "sentinel_attribution name event rootSentinel =
     (case (event, rootSentinel) of
        (Some e, Some s) \<Rightarrow>
          if name = None \<or> name = Some []
          then (case stage_of e of
                  Some st \<Rightarrow> Some \<lparr>ar_pkg = s, ar_lifecycle = st\<rparr>
                | None \<Rightarrow> map_option (\<lambda>st. \<lparr>ar_pkg = s, ar_lifecycle = st\<rparr>) (fold_root_hook e))
          else None
      | _ \<Rightarrow> None)"

definition attributionFromEnvVars ::
  "string option \<Rightarrow> string option \<Rightarrow> string option \<Rightarrow> string option \<Rightarrow> string set option
    \<Rightarrow> attribution_result option" where
  "attributionFromEnvVars name version event rootSentinel rootKeys =
     (case (name, Option.bind event stage_of) of
        (Some (c # cs), Some st) \<Rightarrow> Some \<lparr>ar_pkg = buildPkg (c # cs) version, ar_lifecycle = st\<rparr>
      | _ \<Rightarrow>
          (case named_attribution name version event rootKeys of
             Some r \<Rightarrow> Some r
           | None \<Rightarrow> sentinel_attribution name event rootSentinel))"

section \<open>The walk and its cache\<close>

record proc_reader =
  readPpid :: "int \<Rightarrow> int option"
  readEnviron :: "int \<Rightarrow> (string \<Rightarrow> string option) option"

record attribution =
  at_rootSentinel :: "string option"
  at_rootKeys :: "string set option"
  at_cache :: "(int, attribution_result option) js_map"

definition new_attribution :: "string option \<Rightarrow> string set option \<Rightarrow> attribution" where
  "new_attribution rootSentinel rootKeys =
     \<lparr>at_rootSentinel = rootSentinel, at_rootKeys = rootKeys, at_cache = []\<rparr>"

definition pid_attribution :: "proc_reader \<Rightarrow> attribution \<Rightarrow> int \<Rightarrow> attribution_result option" where
  "pid_attribution reader st pid =
     (case readEnviron reader pid of
        None \<Rightarrow> None
      | Some env \<Rightarrow>
          attributionFromEnvVars (env ''npm_package_name'') (env ''npm_package_version'')
            (env ''npm_lifecycle_event'') (at_rootSentinel st) (at_rootKeys st))"

definition MAX_DEPTH :: nat where
  "MAX_DEPTH = 1024"

text \<open>The \<^verbatim>\<open>for\<close> loop with \<open>n\<close> iterations left.\<close>

fun walk_loop :: "proc_reader \<Rightarrow> attribution \<Rightarrow> nat \<Rightarrow> int \<Rightarrow> attribution_result option" where
  "walk_loop reader st 0 current = None"
| "walk_loop reader st (Suc n) current =
     (if current = 0 \<or> current = 1 then None
      else case pid_attribution reader st current of
             Some r \<Rightarrow> Some r
           | None \<Rightarrow>
               (case readPpid reader current of
                  None \<Rightarrow> None
                | Some ppid \<Rightarrow> walk_loop reader st n ppid))"

definition walk :: "proc_reader \<Rightarrow> attribution \<Rightarrow> int \<Rightarrow> attribution_result option" where
  "walk reader st startPid = walk_loop reader st MAX_DEPTH startPid"

definition attribute ::
  "proc_reader \<Rightarrow> int \<Rightarrow> attribution \<Rightarrow> attribution_result option \<times> attribution" where
  "attribute reader pid st =
     (case map_of (at_cache st) pid of
        Some r \<Rightarrow> (r, st)
      | None \<Rightarrow>
          (let r = walk reader st pid
           in (r, st\<lparr>at_cache := map_set pid r (at_cache st)\<rparr>)))"

definition invalidate :: "int \<Rightarrow> attribution \<Rightarrow> attribution" where
  "invalidate pid st = st\<lparr>at_cache := map_delete pid (at_cache st)\<rparr>"

section \<open>Which environments attribute to what\<close>

lemma fold_root_hook_noncanonical: "fold_root_hook e = Some st \<Longrightarrow> stage_of e = None"
  by (auto simp: fold_root_hook_def PNPM_ROOT_REBUILD_HOOKS_def NPM_ROOT_PREPARE_WRAPPER_HOOKS_def
      stage_of_def stage_options_def split: if_splits)

lemma named_cases:
  assumes "n \<noteq> []"
  shows "attributionFromEnvVars (Some n) version event s ks =
     (case Option.bind event stage_of of
        Some st \<Rightarrow> Some \<lparr>ar_pkg = buildPkg n version, ar_lifecycle = st\<rparr>
      | None \<Rightarrow> named_attribution (Some n) version event ks)"
  using assms
  by (cases n) (auto simp: attributionFromEnvVars_def sentinel_attribution_def split: option.splits)

lemma nameless_cases:
  assumes "name = None \<or> name = Some []"
  shows "attributionFromEnvVars name version event s ks = sentinel_attribution name event s"
  using assms
  by (auto simp: attributionFromEnvVars_def named_attribution_def split: option.splits)

text \<open>C35: a dependency keeps the strict gate: a process with a package name that is not a key of the
  root is attributed exactly when its lifecycle event is one of the four canonical stages, and
  then to its own name and version; the root-only hooks never change its attribution.\<close>

theorem dependency_strict_gate:
  assumes "name \<noteq> []" and "case keys of None \<Rightarrow> True | Some ks \<Rightarrow> buildPkg name version \<notin> ks"
  shows "attributionFromEnvVars (Some name) version event sentinel keys =
     map_option (\<lambda>st. \<lparr>ar_pkg = buildPkg name version, ar_lifecycle = st\<rparr>)
       (Option.bind event stage_of)"
  using assms
  by (auto simp: named_cases named_attribution_def split: option.splits)

theorem dependency_strict_gate_witness:
  "attributionFromEnvVars (Some ''dep'') (Some ''1'') (Some ''rebuild'') None (Some {''root''}) = None"
proof -
  have "attributionFromEnvVars (Some ''dep'') (Some ''1'') (Some ''rebuild'') None (Some {''root''})
      = map_option (\<lambda>st. \<lparr>ar_pkg = buildPkg ''dep'' (Some ''1''), ar_lifecycle = st\<rparr>)
          (Option.bind (Some ''rebuild'') stage_of)"
    by (rule dependency_strict_gate) (simp_all add: buildPkg_def)
  then show ?thesis by (simp add: stage_of_def stage_options_def)
qed

definition env_of_field :: "manifest_field \<Rightarrow> string option" where
  "env_of_field f = (case f of StrField v \<Rightarrow> Some v | _ \<Rightarrow> None)"

definition root_event :: "string \<Rightarrow> bool" where
  "root_event e = (stage_of e \<noteq> None \<or> fold_root_hook e \<noteq> None)"

definition sentinel_of :: "manifest_field \<Rightarrow> manifest_field \<Rightarrow> string option" where
  "sentinel_of name version =
     (if snd (buildRootPkgKeys name version) = Some ROOT_SENTINEL then Some ROOT_SENTINEL else None)"

text \<open>The key set built from the root manifest covers every attribution of the root's own
  processes: with the name and version the package manager exports for that manifest (the
  version may be unset), whatever stage or hook runs is attributed to a key of the set, and
  every canonical stage and every root hook is attributed.\<close>

theorem root_attribution_in_keys:
  assumes "name \<noteq> NonStr" and "v = env_of_field version \<or> v = None" and "root_event e"
  shows "\<exists>a. attributionFromEnvVars (env_of_field name) v (Some e) (sentinel_of name version)
              (Some (fst (buildRootPkgKeys name version))) = Some a \<and>
             ar_pkg a \<in> fst (buildRootPkgKeys name version)"
proof (cases "env_of_field name = None \<or> env_of_field name = Some []")
  case True
  then have keys: "buildRootPkgKeys name version = ({ROOT_SENTINEL}, Some ROOT_SENTINEL)"
    using assms(1) by (auto simp: buildRootPkgKeys_def env_of_field_def split: manifest_field.splits)
  then show ?thesis
    using assms(3) True
    by (auto simp: sentinel_of_def nameless_cases sentinel_attribution_def root_event_def
        split: option.splits)
next
  case False
  then obtain n where n: "name = StrField n" "n \<noteq> []"
    by (auto simp: env_of_field_def split: manifest_field.splits)
  have mem: "buildPkg n v \<in> fst (buildRootPkgKeys name version)"
    using n assms(2)
    by (auto simp: buildRootPkgKeys_def buildPkg_def env_of_field_def split: manifest_field.splits)
  show ?thesis
    using n mem assms(3)
    by (auto simp: env_of_field_def named_cases named_attribution_def root_event_def
        split: option.splits)
qed

theorem root_attribution_in_keys_witness:
  "\<exists>a. attributionFromEnvVars (Some ''app'') None (Some ''rebuild'') None
         (Some {''app'', ''app@2''}) = Some a \<and> ar_pkg a \<in> {''app'', ''app@2''}"
proof -
  have e: "root_event ''rebuild''"
    by (simp add: root_event_def fold_root_hook_def PNPM_ROOT_REBUILD_HOOKS_def)
  have k: "buildRootPkgKeys (StrField ''app'') (StrField ''2'') = ({''app'', ''app@2''}, Some ''app@2'')"
    by (simp add: buildRootPkgKeys_def)
  show ?thesis
    using root_attribution_in_keys [of "StrField ''app''" None "StrField ''2''", OF _ _ e]
    by (simp add: k env_of_field_def sentinel_of_def ROOT_SENTINEL_def)
qed

section \<open>The walk finds the nearest ancestor that attributes\<close>

definition nearest_attribution ::
  "proc_reader \<Rightarrow> attribution \<Rightarrow> nat \<Rightarrow> int \<Rightarrow> attribution_result \<Rightarrow> bool" where
  "nearest_attribution reader st n pid a =
     (\<exists>k < n. \<exists>q. anc (readPpid reader) k pid = Some q \<and> pid_attribution reader st q = Some a \<and>
        (\<forall>j \<le> k. \<forall>r. anc (readPpid reader) j pid = Some r \<longrightarrow> r \<noteq> 0 \<and> r \<noteq> 1) \<and>
        (\<forall>j < k. \<forall>r. anc (readPpid reader) j pid = Some r \<longrightarrow> pid_attribution reader st r = None))"

lemma nearest_attribution_0: "\<not> nearest_attribution reader st 0 pid a"
  by (simp add: nearest_attribution_def)

lemma nearest_attribution_init: "nearest_attribution reader st (Suc n) pid a \<Longrightarrow> pid \<noteq> 0 \<and> pid \<noteq> 1"
  by (auto simp: nearest_attribution_def)

lemma nearest_attribution_here:
  assumes "pid \<noteq> 0" "pid \<noteq> 1" "pid_attribution reader st pid = Some b"
  shows "nearest_attribution reader st (Suc n) pid a \<longleftrightarrow> a = b"
proof
  assume "nearest_attribution reader st (Suc n) pid a"
  then obtain k q where k: "anc (readPpid reader) k pid = Some q" "pid_attribution reader st q = Some a"
    "\<forall>j < k. \<forall>r. anc (readPpid reader) j pid = Some r \<longrightarrow> pid_attribution reader st r = None"
    by (auto simp: nearest_attribution_def)
  with assms(3) show "a = b" by (cases k) auto
next
  assume "a = b"
  with assms show "nearest_attribution reader st (Suc n) pid a"
    unfolding nearest_attribution_def by (intro exI [of _ 0]) simp
qed

lemma nearest_attribution_parent:
  assumes "pid \<noteq> 0" "pid \<noteq> 1" "pid_attribution reader st pid = None"
  shows "nearest_attribution reader st (Suc n) pid a \<longleftrightarrow>
         (\<exists>q. readPpid reader pid = Some q \<and> nearest_attribution reader st n q a)"
proof
  assume "nearest_attribution reader st (Suc n) pid a"
  then obtain k q where k: "k < Suc n" "anc (readPpid reader) k pid = Some q"
    "pid_attribution reader st q = Some a"
    "\<forall>j \<le> k. \<forall>r. anc (readPpid reader) j pid = Some r \<longrightarrow> r \<noteq> 0 \<and> r \<noteq> 1"
    "\<forall>j < k. \<forall>r. anc (readPpid reader) j pid = Some r \<longrightarrow> pid_attribution reader st r = None"
    unfolding nearest_attribution_def by blast
  with assms(3) obtain m where m: "k = Suc m" by (cases k) auto
  with k(2) obtain p where p: "readPpid reader pid = Some p" "anc (readPpid reader) m p = Some q"
    by (auto split: option.splits)
  have "\<forall>j \<le> m. \<forall>r. anc (readPpid reader) j p = Some r \<longrightarrow> r \<noteq> 0 \<and> r \<noteq> 1"
    using k(4) p(1) m by (metis Suc_le_mono anc_Suc_iff)
  moreover have "\<forall>j < m. \<forall>r. anc (readPpid reader) j p = Some r \<longrightarrow> pid_attribution reader st r = None"
    using k(5) p(1) m by (metis Suc_mono anc_Suc_iff)
  ultimately show "\<exists>q. readPpid reader pid = Some q \<and> nearest_attribution reader st n q a"
    using p k(1,3) m unfolding nearest_attribution_def by (metis Suc_less_eq)
next
  assume "\<exists>q. readPpid reader pid = Some q \<and> nearest_attribution reader st n q a"
  then obtain p k q where p: "readPpid reader pid = Some p" and k: "k < n"
    "anc (readPpid reader) k p = Some q" "pid_attribution reader st q = Some a"
    "\<forall>j \<le> k. \<forall>r. anc (readPpid reader) j p = Some r \<longrightarrow> r \<noteq> 0 \<and> r \<noteq> 1"
    "\<forall>j < k. \<forall>r. anc (readPpid reader) j p = Some r \<longrightarrow> pid_attribution reader st r = None"
    unfolding nearest_attribution_def by blast
  have "\<forall>j \<le> Suc k. \<forall>r. anc (readPpid reader) j pid = Some r \<longrightarrow> r \<noteq> 0 \<and> r \<noteq> 1"
  proof (intro allI impI)
    fix j r assume "j \<le> Suc k" "anc (readPpid reader) j pid = Some r"
    then show "r \<noteq> 0 \<and> r \<noteq> 1" using k(4) p assms(1,2) by (cases j) auto
  qed
  moreover have "\<forall>j < Suc k. \<forall>r. anc (readPpid reader) j pid = Some r \<longrightarrow> pid_attribution reader st r = None"
  proof (intro allI impI)
    fix j r assume "j < Suc k" "anc (readPpid reader) j pid = Some r"
    then show "pid_attribution reader st r = None" using k(5) p assms(3) by (cases j) auto
  qed
  moreover have "anc (readPpid reader) (Suc k) pid = Some q" using p k(2) by simp
  ultimately show "nearest_attribution reader st (Suc n) pid a"
    using k(1,3) unfolding nearest_attribution_def by (metis Suc_mono)
qed

lemma walk_loop_nearest:
  "walk_loop reader st n pid = Some a \<longleftrightarrow> nearest_attribution reader st n pid a"
proof (induction n arbitrary: pid)
  case 0
  show ?case by (simp add: nearest_attribution_0)
next
  case (Suc n)
  consider "pid = 0 \<or> pid = 1"
    | b where "pid \<noteq> 0" "pid \<noteq> 1" "pid_attribution reader st pid = Some b"
    | "pid \<noteq> 0" "pid \<noteq> 1" "pid_attribution reader st pid = None"
    by (cases "pid_attribution reader st pid") auto
  then show ?case
  proof cases
    case 1
    then show ?thesis using nearest_attribution_init by fastforce
  next
    case 2
    then show ?thesis by (auto simp: nearest_attribution_here)
  next
    case 3
    then show ?thesis by (auto simp: nearest_attribution_parent Suc.IH split: option.splits)
  qed
qed

text \<open>C36: the walk over the process tree returns exactly the attribution of the nearest process of the
  ancestor chain (the process itself included) whose environment attributes, provided no process
  up to it is pid 0 or 1 and it is fewer than 1024 steps away; in every other case it returns
  null.\<close>

theorem walk_finds_nearest:
  "walk reader st pid = Some a \<longleftrightarrow>
     (\<exists>k < 1024. \<exists>q. anc (readPpid reader) k pid = Some q \<and> pid_attribution reader st q = Some a \<and>
        (\<forall>j \<le> k. \<forall>r. anc (readPpid reader) j pid = Some r \<longrightarrow> r \<noteq> 0 \<and> r \<noteq> 1) \<and>
        (\<forall>j < k. \<forall>r. anc (readPpid reader) j pid = Some r \<longrightarrow> pid_attribution reader st r = None))"
  unfolding walk_def walk_loop_nearest MAX_DEPTH_def nearest_attribution_def ..

definition sample_reader :: proc_reader where
  "sample_reader =
     \<lparr>readPpid = (\<lambda>p. if p = 7 then Some 5 else None),
      readEnviron = (\<lambda>p. if p = 5 then Some [''npm_package_name'' \<mapsto> ''dep'',
                                           ''npm_lifecycle_event'' \<mapsto> ''install''] else None)\<rparr>"

theorem walk_finds_nearest_witness:
  "walk sample_reader (new_attribution None None) 7 = Some \<lparr>ar_pkg = ''dep'', ar_lifecycle = Install\<rparr>"
proof -
  have a: "pid_attribution sample_reader (new_attribution None None) 5
      = Some \<lparr>ar_pkg = ''dep'', ar_lifecycle = Install\<rparr>"
    "pid_attribution sample_reader (new_attribution None None) 7 = None"
    by (simp_all add: sample_reader_def pid_attribution_def new_attribution_def named_cases
        stage_of_def stage_options_def buildPkg_def)
  have p: "anc (readPpid sample_reader) (Suc 0) 7 = Some 5"
    by (simp add: sample_reader_def)
  show ?thesis
    unfolding walk_finds_nearest
    by (rule exI [of _ "Suc 0"], rule conjI, simp, rule exI [of _ 5])
      (use a p in \<open>auto simp: le_Suc_eq\<close>)
qed

lemma walk_sample: "walk sample_reader (new_attribution None None) 7 = Some \<lparr>ar_pkg = ''dep'', ar_lifecycle = Install\<rparr>"
proof -
  have "walk_loop sample_reader (new_attribution None None) (Suc (Suc n)) 7
      = Some \<lparr>ar_pkg = ''dep'', ar_lifecycle = Install\<rparr>" for n
    by (simp add: sample_reader_def pid_attribution_def new_attribution_def named_cases
        stage_of_def stage_options_def buildPkg_def)
  from this [of 1022] show ?thesis by (simp add: walk_def MAX_DEPTH_def)
qed

section \<open>The cache over a history of calls\<close>

datatype attribution_op = OpAttribute proc_reader int | OpInvalidate int

fun run_op :: "attribution_op \<Rightarrow> attribution \<Rightarrow> attribution" where
  "run_op (OpAttribute reader pid) st = snd (attribute reader pid st)"
| "run_op (OpInvalidate pid) st = invalidate pid st"

definition run_ops :: "attribution_op list \<Rightarrow> attribution \<Rightarrow> attribution" where
  "run_ops ops st = fold run_op ops st"

fun op_pid :: "attribution_op \<Rightarrow> int" where
  "op_pid (OpAttribute reader pid) = pid"
| "op_pid (OpInvalidate pid) = pid"

lemma run_op_config [simp]:
  "at_rootSentinel (run_op op st) = at_rootSentinel st"
  "at_rootKeys (run_op op st) = at_rootKeys st"
  by (cases op; simp add: attribute_def invalidate_def Let_def split: option.splits)+

lemma run_ops_config [simp]:
  "at_rootSentinel (run_ops ops st) = at_rootSentinel st"
  "at_rootKeys (run_ops ops st) = at_rootKeys st"
  by (induction ops arbitrary: st) (simp_all add: run_ops_def)

lemma walk_config:
  assumes "at_rootSentinel st = at_rootSentinel st'" "at_rootKeys st = at_rootKeys st'"
  shows "walk reader st pid = walk reader st' pid"
proof -
  have "pid_attribution reader st = pid_attribution reader st'"
    using assms by (simp add: pid_attribution_def fun_eq_iff split: option.splits)
  then have "walk_loop reader st n q = walk_loop reader st' n q" for n q
    by (induction n arbitrary: q) (simp_all split: option.splits)
  then show ?thesis by (simp add: walk_def)
qed

lemma run_op_other: "op_pid op \<noteq> pid \<Longrightarrow> map_of (at_cache (run_op op st)) pid = map_of (at_cache st) pid"
  by (cases op)
    (auto simp: attribute_def invalidate_def Let_def jm.get_put jm.get_del split: option.splits)

lemma run_ops_other:
  "\<forall>op \<in> set ops. op_pid op \<noteq> pid \<Longrightarrow>
   map_of (at_cache (run_ops ops st)) pid = map_of (at_cache st) pid"
  by (induction ops arbitrary: st) (simp_all add: run_ops_def run_op_other)

lemma run_op_keeps:
  "map_of (at_cache st) pid = Some r \<Longrightarrow> op \<noteq> OpInvalidate pid \<Longrightarrow>
   map_of (at_cache (run_op op st)) pid = Some r"
  by (cases op)
    (auto simp: attribute_def invalidate_def Let_def jm.get_put jm.get_del split: option.splits)

lemma run_ops_keeps:
  "map_of (at_cache st) pid = Some r \<Longrightarrow> OpInvalidate pid \<notin> set ops \<Longrightarrow>
   map_of (at_cache (run_ops ops st)) pid = Some r"
  by (induction ops arbitrary: st) (auto simp: run_ops_def run_op_keeps)

lemma run_ops_append: "run_ops (xs @ ys) st = run_ops ys (run_ops xs st)"
  by (simp add: run_ops_def)

text \<open>A recycled pid never inherits a dead generation's attribution: whatever calls came before,
  once the pid has been invalidated the next attribution of it (calls for other pids may come in
  between) is a fresh walk of the process tree as it is then.\<close>

theorem recycled_pid_walks_afresh:
  assumes "\<forall>op \<in> set later. op_pid op \<noteq> pid"
  shows "fst (attribute reader pid (run_ops (earlier @ OpInvalidate pid # later) st)) = walk reader st pid"
proof -
  let ?st = "run_ops (earlier @ OpInvalidate pid # later) st"
  have "?st = run_ops later (invalidate pid (run_ops earlier st))"
    by (simp add: run_ops_append) (simp add: run_ops_def)
  then have "map_of (at_cache ?st) pid = None"
    using run_ops_other [OF assms] by (simp add: invalidate_def jm.get_del)
  then have "fst (attribute reader pid ?st) = walk reader ?st pid"
    by (simp add: attribute_def Let_def)
  also have "\<dots> = walk reader st pid" by (rule walk_config) simp_all
  finally show ?thesis .
qed

theorem recycled_pid_walks_afresh_witness:
  "fst (attribute sample_reader 7
      (run_ops ([] @ OpInvalidate 7 # [OpInvalidate 9]) (new_attribution None None)))
   = Some \<lparr>ar_pkg = ''dep'', ar_lifecycle = Install\<rparr>"
proof -
  have "fst (attribute sample_reader 7
      (run_ops ([] @ OpInvalidate 7 # [OpInvalidate 9]) (new_attribution None None)))
      = walk sample_reader (new_attribution None None) 7"
    by (rule recycled_pid_walks_afresh) simp
  then show ?thesis by (simp add: walk_sample)
qed

text \<open>C37: between two invalidations a process has one attribution: after any history, the answer given
  once is the answer given to every later call for that pid, even when \<^verbatim>\<open>/proc\<close> has changed, until
  the pid is invalidated.\<close>

theorem attribution_stable:
  assumes "OpInvalidate pid \<notin> set later"
  shows "fst (attribute reader' pid (run_ops (OpAttribute reader pid # later) st))
       = fst (attribute reader pid st)"
proof -
  let ?st1 = "snd (attribute reader pid st)"
  have c: "map_of (at_cache ?st1) pid = Some (fst (attribute reader pid st))"
    by (auto simp: attribute_def Let_def jm.get_put split: option.splits)
  have "run_ops (OpAttribute reader pid # later) st = run_ops later ?st1"
    by (simp add: run_ops_def)
  then show ?thesis
    using run_ops_keeps [OF c assms] by (simp add: attribute_def)
qed

theorem attribution_stable_witness:
  "fst (attribute \<lparr>readPpid = (\<lambda>p. None), readEnviron = (\<lambda>p. None)\<rparr> 7
      (run_ops [OpAttribute sample_reader 7] (new_attribution None None)))
   = fst (attribute sample_reader 7 (new_attribution None None))"
  by (rule attribution_stable) simp

end
