(* ===== verification/RootAnchor.thy ===== *)
theory RootAnchor
  imports Schema
begin

text \<open>
  The non-forgeable root verdict: \<^verbatim>\<open>src/guest/root-anchor.ts\<close>. A \<^verbatim>\<open>Map\<close> that is only read is a
  function to \<open>option\<close>; \<^verbatim>\<open>execCwd\<close> distinguishes an absent pid (\<open>None\<close>) from an unresolvable
  working directory (\<open>Some None\<close>, the source's \<^verbatim>\<open>null\<close>).
\<close>

record anchor_input =
  ai_pid :: int
  ai_childParent :: "int \<Rightarrow> int option"
  ai_execCwd :: "int \<Rightarrow> string option option"
  ai_cwdUnknown :: "int \<Rightarrow> bool"
  ai_recycled :: "int \<Rightarrow> bool"
  ai_workDir :: string
  ai_rootPid :: int

definition ANCHOR_MAX_DEPTH :: nat where
  "ANCHOR_MAX_DEPTH = 1024"

text \<open>The loop with \<open>n\<close> iterations left; \<open>seen\<close> is the cycle guard.\<close>

fun anchor_loop :: "anchor_input \<Rightarrow> int set \<Rightarrow> nat \<Rightarrow> int \<Rightarrow> bool" where
  "anchor_loop inp seen 0 cur = False"
| "anchor_loop inp seen (Suc n) cur =
     (if cur \<in> seen then False
      else if ai_recycled inp cur then False
      else if cur = ai_rootPid inp then True
      else if ai_cwdUnknown inp cur then False
      else (case ai_execCwd inp cur of
              Some None \<Rightarrow> False
            | Some (Some ec) \<Rightarrow>
                if ec \<noteq> ai_workDir inp then False
                else (case ai_childParent inp cur of
                        None \<Rightarrow> False
                      | Some parent \<Rightarrow> anchor_loop inp (insert cur seen) n parent)
            | None \<Rightarrow>
                (case ai_childParent inp cur of
                   None \<Rightarrow> False
                 | Some parent \<Rightarrow> anchor_loop inp (insert cur seen) n parent)))"

definition isRepoRootAnchored :: "anchor_input \<Rightarrow> bool" where
  "isRepoRootAnchored inp = anchor_loop inp {} ANCHOR_MAX_DEPTH (ai_pid inp)"

section \<open>What the verdict means\<close>

text \<open>A process below the root that gives no reason for doubt: its working directory is known and,
  if it ever executed a program, it did so in the repository root.\<close>

definition clean_hop :: "anchor_input \<Rightarrow> int \<Rightarrow> bool" where
  "clean_hop inp p \<longleftrightarrow>
     \<not> ai_cwdUnknown inp p \<and> (ai_execCwd inp p = None \<or> ai_execCwd inp p = Some (Some (ai_workDir inp)))"

definition clean_path :: "anchor_input \<Rightarrow> nat \<Rightarrow> int \<Rightarrow> bool" where
  "clean_path inp k p \<longleftrightarrow>
     anc (ai_childParent inp) k p = Some (ai_rootPid inp) \<and>
     (\<forall>j \<le> k. \<forall>q. anc (ai_childParent inp) j p = Some q \<longrightarrow> \<not> ai_recycled inp q) \<and>
     (\<forall>j < k. \<forall>q. anc (ai_childParent inp) j p = Some q \<longrightarrow> q \<noteq> ai_rootPid inp \<and> clean_hop inp q)"

lemma clean_path_0: "clean_path inp 0 p \<longleftrightarrow> p = ai_rootPid inp \<and> \<not> ai_recycled inp p"
  by (auto simp: clean_path_def)

lemma clean_path_Suc:
  "clean_path inp (Suc k) p \<longleftrightarrow>
     \<not> ai_recycled inp p \<and> p \<noteq> ai_rootPid inp \<and> clean_hop inp p \<and>
     (\<exists>q. ai_childParent inp p = Some q \<and> clean_path inp k q)"
proof
  assume h: "clean_path inp (Suc k) p"
  then obtain q where q: "ai_childParent inp p = Some q" by (auto simp: clean_path_def split: option.splits)
  have "clean_path inp k q"
    unfolding clean_path_def
  proof (intro conjI allI impI)
    show "anc (ai_childParent inp) k q = Some (ai_rootPid inp)"
      using h q by (simp add: clean_path_def)
  next
    fix j r assume "j \<le> k" "anc (ai_childParent inp) j q = Some r"
    then show "\<not> ai_recycled inp r"
      using h q by (metis (no_types, lifting) Suc_le_mono anc_Suc_iff clean_path_def)
  next
    fix j r assume "j < k" "anc (ai_childParent inp) j q = Some r"
    then show "r \<noteq> ai_rootPid inp" "clean_hop inp r"
      using h q by (metis (no_types, lifting) Suc_mono anc_Suc_iff clean_path_def)+
  qed
  moreover have "\<not> ai_recycled inp p" "p \<noteq> ai_rootPid inp" "clean_hop inp p"
    using h unfolding clean_path_def by (metis anc.simps(1) le0 zero_less_Suc)+
  ultimately show "\<not> ai_recycled inp p \<and> p \<noteq> ai_rootPid inp \<and> clean_hop inp p \<and>
      (\<exists>q. ai_childParent inp p = Some q \<and> clean_path inp k q)"
    using q by blast
next
  assume "\<not> ai_recycled inp p \<and> p \<noteq> ai_rootPid inp \<and> clean_hop inp p \<and>
     (\<exists>q. ai_childParent inp p = Some q \<and> clean_path inp k q)"
  then obtain q where q: "\<not> ai_recycled inp p" "p \<noteq> ai_rootPid inp" "clean_hop inp p"
    "ai_childParent inp p = Some q" "clean_path inp k q" by blast
  show "clean_path inp (Suc k) p"
    unfolding clean_path_def
  proof (intro conjI allI impI)
    show "anc (ai_childParent inp) (Suc k) p = Some (ai_rootPid inp)"
      using q by (simp add: clean_path_def)
  next
    fix j r assume "j \<le> Suc k" "anc (ai_childParent inp) j p = Some r"
    with q show "\<not> ai_recycled inp r" by (cases j) (auto simp: clean_path_def)
  next
    fix j r assume "j < Suc k" "anc (ai_childParent inp) j p = Some r"
    with q show "r \<noteq> ai_rootPid inp" "clean_hop inp r" by (cases j; auto simp: clean_path_def)+
  qed
qed

text \<open>
  The guard against cycles never rejects a path that reaches the root: the processes seen so far
  are closed under parents, so a revisited process never leaves them.
\<close>

definition seen_ok :: "anchor_input \<Rightarrow> int set \<Rightarrow> int \<Rightarrow> bool" where
  "seen_ok inp seen cur \<longleftrightarrow> ai_rootPid inp \<notin> seen \<and>
     (\<forall>s \<in> seen. \<exists>q. ai_childParent inp s = Some q \<and> q \<in> insert cur seen)"

lemma closed_anc:
  assumes "\<forall>s \<in> S. \<forall>q. parent s = Some q \<longrightarrow> q \<in> S"
  shows "s \<in> S \<Longrightarrow> anc parent k s = Some q \<Longrightarrow> q \<in> S"
  using assms by (induction k arbitrary: s) (auto split: option.splits)

lemma seen_no_root:
  assumes "seen_ok inp seen cur" "cur \<in> seen"
  shows "\<not> clean_path inp k cur"
proof
  assume "clean_path inp k cur"
  then have a: "anc (ai_childParent inp) k cur = Some (ai_rootPid inp)" by (simp add: clean_path_def)
  have c: "\<forall>s \<in> seen. \<forall>q. ai_childParent inp s = Some q \<longrightarrow> q \<in> seen"
    using assms by (fastforce simp: seen_ok_def insert_absorb)
  have "ai_rootPid inp \<in> seen" by (rule closed_anc [OF c assms(2) a])
  with assms(1) show False by (simp add: seen_ok_def)
qed

lemma anchor_step:
  "anchor_loop inp seen (Suc n) cur \<longleftrightarrow>
     cur \<notin> seen \<and> \<not> ai_recycled inp cur \<and>
     (cur = ai_rootPid inp \<or>
      clean_hop inp cur \<and>
      (\<exists>q. ai_childParent inp cur = Some q \<and> anchor_loop inp (insert cur seen) n q))"
  by (auto simp: clean_hop_def split: option.splits)

lemma anchor_loop_iff:
  "seen_ok inp seen cur \<Longrightarrow> anchor_loop inp seen n cur \<longleftrightarrow> (\<exists>k < n. clean_path inp k cur)"
proof (induction n arbitrary: seen cur)
  case (Suc n)
  have split: "(\<exists>k < Suc n. clean_path inp k cur) \<longleftrightarrow>
      clean_path inp 0 cur \<or> (\<exists>k < n. clean_path inp (Suc k) cur)"
    by (metis Suc_less_eq not0_implies_Suc zero_less_Suc)
  consider "cur \<in> seen" | "cur \<notin> seen" "cur = ai_rootPid inp" | "cur \<notin> seen" "cur \<noteq> ai_rootPid inp"
    by blast
  then show ?case
  proof cases
    case 1
    then show ?thesis using seen_no_root [OF Suc.prems] by (simp add: anchor_step)
  next
    case 2
    then show ?thesis unfolding split anchor_step by (auto simp: clean_path_0 clean_path_Suc)
  next
    case 3
    have IH: "anchor_loop inp (insert cur seen) n q \<longleftrightarrow> (\<exists>k < n. clean_path inp k q)"
      if "ai_childParent inp cur = Some q" for q
    proof (rule Suc.IH)
      show "seen_ok inp (insert cur seen) q"
        using Suc.prems 3 that by (auto simp: seen_ok_def)
    qed
    with 3 show ?thesis unfolding split anchor_step by (auto simp: clean_path_0 clean_path_Suc)
  qed
qed simp

text \<open>C34: the verdict is exact: a process is anchored iff a chain of fewer than 1024 parent edges leads
  from it to the package manager's root process, no process on the chain (the root included) had
  its pid reused, and every process below the root has a known working directory and never
  executed a program outside the repository root. Cycles, broken lineages and unresolvable
  directories all give \<^verbatim>\<open>false\<close>.\<close>

theorem anchored_iff_clean_path:
  "isRepoRootAnchored inp \<longleftrightarrow> (\<exists>k < 1024. clean_path inp k (ai_pid inp))"
  unfolding isRepoRootAnchored_def ANCHOR_MAX_DEPTH_def
  by (rule anchor_loop_iff) (simp add: seen_ok_def)

definition sample_anchor :: anchor_input where
  "sample_anchor =
     \<lparr>ai_pid = 30, ai_childParent = [30 \<mapsto> 20, 20 \<mapsto> 10], ai_execCwd = [20 \<mapsto> Some ''/work''],
      ai_cwdUnknown = (\<lambda>_. False), ai_recycled = (\<lambda>_. False), ai_workDir = ''/work'', ai_rootPid = 10\<rparr>"

theorem anchored_iff_clean_path_witness:
  "(\<exists>k < 1024. clean_path sample_anchor k 30) \<and>
   \<not> (\<exists>k < 1024. clean_path (sample_anchor\<lparr>ai_recycled := (\<lambda>p. p = 20)\<rparr>) k 30)"
proof -
  have loop: "anchor_loop sample_anchor {} (Suc (Suc (Suc n))) 30" for n
    by (simp add: sample_anchor_def)
  have yes: "isRepoRootAnchored sample_anchor"
    using loop [of 1021] by (simp add: isRepoRootAnchored_def ANCHOR_MAX_DEPTH_def sample_anchor_def)
  have noloop: "\<not> anchor_loop (sample_anchor\<lparr>ai_recycled := (\<lambda>p. p = 20)\<rparr>) {} (Suc (Suc n)) 30" for n
    by (simp add: sample_anchor_def)
  have no: "\<not> isRepoRootAnchored (sample_anchor\<lparr>ai_recycled := (\<lambda>p. p = 20)\<rparr>)"
    using noloop [of 1022] by (simp add: isRepoRootAnchored_def ANCHOR_MAX_DEPTH_def sample_anchor_def)
  show ?thesis
    using yes no anchored_iff_clean_path [of sample_anchor]
      anchored_iff_clean_path [of "sample_anchor\<lparr>ai_recycled := (\<lambda>p. p = 20)\<rparr>"]
    by (simp add: sample_anchor_def)
qed

text \<open>A process launched by a dependency cannot pass for the root: if the process or any ancestor
  below the package manager's root process executed a program outside the repository root, or had
  an unresolvable working directory at that time, the verdict is \<^verbatim>\<open>false\<close>, whatever environment the
  process carries and wherever it changed directory later.\<close>

theorem foreign_launch_never_anchored:
  assumes "anc (ai_childParent inp) k (ai_pid inp) = Some q"
    and "\<forall>j \<le> k. anc (ai_childParent inp) j (ai_pid inp) \<noteq> Some (ai_rootPid inp)"
    and "ai_execCwd inp q = Some cwd" "cwd \<noteq> Some (ai_workDir inp)"
  shows "\<not> isRepoRootAnchored inp"
proof
  assume "isRepoRootAnchored inp"
  then obtain m where m: "clean_path inp m (ai_pid inp)" unfolding anchored_iff_clean_path by blast
  then have "anc (ai_childParent inp) m (ai_pid inp) = Some (ai_rootPid inp)"
    by (simp add: clean_path_def)
  with assms(2) have "k < m" by (metis not_le)
  with m assms(1) have "clean_hop inp q" by (auto simp: clean_path_def)
  with assms(3,4) show False by (auto simp: clean_hop_def)
qed

theorem foreign_launch_never_anchored_witness:
  "\<not> isRepoRootAnchored (sample_anchor\<lparr>ai_execCwd := [20 \<mapsto> Some ''/work/node_modules/dep'']\<rparr>)"
  by (rule foreign_launch_never_anchored [where k = "Suc 0" and q = 20])
    (auto simp: sample_anchor_def le_Suc_eq)

text \<open>Doubt only ever lowers the verdict.\<close>

lemma anchored_antimono:
  assumes "isRepoRootAnchored inp"
    and "ai_pid inp' = ai_pid inp" "ai_childParent inp' = ai_childParent inp"
    and "ai_rootPid inp' = ai_rootPid inp" "ai_workDir inp' = ai_workDir inp"
    and "\<And>p. ai_recycled inp' p \<Longrightarrow> ai_recycled inp p" "\<And>p. ai_cwdUnknown inp' p \<Longrightarrow> ai_cwdUnknown inp p"
    and "\<And>p. ai_execCwd inp' p = None \<or> ai_execCwd inp' p = ai_execCwd inp p"
  shows "isRepoRootAnchored inp'"
proof -
  obtain k where k: "k < 1024" "clean_path inp k (ai_pid inp)"
    using assms(1) unfolding anchored_iff_clean_path by blast
  have "clean_hop inp' p" if "clean_hop inp p" for p
    using that assms(5,7,8) unfolding clean_hop_def by metis
  then have "clean_path inp' k (ai_pid inp)"
    using k(2) assms(2-6) unfolding clean_path_def by auto
  with k(1) assms(2) show ?thesis unfolding anchored_iff_clean_path by auto
qed

end
