(* ===== verification/StraceParser.thy ===== *)
theory StraceParser
  imports Schema
begin

text \<open>
  From the lines of \<^verbatim>\<open>strace -ff\<close> to raw events: \<^verbatim>\<open>src/guest/strace-parser.ts\<close>. The scanners of the
  source keep an index into the line; here they take the rest of the line and return what is left.
  The regular expressions are matchers of \<open>JsString\<close>, with their backtracking.
\<close>

section \<open>Quoted strings\<close>

definition simple_escape :: "char \<Rightarrow> char option" where
  "simple_escape c =
     map_of [(CHR 0x5C, CHR 0x5C), (CHR 0x22, CHR 0x22), (CHR ''n'', CHR 0x0A), (CHR ''t'', CHR 0x09),
             (CHR ''r'', CHR 0x0D), (CHR ''a'', CHR 0x07), (CHR ''b'', CHR 0x08), (CHR ''f'', CHR 0x0C),
             (CHR ''v'', CHR 0x0B)] c"

definition take_up_to :: "(char \<Rightarrow> bool) \<Rightarrow> nat \<Rightarrow> string \<Rightarrow> string" where
  "take_up_to p n s = takeWhile p (take n s)"

text \<open>
  One escape after its backslash: the character it stands for and its length. An octal escape above
  \<^verbatim>\<open>\377\<close>, which strace does not write, would be a code unit outside Latin-1 and is reduced.
\<close>

definition escape_at :: "string \<Rightarrow> (char \<times> nat) option" where
  "escape_at s =
     (case s of
        [] \<Rightarrow> None
      | c # r \<Rightarrow>
          (case simple_escape c of
             Some d \<Rightarrow> Some (d, 1)
           | None \<Rightarrow>
               (let hs = take_up_to is_hex 2 r; os = take_up_to is_octal 3 s
                in if c = CHR ''x'' \<and> hs \<noteq> [] then Some (char_of (digits_val 16 hs), Suc (length hs))
                   else if os \<noteq> [] then Some (char_of (digits_val 8 os), length os)
                   else None)))"

function unescape :: "string \<Rightarrow> string" where
  "unescape [] = []"
| "unescape (c # s) =
     (case (if c = CHR 0x5C then escape_at s else None) of
        Some (d, n) \<Rightarrow> d # unescape (drop n s)
      | None \<Rightarrow> c # unescape s)"
  by pat_completeness auto
termination
  by (relation "measure length") auto

declare unescape.simps(2) [simp del]

text \<open>The body up to the closing quote, still escaped, and what follows the quote.\<close>

fun quoted_raw :: "string \<Rightarrow> (string \<times> string) option" where
  "quoted_raw [] = None"
| "quoted_raw (c # s) =
     (if c = CHR 0x22 then Some ([], s)
      else if c = CHR 0x5C then
        (case s of
           [] \<Rightarrow> None
         | d # s' \<Rightarrow> map_option (\<lambda>(raw, rest). (c # d # raw, rest)) (quoted_raw s'))
      else map_option (\<lambda>(raw, rest). (c # raw, rest)) (quoted_raw s))"

definition extractQuotedString :: "string \<Rightarrow> (string \<times> string) option" where
  "extractQuotedString s =
     (case s of
        [] \<Rightarrow> None
      | c # s' \<Rightarrow>
          if c \<noteq> CHR 0x22 then None
          else (case quoted_raw s' of
                  None \<Rightarrow> None
                | Some (raw, rest) \<Rightarrow>
                    Some (unescape raw, if starts_with rest ''...'' then drop 3 rest else rest)))"

lemma quoted_raw_shorter: "quoted_raw s = Some (raw, rest) \<Longrightarrow> length rest < length s"
  by (induction s arbitrary: raw rest rule: quoted_raw.induct)
    (force split: if_splits list.splits)+

lemma extract_shorter: "extractQuotedString s = Some (v, rest) \<Longrightarrow> length rest < length s"
  by (cases s) (auto simp: extractQuotedString_def dest: quoted_raw_shorter split: if_splits option.splits)

text \<open>The text a scanner skips: what stands before the rest.\<close>

definition consumed :: "string \<Rightarrow> string \<Rightarrow> string" where
  "consumed s rest = take (length s - length rest) s"

section \<open>Arguments\<close>

definition quote_at :: "string \<Rightarrow> (string \<times> string) option" where
  "quote_at s = (if starts_with s [CHR 0x22] then extractQuotedString s else None)"

lemma quote_at_shorter: "quote_at s = Some (v, rest) \<Longrightarrow> length rest < length s"
  by (auto simp: quote_at_def dest: extract_shorter split: if_splits)

function split_loop :: "int \<Rightarrow> string \<Rightarrow> string list \<Rightarrow> string \<Rightarrow> string list" where
  "split_loop depth cur args [] = (if trim cur \<noteq> [] then args @ [trim cur] else args)"
| "split_loop depth cur args (ch # s) =
     (case quote_at (ch # s) of
        Some (_, rest) \<Rightarrow> split_loop depth (cur @ consumed (ch # s) rest) args rest
      | None \<Rightarrow>
          if ch = CHR ''('' \<or> ch = CHR ''['' \<or> ch = CHR ''{'' then split_loop (depth + 1) (cur @ [ch]) args s
          else if ch = CHR '')'' \<or> ch = CHR '']'' \<or> ch = CHR ''}'' then split_loop (depth - 1) (cur @ [ch]) args s
          else if ch = CHR '','' \<and> depth = 0 then split_loop depth [] (args @ [trim cur]) s
          else split_loop depth (cur @ [ch]) args s)"
  by pat_completeness auto
termination
  by (relation "measure (\<lambda>(_, _, _, s). length s)") (auto dest: quote_at_shorter)

definition splitArgs :: "string \<Rightarrow> string list" where
  "splitArgs s = split_loop 0 [] [] s"

section \<open>The return value\<close>

record ret_val =
  rv_raw :: string
  rv_isError :: bool
  rv_errno :: "string option"

text \<open>\<^verbatim>\<open>-?\d[\w]*\<close>\<close>

definition rx_number :: "string matcher" where
  "rx_number =
     rx_bind (rx_opt (rx_lit ''-'')) (\<lambda>sign.
     rx_bind (rep is_digit 1 (Some 1)) (\<lambda>d.
     rx_bind (rep is_word 0 None) (\<lambda>w.
     rx_ret ((case sign of Some m \<Rightarrow> m | None \<Rightarrow> []) @ d @ w))))"

text \<open>\<^verbatim>\<open>=\s+(-?\d[\w]*)\s*(?:(\w+)\s*\([^)]*\))?\s*(?:<[^>]*>)?\s*$\<close>\<close>

definition rx_retval :: "(string \<times> string option) matcher" where
  "rx_retval =
     rx_bind (rx_lit ''='') (\<lambda>_. rx_bind (rep is_space 1 None) (\<lambda>_.
     rx_bind rx_number (\<lambda>raw. rx_bind (rep is_space 0 None) (\<lambda>_.
     rx_bind (rx_opt
       (rx_bind (rep is_word 1 None) (\<lambda>w. rx_bind (rep is_space 0 None) (\<lambda>_.
        rx_bind (rx_lit ''('') (\<lambda>_. rx_bind (rep (\<lambda>c. c \<noteq> CHR '')'') 0 None) (\<lambda>_.
        rx_bind (rx_lit '')'') (\<lambda>_. rx_ret w))))))) (\<lambda>errno.
     rx_bind (rep is_space 0 None) (\<lambda>_.
     rx_bind (rx_opt
       (rx_bind (rx_lit ''<'') (\<lambda>_. rx_bind (rep (\<lambda>c. c \<noteq> CHR ''>'') 0 None) (\<lambda>_.
        rx_bind (rx_lit ''>'') (\<lambda>_. rx_ret ()))))) (\<lambda>_.
     rx_bind (rep is_space 0 None) (\<lambda>_. rx_bind rx_end (\<lambda>_.
     rx_ret (raw, errno))))))))))"

definition parseRetVal :: "string \<Rightarrow> ret_val option" where
  "parseRetVal line =
     map_option (\<lambda>(raw, errno).
         \<lparr>rv_raw = raw, rv_isError = (raw = ''-1''), rv_errno = (if raw = ''-1'' then errno else None)\<rparr>)
       (rx_search rx_retval line)"

section \<open>Flags, argument vectors, addresses\<close>

definition WRITE_FLAGS :: "string list" where
  "WRITE_FLAGS = [''O_WRONLY'', ''O_RDWR'', ''O_CREAT'', ''O_TRUNC'', ''O_APPEND'']"

definition flagsImplyWrite :: "string \<Rightarrow> bool" where
  "flagsImplyWrite flags = list_ex (\<lambda>f. js_includes flags f) WRITE_FLAGS"

text \<open>What follows the first \<^verbatim>\<open>*/\<close>.\<close>

fun after_comment :: "string \<Rightarrow> string option" where
  "after_comment [] = None"
| "after_comment (c # s) = (if starts_with (c # s) ''*/'' then Some (drop 1 s) else after_comment s)"

lemma after_comment_shorter: "after_comment s = Some r \<Longrightarrow> length r < length s"
  by (induction s) (force split: if_splits)+

function strip_comments :: "string \<Rightarrow> string" where
  "strip_comments [] = []"
| "strip_comments (c # s) =
     (case (if starts_with (c # s) ''/*'' then after_comment (drop 1 s) else None) of
        Some r \<Rightarrow> strip_comments r
      | None \<Rightarrow> c # strip_comments s)"
  by pat_completeness auto
termination
  by (relation "measure length") (auto dest!: after_comment_shorter split: if_splits)

declare strip_comments.simps(2) [simp del]

function argv_loop :: "string \<Rightarrow> string list" where
  "argv_loop s0 =
     (let s = dropWhile (\<lambda>c. c = CHR '','' \<or> is_space c) s0
      in if s = [] then []
         else if starts_with s [CHR 0x22] then
           (case extractQuotedString s of
              Some (val, rest) \<Rightarrow> val # argv_loop rest
            | None \<Rightarrow> argv_loop (tl s))
         else if starts_with s ''...'' then []
         else (let tok = takeWhile (\<lambda>c. c \<noteq> CHR '','' \<and> \<not> is_space c) s
               in tok # argv_loop (drop (length tok) s)))"
  by pat_completeness auto
termination
proof (relation "measure length")
  fix s0 s v x y
  assume s: "s = dropWhile (\<lambda>c. c = CHR '','' \<or> is_space c) s0" "s \<noteq> []"
  have le: "length s \<le> length s0" unfolding s(1) by (rule length_dropWhile_le)
  show "extractQuotedString s = Some v \<Longrightarrow> (x, y) = v \<Longrightarrow> (y, s0) \<in> measure length"
    using extract_shorter [of s x y] le by simp
  show "(tl s, s0) \<in> measure length" using s(2) le by (cases s) simp_all
next
  fix s0 s tok
  assume s: "s = dropWhile (\<lambda>c. c = CHR '','' \<or> is_space c) s0" "s \<noteq> []"
    and tok: "tok = takeWhile (\<lambda>c. c \<noteq> CHR '','' \<and> \<not> is_space c) s"
  have le: "length s \<le> length s0" unfolding s(1) by (rule length_dropWhile_le)
  have "\<not> (hd s = CHR '','' \<or> is_space (hd s))"
    using s hd_dropWhile [of "\<lambda>c. c = CHR '','' \<or> is_space c" s0] by simp
  then have "tok \<noteq> []" using s(2) tok by (cases s) auto
  then show "(drop (length tok) s, s0) \<in> measure length"
    using le s(2) by (cases s; cases tok) auto
qed simp_all

declare argv_loop.simps [simp del]

text \<open>\<^verbatim>\<open>replace(/^\[/, '')\<close> and \<^verbatim>\<open>replace(/\]$/, '')\<close>.\<close>

definition strip_open :: "string \<Rightarrow> string" where
  "strip_open s = (if starts_with s ''['' then drop 1 s else s)"

definition strip_close :: "string \<Rightarrow> string" where
  "strip_close s = (if ends_with s '']'' then butlast s else s)"

definition parseArgvToken :: "string \<Rightarrow> string list" where
  "parseArgvToken token =
     (let inside = trim (strip_close (strip_open token));
          cleaned = trim (strip_comments inside)
      in if cleaned = [] \<or> cleaned = ''...'' then [] else argv_loop cleaned)"

definition rx_port :: "string \<Rightarrow> nat matcher" where
  "rx_port key =
     rx_bind (rx_lit (key @ ''=htons('')) (\<lambda>_. rx_bind (rep is_digit 1 None) (\<lambda>ds.
     rx_bind (rx_lit '')'') (\<lambda>_. rx_ret (digits_val 10 ds))))"

definition rx_addr4 :: "string matcher" where
  "rx_addr4 =
     rx_bind (rx_lit (''inet_addr('' @ [CHR 0x22])) (\<lambda>_.
     rx_bind (rep (\<lambda>c. c \<noteq> CHR 0x22) 1 None) (\<lambda>h.
     rx_bind (rx_lit (CHR 0x22 # '')'')) (\<lambda>_. rx_ret h)))"

definition rx_addr6 :: "string matcher" where
  "rx_addr6 =
     rx_bind (rx_lit ''inet_pton(AF_INET6,'') (\<lambda>_. rx_bind (rep is_space 0 None) (\<lambda>_.
     rx_bind (rx_lit [CHR 0x22]) (\<lambda>_. rx_bind (rep (\<lambda>c. c \<noteq> CHR 0x22) 1 None) (\<lambda>h.
     rx_bind (rx_lit [CHR 0x22]) (\<lambda>_. rx_ret h)))))"

text \<open>The host and the port.\<close>

definition parseConnectStruct :: "string \<Rightarrow> (string \<times> nat) option" where
  "parseConnectStruct token =
     (if js_includes token ''AF_INET6'' then
        (case (rx_search (rx_port ''sin6_port'') token, rx_search rx_addr6 token) of
           (Some port, Some host) \<Rightarrow> Some (host, port)
         | _ \<Rightarrow> None)
      else if js_includes token ''AF_INET'' then
        (case (rx_search (rx_port ''sin_port'') token, rx_search rx_addr4 token) of
           (Some port, Some host) \<Rightarrow> Some (host, port)
         | _ \<Rightarrow> None)
      else None)"

section \<open>The system calls\<close>

text \<open>\<^verbatim>\<open>args[i] ?? ''\<close>\<close>

definition arg :: "string list \<Rightarrow> nat \<Rightarrow> string" where
  "arg args i = (if i < length args then args ! i else [])"

text \<open>The directory descriptor: \<open>None\<close> drops the event, \<open>Some None\<close> is \<^verbatim>\<open>AT_FDCWD\<close>.\<close>

definition parse_dirfd :: "string \<Rightarrow> int option option" where
  "parse_dirfd token =
     (if token = ''AT_FDCWD'' then Some None
      else (let neg = starts_with token ''-'';
                ds = takeWhile is_digit (if neg then drop 1 token else token)
            in if ds = [] then None
               else Some (Some (if neg then - int (digits_val 10 ds) else int (digits_val 10 ds)))))"

text \<open>The error of an open that is reported; \<open>None\<close> drops the event.\<close>

definition open_errno :: "ret_val \<Rightarrow> errno option option" where
  "open_errno rv =
     (if rv_isError rv then
        (if rv_errno rv = Some ''ENOENT'' then Some (Some ENOENT)
         else if rv_errno rv = Some ''EACCES'' then Some (Some EACCES)
         else None)
      else Some None)"

text \<open>The new descriptor of a successful open (\<^verbatim>\<open>parseInt\<close>, when finite and not negative).\<close>

definition ret_fd :: "ret_val \<Rightarrow> nat option" where
  "ret_fd rv =
     (if rv_isError rv then None
      else if starts_with (rv_raw rv) ''0x'' then
        (let hs = takeWhile is_hex (drop 2 (rv_raw rv))
         in if hs = [] then None else Some (digits_val 16 hs))
      else if starts_with (rv_raw rv) ''-'' then
        (let ds = takeWhile is_digit (drop 1 (rv_raw rv))
         in if ds \<noteq> [] \<and> digits_val 10 ds = 0 then Some 0 else None)
      else (let ds = takeWhile is_digit (rv_raw rv)
            in if ds = [] then None else Some (digits_val 10 ds)))"

definition mk_fs :: "string \<Rightarrow> int \<Rightarrow> nat \<Rightarrow> errno option \<Rightarrow> int option \<Rightarrow> nat option \<Rightarrow> fs_event" where
  "mk_fs path pid ts errno dirfd retFd =
     \<lparr>fs_path = path, fs_pid = pid, fs_ts = ts, fs_hidden = False, fs_errno = errno, fs_dirfd = dirfd,
      fs_retFd = retFd, fs_root_anchored = None\<rparr>"

definition open_event ::
  "bool \<Rightarrow> string \<Rightarrow> int option \<Rightarrow> ret_val \<Rightarrow> int \<Rightarrow> nat \<Rightarrow> raw_event list option" where
  "open_event isWrite path dirfd rv pid ts =
     (case open_errno rv of
        None \<Rightarrow> None
      | Some errno \<Rightarrow>
          (let e = mk_fs path pid ts errno dirfd (ret_fd rv)
           in Some [if isWrite then WriteEv e else ReadEv e]))"

definition parseOpenat :: "string list \<Rightarrow> ret_val \<Rightarrow> int \<Rightarrow> nat \<Rightarrow> raw_event list option" where
  "parseOpenat args rv pid ts =
     (case parse_dirfd (arg args 0) of
        None \<Rightarrow> None
      | Some dirfd \<Rightarrow>
          (case extractQuotedString (arg args 1) of
             None \<Rightarrow> None
           | Some (path, _) \<Rightarrow> open_event (flagsImplyWrite (arg args 2)) path dirfd rv pid ts))"

text \<open>\<^verbatim>\<open>/flags=([^,}]+)/\<close>\<close>

definition rx_how_flags :: "string matcher" where
  "rx_how_flags =
     rx_bind (rx_lit ''flags='') (\<lambda>_.
     rep (\<lambda>c. c \<noteq> CHR '','' \<and> c \<noteq> CHR ''}'') 1 None)"

definition parseOpenat2 :: "string list \<Rightarrow> ret_val \<Rightarrow> int \<Rightarrow> nat \<Rightarrow> raw_event list option" where
  "parseOpenat2 args rv pid ts =
     (case parse_dirfd (arg args 0) of
        None \<Rightarrow> None
      | Some dirfd \<Rightarrow>
          (case extractQuotedString (arg args 1) of
             None \<Rightarrow> None
           | Some (path, _) \<Rightarrow>
               (let flags = (case rx_search rx_how_flags (arg args 2) of None \<Rightarrow> [] | Some f \<Rightarrow> trim f)
                in open_event (flagsImplyWrite flags) path dirfd rv pid ts)))"

definition parseOpen :: "string list \<Rightarrow> ret_val \<Rightarrow> int \<Rightarrow> nat \<Rightarrow> raw_event list option" where
  "parseOpen args rv pid ts =
     (case extractQuotedString (arg args 0) of
        None \<Rightarrow> None
      | Some (path, _) \<Rightarrow> open_event (flagsImplyWrite (arg args 1)) path None rv pid ts)"

definition parseCreat :: "string list \<Rightarrow> ret_val \<Rightarrow> int \<Rightarrow> nat \<Rightarrow> raw_event list option" where
  "parseCreat args rv pid ts =
     (case extractQuotedString (arg args 0) of
        None \<Rightarrow> None
      | Some (path, _) \<Rightarrow> open_event True path None rv pid ts)"

definition buildSpawnEvent :: "string \<Rightarrow> string \<Rightarrow> ret_val \<Rightarrow> int \<Rightarrow> nat \<Rightarrow> raw_event list" where
  "buildSpawnEvent path argvToken rv pid ts =
     (let argv = parseArgvToken argvToken
      in [SpawnEv \<lparr>sp_argv = (if argv = [] then [path] else argv),
                   sp_result = (if \<not> rv_isError rv then SpawnOk
                                else if rv_errno rv = Some ''ENOENT'' then SpawnEnoent
                                else SpawnEacces),
                   sp_pid = pid, sp_ts = ts, sp_audit_blind = None, sp_root_anchored = None\<rparr>])"

definition parseExecve :: "string list \<Rightarrow> ret_val \<Rightarrow> int \<Rightarrow> nat \<Rightarrow> raw_event list option" where
  "parseExecve args rv pid ts =
     (case extractQuotedString (arg args 0) of
        None \<Rightarrow> None
      | Some (path, _) \<Rightarrow> Some (buildSpawnEvent path (arg args 1) rv pid ts))"

definition parseExecveat :: "string list \<Rightarrow> ret_val \<Rightarrow> int \<Rightarrow> nat \<Rightarrow> raw_event list option" where
  "parseExecveat args rv pid ts =
     (case extractQuotedString (arg args 1) of
        None \<Rightarrow> None
      | Some (path, _) \<Rightarrow> Some (buildSpawnEvent path (arg args 2) rv pid ts))"

definition egress_errnos :: "string list" where
  "egress_errnos = [''EINPROGRESS'', ''EALREADY'', ''EISCONN'']"

definition parseConnect :: "string list \<Rightarrow> ret_val \<Rightarrow> int \<Rightarrow> nat \<Rightarrow> raw_event list option" where
  "parseConnect args rv pid ts =
     (case parseConnectStruct (arg args 1) of
        None \<Rightarrow> None
      | Some (host, port) \<Rightarrow>
          Some [ConnectEv
            \<lparr>nw_host = host, nw_port = port,
             nw_result = (if \<not> rv_isError rv \<or> rv_errno rv \<in> Some ` set egress_errnos
                          then ConnOk else ConnBlocked),
             nw_pid = pid, nw_ts = ts, nw_root_anchored = None\<rparr>])"

text \<open>A plain event on the path of one argument, for the calls that report only their successes.\<close>

definition cwd_event ::
  "(fs_event \<Rightarrow> raw_event) \<Rightarrow> string list \<Rightarrow> ret_val \<Rightarrow> int \<Rightarrow> nat \<Rightarrow> raw_event list option" where
  "cwd_event k args rv pid ts =
     (if arg args 0 \<noteq> ''AT_FDCWD'' \<or> rv_isError rv then None
      else (case extractQuotedString (arg args 1) of
              None \<Rightarrow> None
            | Some (path, _) \<Rightarrow> Some [k (mk_fs path pid ts None None None)]))"

definition parseReadlinkat :: "string list \<Rightarrow> ret_val \<Rightarrow> int \<Rightarrow> nat \<Rightarrow> raw_event list option" where
  "parseReadlinkat args rv pid ts = cwd_event ReadEv args rv pid ts"

definition parseStatx :: "string list \<Rightarrow> ret_val \<Rightarrow> int \<Rightarrow> nat \<Rightarrow> raw_event list option" where
  "parseStatx args rv pid ts = cwd_event ReadEv args rv pid ts"

definition parseUnlinkat :: "string list \<Rightarrow> ret_val \<Rightarrow> int \<Rightarrow> nat \<Rightarrow> raw_event list option" where
  "parseUnlinkat args rv pid ts = cwd_event WriteEv args rv pid ts"

definition parseFaccessat2 :: "string list \<Rightarrow> ret_val \<Rightarrow> int \<Rightarrow> nat \<Rightarrow> raw_event list option" where
  "parseFaccessat2 args rv pid ts = cwd_event ReadEv args rv pid ts"

definition parseRenameat2 :: "string list \<Rightarrow> ret_val \<Rightarrow> int \<Rightarrow> nat \<Rightarrow> raw_event list option" where
  "parseRenameat2 args rv pid ts =
     (if rv_isError rv \<or> arg args 0 \<noteq> ''AT_FDCWD'' \<or> arg args 2 \<noteq> ''AT_FDCWD'' then None
      else (case (extractQuotedString (arg args 1), extractQuotedString (arg args 3)) of
              (Some (oldPath, _), Some (newPath, _)) \<Rightarrow>
                (let old = mk_fs oldPath pid ts None None None
                 in Some [if js_includes (arg args 4) ''RENAME_EXCHANGE'' then WriteEv old else ReadEv old,
                          WriteEv (mk_fs newPath pid ts None None None)])
            | _ \<Rightarrow> None))"

section \<open>One line\<close>

text \<open>\<^verbatim>\<open>/^\d{2}:\d{2}:\d{2}(?:\.\d+)?\s+/\<close>\<close>

definition rx_timestamp :: "unit matcher" where
  "rx_timestamp =
     rx_bind (rep is_digit 2 (Some 2)) (\<lambda>_. rx_bind (rx_lit '':'') (\<lambda>_.
     rx_bind (rep is_digit 2 (Some 2)) (\<lambda>_. rx_bind (rx_lit '':'') (\<lambda>_.
     rx_bind (rep is_digit 2 (Some 2)) (\<lambda>_.
     rx_bind (rx_opt (rx_bind (rx_lit ''.'') (\<lambda>_. rep is_digit 1 None))) (\<lambda>_.
     rx_bind (rep is_space 1 None) (\<lambda>_. rx_ret ())))))))"

definition stripTimestamp :: "string \<Rightarrow> string" where
  "stripTimestamp line = (case rx_timestamp line of [] \<Rightarrow> line | (_, rest) # _ \<Rightarrow> rest)"

text \<open>From an opening parenthesis at depth \<open>d\<close>: what stands up to the parenthesis that closes the
  outermost one, and what follows it. Quoted strings are skipped.\<close>

function close_paren :: "int \<Rightarrow> string \<Rightarrow> (string \<times> string) option" where
  "close_paren d [] = None"
| "close_paren d (ch # s) =
     (case quote_at (ch # s) of
        Some (_, rest) \<Rightarrow>
          map_option (\<lambda>(a, b). (consumed (ch # s) rest @ a, b)) (close_paren d rest)
      | None \<Rightarrow>
          if ch = CHR ''('' then map_option (\<lambda>(a, b). (ch # a, b)) (close_paren (d + 1) s)
          else if ch = CHR '')'' then
            (if d - 1 = 0 then Some ([], s)
             else map_option (\<lambda>(a, b). (ch # a, b)) (close_paren (d - 1) s))
          else map_option (\<lambda>(a, b). (ch # a, b)) (close_paren d s))"
  by pat_completeness auto
termination
  by (relation "measure (\<lambda>(_, s). length s)") (auto dest: quote_at_shorter)

definition dropped_line :: "string \<Rightarrow> bool" where
  "dropped_line line =
     ((starts_with line ''---'' \<and> ends_with line ''---'') \<or>
      (starts_with line ''+++'' \<and> ends_with line ''+++'') \<or>
      js_includes line ''<unfinished ...>'' \<or>
      (starts_with line ''<...'' \<and> js_includes line ''resumed>'') \<or>
      starts_with line ''strace: '')"

definition dispatch :: "string \<Rightarrow> string list \<Rightarrow> ret_val \<Rightarrow> int \<Rightarrow> nat \<Rightarrow> raw_event list option" where
  "dispatch name args rv pid ts =
     (if name = ''openat'' then parseOpenat args rv pid ts
      else if name = ''openat2'' then parseOpenat2 args rv pid ts
      else if name = ''open'' then parseOpen args rv pid ts
      else if name = ''creat'' then parseCreat args rv pid ts
      else if name = ''execve'' then parseExecve args rv pid ts
      else if name = ''execveat'' then parseExecveat args rv pid ts
      else if name = ''connect'' then parseConnect args rv pid ts
      else if name = ''readlinkat'' then parseReadlinkat args rv pid ts
      else if name = ''statx'' then parseStatx args rv pid ts
      else if name = ''renameat2'' then parseRenameat2 args rv pid ts
      else if name = ''unlinkat'' then parseUnlinkat args rv pid ts
      else if name = ''faccessat2'' then parseFaccessat2 args rv pid ts
      else None)"

definition parse_line :: "string \<Rightarrow> int \<Rightarrow> nat \<Rightarrow> raw_event list option" where
  "parse_line line pid ts =
     (if dropped_line line \<or> CHR ''('' \<notin> set line then None
      else (let name = trim (before_char (CHR ''('') line);
                rest = dropWhile (\<lambda>c. c \<noteq> CHR ''('') line
            in case close_paren 0 rest of
                 None \<Rightarrow> None
               | Some (body, sfx) \<Rightarrow>
                   (case parseRetVal sfx of
                      None \<Rightarrow> None
                    | Some rv \<Rightarrow> dispatch name (splitArgs (drop 1 body)) rv pid ts)))"

definition parseStraceLine :: "string \<Rightarrow> int \<Rightarrow> nat \<Rightarrow> raw_event list option" where
  "parseStraceLine line pid ts = parse_line (stripTimestamp (trim line)) pid ts"

text \<open>The stream numbers the lines from zero, dropped ones included.\<close>

fun stream_from :: "nat \<Rightarrow> string list \<Rightarrow> int \<Rightarrow> raw_event list" where
  "stream_from ts [] pid = []"
| "stream_from ts (line # lines) pid =
     (case parseStraceLine line pid ts of None \<Rightarrow> [] | Some evs \<Rightarrow> evs) @ stream_from (Suc ts) lines pid"

definition parseStraceStream :: "string list \<Rightarrow> int \<Rightarrow> raw_event list" where
  "parseStraceStream lines pid = stream_from 0 lines pid"

section \<open>Quoting, as strace writes it\<close>

text \<open>
  The documented output format: the usual escapes for the quote, the backslash and five control
  characters, printable ASCII as it is, and every other byte in octal, with leading zeros only
  where the next character is a digit.
\<close>

definition printable :: "char \<Rightarrow> bool" where
  "printable c = (CHR '' '' \<le> c \<and> c \<le> CHR ''~'')"

definition octal_digits :: "nat \<Rightarrow> string" where
  "octal_digits n =
     (if n < 8 then [digit_char n]
      else if n < 64 then [digit_char (n div 8), digit_char (n mod 8)]
      else [digit_char (n div 64), digit_char (n div 8 mod 8), digit_char (n mod 8)])"

definition octal_padded :: "nat \<Rightarrow> string" where
  "octal_padded n = [digit_char (n div 64), digit_char (n div 8 mod 8), digit_char (n mod 8)]"

definition control_letter :: "char \<Rightarrow> char option" where
  "control_letter c =
     map_of [(CHR 0x22, CHR 0x22), (CHR 0x5C, CHR 0x5C), (CHR 0x0A, CHR ''n''), (CHR 0x09, CHR ''t''),
             (CHR 0x0D, CHR ''r''), (CHR 0x0C, CHR ''f''), (CHR 0x0B, CHR ''v'')] c"

fun strace_quote :: "string \<Rightarrow> string" where
  "strace_quote [] = []"
| "strace_quote (c # s) =
     (case control_letter c of
        Some e \<Rightarrow> [CHR 0x5C, e]
      | None \<Rightarrow>
          if printable c then [c]
          else CHR 0x5C # (if s \<noteq> [] \<and> is_digit (hd s) then octal_padded (of_char c)
                           else octal_digits (of_char c))) @ strace_quote s"

lemma control_letter_cases:
  assumes "control_letter c = Some e"
  shows "simple_escape e = Some c"
  using assms by (auto simp: control_letter_def simple_escape_def split: if_splits)

lemma octal_digit_char [simp]: "d < 8 \<Longrightarrow> is_octal (digit_char d)"
  by (simp add: is_octal_def digit_char_def less_eq_char_def)

lemma simple_not_octal: "simple_escape c = Some d \<Longrightarrow> \<not> is_octal c"
  unfolding simple_escape_def by (drule map_of_SomeD) (auto simp: is_octal_def less_eq_char_def)

lemma octal_not_simple: "is_octal c \<Longrightarrow> simple_escape c = None \<and> c \<noteq> CHR ''x''"
  using simple_not_octal [of c] by (cases "simple_escape c") (auto simp: is_octal_def less_eq_char_def)

lemma of_char_256: "(of_char c :: nat) < 256"
  by simp

lemma octal_all:
  assumes "n < 512"
  shows "list_all is_octal (octal_digits n)" "list_all is_octal (octal_padded n)"
    "octal_digits n \<noteq> []" "length (octal_digits n) \<le> 3" "length (octal_padded n) = 3"
  using assms by (auto simp: octal_digits_def octal_padded_def)

lemma octal_value:
  assumes "n < 512"
  shows "digits_val 8 (octal_digits n) = n" "digits_val 8 (octal_padded n) = n"
proof -
  have small: "m mod 8 < 10" for m :: nat
    by (rule less_trans [OF mod_less_divisor]) simp_all
  have "n div 64 < 10" "n < 64 \<Longrightarrow> n div 8 < 10"
    using assms by (auto intro: less_mult_imp_div_less)
  then have dv: "digit_val (digit_char (n div 64)) = n div 64"
    "digit_val (digit_char (n div 8 mod 8)) = n div 8 mod 8" "digit_val (digit_char (n mod 8)) = n mod 8"
    "n < 64 \<Longrightarrow> digit_val (digit_char (n div 8)) = n div 8"
    using small by (simp_all only: digit_val_char)
  have "8 * (n div 64) + n div 8 mod 8 = n div 8"
    using mult_div_mod_eq [of 8 "n div 8"] by (simp add: div_mult2_eq [symmetric])
  then have n: "8 * (8 * (n div 64) + n div 8 mod 8) + n mod 8 = n"
    by (simp only: mult_div_mod_eq)
  then show "digits_val 8 (octal_padded n) = n"
    unfolding octal_padded_def digits_val_def by (simp only: foldl.simps dv mult_0_right add_0_left)
  show "digits_val 8 (octal_digits n) = n"
  proof -
    consider "n < 8" | "8 \<le> n" "n < 64" | "64 \<le> n" by linarith
    then show ?thesis
    proof cases
      case 1
      then show ?thesis by (simp add: octal_digits_def digits_val_def)
    next
      case 2
      then show ?thesis using dv by (simp add: octal_digits_def digits_val_def)
    next
      case 3
      then have "octal_digits n = octal_padded n" by (simp add: octal_digits_def octal_padded_def)
      then show ?thesis using \<open>digits_val 8 (octal_padded n) = n\<close> by simp
    qed
  qed
qed

lemma take_up_to_all:
  assumes "list_all p os" "length os \<le> n" "length os = n \<or> rest = [] \<or> \<not> p (hd rest)"
  shows "take_up_to p n (os @ rest) = os"
proof -
  have "takeWhile p (take (n - length os) rest) = []"
    using assms(3) by (cases rest; cases "n - length os") auto
  with assms(1,2) show ?thesis
    by (simp add: take_up_to_def takeWhile_append list_all_iff)
qed

lemma escape_at_octal:
  assumes "list_all is_octal os" "os \<noteq> []" "length os \<le> 3" "length os = 3 \<or> rest = [] \<or> \<not> is_octal (hd rest)"
  shows "escape_at (os @ rest) = Some (char_of (digits_val 8 os), length os)"
proof -
  obtain o1 os' where o1: "os = o1 # os'" using assms(2) by (cases os) auto
  with assms(1) octal_not_simple have "simple_escape o1 = None" "o1 \<noteq> CHR ''x''" by auto
  moreover have "take_up_to is_octal 3 (os @ rest) = os" using assms by (intro take_up_to_all) auto
  ultimately show ?thesis using o1 assms(2) by (simp add: escape_at_def Let_def)
qed

lemma strace_quote_hd:
  "s \<noteq> [] \<Longrightarrow> \<not> is_digit (hd s) \<Longrightarrow> strace_quote s \<noteq> [] \<and> \<not> is_octal (hd (strace_quote s))"
proof (cases s)
  case (Cons c r)
  assume "s \<noteq> []" "\<not> is_digit (hd s)"
  then have "\<not> is_octal c" using Cons by (auto simp: is_octal_def is_digit_def less_eq_char_def)
  then show ?thesis using Cons
    by (auto simp: is_octal_def less_eq_char_def split: option.splits)
qed simp

lemma unescape_plain: "c \<noteq> CHR 0x5C \<Longrightarrow> unescape (c # s) = c # unescape s"
  by (simp add: unescape.simps(2))

lemma unescape_escape: "escape_at (os @ s) = Some (c, length os) \<Longrightarrow> unescape (CHR 0x5C # os @ s) = c # unescape s"
  by (simp add: unescape.simps(2))

lemma unescape_strace_quote: "unescape (strace_quote p) = p"
proof (induction p)
  case (Cons c s)
  show ?case
  proof (cases "control_letter c")
    case (Some e)
    then have "escape_at ([e] @ strace_quote s) = Some (c, length [e])"
      using control_letter_cases by (simp add: escape_at_def)
    from unescape_escape [OF this] Some Cons show ?thesis by simp
  next
    case None
    then have b: "c \<noteq> CHR 0x5C" by (auto simp: control_letter_def)
    show ?thesis
    proof (cases "printable c")
      case True
      with None b Cons show ?thesis by (simp add: unescape_plain)
    next
      case False
      define os where "os = (if s \<noteq> [] \<and> is_digit (hd s) then octal_padded (of_char c) else octal_digits (of_char c))"
      have n: "(of_char c :: nat) < 512" by (rule less_trans [OF of_char_256]) simp
      have "length os = 3 \<or> strace_quote s = [] \<or> \<not> is_octal (hd (strace_quote s))"
        using strace_quote_hd [of s] octal_all(5) [OF n] by (cases s) (auto simp: os_def)
      then have "escape_at (os @ strace_quote s) = Some (char_of (digits_val 8 os), length os)"
        using octal_all [OF n] by (intro escape_at_octal) (auto simp: os_def)
      moreover have "char_of (digits_val 8 os) = c" using octal_value [OF n] by (simp add: os_def)
      ultimately have "unescape (CHR 0x5C # os @ strace_quote s) = c # unescape (strace_quote s)"
        by (intro unescape_escape) simp
      with None False Cons show ?thesis by (simp add: os_def)
    qed
  qed
qed simp

lemma quoted_raw_octal:
  "list_all is_octal os \<Longrightarrow> quoted_raw (os @ s) = map_option (\<lambda>(raw, rest). (os @ raw, rest)) (quoted_raw s)"
proof (induction os)
  case (Cons c os)
  then have "c \<noteq> CHR 0x22" "c \<noteq> CHR 0x5C" by (auto simp: is_octal_def less_eq_char_def)
  with Cons show ?case by (cases "quoted_raw s") auto
qed (simp add: option.map_ident case_prod_unfold)

lemma quoted_raw_strace_quote:
  "quoted_raw (strace_quote p @ CHR 0x22 # rest) = Some (strace_quote p, rest)"
proof (induction p)
  case (Cons c s)
  show ?case
  proof (cases "control_letter c")
    case (Some e)
    with Cons show ?thesis by simp
  next
    case None
    then have b: "c \<noteq> CHR 0x5C" "c \<noteq> CHR 0x22" by (auto simp: control_letter_def)
    show ?thesis
    proof (cases "printable c")
      case True
      with None b Cons show ?thesis by simp
    next
      case False
      define os where "os = (if s \<noteq> [] \<and> is_digit (hd s) then octal_padded (of_char c) else octal_digits (of_char c))"
      have n: "(of_char c :: nat) < 512" by (rule less_trans [OF of_char_256]) simp
      have "list_all is_octal os" "os \<noteq> []" using octal_all [OF n] by (auto simp: os_def)
      then obtain o1 os' where o1: "os = o1 # os'" "list_all is_octal os'" by (cases os) auto
      have "quoted_raw (CHR 0x5C # os @ strace_quote s @ CHR 0x22 # rest) =
          Some (CHR 0x5C # os @ strace_quote s, rest)"
        unfolding o1(1) using quoted_raw_octal [OF o1(2)] Cons by simp
      with None False show ?thesis by (simp add: os_def)
    qed
  qed
qed simp

text \<open>C23: reading a quoted string inverts strace's quoting: whatever bytes a path holds (quotes,
  backslashes, newlines, parentheses, commas, bytes outside ASCII), the scanner returns exactly
  the path and stops right after the closing quote and an optional ellipsis.\<close>

theorem quote_round_trip:
  "extractQuotedString (CHR 0x22 # strace_quote p @ CHR 0x22 # rest) =
     Some (p, if starts_with rest ''...'' then drop 3 rest else rest)"
  by (simp add: extractQuotedString_def quoted_raw_strace_quote unescape_strace_quote)

section \<open>A line of strace, from end to end\<close>

definition quoted :: "string \<Rightarrow> string" where
  "quoted p = CHR 0x22 # strace_quote p @ [CHR 0x22]"

lemma quote_at_simps [simp]:
  "quote_at [] = None" "c \<noteq> CHR 0x22 \<Longrightarrow> quote_at (c # s) = None"
  by (simp_all add: quote_at_def)

lemma quote_at_quoted: "\<not> starts_with rest ''...'' \<Longrightarrow> quote_at (quoted p @ rest) = Some (p, rest)"
  by (simp add: quote_at_def quoted_def extractQuotedString_def quoted_raw_strace_quote unescape_strace_quote)

lemma consumed_append [simp]: "consumed (u @ rest) rest = u"
  by (simp add: consumed_def)

lemma quoted_Cons: "\<exists>c s. quoted p @ rest = c # s"
  by (simp add: quoted_def)

lemma close_paren_plain:
  "list_all (\<lambda>c. c \<noteq> CHR 0x22 \<and> c \<noteq> CHR ''('' \<and> c \<noteq> CHR '')'') u \<Longrightarrow>
   close_paren d (u @ s) = map_option (\<lambda>(a, b). (u @ a, b)) (close_paren d s)"
proof (induction u)
  case (Cons c u)
  then show ?case by (cases "close_paren d s") auto
qed (cases "close_paren d s", auto)

lemma close_paren_quoted:
  assumes "\<not> starts_with rest ''...''"
  shows "close_paren d (quoted p @ rest) = map_option (\<lambda>(a, b). (quoted p @ a, b)) (close_paren d rest)"
proof -
  obtain c s where cs: "quoted p @ rest = c # s" using quoted_Cons by blast
  have "quote_at (c # s) = Some (p, rest)" using quote_at_quoted [OF assms, of p] cs by simp
  moreover have "consumed (c # s) rest = quoted p" using consumed_append [of "quoted p" rest] cs by simp
  ultimately show ?thesis unfolding cs by simp
qed

definition plain_arg_char :: "char \<Rightarrow> bool" where
  "plain_arg_char c = (c \<notin> set [CHR 0x22, CHR ''('', CHR ''['', CHR ''{'', CHR '')'', CHR '']'', CHR ''}'', CHR '',''])"

lemma split_loop_plain:
  "list_all plain_arg_char u \<Longrightarrow> split_loop d cur args (u @ s) = split_loop d (cur @ u) args s"
  by (induction u arbitrary: cur) (simp_all add: plain_arg_char_def)

lemma split_loop_quoted:
  assumes "\<not> starts_with rest ''...''"
  shows "split_loop d cur args (quoted p @ rest) = split_loop d (cur @ quoted p) args rest"
proof -
  obtain c s where cs: "quoted p @ rest = c # s" using quoted_Cons by blast
  have "quote_at (c # s) = Some (p, rest)" using quote_at_quoted [OF assms, of p] cs by simp
  moreover have "consumed (c # s) rest = quoted p" using consumed_append [of "quoted p" rest] cs by simp
  ultimately show ?thesis unfolding cs by simp
qed

lemma trim_space [simp]: "trim (CHR '' '' # s) = trim s"
  by (simp add: trim_def trim_start_def is_space_def)

lemma trim_quoted [simp]: "trim (quoted p) = quoted p"
  by (rule trim_id) (simp add: quoted_def is_space_def)

text \<open>The first match of a sequence, from the first matches of its parts.\<close>

definition rx_first :: "'a matcher \<Rightarrow> string \<Rightarrow> ('a \<times> string) option" where
  "rx_first m s = (case m s of [] \<Rightarrow> None | y # _ \<Rightarrow> Some y)"

lemma rx_first_bind:
  "rx_first m s = Some (a, r) \<Longrightarrow> rx_first (f a) r = Some y \<Longrightarrow> rx_first (rx_bind m f) s = Some y"
  by (cases "m s"; cases "f a r") (auto simp: rx_first_def rx_bind_def)

lemma rx_first_lit: "rx_first (rx_lit p) (p @ s) = Some (p, s)"
  by (simp add: rx_first_def rx_lit_def)

lemma rx_first_ret: "rx_first (rx_ret a) s = Some (a, s)"
  by (simp add: rx_first_def rx_ret_def)

lemma rx_first_rep:
  assumes "list_all p w" "s = [] \<or> \<not> p (hd s)" "lo \<le> length w"
  shows "rx_first (rep p lo None) (w @ s) = Some (w, s)"
proof -
  have "takeWhile p s = []" using assms(2) by (cases s) auto
  with assms(1) have "takeWhile p (w @ s) = w" by (simp add: takeWhile_append list_all_iff)
  then show ?thesis using assms(3) by (simp add: rx_first_def rep_def Let_def)
qed

lemma rx_first_digit: "is_digit d \<Longrightarrow> rx_first (rep is_digit 1 (Some 1)) (d # s) = Some ([d], s)"
  by (simp add: rx_first_def rep_def)

lemma rx_first_none: "m s = [] \<Longrightarrow> rx_first (rx_opt m) s = Some (None, s)"
  by (simp add: rx_first_def rx_opt_def)

lemma rx_first_some: "rx_first m s = Some (a, r) \<Longrightarrow> rx_first (rx_opt m) s = Some (Some a, r)"
  by (cases "m s") (simp_all add: rx_first_def rx_opt_def)

lemma rx_first_end: "rx_first rx_end [] = Some ((), [])"
  by (simp add: rx_first_def rx_end_def)

lemma rx_search_first: "rx_first m s = Some (a, r) \<Longrightarrow> rx_search m s = Some a"
  by (cases s; cases "m s") (auto simp: rx_first_def)

lemma nat_str_digits: "nat_str n \<noteq> [] \<and> list_all is_digit (nat_str n)"
proof (induction n rule: nat_str.induct)
  case (1 n)
  have "is_digit (digit_char d)" if "d < 10" for d
    using that by (simp add: is_digit_def digit_char_def less_eq_char_def)
  with 1 show ?case unfolding nat_str.simps [of n] by auto
qed

lemma is_digit_word: "is_digit c \<Longrightarrow> is_word c"
  by (simp add: is_word_def is_alnum_def)

lemma rx_number_nat: "s = [] \<or> \<not> is_word (hd s) \<Longrightarrow> rx_first rx_number (nat_str n @ s) = Some (nat_str n, s)"
proof -
  assume s: "s = [] \<or> \<not> is_word (hd s)"
  obtain d w where n: "nat_str n = d # w" "is_digit d" "list_all is_digit w"
    using nat_str_digits [of n] by (cases "nat_str n") auto
  then have "d \<noteq> CHR ''-''" by (auto simp: is_digit_def less_eq_char_def)
  then have "rx_lit ''-'' (d # w @ s) = []" by (simp add: rx_lit_def)
  then have sign: "rx_first (rx_opt (rx_lit ''-'')) (d # w @ s) = Some (None, d # w @ s)"
    by (rule rx_first_none)
  have "rx_first (rep is_word 0 None) (w @ s) = Some (w, s)"
    using n(3) s is_digit_word by (intro rx_first_rep) (auto simp: list_all_iff)
  then have "rx_first rx_number (d # w @ s) = Some ([d] @ w, s)"
    unfolding rx_number_def
    by (intro rx_first_bind [OF sign] rx_first_bind [OF rx_first_digit [OF n(2)]] rx_first_bind)
      (simp_all add: rx_first_ret)
  with n(1) show ?thesis by simp
qed

lemma rx_search_skip: "m (c # s) = [] \<Longrightarrow> rx_search m (c # s) = rx_search m s"
  by simp

lemma retval_no_match: "c \<noteq> CHR ''='' \<Longrightarrow> rx_retval (c # s) = []"
  by (simp add: rx_retval_def rx_bind_def rx_lit_def)

lemma rx_first_rep0: "s = [] \<or> \<not> p (hd s) \<Longrightarrow> rx_first (rep p 0 None) s = Some ([], s)"
  using rx_first_rep [of p "[]" s 0] by simp

lemma parseRetVal_fd:
  "parseRetVal ('' = '' @ nat_str n) = Some \<lparr>rv_raw = nat_str n, rv_isError = False, rv_errno = None\<rparr>"
proof -
  obtain d w where n: "nat_str n = d # w" "is_digit d"
    using nat_str_digits [of n] by (cases "nat_str n") auto
  then have d: "\<not> is_space d" "d \<noteq> CHR ''-''" by (auto simp: is_digit_def is_space_def less_eq_char_def)
  have sp: "rx_first (rep is_space 1 None) ([CHR '' ''] @ nat_str n) = Some ([CHR '' ''], nat_str n)"
    using d n by (intro rx_first_rep) (simp_all add: is_space_def)
  have num: "rx_first rx_number (nat_str n) = Some (nat_str n, [])"
    using rx_number_nat [of "[]" n] by simp
  have "rx_first rx_retval (''='' @ [CHR '' ''] @ nat_str n) = Some ((nat_str n, None), [])"
    unfolding rx_retval_def
    by (intro rx_first_bind [OF rx_first_lit] rx_first_bind [OF sp] rx_first_bind [OF num]
        rx_first_bind [OF rx_first_rep0] rx_first_bind [OF rx_first_none] rx_first_bind [OF rx_first_end]
        rx_first_ret)
      (simp_all add: rx_bind_def rx_lit_def)
  from rx_search_first [OF this] have "rx_search rx_retval ('' = '' @ nat_str n) = Some (nat_str n, None)"
    by (simp add: retval_no_match)
  moreover have "nat_str n \<noteq> ''-1''" using n d by auto
  ultimately show ?thesis by (simp add: parseRetVal_def)
qed

lemma parseRetVal_err:
  assumes "e \<noteq> []" "list_all is_word e" "CHR '')'' \<notin> set msg"
  shows "parseRetVal ('' = -1 '' @ e @ '' ('' @ msg @ '')'') =
     Some \<lparr>rv_raw = ''-1'', rv_isError = True, rv_errno = Some e\<rparr>"
proof -
  let ?tail = "e @ '' ('' @ msg @ '')''"
  have word_sp: "\<not> is_space c" if "is_word c" for c
    using that by (auto simp: is_word_def is_alnum_def is_digit_def is_upper_def is_lower_def is_space_def
        less_eq_char_def Let_def)
  have hd: "?tail \<noteq> [] \<and> \<not> is_space (hd ?tail)" using assms(1,2) word_sp by (cases e) auto
  have sp: "rx_first (rep is_space 1 None) ([CHR '' ''] @ ''-1 '' @ ?tail) = Some ([CHR '' ''], ''-1 '' @ ?tail)"
    by (rule rx_first_rep) (simp_all add: is_space_def)
  have sign: "rx_first (rx_opt (rx_lit ''-'')) (''-'' @ ''1 '' @ ?tail) = Some (Some ''-'', ''1 '' @ ?tail)"
    by (rule rx_first_some) (rule rx_first_lit)
  have one: "rx_first (rep is_digit 1 (Some 1)) (CHR ''1'' # '' '' @ ?tail) = Some ([CHR ''1''], '' '' @ ?tail)"
    by (rule rx_first_digit) (simp add: is_digit_def less_eq_char_def)
  have w0: "rx_first (rep is_word 0 None) ('' '' @ ?tail) = Some ([], '' '' @ ?tail)"
    by (rule rx_first_rep0)
      (simp add: is_word_def is_alnum_def is_digit_def is_upper_def is_lower_def less_eq_char_def)
  have num: "rx_first rx_number (''-1 '' @ ?tail) = Some (''-1'', '' '' @ ?tail)"
    unfolding rx_number_def
    using rx_first_bind [OF sign, of "\<lambda>sign. rx_bind (rep is_digit 1 (Some 1)) (\<lambda>d. rx_bind (rep is_word 0 None)
        (\<lambda>w. rx_ret ((case sign of Some m \<Rightarrow> m | None \<Rightarrow> []) @ d @ w)))" "(''-1'', '' '' @ ?tail)"]
      rx_first_bind [OF one, of "\<lambda>d. rx_bind (rep is_word 0 None) (\<lambda>w. rx_ret (''-'' @ d @ w))" "(''-1'', '' '' @ ?tail)"]
      rx_first_bind [OF w0, of "\<lambda>w. rx_ret (''-1'' @ w)" "(''-1'', '' '' @ ?tail)"]
    by (simp add: rx_first_ret)
  have sp2: "rx_first (rep is_space 0 None) ('' '' @ ?tail) = Some ('' '', ?tail)"
    using hd by (intro rx_first_rep) (simp_all add: is_space_def)
  have w: "rx_first (rep is_word 1 None) (e @ '' ('' @ msg @ '')'') = Some (e, '' ('' @ msg @ '')'')"
    using assms(1,2) by (intro rx_first_rep)
      (auto simp: is_word_def is_alnum_def is_digit_def is_upper_def is_lower_def less_eq_char_def Suc_le_eq)
  have sp3: "rx_first (rep is_space 0 None) ('' '' @ ''('' @ msg @ '')'') = Some ('' '', ''('' @ msg @ '')'')"
    by (rule rx_first_rep) (simp_all add: is_space_def)
  have body: "rx_first (rep (\<lambda>c. c \<noteq> CHR '')'') 0 None) (msg @ '')'') = Some (msg, '')'')"
    using assms(3) by (intro rx_first_rep) (auto simp: list_all_iff)
  have close: "rx_first (rx_lit '')'') '')'' = Some ('')'', [])" using rx_first_lit [of "'')''" "[]"] by simp
  let ?group = "rx_bind (rep is_word 1 None) (\<lambda>w. rx_bind (rep is_space 0 None) (\<lambda>_.
        rx_bind (rx_lit ''('') (\<lambda>_. rx_bind (rep (\<lambda>c. c \<noteq> CHR '')'') 0 None) (\<lambda>_.
        rx_bind (rx_lit '')'') (\<lambda>_. rx_ret w)))))"
  have sp3': "rx_first (rep is_space 0 None) ('' ('' @ msg @ '')'') = Some ('' '', ''('' @ msg @ '')'')"
    using sp3 by simp
  have "rx_first ?group ?tail = Some (e, [])"
    by (rule rx_first_bind [OF w], rule rx_first_bind [OF sp3'], rule rx_first_bind [OF rx_first_lit],
        rule rx_first_bind [OF body], rule rx_first_bind [OF close], rule rx_first_ret)
  then have grp: "rx_first (rx_opt ?group) ?tail = Some (Some e, [])" by (rule rx_first_some)
  have "rx_first rx_retval (''='' @ [CHR '' ''] @ ''-1 '' @ ?tail) = Some ((''-1'', Some e), [])"
    unfolding rx_retval_def
    by (rule rx_first_bind [OF rx_first_lit], rule rx_first_bind [OF sp], rule rx_first_bind [OF num],
        rule rx_first_bind [OF sp2], rule rx_first_bind [OF grp], rule rx_first_bind [OF rx_first_rep0], simp,
        rule rx_first_bind [OF rx_first_none], simp add: rx_bind_def rx_lit_def,
        rule rx_first_bind [OF rx_first_rep0], simp, rule rx_first_bind [OF rx_first_end], rule rx_first_ret)
  from rx_search_first [OF this] have "rx_search rx_retval ('' = -1 '' @ ?tail) = Some (''-1'', Some e)"
    by (simp add: retval_no_match)
  then show ?thesis by (simp add: parseRetVal_def)
qed

datatype open_result = RetFd nat | RetErr string string

definition ret_text :: "open_result \<Rightarrow> string" where
  "ret_text r =
     (case r of RetFd n \<Rightarrow> '' = '' @ nat_str n
      | RetErr e msg \<Rightarrow> '' = -1 '' @ e @ '' ('' @ msg @ '')'')"

definition well_formed_ret :: "open_result \<Rightarrow> bool" where
  "well_formed_ret r =
     (case r of RetFd n \<Rightarrow> True | RetErr e msg \<Rightarrow> e \<noteq> [] \<and> list_all is_word e \<and> CHR '')'' \<notin> set msg)"

definition flag_char :: "char \<Rightarrow> bool" where
  "flag_char c = (is_word c \<or> c = CHR ''|'')"

text \<open>A line of \<^verbatim>\<open>openat\<close> as strace prints it: \<^verbatim>\<open>AT_FDCWD\<close> or the number of a descriptor, and a mode when the call
  may create the file.\<close>

definition at_text :: "int option \<Rightarrow> string" where
  "at_text dirfd = (case dirfd of None \<Rightarrow> ''AT_FDCWD'' | Some n \<Rightarrow> int_str n)"

definition mode_text :: "string option \<Rightarrow> string" where
  "mode_text mode = (case mode of None \<Rightarrow> [] | Some m \<Rightarrow> '', '' @ m)"

definition openat_line :: "int option \<Rightarrow> string \<Rightarrow> string \<Rightarrow> string option \<Rightarrow> open_result \<Rightarrow> string" where
  "openat_line dirfd p flags mode r =
     ''openat('' @ at_text dirfd @ '', '' @ quoted p @ '', '' @ flags @ mode_text mode @ '')'' @ ret_text r"

definition openat_events ::
  "int option \<Rightarrow> string \<Rightarrow> string \<Rightarrow> open_result \<Rightarrow> int \<Rightarrow> nat \<Rightarrow> raw_event list option" where
  "openat_events dirfd p flags r pid ts =
     (let k = (if flagsImplyWrite flags then WriteEv else ReadEv)
      in case r of
           RetFd n \<Rightarrow> Some [k (mk_fs p pid ts None dirfd (Some n))]
         | RetErr e msg \<Rightarrow>
             if e = ''ENOENT'' then Some [k (mk_fs p pid ts (Some ENOENT) dirfd None)]
             else if e = ''EACCES'' then Some [k (mk_fs p pid ts (Some EACCES) dirfd None)]
             else None)"

lemma flag_char_plain: "flag_char c \<Longrightarrow> plain_arg_char c \<and> \<not> is_space c"
  by (auto simp: flag_char_def plain_arg_char_def is_word_def is_alnum_def is_digit_def is_upper_def
      is_lower_def is_space_def less_eq_char_def Let_def)

lemma ret_fd_nat: "ret_fd \<lparr>rv_raw = nat_str n, rv_isError = False, rv_errno = None\<rparr> = Some n"
proof -
  have all: "takeWhile is_digit (nat_str n) = nat_str n" "nat_str n \<noteq> []"
    using nat_str_digits [of n] by (auto simp: list_all_iff takeWhile_eq_all_conv)
  have "\<not> is_digit (CHR ''x'')" "\<not> is_digit (CHR ''-'')" by (simp_all add: is_digit_def less_eq_char_def)
  then have "\<not> starts_with (nat_str n) ''0x''" "\<not> starts_with (nat_str n) ''-''"
    using nat_str_digits [of n] by (auto simp: starts_with_iff list_all_iff)
  with all show ?thesis by (simp add: ret_fd_def digits_val_nat_str Let_def del: takeWhile_eq_all_conv)
qed

lemma at_text_plain: "list_all (\<lambda>c. plain_arg_char c \<and> \<not> is_space c) (at_text d)" "at_text d \<noteq> []"
proof -
  have digit: "plain_arg_char c \<and> \<not> is_space c" if "is_digit c" for c
    using flag_char_plain [of c] that by (simp add: flag_char_def is_word_def is_alnum_def)
  have "list_all (\<lambda>c. plain_arg_char c \<and> \<not> is_space c) (nat_str n)" for n
    using nat_str_digits [of n] digit by (simp add: list_all_iff)
  then show "list_all (\<lambda>c. plain_arg_char c \<and> \<not> is_space c) (at_text d)"
    by (auto simp: at_text_def int_str_def plain_arg_char_def is_space_def split: option.splits)
  show "at_text d \<noteq> []" using nat_str_digits by (auto simp: at_text_def int_str_def split: option.splits)
qed

lemma parse_dirfd_at: "parse_dirfd (at_text d) = Some d"
proof (cases d)
  case (Some n)
  have digits: "takeWhile is_digit (nat_str k) = nat_str k" "nat_str k \<noteq> []" for k
    using nat_str_digits [of k] by (auto simp: list_all_iff takeWhile_eq_all_conv)
  have no_at: "\<not> is_digit (CHR ''A'')" "\<not> is_digit (CHR ''-'')" by (simp_all add: is_digit_def less_eq_char_def)
  then have "nat_str k \<noteq> ''AT_FDCWD''" "\<not> starts_with (nat_str k) ''-''" for k
    using nat_str_digits [of k] by (auto simp: starts_with_iff list_all_iff)
  with digits show ?thesis
    by (auto simp: Some parse_dirfd_def at_text_def int_str_def digits_val_nat_str starts_with_iff Let_def
        simp del: takeWhile_eq_all_conv)
qed (simp add: parse_dirfd_def at_text_def)

lemma split_openat:
  assumes "list_all flag_char flags" "flags \<noteq> []" "\<forall>m. mode = Some m \<longrightarrow> list_all flag_char m \<and> m \<noteq> []"
  shows "splitArgs (at_text d @ '', '' @ quoted p @ '', '' @ flags @ mode_text mode) =
     [at_text d, quoted p, flags] @ (case mode of None \<Rightarrow> [] | Some m \<Rightarrow> [m])"
proof -
  have word: "list_all plain_arg_char s \<and> trim s = s" if "list_all flag_char s" "s \<noteq> []" for s
    using that flag_char_plain by (auto simp: list_all_iff intro!: trim_id)
  note fl = word [OF assms(1,2)]
  have dir: "list_all plain_arg_char (at_text d)" "trim (at_text d) = at_text d"
    using at_text_plain [of d] by (auto simp: list_all_iff intro!: trim_id)
  have comma: "split_loop 0 cur args ('', '' @ s) = split_loop 0 '' '' (args @ [trim cur]) s" for cur args s by simp
  have at: "split_loop 0 [] [] (at_text d @ '', '' @ s) = split_loop 0 '' '' [at_text d] s" for s
    unfolding split_loop_plain [OF dir(1)] comma by (simp add: dir)
  have q: "split_loop 0 '' '' args (quoted p @ '', '' @ s) = split_loop 0 '' '' (args @ [quoted p]) s" for args s
  proof -
    have "\<not> starts_with ('', '' @ s) ''...''" by simp
    from split_loop_quoted [OF this] show ?thesis unfolding comma by simp
  qed
  have last: "split_loop 0 '' '' args s = args @ [s]" if "list_all flag_char s" "s \<noteq> []" for args s
    using split_loop_plain [of s 0 "'' ''" args "[]"] word [OF that] that(2) by simp
  have f: "split_loop 0 '' '' args (flags @ '', '' @ s) = split_loop 0 '' '' (args @ [flags]) s" for args s
    unfolding split_loop_plain [OF conjunct1 [OF fl]] comma by (simp add: fl)
  show ?thesis
  proof (cases mode)
    case None
    show ?thesis unfolding splitArgs_def None mode_text_def option.case append_Nil2 at q last [OF assms(1,2)] by simp
  next
    case (Some m)
    with assms(3) have m: "list_all flag_char m" "m \<noteq> []" by simp_all
    show ?thesis unfolding splitArgs_def Some mode_text_def option.case at q f last [OF m] by simp
  qed
qed

lemma close_openat:
  assumes "list_all flag_char flags" "\<forall>m. mode = Some m \<longrightarrow> list_all flag_char m \<and> m \<noteq> []"
  shows "close_paren 0 (''('' @ at_text d @ '', '' @ quoted p @ '', '' @ flags @ mode_text mode @ '')'' @ r) =
     Some (''('' @ at_text d @ '', '' @ quoted p @ '', '' @ flags @ mode_text mode, r)"
proof -
  let ?tail = "'', '' @ flags @ mode_text mode"
  have fl: "list_all (\<lambda>c. c \<noteq> CHR 0x22 \<and> c \<noteq> CHR ''('' \<and> c \<noteq> CHR '')'') ?tail"
    using assms flag_char_plain by (force simp: list_all_iff plain_arg_char_def mode_text_def split: option.splits)
  have at: "list_all (\<lambda>c. c \<noteq> CHR 0x22 \<and> c \<noteq> CHR ''('' \<and> c \<noteq> CHR '')'') (at_text d @ '', '')"
    using at_text_plain [of d] by (auto simp: list_all_iff plain_arg_char_def)
  have "close_paren 1 (?tail @ '')'' @ r) = Some (?tail, r)"
    unfolding close_paren_plain [OF fl] by simp
  moreover have "\<not> starts_with (?tail @ '')'' @ r) ''...''" by simp
  ultimately have "close_paren 1 (quoted p @ ?tail @ '')'' @ r) = Some (quoted p @ ?tail, r)"
    using close_paren_quoted [of "?tail @ '')'' @ r" 1 p] by simp
  then have "close_paren 1 ((at_text d @ '', '') @ quoted p @ ?tail @ '')'' @ r) =
      Some ((at_text d @ '', '') @ quoted p @ ?tail, r)"
    unfolding close_paren_plain [OF at] by simp
  moreover have "close_paren 0 (CHR ''('' # s) = map_option (\<lambda>(a, b). (CHR ''('' # a, b)) (close_paren 1 s)" for s
    by simp
  ultimately show ?thesis by simp
qed

lemma openat_line_kept:
  assumes "well_formed_ret r"
  shows "stripTimestamp (trim (openat_line d p flags mode r)) = openat_line d p flags mode r"
proof -
  have "last (ret_text r) = CHR '')'' \<or> is_digit (last (ret_text r))" "ret_text r \<noteq> []"
    using nat_str_digits last_in_set by (fastforce simp: ret_text_def list_all_iff split: open_result.splits)+
  then have "\<not> is_space (last (openat_line d p flags mode r))"
    by (auto simp: openat_line_def is_space_def is_digit_def less_eq_char_def)
  then have t: "trim (openat_line d p flags mode r) = openat_line d p flags mode r"
    by (intro trim_id) (simp add: openat_line_def is_space_def)
  have "rep is_digit 2 (Some 2) (CHR ''o'' # s) = []" for s
    by (rule rep_no_class) (simp_all add: is_digit_def less_eq_char_def)
  then have "rx_timestamp (openat_line d p flags mode r) = []"
    by (simp add: rx_timestamp_def openat_line_def rx_bind_def)
  with t show ?thesis by (simp add: stripTimestamp_def)
qed

lemma parseRetVal_open:
  "well_formed_ret r \<Longrightarrow> parseRetVal (ret_text r) =
     Some (case r of RetFd n \<Rightarrow> \<lparr>rv_raw = nat_str n, rv_isError = False, rv_errno = None\<rparr>
           | RetErr e msg \<Rightarrow> \<lparr>rv_raw = ''-1'', rv_isError = True, rv_errno = Some e\<rparr>)"
  using parseRetVal_fd parseRetVal_err
  by (cases r) (simp_all add: ret_text_def well_formed_ret_def)

text \<open>C22: a completed \<^verbatim>\<open>openat\<close> is read as what happened, for every path printed in full: relative to the working
  directory or to a numbered descriptor, with or without a mode, the event names exactly the path the process
  passed (any bytes) and the descriptor it is relative to, is a write if and only if the flags imply one, carries
  the new descriptor of a success and the error of a failure to find or to access, and other failures give no
  event. The one hypothesis on the text is that the line does not contain \<^verbatim>\<open><unfinished ...>\<close>.\<close>

theorem openat_line_parsed:
  assumes "list_all flag_char flags" "flags \<noteq> []" "\<forall>m. mode = Some m \<longrightarrow> list_all flag_char m \<and> m \<noteq> []"
    and "well_formed_ret r" "\<not> js_includes (openat_line dirfd p flags mode r) ''<unfinished ...>''"
  shows "parseStraceLine (openat_line dirfd p flags mode r) pid ts = openat_events dirfd p flags r pid ts"
proof -
  let ?line = "openat_line dirfd p flags mode r"
  let ?args = "at_text dirfd @ '', '' @ quoted p @ '', '' @ flags @ mode_text mode"
  have line: "?line = ''openat'' @ ''('' @ ?args @ '')'' @ ret_text r"
    by (simp add: openat_line_def)
  have keep: "\<not> dropped_line ?line" "CHR ''('' \<in> set ?line"
    using assms(5) by (simp_all add: dropped_line_def line)
  have name: "trim (before_char (CHR ''('') ?line) = ''openat''"
    by (simp add: line before_char_def trim_def trim_start_def is_space_def)
  have rest: "close_paren 0 (dropWhile (\<lambda>c. c \<noteq> CHR ''('') ?line) = Some (''('' @ ?args, ret_text r)"
    using close_openat [OF assms(1,3), of dirfd p "ret_text r"] by (simp add: line)
  have q: "extractQuotedString (quoted p) = Some (p, [])"
    using quoted_raw_strace_quote [of p "[]"] by (simp add: quoted_def extractQuotedString_def unescape_strace_quote)
  let ?rv = "case r of RetFd n \<Rightarrow> \<lparr>rv_raw = nat_str n, rv_isError = False, rv_errno = None\<rparr>
           | RetErr e msg \<Rightarrow> \<lparr>rv_raw = ''-1'', rv_isError = True, rv_errno = Some e\<rparr>"
  let ?argv = "[at_text dirfd, quoted p, flags] @ (case mode of None \<Rightarrow> [] | Some m \<Rightarrow> [m])"
  have args: "splitArgs (drop 1 (''('' @ ?args)) = ?argv"
    using split_openat [OF assms(1-3), of dirfd p] by simp
  have "parse_line ?line pid ts = dispatch ''openat'' ?argv ?rv pid ts"
    unfolding parse_line_def Let_def name rest
    using keep by (simp only: if_False simp_thms option.case prod.case args parseRetVal_open [OF assms(4)])
  also have "\<dots> = openat_events dirfd p flags r pid ts"
    by (cases r)
      (simp_all add: dispatch_def parseOpenat_def arg_def parse_dirfd_at q open_event_def open_errno_def
        openat_events_def ret_fd_nat, simp add: ret_fd_def)
  finally show ?thesis unfolding parseStraceLine_def openat_line_kept [OF assms(4)] .
qed

theorem openat_line_parsed_witness:
  "parseStraceLine (openat_line (Some 5) ''a)b, c'' ''O_RDWR|O_CREAT'' (Some ''0644'') (RetErr ''ENOENT'' ''No such file'')) 7 0 =
     Some [WriteEv (mk_fs ''a)b, c'' 7 0 (Some ENOENT) (Some 5) None)]"
proof -
  have "\<not> js_includes (openat_line (Some 5) ''a)b, c'' ''O_RDWR|O_CREAT'' (Some ''0644'') (RetErr ''ENOENT'' ''No such file''))
      ''<unfinished ...>''"
    by (simp add: openat_line_def quoted_def ret_text_def control_letter_def printable_def less_eq_char_def
        at_text_def mode_text_def int_str_def nat_str.simps digit_char_def)
  moreover have "list_all flag_char ''O_RDWR|O_CREAT''" "list_all flag_char ''0644''" "list_all is_word ''ENOENT''"
    by (simp_all add: flag_char_def is_word_def is_alnum_def is_digit_def is_upper_def less_eq_char_def)
  ultimately show ?thesis
    using openat_line_parsed [of "''O_RDWR|O_CREAT''" "Some ''0644''" "RetErr ''ENOENT'' ''No such file''" "Some 5" "''a)b, c''" 7 0]
    by (simp add: well_formed_ret_def openat_events_def flagsImplyWrite_def WRITE_FLAGS_def)
qed

section \<open>The stream\<close>

fun event_ts :: "raw_event \<Rightarrow> nat" where
  "event_ts (ReadEv e) = fs_ts e"
| "event_ts (WriteEv e) = fs_ts e"
| "event_ts (EnvReadEv e) = er_ts e"
| "event_ts (SpawnEv e) = sp_ts e"
| "event_ts (DlopenEv e) = dl_ts e"
| "event_ts (ConnectEv e) = nw_ts e"
| "event_ts (ExecEv e) = ex_ts e"
| "event_ts (EnvTamperEv e) = et_ts e"

fun event_pid :: "raw_event \<Rightarrow> int" where
  "event_pid (ReadEv e) = fs_pid e"
| "event_pid (WriteEv e) = fs_pid e"
| "event_pid (EnvReadEv e) = er_pid e"
| "event_pid (SpawnEv e) = sp_pid e"
| "event_pid (DlopenEv e) = dl_pid e"
| "event_pid (ConnectEv e) = nw_pid e"
| "event_pid (ExecEv e) = ex_pid e"
| "event_pid (EnvTamperEv e) = et_pid e"

text \<open>What the parser may say of an event: where and when, but no verdict on trust.\<close>

fun unjudged :: "raw_event \<Rightarrow> bool" where
  "unjudged (ReadEv e) = (\<not> fs_hidden e \<and> fs_root_anchored e = None)"
| "unjudged (WriteEv e) = (\<not> fs_hidden e \<and> fs_root_anchored e = None)"
| "unjudged (SpawnEv e) = (sp_audit_blind e = None \<and> sp_root_anchored e = None)"
| "unjudged (ConnectEv e) = (nw_root_anchored e = None)"
| "unjudged _ = False"

definition stamped :: "int \<Rightarrow> nat \<Rightarrow> raw_event list option \<Rightarrow> bool" where
  "stamped pid ts r =
     (case r of None \<Rightarrow> True
      | Some evs \<Rightarrow> list_all (\<lambda>ev. event_ts ev = ts \<and> event_pid ev = pid \<and> unjudged ev) evs)"

lemma stamped_open: "stamped pid ts (open_event w path d rv pid ts)"
  by (simp add: stamped_def open_event_def mk_fs_def Let_def split: option.splits)

lemma stamped_cwd: "k \<in> {ReadEv, WriteEv} \<Longrightarrow> stamped pid ts (cwd_event k args rv pid ts)"
  by (auto simp: stamped_def cwd_event_def mk_fs_def split: option.splits)

lemma stamped_spawn: "stamped pid ts (Some (buildSpawnEvent path tok rv pid ts))"
  by (simp add: stamped_def buildSpawnEvent_def Let_def)

lemma stamped_simps [simp]: "stamped pid ts None"
  by (simp add: stamped_def)

lemma stamped_dispatch: "stamped pid ts (dispatch name args rv pid ts)"
proof -
  have "stamped pid ts (parseOpenat args rv pid ts)" "stamped pid ts (parseOpenat2 args rv pid ts)"
    "stamped pid ts (parseOpen args rv pid ts)" "stamped pid ts (parseCreat args rv pid ts)"
    "stamped pid ts (parseExecve args rv pid ts)" "stamped pid ts (parseExecveat args rv pid ts)"
    by (auto simp: parseOpenat_def parseOpenat2_def parseOpen_def parseCreat_def parseExecve_def
        parseExecveat_def stamped_open stamped_spawn Let_def split: option.splits)
  moreover have "stamped pid ts (parseConnect args rv pid ts)"
    by (simp add: stamped_def parseConnect_def split: option.splits)
  moreover have "stamped pid ts (parseReadlinkat args rv pid ts)" "stamped pid ts (parseStatx args rv pid ts)"
    "stamped pid ts (parseUnlinkat args rv pid ts)" "stamped pid ts (parseFaccessat2 args rv pid ts)"
    by (simp_all add: parseReadlinkat_def parseStatx_def parseUnlinkat_def parseFaccessat2_def stamped_cwd)
  moreover have "stamped pid ts (parseRenameat2 args rv pid ts)"
    by (simp add: stamped_def parseRenameat2_def mk_fs_def Let_def split: option.splits prod.splits)
  ultimately show ?thesis by (simp add: dispatch_def)
qed

lemma stamped_line: "stamped pid ts (parseStraceLine line pid ts)"
  by (simp add: parseStraceLine_def parse_line_def Let_def stamped_dispatch split: option.splits prod.splits)

lemma parsed_stamped:
  "parseStraceLine line pid ts = Some evs \<Longrightarrow> ev \<in> set evs \<Longrightarrow>
   event_ts ev = ts \<and> event_pid ev = pid \<and> unjudged ev"
  using stamped_line [of pid ts line] by (auto simp: stamped_def list_all_iff)

lemma stream_from_mem:
  "ev \<in> set (stream_from ts lines pid) \<longleftrightarrow>
     (\<exists>i evs. i < length lines \<and> parseStraceLine (lines ! i) pid (ts + i) = Some evs \<and> ev \<in> set evs)"
proof (induction lines arbitrary: ts)
  case (Cons l lines)
  show ?case
  proof
    assume "ev \<in> set (stream_from ts (l # lines) pid)"
    then consider evs where "parseStraceLine l pid ts = Some evs" "ev \<in> set evs"
      | "ev \<in> set (stream_from (Suc ts) lines pid)"
      by (cases "parseStraceLine l pid ts") auto
    then show "\<exists>i evs. i < length (l # lines) \<and> parseStraceLine ((l # lines) ! i) pid (ts + i) = Some evs \<and> ev \<in> set evs"
    proof cases
      case 1
      then show ?thesis by (intro exI [of _ 0]) auto
    next
      case 2
      with Cons obtain i evs where "i < length lines" "parseStraceLine (lines ! i) pid (Suc ts + i) = Some evs"
        "ev \<in> set evs" by blast
      then show ?thesis by (intro exI [of _ "Suc i"]) auto
    qed
  next
    assume "\<exists>i evs. i < length (l # lines) \<and> parseStraceLine ((l # lines) ! i) pid (ts + i) = Some evs \<and> ev \<in> set evs"
    then obtain i evs where i: "i < length (l # lines)" "parseStraceLine ((l # lines) ! i) pid (ts + i) = Some evs"
      "ev \<in> set evs" by blast
    then show "ev \<in> set (stream_from ts (l # lines) pid)"
      using Cons [of "Suc ts"] by (cases i) auto
  qed
qed simp

lemma stream_from_sorted: "sorted (map event_ts (stream_from ts lines pid))"
proof (induction lines arbitrary: ts)
  case (Cons l lines)
  have later: "ts \<le> event_ts ev" if "ev \<in> set (stream_from (Suc ts) lines pid)" for ev
    using that parsed_stamped by (fastforce simp: stream_from_mem)
  show ?case
  proof (cases "parseStraceLine l pid ts")
    case None
    with Cons show ?thesis by simp
  next
    case (Some evs)
    then have now: "event_ts ev = ts" if "ev \<in> set evs" for ev using that parsed_stamped by blast
    then have "map event_ts evs = replicate (length evs) ts" by (simp add: map_idI list_eq_iff_nth_eq)
    with Some Cons later show ?thesis by (auto simp: sorted_append)
  qed
qed simp

text \<open>The stream of a process is in the order of its trace and invents nothing: each event comes
  from one line and carries that line's number as its time and the process id of the stream, the
  times never decrease, and the parser marks no event as hidden, audit-blind or anchored.\<close>

theorem stream_in_order:
  "sorted (map event_ts (parseStraceStream lines pid)) \<and>
   set (parseStraceStream lines pid) =
     {ev. \<exists>i evs. i < length lines \<and> parseStraceLine (lines ! i) pid i = Some evs \<and> ev \<in> set evs \<and>
        event_ts ev = i \<and> event_pid ev = pid \<and> unjudged ev}"
proof
  show "sorted (map event_ts (parseStraceStream lines pid))"
    by (simp add: parseStraceStream_def stream_from_sorted)
  show "set (parseStraceStream lines pid) =
     {ev. \<exists>i evs. i < length lines \<and> parseStraceLine (lines ! i) pid i = Some evs \<and> ev \<in> set evs \<and>
        event_ts ev = i \<and> event_pid ev = pid \<and> unjudged ev}"
    using stream_from_mem [of _ 0 lines pid] parsed_stamped
    by (auto simp: parseStraceStream_def) blast
qed

section \<open>What the parser loses\<close>

lemma strace_quote_split: "\<exists>w. strace_quote (u @ v) = w @ strace_quote v"
proof (induction u)
  case (Cons c u)
  then obtain w where "strace_quote (u @ v) = w @ strace_quote v" by blast
  then show ?case by (auto split: option.splits intro: exI)
qed simp

text \<open>
  A completed \<^verbatim>\<open>openat\<close> whose path contains the marker of an interrupted call is dropped like an
  interrupted call: the test is on the whole line, quoted text included.
\<close>

lemma marker_in_path_drops_event:
  assumes "well_formed_ret r"
  shows "parseStraceLine (openat_line d (u @ ''<unfinished ...>'' @ v) flags mode r) pid ts = None"
proof -
  obtain w where w: "strace_quote (u @ ''<unfinished ...>'' @ v) = w @ strace_quote (''<unfinished ...>'' @ v)"
    using strace_quote_split by blast
  have m: "strace_quote (''<unfinished ...>'' @ v) = ''<unfinished ...>'' @ strace_quote v"
    by (simp add: control_letter_def printable_def less_eq_char_def)
  define a where "a = ''openat('' @ at_text d @ '', '' @ CHR 0x22 # w"
  define b where "b = strace_quote v @ [CHR 0x22] @ '', '' @ flags @ mode_text mode @ '')'' @ ret_text r"
  have "openat_line d (u @ ''<unfinished ...>'' @ v) flags mode r = a @ ''<unfinished ...>'' @ b"
    unfolding openat_line_def quoted_def w m by (simp add: a_def b_def)
  then have "js_includes (openat_line d (u @ ''<unfinished ...>'' @ v) flags mode r) ''<unfinished ...>''"
    by (simp only: js_includes_infix)
  then show ?thesis
    unfolding parseStraceLine_def openat_line_kept [OF assms] by (simp add: parse_line_def dropped_line_def)
qed

text \<open>Comments are removed from the argument vector before its strings are read, so text between
  comment marks inside an argument, or across arguments, is not recorded.\<close>

lemma comment_in_argument_lost:
  "parseArgvToken (''['' @ quoted ''sh'' @ '', '' @ quoted ''-c'' @ '', '' @ quoted '': /*; curl evil; : */'' @ '']'') =
     [''sh'', ''-c'', '': '']"
  by (simp add: parseArgvToken_def quoted_def control_letter_def printable_def less_eq_char_def strip_open_def
      strip_close_def ends_with_def trim_def trim_start_def is_space_def strip_comments.simps(2)
      argv_loop.simps extractQuotedString_def unescape_plain Let_def)

text \<open>A path outside ASCII is decoded byte by byte: the two octal bytes of the letter that UTF-8
  encodes as C3 A9 become two code units, not the letter, which is the one unit E9.\<close>

lemma bytes_not_decoded:
  "extractQuotedString (quoted [CHR 0xC3, CHR 0xA9]) = Some ([CHR 0xC3, CHR 0xA9], [])"
  by (simp add: quoted_def extractQuotedString_def quoted_raw_strace_quote unescape_strace_quote
      del: strace_quote.simps)

end
