(* ===== verification/Backend.thy ===== *)
theory Backend
  imports JsString
begin

text \<open>
  The choice of the audit backend: \<^verbatim>\<open>src/action/backend/select.ts\<close>. A backend's run and the callback
  are parameters that return or throw; what the selection does in the world is the trace of the
  calls it makes, in order.
\<close>

datatype backend = Firecracker | Docker | Bare

datatype requested = Auto | Only backend

datatype thrown = Unavailable string | OtherError string

datatype 'r select_error =
    NotAligned backend
  | Thrown thrown
  | NoneAvailable "backend list" "string list"

datatype call = OnSelected backend | Run backend | Warn string

fun backend_name :: "backend \<Rightarrow> string" where
  "backend_name Firecracker = ''firecracker''"
| "backend_name Docker = ''docker''"
| "backend_name Bare = ''bare''"

definition AUTO_ORDER :: "backend list" where
  "AUTO_ORDER = [Firecracker, Docker, Bare]"

definition INSTALL_ALIGNED_BACKENDS :: "backend set" where
  "INSTALL_ALIGNED_BACKENDS = {Firecracker, Docker}"

text \<open>The body of the \<^verbatim>\<open>try\<close>: the optional callback, then the run; both may throw.\<close>

definition attempt ::
  "(backend \<Rightarrow> thrown option) option \<Rightarrow> (backend \<Rightarrow> thrown + 'r) \<Rightarrow> backend \<Rightarrow> call list \<times> (thrown + 'r)" where
  "attempt onBackendSelected run name =
     (case onBackendSelected of
        None \<Rightarrow> ([Run name], run name)
      | Some cb \<Rightarrow>
          (case cb name of
             Some e \<Rightarrow> ([OnSelected name], Inl e)
           | None \<Rightarrow> ([OnSelected name, Run name], run name)))"

fun select_loop ::
  "requested \<Rightarrow> (backend \<Rightarrow> thrown option) option \<Rightarrow> (backend \<Rightarrow> thrown + 'r) \<Rightarrow> backend list \<Rightarrow> backend list
   \<Rightarrow> string list \<Rightarrow> call list \<times> ('r select_error + 'r)" where
  "select_loop req cb run order [] unavailable = ([], Inl (NoneAvailable order unavailable))"
| "select_loop req cb run order (name # names) unavailable =
     (case attempt cb run name of
        (calls, Inr r) \<Rightarrow> (calls, Inr r)
      | (calls, Inl (OtherError m)) \<Rightarrow> (calls, Inl (Thrown (OtherError m)))
      | (calls, Inl (Unavailable m)) \<Rightarrow>
          if req \<noteq> Auto then (calls, Inl (Thrown (Unavailable m)))
          else (case select_loop req cb run order names (unavailable @ [backend_name name @ '': '' @ m]) of
                  (calls', res) \<Rightarrow>
                    (calls @ Warn (''script-jail backend '' @ [CHR 0x22] @ backend_name name @ [CHR 0x22] @
                       '' unavailable: '' @ m) # calls', res)))"

definition base_order :: "requested \<Rightarrow> backend list" where
  "base_order req = (case req of Auto \<Rightarrow> AUTO_ORDER | Only b \<Rightarrow> [b])"

definition runSelectedBackend ::
  "requested \<Rightarrow> (backend \<Rightarrow> thrown + 'r) \<Rightarrow> bool option \<Rightarrow> (backend \<Rightarrow> thrown option) option
   \<Rightarrow> call list \<times> ('r select_error + 'r)" where
  "runSelectedBackend req run requireRepoDirAligned cb =
     (let aligned = (requireRepoDirAligned = Some True);
          order = (if aligned then filter (\<lambda>b. b \<in> INSTALL_ALIGNED_BACKENDS) (base_order req)
                   else base_order req)
      in case req of
           Only b \<Rightarrow>
             if aligned \<and> b \<notin> INSTALL_ALIGNED_BACKENDS then ([], Inl (NotAligned b))
             else select_loop req cb run order order []
         | Auto \<Rightarrow> select_loop req cb run order order [])"

section \<open>What the loop does\<close>

text \<open>The backends the trace runs, in order.\<close>

definition runs :: "call list \<Rightarrow> backend list" where
  "runs calls = List.map_filter (\<lambda>c. case c of Run b \<Rightarrow> Some b | _ \<Rightarrow> None) calls"

definition announced :: "call list \<Rightarrow> backend list" where
  "announced calls = List.map_filter (\<lambda>c. case c of OnSelected b \<Rightarrow> Some b | _ \<Rightarrow> None) calls"

lemma runs_simps [simp]:
  "runs [] = []" "runs (Run b # cs) = b # runs cs" "runs (OnSelected b # cs) = runs cs"
  "runs (Warn m # cs) = runs cs" "runs (cs @ cs') = runs cs @ runs cs'"
  by (simp_all add: runs_def List.map_filter_simps) (simp add: List.map_filter_def)

lemma announced_simps [simp]:
  "announced [] = []" "announced (Run b # cs) = announced cs" "announced (OnSelected b # cs) = b # announced cs"
  "announced (Warn m # cs) = announced cs" "announced (cs @ cs') = announced cs @ announced cs'"
  by (simp_all add: announced_def List.map_filter_simps) (simp add: List.map_filter_def)

lemma subseq_subset: "subseq xs ys \<Longrightarrow> set xs \<subseteq> set ys"
  by (induction rule: list_emb.induct) auto

lemma subseq_keeps_distinct: "subseq xs ys \<Longrightarrow> distinct ys \<Longrightarrow> distinct xs"
  by (induction rule: list_emb.induct) (auto dest: subseq_subset)

lemma attempt_calls:
  "attempt cb run name = (calls, res) \<Longrightarrow> runs calls \<in> {[], [name]} \<and> announced calls \<in> {[], [name]}"
  by (auto simp: attempt_def split: option.splits)

lemma loop_prefix:
  "select_loop req cb run order names un = (calls, res) \<Longrightarrow>
   subseq (runs calls) names \<and> subseq (announced calls) names"
proof (induction req cb run order names un arbitrary: calls res rule: select_loop.induct)
  case (2 req cb run order name names un)
  obtain cs r where a: "attempt cb run name = (cs, r)" by fastforce
  note ac = attempt_calls [OF a]
  have one: "xs \<in> {[], [name]} \<Longrightarrow> subseq ys names \<Longrightarrow> subseq (xs @ ys) (name # names)" for xs ys
    by auto
  show ?case
  proof (cases "\<exists>m. r = Inl (Unavailable m) \<and> req = Auto")
    case True
    then obtain m where m: "r = Inl (Unavailable m)" "req = Auto" by blast
    obtain cs' res' where l: "select_loop req cb run order names (un @ [backend_name name @ '': '' @ m]) = (cs', res')"
      by fastforce
    from "2.IH" a m l have "subseq (runs cs') names \<and> subseq (announced cs') names" by simp
    with 2(2) a m l ac one show ?thesis by auto
  next
    case False
    then have "calls = cs" using 2(2) a by (cases r) (auto split: thrown.splits if_splits)
    with ac one [of _ "[]"] show ?thesis by auto
  qed
qed simp

lemma aligned_only_facts:
  fixes run :: "backend \<Rightarrow> thrown + 'r"
  defines "sel req cb \<equiv> runSelectedBackend req run (Some True) cb"
  shows "set (runs (fst (sel req cb))) \<subseteq> INSTALL_ALIGNED_BACKENDS"
    and "set (announced (fst (sel req cb))) \<subseteq> INSTALL_ALIGNED_BACKENDS"
    and "distinct (runs (fst (sel req cb)))"
    and "sel (Only Bare) cb = ([], Inl (NotAligned Bare))"
proof -
  have ord: "\<exists>names. subseq (runs (fst (sel req cb))) names \<and> subseq (announced (fst (sel req cb))) names \<and>
      set names \<subseteq> INSTALL_ALIGNED_BACKENDS \<and> distinct names"
  proof -
    let ?o = "filter (\<lambda>b. b \<in> INSTALL_ALIGNED_BACKENDS) (base_order req)"
    have d: "distinct ?o" by (cases req) (simp_all add: base_order_def AUTO_ORDER_def)
    have "fst (sel req cb) = [] \<or> sel req cb = select_loop req cb run ?o ?o []"
      by (cases req) (simp_all add: sel_def runSelectedBackend_def Let_def)
    then consider "fst (sel req cb) = []" | "sel req cb = select_loop req cb run ?o ?o []" by blast
    then show ?thesis
    proof cases
      case 1
      then show ?thesis by (intro exI [of _ "[]"]) simp
    next
      case 2
      with loop_prefix [of req cb run ?o ?o "[]" "fst (sel req cb)" "snd (sel req cb)"] d show ?thesis
        by (intro exI [of _ ?o]) auto
    qed
  qed
  then obtain names where names: "subseq (runs (fst (sel req cb))) names"
    "subseq (announced (fst (sel req cb))) names" "set names \<subseteq> INSTALL_ALIGNED_BACKENDS" "distinct names"
    by blast
  then show "set (runs (fst (sel req cb))) \<subseteq> INSTALL_ALIGNED_BACKENDS"
    "set (announced (fst (sel req cb))) \<subseteq> INSTALL_ALIGNED_BACKENDS"
    "distinct (runs (fst (sel req cb)))"
    using subseq_subset subseq_keeps_distinct by blast+
  show "sel (Only Bare) cb = ([], Inl (NotAligned Bare))"
    by (simp add: sel_def runSelectedBackend_def INSTALL_ALIGNED_BACKENDS_def)
qed

text \<open>With \<^verbatim>\<open>install: true\<close> an audit never runs on a backend whose paths are not the host's: whatever
  is requested and whatever the backends answer, only aligned backends are announced or run, no
  backend runs twice, and an explicit request for another one makes no call at all.\<close>

theorem aligned_only:
  fixes run :: "backend \<Rightarrow> thrown + 'r"
  defines "sel req cb \<equiv> runSelectedBackend req run (Some True) cb"
  shows "(set (runs (fst (sel req cb))) \<subseteq> INSTALL_ALIGNED_BACKENDS) \<and>
     (set (announced (fst (sel req cb))) \<subseteq> INSTALL_ALIGNED_BACKENDS) \<and>
     (distinct (runs (fst (sel req cb)))) \<and>
     (sel (Only Bare) cb = ([], Inl (NotAligned Bare)))"
  unfolding sel_def by (intro conjI aligned_only_facts)

lemma loop_returns:
  "snd (select_loop req cb run order names un) = Inr r \<longleftrightarrow>
     (\<exists>pre name post. names = pre @ name # post \<and>
        list_all (\<lambda>b. \<exists>m. snd (attempt cb run b) = Inl (Unavailable m)) pre \<and>
        (pre = [] \<or> req = Auto) \<and> snd (attempt cb run name) = Inr r)"
proof (induction req cb run order names un rule: select_loop.induct)
  case (2 req cb run order name names un)
  obtain cs x where a: "attempt cb run name = (cs, x)" by fastforce
  let ?P = "\<lambda>names. \<exists>pre name post. names = pre @ name # post \<and>
        list_all (\<lambda>b. \<exists>m. snd (attempt cb run b) = Inl (Unavailable m)) pre \<and>
        (pre = [] \<or> req = Auto) \<and> snd (attempt cb run name) = Inr r"
  have step: "?P (name # names) \<longleftrightarrow> x = Inr r \<or> (\<exists>m. x = Inl (Unavailable m) \<and> req = Auto \<and> ?P names)"
  proof
    assume "?P (name # names)"
    then obtain pre n post where p: "name # names = pre @ n # post"
      "list_all (\<lambda>b. \<exists>m. snd (attempt cb run b) = Inl (Unavailable m)) pre"
      "pre = [] \<or> req = Auto" "snd (attempt cb run n) = Inr r" by blast
    then show "x = Inr r \<or> (\<exists>m. x = Inl (Unavailable m) \<and> req = Auto \<and> ?P names)"
      using a by (cases pre) auto
  next
    assume "x = Inr r \<or> (\<exists>m. x = Inl (Unavailable m) \<and> req = Auto \<and> ?P names)"
    then show "?P (name # names)"
    proof
      assume "x = Inr r"
      with a show ?thesis by (intro exI [of _ "[]"] exI [of _ name] exI [of _ names]) simp
    next
      assume "\<exists>m. x = Inl (Unavailable m) \<and> req = Auto \<and> ?P names"
      then obtain m pre n post where "x = Inl (Unavailable m)" "req = Auto" "names = pre @ n # post"
        "list_all (\<lambda>b. \<exists>m. snd (attempt cb run b) = Inl (Unavailable m)) pre"
        "snd (attempt cb run n) = Inr r" by blast
      with a show ?thesis by (intro exI [of _ "name # pre"] exI [of _ n] exI [of _ post]) simp
    qed
  qed
  show ?case
  proof (cases "\<exists>m. x = Inl (Unavailable m) \<and> req = Auto")
    case True
    then obtain m where "x = Inl (Unavailable m)" "req = Auto" by blast
    with "2.IH" a show ?thesis unfolding step by (simp add: case_prod_unfold)
  next
    case False
    with a show ?thesis unfolding step by (cases x) (auto split: thrown.splits)
  qed
qed simp

text \<open>Selection falls through exactly on unavailability: the result of a backend is returned if and
  only if it is the first of the order that does not report itself unavailable, and only the
  \<^verbatim>\<open>auto\<close> request moves past an unavailable one; any other failure is rethrown, so an audit that
  failed is never retried on a weaker backend.\<close>

theorem selection_exact:
  fixes req requireAligned
  defines "order \<equiv> (if requireAligned = Some True
     then filter (\<lambda>b. b \<in> INSTALL_ALIGNED_BACKENDS) (base_order req) else base_order req)"
  shows "snd (runSelectedBackend req run requireAligned cb) = Inr r \<longleftrightarrow>
     (\<exists>pre name post. order = pre @ name # post \<and>
        list_all (\<lambda>b. \<exists>m. snd (attempt cb run b) = Inl (Unavailable m)) pre \<and>
        (pre = [] \<or> req = Auto) \<and> snd (attempt cb run name) = Inr r)"
proof (cases "\<exists>b. req = Only b \<and> requireAligned = Some True \<and> b \<notin> INSTALL_ALIGNED_BACKENDS")
  case True
  then show ?thesis by (auto simp: runSelectedBackend_def order_def base_order_def)
next
  case False
  then have "runSelectedBackend req run requireAligned cb = select_loop req cb run order order []"
    by (cases req) (auto simp: runSelectedBackend_def order_def Let_def)
  then show ?thesis by (simp only: loop_returns)
qed

end
