(* ===== verification/SharingGroups.thy ===== *)
theory SharingGroups
  imports Prelude
begin

text \<open>
  The groups of processes that share a working directory or a descriptor table
  (\<^verbatim>\<open>cwdParent\<close>, \<^verbatim>\<open>fdParent\<close> of \<^verbatim>\<open>src/guest/phase-install.ts\<close>): a union-find over process ids, as a
  \<^verbatim>\<open>Map\<close> from a process to its parent in the group. The loop that finds the root is a
  \<^verbatim>\<open>while (true)\<close> without a bound; \<open>find_loop\<close> is that loop, \<open>find_root\<close> the same walk with the number
  of edges as fuel. On a forest the loop returns and the two agree; every operation keeps a
  forest a forest.
\<close>

type_synonym parents = "(int, int) js_map"

section \<open>The walk to the root\<close>

partial_function (option) find_loop :: "parents \<Rightarrow> int \<Rightarrow> int option" where
  "find_loop par cur =
     (case map_of par cur of
        None \<Rightarrow> Some cur
      | Some nx \<Rightarrow> if nx = cur then Some cur else find_loop par nx)"

fun find_hop :: "nat \<Rightarrow> parents \<Rightarrow> int \<Rightarrow> int" where
  "find_hop 0 par cur = cur"
| "find_hop (Suc n) par cur =
     (case map_of par cur of
        None \<Rightarrow> cur
      | Some nx \<Rightarrow> if nx = cur then cur else find_hop n par nx)"

definition find_root :: "parents \<Rightarrow> int \<Rightarrow> int" where
  "find_root par pid = find_hop (length par) par pid"

text \<open>\<^verbatim>\<open>compressCwd\<close> and \<^verbatim>\<open>compressFd\<close>, and \<^verbatim>\<open>rootedCwd\<close> and \<^verbatim>\<open>rootedFd\<close>, which find and compress.\<close>

definition compress :: "int \<Rightarrow> int \<Rightarrow> parents \<Rightarrow> parents" where
  "compress pid root par = (if pid \<noteq> root then map_set pid root par else par)"

definition rooted :: "int \<Rightarrow> parents \<Rightarrow> int \<times> parents" where
  "rooted pid par = (let r = find_root par pid in (r, compress pid r par))"

text \<open>The members of the group of \<open>pid\<close> other than \<open>pid\<close> itself, in ascending order.\<close>

definition other_members :: "int \<Rightarrow> parents \<Rightarrow> int list" where
  "other_members pid par =
     sort (filter (\<lambda>m. m \<noteq> pid \<and> find_root par m = pid) (map fst par))"

text \<open>When the root leaves, the least other member becomes the root of the rest.\<close>

definition promote :: "int list \<Rightarrow> parents \<Rightarrow> parents" where
  "promote others par =
     (let newRoot = hd others
      in fold (\<lambda>m par. if m = newRoot then par else map_set m newRoot par) others
           (map_delete newRoot par))"

section \<open>Forests\<close>

definition up :: "parents \<Rightarrow> int \<Rightarrow> int option" where
  "up par p = (case map_of par p of None \<Rightarrow> None | Some q \<Rightarrow> if q = p then None else Some q)"

definition up_rel :: "parents \<Rightarrow> (int \<times> int) set" where
  "up_rel par = {(q, p). up par p = Some q}"

definition forest :: "parents \<Rightarrow> bool" where
  "forest par \<longleftrightarrow> wf (up_rel par)"

lemma up_None_iff: "up par p = None \<longleftrightarrow> map_of par p = None \<or> map_of par p = Some p"
  by (auto simp: up_def split: option.splits)

lemma up_Some_iff: "up par p = Some q \<longleftrightarrow> map_of par p = Some q \<and> q \<noteq> p"
  by (auto simp: up_def split: option.splits)

lemma forest_empty [simp]: "forest []"
  by (simp add: forest_def up_rel_def up_def)

lemma find_loop_up: "find_loop par p = (case up par p of None \<Rightarrow> Some p | Some q \<Rightarrow> find_loop par q)"
  by (subst find_loop.simps) (auto simp: up_def split: option.splits)

lemma find_hop_up: "find_hop (Suc n) par p = (case up par p of None \<Rightarrow> p | Some q \<Rightarrow> find_hop n par q)"
  by (auto simp: up_def split: option.splits)

lemma forest_induct [consumes 1, case_names root up]:
  assumes "forest par"
    and "\<And>p. up par p = None \<Longrightarrow> P p"
    and "\<And>p q. up par p = Some q \<Longrightarrow> P q \<Longrightarrow> P p"
  shows "P p"
  using assms(1) unfolding forest_def
proof (induction p rule: wf_induct_rule)
  case (less p)
  show ?case
  proof (cases "up par p")
    case (Some q)
    with less have "P q" by (simp add: up_rel_def)
    with Some show ?thesis by (rule assms(3))
  qed (rule assms(2))
qed

text \<open>The proper ancestors of a process are among the values of the map, so the fuel is enough.\<close>

definition above :: "parents \<Rightarrow> int \<Rightarrow> int set" where
  "above par p = {q. (q, p) \<in> (up_rel par)\<^sup>+}"

lemma above_values: "above par p \<subseteq> set (map snd par)"
proof -
  have "\<exists>x. map_of par x = Some q" if "(q, p) \<in> (up_rel par)\<^sup>+" for q
    using that by (induction rule: trancl_induct) (auto simp: up_rel_def up_Some_iff)
  then show ?thesis by (auto simp: above_def dest: map_of_SomeD) (metis map_of_SomeD snd_conv image_eqI)
qed

lemma finite_above [simp]: "finite (above par p)"
  by (rule finite_subset [OF above_values]) simp

lemma above_step:
  assumes "forest par" "up par p = Some q"
  shows "card (above par q) < card (above par p)"
proof (rule psubset_card_mono)
  have qp: "(q, p) \<in> up_rel par" using assms(2) by (simp add: up_rel_def)
  have "q \<notin> above par q"
    using assms(1) wf_acyclic unfolding forest_def above_def acyclic_def by blast
  moreover have "q \<in> above par p" using qp by (auto simp: above_def)
  moreover have "above par q \<subseteq> above par p" using qp by (auto simp: above_def)
  ultimately show "above par q \<subset> above par p" by blast
qed simp

lemma find_hop_enough:
  assumes "forest par"
  shows "card (above par p) \<le> n \<Longrightarrow> find_loop par p = Some (find_hop n par p)"
proof (induction n arbitrary: p)
  case 0
  then have "above par p = {}" by simp
  then have "\<forall>q. (q, p) \<notin> up_rel par" by (auto simp: above_def)
  then have "up par p = None" by (cases "up par p") (auto simp: up_rel_def)
  then show ?case by (subst find_loop_up) simp
next
  case (Suc n)
  show ?case
  proof (cases "up par p")
    case (Some q)
    with Suc assms above_step [of par p q] have "find_loop par q = Some (find_hop n par q)" by simp
    with Some show ?thesis by (subst find_loop_up, subst find_hop_up) simp
  qed (subst find_loop_up, subst find_hop_up, simp)
qed

lemma find_loop_root:
  assumes "forest par"
  shows "find_loop par p = Some (find_root par p)"
proof -
  have "card (above par p) \<le> card (set (map snd par))"
    by (rule card_mono [OF _ above_values]) simp
  also have "\<dots> \<le> length par" using card_length [of "map snd par"] by simp
  finally show ?thesis unfolding find_root_def by (rule find_hop_enough [OF assms])
qed

text \<open>The equation the proofs use, and that the root found is one.\<close>

lemma find_root_up:
  assumes "forest par"
  shows "find_root par p = (case up par p of None \<Rightarrow> p | Some q \<Rightarrow> find_root par q)"
  using find_loop_up [of par p] by (auto simp: find_loop_root [OF assms] split: option.splits)

lemma up_find_root [simp]:
  assumes "forest par"
  shows "up par (find_root par p) = None"
  using assms by (induction p rule: forest_induct) (simp_all add: find_root_up [OF assms])

lemma find_root_root: "forest par \<Longrightarrow> up par p = None \<Longrightarrow> find_root par p = p"
  by (simp add: find_root_up)

lemma find_root_idem [simp]: "forest par \<Longrightarrow> find_root par (find_root par p) = find_root par p"
  by (rule find_root_root) simp_all

lemma find_root_eq_self: "forest par \<Longrightarrow> find_root par p = p \<longleftrightarrow> up par p = None"
  by (metis find_root_root up_find_root)

lemma ancestor_root:
  assumes "forest par"
  shows "(q, p) \<in> (up_rel par)\<^sup>* \<Longrightarrow> find_root par p = find_root par q"
  by (induction rule: rtrancl_induct) (simp_all add: find_root_up [OF assms] up_rel_def)

lemma root_ancestor:
  assumes "forest par"
  shows "(find_root par p, p) \<in> (up_rel par)\<^sup>*"
  using assms
proof (induction p rule: forest_induct)
  case (up p q)
  then have "(q, p) \<in> up_rel par" "find_root par p = find_root par q"
    by (simp_all add: up_rel_def find_root_up [OF assms, of p])
  with up show ?case by (auto intro: rtrancl_into_rtrancl)
qed (simp add: find_root_up [OF assms])

section \<open>The operations keep the forest\<close>

lemma up_map_set: "up (map_set a b par) p = (if p = a then (if b = a then None else Some b) else up par p)"
  by (simp add: up_def jm.get_put)

lemma up_map_delete: "up (map_delete a par) p = (if p = a then None else up par p)"
  by (simp add: up_def jm.get_del)

subsection \<open>Compression\<close>

lemma forest_compress:
  assumes "forest par" "root = find_root par pid"
  shows "forest (compress pid root par)"
proof (cases "pid = root")
  case False
  have "(root, pid) \<in> (up_rel par)\<^sup>+"
    using root_ancestor [OF assms(1), of pid] False assms(2) by (auto simp: rtrancl_eq_or_trancl)
  then have "up_rel (compress pid root par) \<subseteq> (up_rel par)\<^sup>+"
    using False by (auto simp: up_rel_def compress_def up_map_set split: if_splits)
  then show ?thesis
    using assms(1) unfolding forest_def by (metis wf_subset wf_trancl)
qed (use assms in \<open>simp add: compress_def\<close>)

lemma find_root_compress [simp]:
  assumes "forest par"
  shows "find_root (compress pid (find_root par pid) par) p = find_root par p"
proof -
  let ?par = "compress pid (find_root par pid) par"
  have f: "forest ?par" by (rule forest_compress [OF assms refl])
  have r: "up ?par (find_root par pid) = None"
    using up_find_root [OF assms, of pid] by (auto simp: compress_def up_map_set)
  have step: "up ?par p = (if p = pid \<and> pid \<noteq> find_root par pid then Some (find_root par pid) else up par p)" for p
    by (auto simp: compress_def up_map_set)
  show ?thesis using assms
  proof (induction p rule: forest_induct)
    case (root p)
    then have "up ?par p = None" using assms step by (auto simp: find_root_root)
    with root show ?case by (simp add: find_root_root f assms)
  next
    case (up p q)
    show ?case
    proof (cases "p = pid \<and> pid \<noteq> find_root par pid")
      case True
      then have "find_root ?par p = find_root ?par (find_root par pid)"
        using step [of p] by (subst find_root_up [OF f]) simp
      also have "\<dots> = find_root par pid" using r by (simp add: find_root_root f)
      finally show ?thesis using True by simp
    next
      case False
      with up step [of p] show ?thesis by (simp add: find_root_up [OF f, of p] find_root_up [OF assms, of p])
    qed
  qed
qed

lemma rooted_simps [simp]:
  "fst (rooted pid par) = find_root par pid"
  "forest par \<Longrightarrow> forest (snd (rooted pid par))"
  "forest par \<Longrightarrow> find_root (snd (rooted pid par)) p = find_root par p"
  by (simp_all add: rooted_def Let_def forest_compress)

lemma rooted_cases: "rooted pid par = (find_root par pid, snd (rooted pid par))"
  by (simp add: rooted_def Let_def)

subsection \<open>Linking two roots\<close>

lemma forest_link:
  assumes "forest par" "up par cr = None" "up par pr = None" "cr \<noteq> pr"
  shows "forest (map_set cr pr par)"
proof -
  have eq: "up_rel (map_set cr pr par) = insert (pr, cr) (up_rel par)"
    using assms by (auto simp: up_rel_def up_map_set)
  have "(cr, pr) \<notin> (up_rel par)\<^sup>*"
  proof
    assume "(cr, pr) \<in> (up_rel par)\<^sup>*"
    then have "cr = pr"
      using assms(3) by (cases rule: rtranclE) (auto simp: up_rel_def)
    with assms(4) show False by simp
  qed
  with assms(1) show ?thesis by (simp add: forest_def eq wf_insert)
qed

lemma find_root_link:
  assumes "forest par" "up par cr = None" "up par pr = None" "cr \<noteq> pr"
  shows "find_root (map_set cr pr par) p = (if find_root par p = cr then pr else find_root par p)"
  using assms(1)
proof (induction p rule: forest_induct)
  case (root p)
  have f: "forest (map_set cr pr par)" by (rule forest_link [OF assms])
  have "find_root (map_set cr pr par) pr = pr"
    using assms f by (simp add: find_root_root up_map_set)
  with root f assms show ?case
    by (simp add: find_root_up [OF f, of p] find_root_up [OF assms(1), of p] up_map_set)
next
  case (up p q)
  then have "p \<noteq> cr" using assms(2) by auto
  with up show ?case
    by (simp add: find_root_up [OF forest_link [OF assms], of p] find_root_up [OF assms(1), of p] up_map_set)
qed

subsection \<open>Leaving a group\<close>

lemma forest_delete: "forest par \<Longrightarrow> forest (map_delete a par)"
  unfolding forest_def
  by (rule wf_subset [of "up_rel par"]) (auto simp: up_rel_def up_map_delete)

text \<open>Whoever is below the leaving process leaves with it.\<close>

lemma find_root_delete:
  assumes "forest par"
  shows "find_root (map_delete a par) p =
    (if (a, p) \<in> (up_rel par)\<^sup>* then a else find_root par p)"
proof -
  have f: "forest (map_delete a par)" by (rule forest_delete [OF assms])
  show ?thesis using assms
proof (induction p rule: forest_induct)
  case (root p)
  then have "(a, p) \<in> (up_rel par)\<^sup>* \<longleftrightarrow> a = p"
    by (auto elim: rtranclE simp: up_rel_def)
  with root show ?case
    using find_root_root [OF f, of p] find_root_root [OF assms, of p] by (simp add: up_map_delete)
next
  case (up p q)
  have "(a, p) \<in> (up_rel par)\<^sup>* \<longleftrightarrow> a = p \<or> (a, q) \<in> (up_rel par)\<^sup>*"
    using up(1) by (auto elim: rtranclE simp: up_rel_def intro: rtrancl_into_rtrancl)
  with up show ?case
    by (auto simp: find_root_up [OF f, of p] find_root_up [OF assms, of p] up_map_delete
        split: if_splits)
qed
qed

subsection \<open>A root that leaves\<close>

lemma set_other_members:
  assumes "forest par" "up par pid = None"
  shows "m \<in> set (other_members pid par) \<longleftrightarrow> m \<noteq> pid \<and> find_root par m = pid"
proof -
  have "m \<in> set (map fst par)" if "find_root par m = pid" "m \<noteq> pid"
  proof -
    have "up par m \<noteq> None" using that find_root_root [OF assms(1), of m] by auto
    then have "map_of par m \<noteq> None" by (simp add: up_None_iff)
    then show ?thesis by (simp add: map_of_eq_None_iff)
  qed
  then show ?thesis by (auto simp: other_members_def)
qed

lemma up_promote_fold:
  "up (fold (\<lambda>m par. if m = r then par else map_set m r par) ms par) p =
     (if p \<in> set ms \<and> p \<noteq> r then Some r else up par p)"
  by (induction ms arbitrary: par) (auto simp: up_map_set)

lemma up_promote:
  "up (promote others par) p =
     (if p = hd others then None else if p \<in> set others then Some (hd others) else up par p)"
  by (simp add: promote_def Let_def up_promote_fold up_map_delete)

lemma forest_promote:
  assumes "forest par" "up par pid = None" "others = other_members pid par" "others \<noteq> []"
  shows "forest (promote others par)"
proof -
  let ?r = "{(q, p). up par p = Some q \<and> p \<notin> set others}" and ?s = "{(hd others, m) | m. m \<in> set others \<and> m \<noteq> hd others}"
  have mem: "m \<in> set others \<longleftrightarrow> m \<noteq> pid \<and> find_root par m = pid" for m
    unfolding assms(3) by (rule set_other_members [OF assms(1,2)])
  have "wf ?r" using assms(1) unfolding forest_def by (rule wf_subset) (auto simp: up_rel_def)
  moreover have "wf ?s" by (rule wf_subset [of "measure (\<lambda>m. if m = hd others then 0 else 1)"]) auto
  moreover have "Domain ?r \<inter> Range ?s = {}"
  proof -
    have "q \<notin> set others" if "up par p = Some q" "p \<notin> set others" for p q
      using that mem [of p] mem [of q] assms(2) find_root_up [OF assms(1), of p] by auto
    then show ?thesis by auto
  qed
  ultimately have "wf (?r \<union> ?s)" by (rule wf_Un)
  moreover have "up_rel (promote others par) \<subseteq> ?r \<union> ?s"
    using assms(4) by (auto simp: up_rel_def up_promote split: if_splits)
  ultimately show ?thesis unfolding forest_def by (rule wf_subset)
qed

lemma find_root_promote:
  assumes "forest par" "up par pid = None" "others = other_members pid par" "others \<noteq> []"
  shows "find_root (promote others par) p =
    (if p \<noteq> pid \<and> find_root par p = pid then hd others else find_root par p)"
proof -
  note f = forest_promote [OF assms]
  have mem: "m \<in> set others \<longleftrightarrow> m \<noteq> pid \<and> find_root par m = pid" for m
    unfolding assms(3) by (rule set_other_members [OF assms(1,2)])
  have hd: "find_root (promote others par) (hd others) = hd others"
    by (rule find_root_root [OF f]) (simp add: up_promote)
  have in_group: "find_root (promote others par) m = hd others" if "m \<in> set others" for m
  proof (cases "m = hd others")
    case False
    then show ?thesis using that by (subst find_root_up [OF f]) (simp add: up_promote hd)
  qed (use hd in simp)
  show ?thesis using assms(1)
  proof (induction p rule: forest_induct)
    case (root p)
    with mem [of p] in_group [of p] show ?case
      using find_root_root [OF f, of p] by (auto simp: find_root_root [OF assms(1)] up_promote)
  next
    case (up p q)
    then have "p \<noteq> pid" using assms(2) by auto
    show ?case
    proof (cases "p \<in> set others")
      case True
      with in_group mem show ?thesis by simp
    next
      case False
      then have "find_root (promote others par) p = find_root (promote others par) q"
        using up(1) assms(4) by (subst find_root_up [OF f]) (auto simp: up_promote)
      moreover have "find_root par p = find_root par q" using up(1) by (simp add: find_root_up [OF assms(1), of p])
      moreover have "find_root par q \<noteq> pid" using False mem [of p] \<open>p \<noteq> pid\<close> calculation(2) by simp
      ultimately show ?thesis using up(2) by simp
    qed
  qed
qed

lemma hd_other_members:
  assumes "forest par" "up par pid = None" "other_members pid par \<noteq> []"
  shows "hd (other_members pid par) \<noteq> pid" "find_root par (hd (other_members pid par)) = pid"
  using set_other_members [OF assms(1,2), of "hd (other_members pid par)"] assms(3) by simp_all


section \<open>Flat groups\<close>

text \<open>Every member hangs directly under its root.\<close>

definition flat_groups :: "parents \<Rightarrow> bool" where
  "flat_groups par \<longleftrightarrow> (\<forall>p q. up par p = Some q \<longrightarrow> up par q = None)"

lemma flat_forest: "flat_groups par \<Longrightarrow> forest par"
  unfolding forest_def
  by (rule wf_subset [of "measure (\<lambda>p. if up par p = None then 0 else 1)"])
    (auto simp: up_rel_def flat_groups_def)

lemma flat_up:
  assumes "flat_groups par"
  shows "up par p = (if find_root par p = p then None else Some (find_root par p))"
proof -
  have f: "forest par" by (rule flat_forest [OF assms])
  show ?thesis
  proof (cases "up par p")
    case None
    then show ?thesis by (simp add: find_root_root [OF f])
  next
    case (Some q)
    then have "find_root par p = q"
      using assms by (simp add: find_root_up [OF f, of p] find_root_root [OF f] flat_groups_def)
    moreover have "p \<noteq> q" using Some by (auto simp: up_Some_iff)
    ultimately show ?thesis using Some by simp
  qed
qed

lemma up_rooted_flat: "flat_groups par \<Longrightarrow> up (snd (rooted pid par)) = up par"
  using flat_up [of par pid] by (auto simp: rooted_def Let_def compress_def up_map_set fun_eq_iff)

lemma flat_rooted [simp]: "flat_groups par \<Longrightarrow> flat_groups (snd (rooted pid par))"
  using up_rooted_flat [of par pid] by (simp add: flat_groups_def)

lemma flat_below_iff:
  assumes "flat_groups par"
  shows "(a, q) \<in> (up_rel par)\<^sup>* \<longleftrightarrow> a = q \<or> a = find_root par q"
proof
  show "a = q \<or> a = find_root par q" if "(a, q) \<in> (up_rel par)\<^sup>*"
    using that
  proof (cases rule: rtranclE)
    case (step b)
    then have b: "up par q = Some b" by (simp add: up_rel_def)
    with assms have "up par b = None" by (auto simp: flat_groups_def)
    with step(1) have "a = b" by (auto elim: rtranclE simp: up_rel_def)
    with b flat_up [OF assms, of q] show ?thesis by (auto split: if_splits)
  qed simp
  show "(a, q) \<in> (up_rel par)\<^sup>*" if "a = q \<or> a = find_root par q"
    using that root_ancestor [OF flat_forest [OF assms], of q] by auto
qed

lemma flat_delete: "flat_groups par \<Longrightarrow> flat_groups (map_delete a par)"
  by (auto simp: flat_groups_def up_map_delete)

lemma flat_promote:
  assumes "flat_groups par" "up par pid = None"
  shows "flat_groups (promote (other_members pid par) par)"
  unfolding flat_groups_def
proof (intro allI impI)
  have f: "forest par" by (rule flat_forest [OF assms(1)])
  fix x y assume xy: "up (promote (other_members pid par) par) x = Some y"
  have "y \<notin> set (other_members pid par)" if "up par y = None"
    using that set_other_members [OF f assms(2), of y] find_root_root [OF f that] by auto
  with xy assms(1) show "up (promote (other_members pid par) par) y = None"
    by (auto simp: up_promote flat_groups_def split: if_splits)
qed

lemma flat_link:
  assumes "flat_groups par" "up par pr = None" "\<And>x. find_root par x = cr \<longleftrightarrow> x = cr" "cr \<noteq> pr"
  shows "flat_groups (map_set cr pr par)"
  using assms flat_up [OF assms(1)] by (auto simp: flat_groups_def up_map_set split: if_splits)

section \<open>State kept per group\<close>

text \<open>
  The interface between the union-find and the two kinds of state the phase keeps per group (the
  working directory and the descriptor table): the state \<open>look s r\<close> is stored under the root \<open>r\<close>, and
  a process sees the state of its root. Compression changes no view, so the reads that compress
  can be ignored.
\<close>

locale group_keyed =
  fixes par :: "'s \<Rightarrow> parents" and set_par :: "parents \<Rightarrow> 's \<Rightarrow> 's" and look :: "'s \<Rightarrow> int \<Rightarrow> 'v"
  assumes par_set: "par (set_par p s) = p" and look_set: "look (set_par p s) = look s"
begin

lemma rooted_view:
  assumes "forest (par s)"
  shows "look (set_par (snd (rooted pid (par s))) s) (find_root (par (set_par (snd (rooted pid (par s))) s)) q)
       = look s (find_root (par s) q)"
  using assms by (simp add: par_set look_set)

lemma rooted_forest: "forest (par s) \<Longrightarrow> forest (par (set_par (snd (rooted pid (par s))) s))"
  by (simp add: par_set)

lemma linked_view:
  assumes "forest (par s)" "up (par s) cr = None" "up (par s) pr = None" "cr \<noteq> pr"
  shows "look s (find_root (map_set cr pr (par s)) q)
       = (if find_root (par s) q = cr then look s pr else look s (find_root (par s) q))"
  by (simp add: find_root_link [OF assms])

text \<open>Leaving a group, with a copy of its state under the own name, changes nobody's view.\<close>

lemma left_view:
  assumes "forest (par s)" "up (par s) pid \<noteq> None"
    and "par s' = map_delete pid (par s)"
    and "look s' pid = look s (find_root (par s) pid)"
    and "\<And>r. r \<noteq> pid \<Longrightarrow> look s' r = look s r"
  shows "look s' (find_root (par s') q) = look s (find_root (par s) q)"
proof (cases "(pid, q) \<in> (up_rel (par s))\<^sup>*")
  case True
  then show ?thesis
    using assms(1,3,4) by (simp add: find_root_delete ancestor_root [OF assms(1) True])
next
  case False
  have "find_root (par s) q \<noteq> pid" using assms(1,2) up_find_root [OF assms(1), of q] by auto
  with False show ?thesis using assms(1,3,5) by (simp add: find_root_delete)
qed

lemma promoted_view:
  assumes "forest (par s)" "up (par s) pid = None" "others = other_members pid (par s)" "others \<noteq> []"
    and "par s' = promote others (par s)"
    and "look s' pid = look s pid" "look s' (hd others) = look s pid"
    and "\<And>r. r \<noteq> pid \<Longrightarrow> r \<noteq> hd others \<Longrightarrow> look s' r = look s r"
  shows "look s' (find_root (par s') q) = look s (find_root (par s) q)"
proof -
  have "find_root (par s) q \<noteq> hd others"
    using hd_other_members [OF assms(1,2)] assms(3,4) find_root_idem [OF assms(1), of q] by metis
  then show ?thesis
    using assms(5-8) find_root_root [OF assms(1,2)] unfolding assms(5) find_root_promote [OF assms(1-4)] by auto
qed

end


section \<open>Well-formed states\<close>

text \<open>
  A state kept per group is well formed when the pointers are a forest and nothing is stored under a
  pid that is not a root (\<open>bare\<close> is the empty state). The four ways to change such a state: write to
  the caller's root, leave as a member, leave as the root, and take in a process that is alone.
\<close>

locale group_state = group_keyed par set_par look
  for par :: "'s \<Rightarrow> parents" and set_par :: "parents \<Rightarrow> 's \<Rightarrow> 's" and look :: "'s \<Rightarrow> int \<Rightarrow> 'v" +
  fixes bare :: 'v
begin

definition sees :: "'s \<Rightarrow> int \<Rightarrow> 'v" where
  "sees s q = look s (find_root (par s) q)"

definition together :: "'s \<Rightarrow> int \<Rightarrow> int \<Rightarrow> bool" where
  "together s p q \<longleftrightarrow> find_root (par s) p = find_root (par s) q"

definition ok :: "'s \<Rightarrow> bool" where
  "ok s \<longleftrightarrow> forest (par s) \<and> (\<forall>r. up (par s) r \<noteq> None \<longrightarrow> look s r = bare)"

definition sole :: "'s \<Rightarrow> int \<Rightarrow> bool" where
  "sole s c \<longleftrightarrow> (\<forall>q. find_root (par s) q = c \<longleftrightarrow> q = c) \<and> look s c = bare"

lemma ok_forest: "ok s \<Longrightarrow> forest (par s)"
  by (simp add: ok_def)

lemma ok_bare: "ok s \<Longrightarrow> find_root (par s) r \<noteq> r \<Longrightarrow> look s r = bare"
  using find_root_eq_self [of "par s" r] by (auto simp: ok_def)

lemma up_rooted_None: "forest p \<Longrightarrow> up (snd (rooted pid p)) r = None \<longleftrightarrow> up p r = None"
  using find_root_eq_self [of p r] find_root_eq_self [of "snd (rooted pid p)" r] by simp

lemma soleD:
  assumes "sole s c"
  shows "find_root (par s) q = c \<longleftrightarrow> q = c" "together s c q \<longleftrightarrow> q = c" "together s q c \<longleftrightarrow> q = c"
    "sees s c = bare"
proof -
  show r: "find_root (par s) q = c \<longleftrightarrow> q = c" for q using assms unfolding sole_def by blast
  then have c: "find_root (par s) c = c" by blast
  show "together s c q \<longleftrightarrow> q = c" "together s q c \<longleftrightarrow> q = c" unfolding together_def c using r [of q] by auto
  show "sees s c = bare" using assms unfolding sole_def sees_def c by blast
qed

lemma sole_if:
  assumes "sole s c" "ok s'" "sees s' c = sees s c" "\<And>q. together s' q c \<longleftrightarrow> together s q c"
  shows "sole s' c"
proof -
  have "together s' (find_root (par s') c) c" using ok_forest [OF assms(2)] by (simp add: together_def)
  then have r: "find_root (par s') c = c" using assms(4) soleD(3) [OF assms(1)] by blast
  have "find_root (par s') q = c \<longleftrightarrow> q = c" for q
    using assms(4) [of q] soleD(3) [OF assms(1), of q] r by (simp add: together_def)
  moreover have "look s' c = bare" using assms(3) r soleD(4) [OF assms(1)] by (simp add: sees_def)
  ultimately show ?thesis by (simp add: sole_def)
qed

lemma write_root:
  assumes "ok s" and p: "par s' = par s \<or> par s' = snd (rooted pid (par s))"
    and look: "\<And>r. look s' r = (if r = find_root (par s) pid then v else look s r)"
  shows "ok s'" "together s' = together s" "sees s' q = (if together s pid q then v else sees s q)"
    "flat_groups (par s) \<Longrightarrow> flat_groups (par s')"
proof -
  have f: "forest (par s)" by (rule ok_forest [OF assms(1)])
  have root: "find_root (par s') = find_root (par s)" using p f by (auto simp: fun_eq_iff)
  have f': "forest (par s')" using p f by auto
  have ups: "up (par s') r = None \<longleftrightarrow> up (par s) r = None" for r
    using p up_rooted_None [OF f] by auto
  have "up (par s) (find_root (par s) pid) = None" using f by simp
  then show "ok s'" using f' assms(1) by (auto simp: ok_def ups look)
  show "together s' = together s" by (simp add: together_def root fun_eq_iff)
  show "sees s' q = (if together s pid q then v else sees s q)"
    by (auto simp: sees_def together_def root look)
  show "flat_groups (par s) \<Longrightarrow> flat_groups (par s')" using p by auto
qed

text \<open>Leaving. The flat case says who is with whom afterwards.\<close>

lemma leave_member:
  assumes "ok s" and p: "par s' = map_delete pid (snd (rooted pid (par s)))"
    and root: "find_root (par s) pid \<noteq> pid"
    and look: "\<And>r. look s' r = (if r = pid then look s (find_root (par s) pid) else look s r)"
  shows "ok s'" "sees s' q = sees s q" "find_root (par s') pid = pid"
    "flat_groups (par s) \<Longrightarrow> flat_groups (par s') \<and>
       (together s' x y \<longleftrightarrow> x = y \<or> x \<noteq> pid \<and> y \<noteq> pid \<and> together s x y)"
proof -
  let ?s1 = "set_par (snd (rooted pid (par s))) s"
  have f: "forest (par s)" by (rule ok_forest [OF assms(1)])
  have f1: "forest (par ?s1)" using f by (simp add: par_set)
  have up1: "up (par ?s1) pid \<noteq> None"
    using root find_root_eq_self [OF f, of pid] by (simp add: par_set up_rooted_None [OF f])
  show "sees s' q = sees s q"
    unfolding sees_def using left_view [OF f1 up1, of s' q] f by (simp add: par_set look_set p look)
  show self: "find_root (par s') pid = pid" using f1 by (simp add: p par_set find_root_delete)
  show "ok s'"
    unfolding ok_def
  proof (intro conjI allI impI)
    show "forest (par s')" using f1 by (simp add: p par_set forest_delete)
    fix r assume "up (par s') r \<noteq> None"
    then have "r \<noteq> pid" "up (snd (rooted pid (par s))) r \<noteq> None"
      by (auto simp: p up_map_delete split: if_splits)
    then have "r \<noteq> pid" "up (par s) r \<noteq> None" using up_rooted_None [OF f, of pid r] by simp_all
    with assms(1) show "look s' r = bare" by (simp add: look ok_def)
  qed
  show "flat_groups (par s') \<and> (together s' x y \<longleftrightarrow> x = y \<or> x \<noteq> pid \<and> y \<noteq> pid \<and> together s x y)"
    if flat: "flat_groups (par s)"
  proof -
    have rel: "up_rel (snd (rooted pid (par s))) = up_rel (par s)" by (simp add: up_rel_def up_rooted_flat [OF flat])
    have ne: "find_root (par s) z \<noteq> pid" for z using root f by (metis find_root_idem)
    have r: "find_root (par s') z = (if z = pid then pid else find_root (par s) z)" for z
      using f f1 ne flat_below_iff [OF flat, of pid z] by (auto simp: p par_set find_root_delete rel)
    have "flat_groups (par s')" using flat by (simp add: p flat_delete)
    then show ?thesis using ne by (auto simp: together_def r)
  qed
qed

lemma leave_root:
  assumes "ok s" and root: "up (par s) pid = None" and others: "others = other_members pid (par s)" "others \<noteq> []"
    and p: "par s' = promote others (par s)"
    and look: "\<And>r. look s' r = (if r = hd others then look s pid else look s r)"
  shows "ok s'" "sees s' q = sees s q" "find_root (par s') pid = pid"
    "flat_groups (par s) \<Longrightarrow> flat_groups (par s') \<and>
       (together s' x y \<longleftrightarrow> x = y \<or> x \<noteq> pid \<and> y \<noteq> pid \<and> together s x y)"
proof -
  have f: "forest (par s)" by (rule ok_forest [OF assms(1)])
  have hd: "hd others \<noteq> pid" "find_root (par s) (hd others) = pid"
    using hd_other_members [OF f root] others by simp_all
  note r = find_root_promote [OF f root others]
  have self: "find_root (par s) pid = pid" by (rule find_root_root [OF f root])
  show "sees s' q = sees s q"
    unfolding sees_def using hd by (intro promoted_view [OF f root others p]) (simp_all add: look)
  show "find_root (par s') pid = pid" by (simp add: p r self)
  show "ok s'"
    unfolding ok_def
  proof (intro conjI allI impI)
    show "forest (par s')" using forest_promote [OF f root others] by (simp add: p)
    fix z assume z: "up (par s') z \<noteq> None"
    then have "z \<noteq> hd others" by (auto simp: p up_promote)
    moreover have "up (par s) z \<noteq> None"
    proof
      assume n: "up (par s) z = None"
      with z have "z \<in> set others" by (auto simp: p up_promote split: if_splits)
      then show False using set_other_members [OF f root, of z] find_root_root [OF f n] others by simp
    qed
    ultimately show "look s' z = bare" using assms(1) by (simp add: look ok_def)
  qed
  show "flat_groups (par s') \<and> (together s' x y \<longleftrightarrow> x = y \<or> x \<noteq> pid \<and> y \<noteq> pid \<and> together s x y)"
    if flat: "flat_groups (par s)"
  proof -
    have nhd: "find_root (par s) z \<noteq> hd others" for z
      using hd f by (metis find_root_idem)
    have "flat_groups (par s')" using flat_promote [OF flat root] others by (simp add: p)
    then show ?thesis using nhd [of x] nhd [of y] nhd [of pid] self by (auto simp: together_def p r)
  qed
qed

text \<open>A process that is alone with nothing joins the group of another.\<close>

lemma join_sole:
  assumes "ok s" and c: "sole s c" "pid \<noteq> c"
    and p: "par s' = map_set c (find_root (par s) pid) (snd (rooted c (snd (rooted pid (par s)))))"
    and look: "look s' = look s"
  shows "ok s'" "sees s' q = sees s (if q = c then pid else q)"
    "together s' x y \<longleftrightarrow> together s (if x = c then pid else x) (if y = c then pid else y)"
    "flat_groups (par s) \<Longrightarrow> flat_groups (par s')"
proof -
  have f: "forest (par s)" by (rule ok_forest [OF assms(1)])
  let ?par = "snd (rooted c (snd (rooted pid (par s))))" and ?pr = "find_root (par s) pid"
  have f1: "forest ?par" and r1: "find_root ?par = find_root (par s)" using f by (simp_all add: fun_eq_iff)
  have ne: "?pr \<noteq> c" using soleD(1) [OF c(1), of pid] c(2) by simp
  have ups: "up ?par c = None" "up ?par ?pr = None"
    using find_root_eq_self [OF f1, of c] find_root_eq_self [OF f1, of ?pr] soleD(1) [OF c(1), of c] f by (simp_all add: r1)
  have r: "find_root (par s') q = (if q = c then ?pr else find_root (par s) q)" for q
    using find_root_link [OF f1 ups ne [symmetric]] soleD(1) [OF c(1), of q] by (simp add: p r1)
  show "sees s' q = sees s (if q = c then pid else q)" by (simp add: sees_def r look)
  show "together s' x y \<longleftrightarrow> together s (if x = c then pid else x) (if y = c then pid else y)"
    unfolding together_def r by simp
  show "ok s'"
    unfolding ok_def look
  proof (intro conjI allI impI)
    show "forest (par s')" using forest_link [OF f1 ups ne [symmetric]] by (simp add: p)
    fix z assume z: "up (par s') z \<noteq> None"
    show "look s z = bare"
    proof (cases "z = c")
      case True
      then show ?thesis using c(1) by (simp add: sole_def)
    next
      case False
      with z have "up (par s) z \<noteq> None" using f by (simp add: p up_map_set up_rooted_None)
      with assms(1) show ?thesis by (simp add: ok_def)
    qed
  qed
  show "flat_groups (par s')" if flat: "flat_groups (par s)"
    unfolding p using flat ups ne [symmetric] soleD(1) [OF c(1)] by (intro flat_link) (simp_all add: r1)
qed

end

end
