(* ===== verification/FdTable.thy ===== *)
theory FdTable
  imports SharingGroups
begin

text \<open>
  The descriptor tables of the traced processes, as \<^verbatim>\<open>runInstallPhase\<close> tracks them
  (\<^verbatim>\<open>src/guest/phase-install.ts\<close>): one table per group of processes that share it, the groups whose
  table is not trusted any more, and the bookkeeping for system calls that are observed before
  the \<^verbatim>\<open>clone\<close> that created their process. The key \<^verbatim>\<open>`${root}:${fd}`\<close> of \<^verbatim>\<open>dirfdTable\<close> is the pair of
  both numbers. Every access goes through \<open>rootedFd\<close>, which compresses the path in the union-find,
  so even the reads return a new state.
\<close>

section \<open>State\<close>

record fd_entry =
  fe_path :: string
  fe_cloexec :: bool

datatype fd_detach_action =
    ActNone
  | ActCloseRange int int bool
  | ActExecveCloexec "int set"

datatype fd_tombstone =
    TombClose int
  | TombCloexec int
  | TombCloseRange int int bool

datatype fd_log_entry = LogAction fd_detach_action | LogTombstone fd_tombstone

record fd_snapshot =
  fs_entries :: "(int \<times> fd_entry) list"
  fs_unknown :: bool
  fs_postDetachLog :: "fd_log_entry list"
  fs_preDetachTombstones :: "fd_tombstone list"
  fs_preDetachOpaque :: "int set"

datatype fd_life = FdOpen | FdClosed

type_synonym fd_table = "(int \<times> int, fd_entry) js_map"

record fd_state =
  fdParent :: parents
  dirfdTable :: fd_table
  dirfdStateUnknown :: "int set"
  pendingFdDetach :: "(int, fd_snapshot) js_map"
  pendingFdTombstones :: "(int, fd_tombstone list) js_map"
  postMarkerFdReuses :: "(int, (int, fd_life) js_map) js_map"
  opaqueFdReuses :: "(int, int set) js_map"

definition fd_init :: fd_state where
  "fd_init =
     \<lparr>fdParent = [], dirfdTable = [], dirfdStateUnknown = {}, pendingFdDetach = [],
      pendingFdTombstones = [], postMarkerFdReuses = [], opaqueFdReuses = []\<rparr>"

section \<open>Roots\<close>

definition rootedFd :: "int \<Rightarrow> fd_state \<Rightarrow> int \<times> fd_state" where
  "rootedFd pid s = (let (r, par) = rooted pid (fdParent s) in (r, s\<lparr>fdParent := par\<rparr>))"

definition fdUnknownHas :: "int \<Rightarrow> fd_state \<Rightarrow> bool \<times> fd_state" where
  "fdUnknownHas pid s = (let (r, s) = rootedFd pid s in (r \<in> dirfdStateUnknown s, s))"

definition fdUnknownAdd :: "int \<Rightarrow> fd_state \<Rightarrow> fd_state" where
  "fdUnknownAdd pid s =
     (let (r, s) = rootedFd pid s in s\<lparr>dirfdStateUnknown := insert r (dirfdStateUnknown s)\<rparr>)"

definition isFdSingleton :: "int \<Rightarrow> fd_state \<Rightarrow> bool \<times> fd_state" where
  "isFdSingleton pid s =
     (let (root, s) = rootedFd pid s
      in if root \<noteq> pid then (False, s) else (other_members pid (fdParent s) = [], s))"

text \<open>The entries of one group, in the order of the table.\<close>

definition group_fds :: "int \<Rightarrow> fd_table \<Rightarrow> (int \<times> fd_entry) list" where
  "group_fds root tbl = map (\<lambda>((_, fd), e). (fd, e)) (filter (\<lambda>((r, _), _). r = root) tbl)"

definition drop_group :: "int \<Rightarrow> fd_table \<Rightarrow> fd_table" where
  "drop_group root tbl = filter (\<lambda>((r, _), _). r \<noteq> root) tbl"

definition put_group :: "int \<Rightarrow> (int \<times> fd_entry) list \<Rightarrow> fd_table \<Rightarrow> fd_table" where
  "put_group root es tbl = fold (\<lambda>(fd, e). map_set (root, fd) e) es tbl"

definition move_group :: "int \<Rightarrow> int \<Rightarrow> (int \<times> fd_entry) list \<Rightarrow> fd_table \<Rightarrow> fd_table" where
  "move_group pid newRoot es tbl =
     fold (\<lambda>(fd, e) t. map_delete (pid, fd) (map_set (newRoot, fd) e t)) es tbl"

section \<open>Bookkeeping after a detach marker\<close>

text \<open>\<^verbatim>\<open>entry.action.excludeFds.add(fdSuffix)\<close> on every \<^verbatim>\<open>execveCloexec\<close> action of the log.\<close>

fun exclude_fd :: "int \<Rightarrow> fd_log_entry \<Rightarrow> fd_log_entry" where
  "exclude_fd fd (LogAction (ActExecveCloexec xs)) = LogAction (ActExecveCloexec (insert fd xs))"
| "exclude_fd fd e = e"

definition recordPostMarkerFdReuse :: "int \<Rightarrow> int \<Rightarrow> fd_state \<Rightarrow> fd_state" where
  "recordPostMarkerFdReuse pid fd s =
     (let (root, s) = rootedFd pid s
      in case map_of (pendingFdDetach s) root of
           None \<Rightarrow> s
         | Some snap \<Rightarrow>
             let life = (case map_of (postMarkerFdReuses s) root of None \<Rightarrow> [] | Some l \<Rightarrow> l)
             in s\<lparr>postMarkerFdReuses := map_set root (map_set fd FdOpen life) (postMarkerFdReuses s),
                  pendingFdDetach :=
                    map_set root (snap\<lparr>fs_postDetachLog := map (exclude_fd fd) (fs_postDetachLog snap)\<rparr>)
                      (pendingFdDetach s)\<rparr>)"

definition recordPostMarkerFdClose :: "int \<Rightarrow> int \<Rightarrow> fd_state \<Rightarrow> fd_state" where
  "recordPostMarkerFdClose pid fd s =
     (let (root, s) = rootedFd pid s
      in case map_of (pendingFdDetach s) root of
           None \<Rightarrow> s
         | Some _ \<Rightarrow>
             (case map_of (postMarkerFdReuses s) root of
                None \<Rightarrow> s
              | Some life \<Rightarrow>
                  if map_of life fd = Some FdOpen
                  then s\<lparr>postMarkerFdReuses := map_set root (map_set fd FdClosed life) (postMarkerFdReuses s)\<rparr>
                  else s))"

definition close_open_in :: "int \<Rightarrow> int \<Rightarrow> (int, fd_life) js_map \<Rightarrow> (int, fd_life) js_map" where
  "close_open_in lo hi life =
     map (\<lambda>(fd, st). (fd, if lo \<le> fd \<and> fd \<le> hi \<and> st = FdOpen then FdClosed else st)) life"

definition recordPostMarkerFdRangeClose :: "int \<Rightarrow> int \<Rightarrow> int \<Rightarrow> fd_state \<Rightarrow> fd_state" where
  "recordPostMarkerFdRangeClose pid lo hi s =
     (let (root, s) = rootedFd pid s
      in case map_of (pendingFdDetach s) root of
           None \<Rightarrow> s
         | Some _ \<Rightarrow>
             (case map_of (postMarkerFdReuses s) root of
                None \<Rightarrow> s
              | Some life \<Rightarrow>
                  s\<lparr>postMarkerFdReuses := map_set root (close_open_in lo hi life) (postMarkerFdReuses s)\<rparr>))"

section \<open>Opaque descriptors\<close>

text \<open>Numbers that were reused for a target that could not be resolved.\<close>

definition opaque_at :: "fd_state \<Rightarrow> int \<Rightarrow> int set" where
  "opaque_at s r = (case map_of (opaqueFdReuses s) r of None \<Rightarrow> {} | Some x \<Rightarrow> x)"

definition recordOpaqueFdReuse :: "int \<Rightarrow> int \<Rightarrow> fd_state \<Rightarrow> fd_state" where
  "recordOpaqueFdReuse pid fd s =
     (let (root, s) = rootedFd pid s
      in s\<lparr>opaqueFdReuses := map_set root (insert fd (opaque_at s root)) (opaqueFdReuses s)\<rparr>)"

definition put_opaque :: "int \<Rightarrow> int set \<Rightarrow> fd_state \<Rightarrow> fd_state" where
  "put_opaque root x s =
     s\<lparr>opaqueFdReuses := (if x = {} then map_delete root (opaqueFdReuses s)
                         else map_set root x (opaqueFdReuses s))\<rparr>"

definition clearOpaqueFdReuse :: "int \<Rightarrow> int \<Rightarrow> fd_state \<Rightarrow> fd_state" where
  "clearOpaqueFdReuse pid fd s =
     (let (root, s) = rootedFd pid s
      in case map_of (opaqueFdReuses s) root of
           None \<Rightarrow> s
         | Some x \<Rightarrow> put_opaque root (x - {fd}) s)"

definition clearOpaqueFdRange :: "int \<Rightarrow> int \<Rightarrow> int \<Rightarrow> fd_state \<Rightarrow> fd_state" where
  "clearOpaqueFdRange pid lo hi s =
     (let (root, s) = rootedFd pid s
      in case map_of (opaqueFdReuses s) root of
           None \<Rightarrow> s
         | Some x \<Rightarrow> put_opaque root (x - {lo..hi}) s)"

section \<open>Tombstones\<close>

text \<open>A close observed before the descriptor's table is known is remembered: in the log of the
  marker when there is one, else, for a process that shares its table with nobody, in a bucket.\<close>

definition push_log :: "fd_log_entry \<Rightarrow> fd_snapshot \<Rightarrow> fd_snapshot" where
  "push_log e snap = snap\<lparr>fs_postDetachLog := fs_postDetachLog snap @ [e]\<rparr>"

definition recordFdTombstone :: "int \<Rightarrow> fd_tombstone \<Rightarrow> fd_state \<Rightarrow> fd_state" where
  "recordFdTombstone pid tomb s =
     (let (root, s) = rootedFd pid s
      in case map_of (pendingFdDetach s) root of
           Some snap \<Rightarrow>
             s\<lparr>pendingFdDetach := map_set root (push_log (LogTombstone tomb) snap) (pendingFdDetach s)\<rparr>
         | None \<Rightarrow>
             (let (single, s) = isFdSingleton pid s
              in if \<not> single then s
                 else let bucket = (case map_of (pendingFdTombstones s) pid of None \<Rightarrow> [] | Some b \<Rightarrow> b)
                      in s\<lparr>pendingFdTombstones := map_set pid (bucket @ [tomb]) (pendingFdTombstones s)\<rparr>))"

definition absorbPendingTombstones :: "int \<Rightarrow> fd_snapshot \<Rightarrow> fd_state \<Rightarrow> fd_snapshot \<times> fd_state" where
  "absorbPendingTombstones pid snap s =
     (case map_of (pendingFdTombstones s) pid of
        None \<Rightarrow> (snap, s)
      | Some bucket \<Rightarrow>
          (snap\<lparr>fs_preDetachTombstones := fs_preDetachTombstones snap @ bucket\<rparr>,
           s\<lparr>pendingFdTombstones := map_delete pid (pendingFdTombstones s)\<rparr>))"

text \<open>What is left of a range after the number \<open>newFd\<close> was opened again.\<close>

definition split_range :: "int \<Rightarrow> int \<Rightarrow> int \<Rightarrow> (int \<times> int) list" where
  "split_range newFd lo hi =
     (if newFd < lo \<or> newFd > hi then [(lo, hi)]
      else (if lo \<le> newFd - 1 then [(lo, newFd - 1)] else []) @
           (if newFd + 1 \<le> hi then [(newFd + 1, hi)] else []))"

fun cancel_tombstone :: "int \<Rightarrow> fd_tombstone \<Rightarrow> fd_tombstone list" where
  "cancel_tombstone newFd (TombClose fd) = (if fd = newFd then [] else [TombClose fd])"
| "cancel_tombstone newFd (TombCloexec fd) = (if fd = newFd then [] else [TombCloexec fd])"
| "cancel_tombstone newFd (TombCloseRange a b c) =
     map (\<lambda>(x, y). TombCloseRange x y c) (split_range newFd a b)"

definition cancelTombstonesInBucket :: "fd_tombstone list \<Rightarrow> int \<Rightarrow> fd_tombstone list" where
  "cancelTombstonesInBucket bucket newFd = concat (map (cancel_tombstone newFd) bucket)"

fun cancel_log :: "int \<Rightarrow> fd_log_entry \<Rightarrow> fd_log_entry list" where
  "cancel_log newFd (LogTombstone t) = map LogTombstone (cancelTombstonesInBucket [t] newFd)"
| "cancel_log newFd (LogAction (ActCloseRange a b c)) =
     map (\<lambda>(x, y). LogAction (ActCloseRange x y c)) (split_range newFd a b)"
| "cancel_log newFd e = [e]"

definition cancelPendingTombstonesForFd :: "int \<Rightarrow> int \<Rightarrow> fd_state \<Rightarrow> fd_state" where
  "cancelPendingTombstonesForFd pid newFd s =
     (let s = (case map_of (pendingFdTombstones s) pid of
                 None \<Rightarrow> s
               | Some bucket \<Rightarrow>
                   let nxt = cancelTombstonesInBucket bucket newFd
                   in s\<lparr>pendingFdTombstones :=
                          (if nxt = [] then map_delete pid (pendingFdTombstones s)
                           else map_set pid nxt (pendingFdTombstones s))\<rparr>);
          (root, s) = rootedFd pid s
      in case map_of (pendingFdDetach s) root of
           None \<Rightarrow> s
         | Some snap \<Rightarrow>
             s\<lparr>pendingFdDetach :=
                map_set root
                  (snap\<lparr>fs_postDetachLog := concat (map (cancel_log newFd) (fs_postDetachLog snap))\<rparr>)
                  (pendingFdDetach s)\<rparr>)"

section \<open>Snapshots\<close>

definition snapshotFd :: "int \<Rightarrow> fd_detach_action \<Rightarrow> fd_state \<Rightarrow> fd_snapshot \<times> fd_state" where
  "snapshotFd pid action s =
     (let (root, s) = rootedFd pid s;
          snap = \<lparr>fs_entries = group_fds root (dirfdTable s),
                  fs_unknown = (root \<in> dirfdStateUnknown s),
                  fs_postDetachLog = [LogAction action],
                  fs_preDetachTombstones = [],
                  fs_preDetachOpaque = opaque_at s root\<rparr>
      in absorbPendingTombstones pid snap s)"

text \<open>The snapshot is mutated in place in the code, so the state holds the new one as well.\<close>

definition appendFdAction :: "int \<Rightarrow> fd_detach_action \<Rightarrow> fd_state \<Rightarrow> fd_snapshot option \<times> fd_state" where
  "appendFdAction pid action s =
     (case map_of (pendingFdDetach s) pid of
        None \<Rightarrow> (None, s)
      | Some snap \<Rightarrow>
          (let (snap, s) = absorbPendingTombstones pid (push_log (LogAction action) snap) s
           in (Some snap, s\<lparr>pendingFdDetach := map_set pid snap (pendingFdDetach s)\<rparr>)))"

section \<open>Joining and leaving a group\<close>

definition merge_fd :: "int \<Rightarrow> (int \<times> fd_entry) list \<Rightarrow> int \<times> fd_entry \<Rightarrow> fd_table \<Rightarrow> fd_table" where
  "merge_fd pr parentFds child tbl =
     (case child of (fd, childVal) \<Rightarrow>
        (case map_of parentFds fd of
           None \<Rightarrow> map_set (pr, fd) childVal tbl
         | Some parentVal \<Rightarrow>
             if fe_path parentVal = fe_path childVal then
               (if fe_cloexec parentVal = fe_cloexec childVal then tbl
                else map_set (pr, fd)
                       \<lparr>fe_path = fe_path parentVal, fe_cloexec = fe_cloexec parentVal \<or> fe_cloexec childVal\<rparr> tbl)
             else map_delete (pr, fd) tbl))"

text \<open>The body of \<^verbatim>\<open>unionFd\<close> for two different roots.\<close>

definition union_roots :: "int \<Rightarrow> int \<Rightarrow> fd_state \<Rightarrow> fd_state" where
  "union_roots pr cr s =
     (let parentFds = group_fds pr (dirfdTable s);
          childFds = group_fds cr (dirfdTable s);
          childFdUnknown = (cr \<in> dirfdStateUnknown s);
          parentFdUnknown = (pr \<in> dirfdStateUnknown s);
          opq = (map_of (opaqueFdReuses s) cr \<noteq> None \<or> map_of (opaqueFdReuses s) pr \<noteq> None);
          merged = opaque_at s cr \<union> opaque_at s pr;
          tbl = fold (merge_fd pr parentFds) childFds (drop_group cr (dirfdTable s))
      in s\<lparr>fdParent := map_set cr pr (fdParent s),
           dirfdTable := (if opq then filter (\<lambda>(k, _). \<not> (fst k = pr \<and> snd k \<in> merged)) tbl else tbl),
           opaqueFdReuses :=
             (if opq then map_set pr merged (map_delete cr (opaqueFdReuses s)) else opaqueFdReuses s),
           dirfdStateUnknown :=
             (if childFdUnknown \<or> parentFdUnknown then insert pr (dirfdStateUnknown s - {cr})
              else dirfdStateUnknown s - {cr})\<rparr>)"

definition unionFd :: "int \<Rightarrow> int \<Rightarrow> fd_state \<Rightarrow> fd_state" where
  "unionFd parentPid childPid s =
     (let (pr, s) = rootedFd parentPid s;
          (cr, s) = rootedFd childPid s
      in if pr = cr then s else union_roots pr cr s)"

text \<open>The two ways to leave: a member takes a copy and goes; when the root goes, the rest gets a new
  root.\<close>

definition member_leaves :: "int \<Rightarrow> int \<Rightarrow> fd_state \<Rightarrow> fd_state" where
  "member_leaves pid sharedRoot s =
     s\<lparr>fdParent := map_delete pid (fdParent s),
       dirfdTable := put_group pid (group_fds sharedRoot (dirfdTable s)) (dirfdTable s),
       dirfdStateUnknown :=
         (if sharedRoot \<in> dirfdStateUnknown s then insert pid (dirfdStateUnknown s) else dirfdStateUnknown s),
       opaqueFdReuses :=
         (case map_of (opaqueFdReuses s) sharedRoot of
            None \<Rightarrow> opaqueFdReuses s | Some x \<Rightarrow> map_set pid x (opaqueFdReuses s))\<rparr>"

definition root_leaves :: "int \<Rightarrow> int list \<Rightarrow> fd_state \<Rightarrow> fd_state" where
  "root_leaves pid others s =
     (let snapshot = group_fds pid (dirfdTable s); newRoot = hd others
      in s\<lparr>fdParent := promote others (fdParent s),
           dirfdTable := put_group pid snapshot (move_group pid newRoot snapshot (dirfdTable s)),
           dirfdStateUnknown :=
             (if pid \<in> dirfdStateUnknown s then insert pid (insert newRoot (dirfdStateUnknown s - {pid}))
              else dirfdStateUnknown s),
           opaqueFdReuses :=
             (case map_of (opaqueFdReuses s) pid of
                None \<Rightarrow> opaqueFdReuses s
              | Some x \<Rightarrow> map_set pid x (map_set newRoot x (map_delete pid (opaqueFdReuses s))))\<rparr>)"

definition detachFdGroup :: "int \<Rightarrow> fd_state \<Rightarrow> fd_state" where
  "detachFdGroup pid s =
     (let (sharedRoot, s) = rootedFd pid s;
          others = other_members pid (fdParent s)
      in if sharedRoot \<noteq> pid then member_leaves pid sharedRoot s
         else if others = [] then s
         else root_leaves pid others s)"

section \<open>What a process sees\<close>

definition fd_view :: "fd_state \<Rightarrow> int \<Rightarrow> int \<Rightarrow> fd_entry option" where
  "fd_view s pid fd = map_of (dirfdTable s) (find_root (fdParent s) pid, fd)"

definition fd_doubt :: "fd_state \<Rightarrow> int \<Rightarrow> bool" where
  "fd_doubt s pid \<longleftrightarrow> find_root (fdParent s) pid \<in> dirfdStateUnknown s"

definition fd_opaque :: "fd_state \<Rightarrow> int \<Rightarrow> int set" where
  "fd_opaque s pid = opaque_at s (find_root (fdParent s) pid)"

text \<open>Everything that is stored under one root.\<close>

definition fd_look :: "fd_state \<Rightarrow> int \<Rightarrow> (int \<Rightarrow> fd_entry option) \<times> bool \<times> int set" where
  "fd_look s r = ((\<lambda>fd. map_of (dirfdTable s) (r, fd)), r \<in> dirfdStateUnknown s, opaque_at s r)"

interpretation fdg: group_keyed fdParent "\<lambda>p s. s\<lparr>fdParent := p\<rparr>" fd_look
  by unfold_locales (simp_all add: fd_look_def opaque_at_def fun_eq_iff)

lemma fd_look_view:
  "fd_look s (find_root (fdParent s) pid) = (fd_view s pid, fd_doubt s pid, fd_opaque s pid)"
  by (simp add: fd_look_def fd_view_def fd_doubt_def fd_opaque_def fun_eq_iff)

lemma fd_views_eq_iff:
  "fd_look s' (find_root (fdParent s') p) = fd_look s (find_root (fdParent s) p) \<longleftrightarrow>
   fd_view s' p = fd_view s p \<and> fd_doubt s' p = fd_doubt s p \<and> fd_opaque s' p = fd_opaque s p"
  by (simp add: fd_look_view)

text \<open>The invariant: the groups are a forest, the table has one entry per key, and state is stored
  under roots only.\<close>

definition fd_inv :: "fd_state \<Rightarrow> bool" where
  "fd_inv s \<longleftrightarrow> forest (fdParent s) \<and> map_wf (dirfdTable s) \<and>
     (\<forall>r. up (fdParent s) r \<noteq> None \<longrightarrow> fd_look s r = ((\<lambda>_. None), False, {}))"

lemma fd_inv_init [simp]: "fd_inv fd_init"
  by (simp add: fd_inv_def fd_init_def map_wf_def up_def)

section \<open>Lookups in the table\<close>

lemma map_of_group_fds: "map_of (group_fds root tbl) fd = map_of tbl (root, fd)"
  by (induction tbl) (auto simp: group_fds_def)

lemma group_fds_Cons:
  "group_fds root (((r, fd), e) # tbl) = (if r = root then (fd, e) # group_fds root tbl else group_fds root tbl)"
  by (simp add: group_fds_def)

lemma fst_group_fds: "fd \<in> fst ` set (group_fds root tbl) \<longleftrightarrow> (root, fd) \<in> fst ` set tbl"
  by (force simp: group_fds_def)

lemma distinct_group_fds: "map_wf tbl \<Longrightarrow> distinct (map fst (group_fds root tbl))"
proof (induction tbl)
  case (Cons x tbl)
  obtain r fd e where x: "x = ((r, fd), e)" by (metis prod.collapse)
  from Cons fst_group_fds [of fd root tbl] show ?case
    by (auto simp: x group_fds_Cons map_wf_def)
qed (simp add: group_fds_def)

lemma map_of_drop_group: "map_of (drop_group root tbl) (r, fd) = (if r = root then None else map_of tbl (r, fd))"
  by (induction tbl) (auto simp: drop_group_def)

lemma map_wf_filter: "map_wf m \<Longrightarrow> map_wf (filter P m)"
  by (induction m) (auto simp: map_wf_def)

lemma map_wf_drop_group: "map_wf tbl \<Longrightarrow> map_wf (drop_group root tbl)"
  unfolding drop_group_def by (rule map_wf_filter)

lemma map_of_put_group:
  assumes "distinct (map fst es)"
  shows "map_of (put_group root es tbl) (r, fd) =
     (case (if r = root then map_of es fd else None) of None \<Rightarrow> map_of tbl (r, fd) | Some e \<Rightarrow> Some e)"
  using assms
proof (induction es arbitrary: tbl)
  case (Cons x es)
  obtain a b where x: "x = (a, b)" by (cases x)
  with Cons.prems have "map_of es a = None" by (simp add: map_of_eq_None_iff)
  with Cons x show ?case by (auto simp: put_group_def jm.get_put split: option.splits)
qed (simp add: put_group_def)

lemma map_wf_put_group: "map_wf tbl \<Longrightarrow> map_wf (put_group root es tbl)"
  unfolding put_group_def by (induction es arbitrary: tbl) (auto simp: jm.wf_put)

lemma map_of_move_group:
  assumes "distinct (map fst es)" "newRoot \<noteq> pid"
  shows "map_of (move_group pid newRoot es tbl) (r, fd) =
     (case map_of es fd of
        None \<Rightarrow> map_of tbl (r, fd)
      | Some e \<Rightarrow> if r = newRoot then Some e else if r = pid then None else map_of tbl (r, fd))"
  using assms(1)
proof (induction es arbitrary: tbl)
  case (Cons x es)
  obtain a b where x: "x = (a, b)" by (cases x)
  with Cons.prems have "map_of es a = None" by (simp add: map_of_eq_None_iff)
  with Cons x assms(2) show ?case by (auto simp: move_group_def jm.get_put jm.get_del split: option.splits)
qed (simp add: move_group_def)

lemma map_wf_move_group: "map_wf tbl \<Longrightarrow> map_wf (move_group pid newRoot es tbl)"
  unfolding move_group_def by (induction es arbitrary: tbl) (auto simp: jm.wf_put jm.wf_del)

text \<open>What the merge of two tables holds for one number.\<close>

fun merged_entry :: "fd_entry option \<Rightarrow> fd_entry option \<Rightarrow> fd_entry option" where
  "merged_entry p None = p"
| "merged_entry None (Some c) = Some c"
| "merged_entry (Some p) (Some c) =
     (if fe_path p = fe_path c
      then Some \<lparr>fe_path = fe_path p, fe_cloexec = fe_cloexec p \<or> fe_cloexec c\<rparr> else None)"

lemma map_of_merge_fd:
  assumes "map_of parentFds fd = map_of tbl (pr, fd)"
  shows "map_of (merge_fd pr parentFds (fd, c) tbl) (r, fd') =
     (if r = pr \<and> fd' = fd then merged_entry (map_of tbl (pr, fd)) (Some c) else map_of tbl (r, fd'))"
  using assms by (auto simp: merge_fd_def jm.get_put jm.get_del split: option.splits)

lemma map_wf_merge_fd: "map_wf tbl \<Longrightarrow> map_wf (merge_fd pr parentFds x tbl)"
  by (auto simp: merge_fd_def jm.wf_put jm.wf_del split: option.splits prod.splits)

lemma map_of_merge_fds:
  assumes "distinct (map fst es)" "\<And>fd. fd \<in> fst ` set es \<Longrightarrow> map_of parentFds fd = map_of tbl (pr, fd)"
  shows "map_of (fold (merge_fd pr parentFds) es tbl) (r, fd) =
     (if r = pr then merged_entry (map_of tbl (pr, fd)) (map_of es fd) else map_of tbl (r, fd))"
  using assms
proof (induction es arbitrary: tbl)
  case (Cons x es)
  obtain a b where x: "x = (a, b)" by (cases x)
  have pa: "map_of parentFds a = map_of tbl (pr, a)" using Cons.prems(2) x by simp
  have a: "a \<notin> fst ` set es" using Cons.prems(1) x by simp
  have "map_of (fold (merge_fd pr parentFds) es (merge_fd pr parentFds (a, b) tbl)) (r, fd) =
     (if r = pr then merged_entry (map_of (merge_fd pr parentFds (a, b) tbl) (pr, fd)) (map_of es fd)
      else map_of (merge_fd pr parentFds (a, b) tbl) (r, fd))"
    using Cons.prems a by (intro Cons.IH) (auto simp: x map_of_merge_fd [OF pa])
  moreover have "map_of es a = None" using a by (simp add: map_of_eq_None_iff)
  ultimately show ?case using x by (auto simp: map_of_merge_fd [OF pa])
qed simp

lemma map_wf_merge_fds: "map_wf tbl \<Longrightarrow> map_wf (fold (merge_fd pr parentFds) es tbl)"
  by (induction es arbitrary: tbl) (auto simp: map_wf_merge_fd)

lemma map_of_filter_keys: "map_of (filter (\<lambda>(k, _). P k) m) k = (if P k then map_of m k else None)"
  by (induction m) auto


section \<open>Joining: the merge of two tables\<close>

lemma rootedFd_simps [simp]:
  "fst (rootedFd pid s) = find_root (fdParent s) pid"
  "snd (rootedFd pid s) = s\<lparr>fdParent := snd (rooted pid (fdParent s))\<rparr>"
  by (simp_all add: rootedFd_def rooted_def Let_def)

lemma rootedFd_pair: "rootedFd pid s = (find_root (fdParent s) pid, s\<lparr>fdParent := snd (rooted pid (fdParent s))\<rparr>)"
  by (simp add: rootedFd_def rooted_def Let_def)

lemma fd_look_rooted [simp]: "fd_look (s\<lparr>fdParent := p\<rparr>) = fd_look s"
  by (simp add: fd_look_def opaque_at_def fun_eq_iff)

lemma up_rooted_Some:
  assumes "forest par"
  shows "up (snd (rooted pid par)) r = None \<longleftrightarrow> up par r = None"
  using find_root_eq_self [OF assms, of r] find_root_eq_self [of "snd (rooted pid par)" r] assms by simp

lemma fd_inv_rooted: "fd_inv s \<Longrightarrow> fd_inv (s\<lparr>fdParent := snd (rooted pid (fdParent s))\<rparr>)"
  by (simp add: fd_inv_def up_rooted_Some)

lemma fd_look_root_other:
  assumes "fd_inv s" "find_root (fdParent s) r \<noteq> r"
  shows "fd_look s r = ((\<lambda>_. None), False, {})"
proof -
  have "forest (fdParent s)" using assms(1) by (simp add: fd_inv_def)
  with assms show ?thesis using find_root_root [of "fdParent s" r] by (auto simp: fd_inv_def)
qed

lemma opaque_at_update:
  "opaque_at (s\<lparr>opaqueFdReuses := map_set k x m\<rparr>) r = (if r = k then x else opaque_at (s\<lparr>opaqueFdReuses := m\<rparr>) r)"
  "opaque_at (s\<lparr>opaqueFdReuses := map_delete k m\<rparr>) r = (if r = k then {} else opaque_at (s\<lparr>opaqueFdReuses := m\<rparr>) r)"
  by (simp_all add: opaque_at_def jm.get_put jm.get_del)

text \<open>The state after the union of two different groups, field by field.\<close>

lemma union_roots_fields:
  assumes ne: "pr \<noteq> cr" and wf: "map_wf (dirfdTable s)"
  shows "fdParent (union_roots pr cr s) = map_set cr pr (fdParent s)"
    and "map_of (dirfdTable (union_roots pr cr s)) (r, fd) =
      (if r = cr then None
       else if r = pr then
         (if fd \<in> opaque_at s cr \<union> opaque_at s pr then None
          else merged_entry (map_of (dirfdTable s) (pr, fd)) (map_of (dirfdTable s) (cr, fd)))
       else map_of (dirfdTable s) (r, fd))"
    and "map_wf (dirfdTable (union_roots pr cr s))"
    and "r \<in> dirfdStateUnknown (union_roots pr cr s) \<longleftrightarrow>
      r \<noteq> cr \<and> (r \<in> dirfdStateUnknown s \<or> r = pr \<and> cr \<in> dirfdStateUnknown s)"
    and "opaque_at (union_roots pr cr s) r =
      (if r = cr then {} else if r = pr then opaque_at s cr \<union> opaque_at s pr else opaque_at s r)"
proof -
  let ?tbl = "fold (merge_fd pr (group_fds pr (dirfdTable s))) (group_fds cr (dirfdTable s))
    (drop_group cr (dirfdTable s))"
  define merged where "merged = opaque_at s cr \<union> opaque_at s pr"
  have empty: "merged = {}" if "map_of (opaqueFdReuses s) cr = None" "map_of (opaqueFdReuses s) pr = None"
    using that by (simp add: merged_def opaque_at_def)
  have tbl: "dirfdTable (union_roots pr cr s) = filter (\<lambda>(k, _). \<not> (fst k = pr \<and> snd k \<in> merged)) ?tbl"
    using empty by (simp add: union_roots_def Let_def merged_def [symmetric])
  have val: "map_of ?tbl (r, fd) =
      (if r = pr then merged_entry (map_of (dirfdTable s) (pr, fd)) (map_of (dirfdTable s) (cr, fd))
       else if r = cr then None else map_of (dirfdTable s) (r, fd))" for r fd
    using ne by (subst map_of_merge_fds)
      (auto simp: distinct_group_fds [OF wf] map_of_group_fds map_of_drop_group)
  show "map_of (dirfdTable (union_roots pr cr s)) (r, fd) =
      (if r = cr then None
       else if r = pr then
         (if fd \<in> opaque_at s cr \<union> opaque_at s pr then None
          else merged_entry (map_of (dirfdTable s) (pr, fd)) (map_of (dirfdTable s) (cr, fd)))
       else map_of (dirfdTable s) (r, fd))"
    using ne by (auto simp: tbl map_of_filter_keys merged_def val)
  show "map_wf (dirfdTable (union_roots pr cr s))"
    by (simp add: tbl map_wf_filter map_wf_merge_fds map_wf_drop_group wf)
  show "fdParent (union_roots pr cr s) = map_set cr pr (fdParent s)"
    by (simp add: union_roots_def Let_def)
  show "r \<in> dirfdStateUnknown (union_roots pr cr s) \<longleftrightarrow>
      r \<noteq> cr \<and> (r \<in> dirfdStateUnknown s \<or> r = pr \<and> cr \<in> dirfdStateUnknown s)"
    using ne by (auto simp: union_roots_def Let_def)
  show "opaque_at (union_roots pr cr s) r =
      (if r = cr then {} else if r = pr then opaque_at s cr \<union> opaque_at s pr else opaque_at s r)"
    using ne by (auto simp: union_roots_def Let_def opaque_at_def jm.get_put jm.get_del split: option.splits)
qed

lemma unionFd_cases:
  fixes s parentPid childPid
  assumes "forest (fdParent s)"
  defines "s' \<equiv> s\<lparr>fdParent := snd (rooted childPid (snd (rooted parentPid (fdParent s))))\<rparr>"
  shows "unionFd parentPid childPid s =
     (if find_root (fdParent s) parentPid = find_root (fdParent s) childPid then s'
      else union_roots (find_root (fdParent s) parentPid) (find_root (fdParent s) childPid) s')"
  using assms(1) by (simp add: unionFd_def rootedFd_pair Let_def s'_def)

lemma fd_inv_rooted2:
  "fd_inv s \<Longrightarrow> fd_inv (s\<lparr>fdParent := snd (rooted q (snd (rooted p (fdParent s))))\<rparr>)"
  using fd_inv_rooted [OF fd_inv_rooted, of s q p] by simp

text \<open>Processes of the two groups see the merge, everybody else sees what it saw.\<close>

lemma unionFd_view:
  assumes inv: "fd_inv s"
    and roots: "pr = find_root (fdParent s) parentPid" "cr = find_root (fdParent s) childPid" "pr \<noteq> cr"
  shows "fd_inv (unionFd parentPid childPid s)"
    and "find_root (fdParent (unionFd parentPid childPid s)) q =
      (if find_root (fdParent s) q = cr then pr else find_root (fdParent s) q)"
    and "fd_view (unionFd parentPid childPid s) q fd =
      (if find_root (fdParent s) q \<in> {pr, cr} then
         (if fd \<in> fd_opaque s childPid \<union> fd_opaque s parentPid then None
          else merged_entry (fd_view s parentPid fd) (fd_view s childPid fd))
       else fd_view s q fd)"
    and "fd_doubt (unionFd parentPid childPid s) q \<longleftrightarrow>
      (if find_root (fdParent s) q \<in> {pr, cr} then fd_doubt s parentPid \<or> fd_doubt s childPid
       else fd_doubt s q)"
    and "fd_opaque (unionFd parentPid childPid s) q =
      (if find_root (fdParent s) q \<in> {pr, cr} then fd_opaque s childPid \<union> fd_opaque s parentPid
       else fd_opaque s q)"
proof -
  define s1 where "s1 = s\<lparr>fdParent := snd (rooted childPid (snd (rooted parentPid (fdParent s))))\<rparr>"
  have inv1: "fd_inv s1" unfolding s1_def by (rule fd_inv_rooted2 [OF inv])
  have f: "forest (fdParent s)" and f1: "forest (fdParent s1)" and wf1: "map_wf (dirfdTable s1)"
    using inv inv1 by (simp_all add: fd_inv_def)
  have same: "find_root (fdParent s1) x = find_root (fdParent s) x" for x
    using f by (simp add: s1_def)
  have look: "dirfdTable s1 = dirfdTable s" "opaque_at s1 = opaque_at s" "dirfdStateUnknown s1 = dirfdStateUnknown s"
    by (simp_all add: s1_def opaque_at_def fun_eq_iff)
  have u: "unionFd parentPid childPid s = union_roots pr cr s1"
    using roots f by (simp add: unionFd_cases s1_def)
  have ups: "up (fdParent s1) pr = None" "up (fdParent s1) cr = None"
    using f1 roots same by (metis up_find_root)+
  note fields = union_roots_fields [OF roots(3) wf1]
  show root: "find_root (fdParent (unionFd parentPid childPid s)) q =
      (if find_root (fdParent s) q = cr then pr else find_root (fdParent s) q)" for q
    using find_root_link [OF f1 ups(2,1)] roots(3) by (simp add: u fields same)
  show "fd_inv (unionFd parentPid childPid s)"
    unfolding fd_inv_def
  proof (intro conjI allI impI)
    show "forest (fdParent (unionFd parentPid childPid s))"
      using forest_link [OF f1 ups(2,1)] roots(3) by (simp add: u fields)
    show "map_wf (dirfdTable (unionFd parentPid childPid s))" by (simp add: u fields)
    fix r assume "up (fdParent (unionFd parentPid childPid s)) r \<noteq> None"
    then have r: "r = cr \<or> r \<noteq> pr \<and> up (fdParent s1) r \<noteq> None"
      using ups roots(3) by (auto simp: u fields up_map_set split: if_splits)
    then show "fd_look (unionFd parentPid childPid s) r = (\<lambda>_. None, False, {})"
    proof (cases "r = cr")
      case False
      with r inv1 have "fd_look s1 r = (\<lambda>_. None, False, {})" by (simp add: fd_inv_def)
      with r False show ?thesis by (auto simp: fd_look_def u fields fun_eq_iff)
    qed (auto simp: fd_look_def u fields fun_eq_iff)
  qed
  show "fd_view (unionFd parentPid childPid s) q fd =
      (if find_root (fdParent s) q \<in> {pr, cr} then
         (if fd \<in> fd_opaque s childPid \<union> fd_opaque s parentPid then None
          else merged_entry (fd_view s parentPid fd) (fd_view s childPid fd))
       else fd_view s q fd)"
    using roots(3) unfolding fd_view_def root
    by (auto simp: u fields look fd_opaque_def roots(1,2) [symmetric])
  show "fd_doubt (unionFd parentPid childPid s) q \<longleftrightarrow>
      (if find_root (fdParent s) q \<in> {pr, cr} then fd_doubt s parentPid \<or> fd_doubt s childPid
       else fd_doubt s q)"
    using roots(3) unfolding fd_doubt_def root by (auto simp: u fields look roots(1,2) [symmetric])
  show "fd_opaque (unionFd parentPid childPid s) q =
      (if find_root (fdParent s) q \<in> {pr, cr} then fd_opaque s childPid \<union> fd_opaque s parentPid
       else fd_opaque s q)"
    using roots(3) unfolding fd_opaque_def root by (auto simp: u fields look roots(1,2) [symmetric])
qed


section \<open>Leaving: everybody keeps what it saw\<close>

lemma map_of_group_put:
  assumes "map_wf tbl"
  shows "map_of (put_group p (group_fds root tbl) tbl') (r, fd) =
     (case (if r = p then map_of tbl (root, fd) else None) of None \<Rightarrow> map_of tbl' (r, fd) | Some e \<Rightarrow> Some e)"
  by (simp add: map_of_put_group [OF distinct_group_fds [OF assms]] map_of_group_fds cong: if_cong)

lemma detach_member_look:
  assumes inv: "fd_inv s" and root: "root = find_root (fdParent s) pid" "root \<noteq> pid"
  shows "fdParent (detachFdGroup pid s) = map_delete pid (snd (rooted pid (fdParent s)))"
    and "map_wf (dirfdTable (detachFdGroup pid s))"
    and "fd_look (detachFdGroup pid s) r = (if r = pid then fd_look s root else fd_look s r)"
proof -
  have wf: "map_wf (dirfdTable s)" and pid: "fd_look s pid = ((\<lambda>_. None), False, {})"
    using inv fd_look_root_other [OF inv, of pid] root by (simp_all add: fd_inv_def)
  define s1 where "s1 = s\<lparr>fdParent := snd (rooted pid (fdParent s))\<rparr>"
  have same: "dirfdTable s1 = dirfdTable s" "dirfdStateUnknown s1 = dirfdStateUnknown s"
    "opaqueFdReuses s1 = opaqueFdReuses s" "fdParent s1 = snd (rooted pid (fdParent s))"
    by (simp_all add: s1_def)
  have d0: "detachFdGroup pid s = member_leaves pid root s1"
    using root by (simp add: detachFdGroup_def rootedFd_pair Let_def s1_def)
  note d = d0 [unfolded member_leaves_def same]
  show "fdParent (detachFdGroup pid s) = map_delete pid (snd (rooted pid (fdParent s)))" by (simp add: d)
  show "map_wf (dirfdTable (detachFdGroup pid s))" by (simp add: d map_wf_put_group wf)
  show "fd_look (detachFdGroup pid s) r = (if r = pid then fd_look s root else fd_look s r)"
    using pid root(2) by (auto simp: fd_look_def d map_of_group_put [OF wf] opaque_at_def jm.get_put fun_eq_iff
        split: option.splits)
qed

lemma detach_root_look:
  assumes inv: "fd_inv s" and root: "up (fdParent s) pid = None"
    and others: "others = other_members pid (fdParent s)" "others \<noteq> []"
  shows "fdParent (detachFdGroup pid s) = promote others (fdParent s)"
    and "map_wf (dirfdTable (detachFdGroup pid s))"
    and "fd_look (detachFdGroup pid s) r = (if r = hd others then fd_look s pid else fd_look s r)"
proof -
  have wf: "map_wf (dirfdTable s)" and f: "forest (fdParent s)" using inv by (simp_all add: fd_inv_def)
  have self: "find_root (fdParent s) pid = pid" by (rule find_root_root [OF f root])
  have same: "snd (rooted pid (fdParent s)) = fdParent s" by (simp add: rooted_def Let_def self compress_def)
  have hd: "hd others \<noteq> pid" "find_root (fdParent s) (hd others) = pid"
    using hd_other_members [OF f root] others by simp_all
  have clean: "fd_look s (hd others) = ((\<lambda>_. None), False, {})"
    using fd_look_root_other [OF inv, of "hd others"] hd by simp
  have d0: "detachFdGroup pid s = root_leaves pid others s"
    using others by (simp add: detachFdGroup_def rootedFd_pair Let_def self same)
  note d = d0 [unfolded root_leaves_def Let_def]
  note dist = distinct_group_fds [OF wf]
  have tbl: "map_of (dirfdTable (detachFdGroup pid s)) (r, fd) =
      (if r = hd others then map_of (dirfdTable s) (pid, fd) else map_of (dirfdTable s) (r, fd))" for r fd
    using clean hd(1)
    by (auto simp: d map_of_group_put [OF wf] map_of_move_group [OF dist hd(1)] map_of_group_fds fd_look_def
        fun_eq_iff split: option.splits)
  show "fdParent (detachFdGroup pid s) = promote others (fdParent s)" by (simp add: d)
  show "map_wf (dirfdTable (detachFdGroup pid s))"
    by (simp add: d map_wf_put_group map_wf_move_group wf)
  have un: "x \<in> dirfdStateUnknown (detachFdGroup pid s) \<longleftrightarrow>
      (if x = hd others then pid \<in> dirfdStateUnknown s else x \<in> dirfdStateUnknown s)" for x
    using clean hd(1) by (auto simp: d fd_look_def)
  have opq: "opaque_at (detachFdGroup pid s) x =
      (if x = hd others then opaque_at s pid else opaque_at s x)" for x
    using clean hd(1) by (auto simp: d fd_look_def opaque_at_def jm.get_put jm.get_del split: option.splits)
  show "fd_look (detachFdGroup pid s) r = (if r = hd others then fd_look s pid else fd_look s r)"
    by (simp add: fd_look_def tbl un opq)
qed

lemma detach_alone:
  assumes inv: "fd_inv s" and root: "up (fdParent s) pid = None" and "other_members pid (fdParent s) = []"
  shows "detachFdGroup pid s = s"
proof -
  have f: "forest (fdParent s)" using inv by (simp add: fd_inv_def)
  have "find_root (fdParent s) pid = pid" by (rule find_root_root [OF f root])
  then show ?thesis using assms(3)
    by (simp add: detachFdGroup_def rootedFd_pair Let_def rooted_def compress_def)
qed

text \<open>The three cases of \<^verbatim>\<open>detachFdGroup\<close>, for proofs about it.\<close>

lemma detach_cases [consumes 1, case_names member root alone]:
  assumes "fd_inv s"
  obtains "find_root (fdParent s) pid \<noteq> pid"
  | "up (fdParent s) pid = None" "other_members pid (fdParent s) \<noteq> []"
  | "up (fdParent s) pid = None" "other_members pid (fdParent s) = []"
  using assms find_root_eq_self [of "fdParent s" pid] by (auto simp: fd_inv_def)

lemma detach_view:
  assumes inv: "fd_inv s"
  shows "fd_inv (detachFdGroup pid s)"
    and "fd_view (detachFdGroup pid s) q = fd_view s q"
    and "fd_doubt (detachFdGroup pid s) q = fd_doubt s q"
    and "fd_opaque (detachFdGroup pid s) q = fd_opaque s q"
    and "find_root (fdParent (detachFdGroup pid s)) pid = pid"
proof -
  have f: "forest (fdParent s)" using inv by (simp add: fd_inv_def)
  let ?d = "detachFdGroup pid s"
  have "fd_inv ?d \<and> find_root (fdParent ?d) pid = pid \<and>
      (\<forall>q. fd_look ?d (find_root (fdParent ?d) q) = fd_look s (find_root (fdParent s) q))"
    using inv
  proof (cases rule: detach_cases [of s pid])
    case member
    let ?s1 = "s\<lparr>fdParent := snd (rooted pid (fdParent s))\<rparr>"
    note look = detach_member_look [OF inv refl member]
    have f1: "forest (fdParent ?s1)" using f by simp
    have up1: "up (fdParent ?s1) pid \<noteq> None"
      using member find_root_eq_self [OF f1, of pid] f by simp
    have "fd_look ?d (find_root (fdParent ?d) q) = fd_look s (find_root (fdParent s) q)" for q
      using fdg.left_view [OF f1 up1, of ?d q] look f by simp
    moreover have "fd_inv ?d"
      unfolding fd_inv_def
    proof (intro conjI allI impI)
      show "forest (fdParent ?d)" using f1 by (simp add: look forest_delete)
      fix r assume "up (fdParent ?d) r \<noteq> None"
      then have "r \<noteq> pid" "up (fdParent s) r \<noteq> None"
        using up_rooted_Some [OF f, of pid r] by (auto simp: look up_map_delete split: if_splits)
      with inv show "fd_look ?d r = (\<lambda>_. None, False, {})" by (simp add: look fd_inv_def)
    qed (rule look)
    moreover have "find_root (fdParent ?d) pid = pid"
      using f1 by (simp add: look find_root_delete)
    ultimately show ?thesis by blast
  next
    case root
    note look = detach_root_look [OF inv root(1) refl root(2)]
    note hd = hd_other_members [OF f root]
    have "fd_look ?d (find_root (fdParent ?d) q) = fd_look s (find_root (fdParent s) q)" for q
      using hd by (intro fdg.promoted_view [OF f root(1) refl root(2)]) (simp_all add: look)
    moreover have "fd_inv ?d"
      unfolding fd_inv_def
    proof (intro conjI allI impI)
      show "forest (fdParent ?d)" using forest_promote [OF f root(1) refl root(2)] by (simp add: look)
      fix r assume r: "up (fdParent ?d) r \<noteq> None"
      then have "r \<noteq> hd (other_members pid (fdParent s))" by (auto simp: look up_promote)
      moreover have "up (fdParent s) r \<noteq> None"
      proof
        assume n: "up (fdParent s) r = None"
        with r have "r \<in> set (other_members pid (fdParent s))" by (auto simp: look up_promote split: if_splits)
        then show False using set_other_members [OF f root(1), of r] find_root_root [OF f n] by simp
      qed
      ultimately show "fd_look ?d r = (\<lambda>_. None, False, {})" using inv by (simp add: look fd_inv_def)
    qed (rule look)
    moreover have "find_root (fdParent ?d) pid = pid"
      unfolding look find_root_promote [OF f root(1) refl root(2)] using find_root_root [OF f root(1)] by simp
    ultimately show ?thesis by blast
  next
    case alone
    with inv f show ?thesis by (simp add: detach_alone find_root_root)
  qed
  then show "fd_inv ?d" "fd_view ?d q = fd_view s q" "fd_doubt ?d q = fd_doubt s q"
    "fd_opaque ?d q = fd_opaque s q" "find_root (fdParent ?d) pid = pid"
    by (simp_all add: fd_look_view)
qed

end
