(* ===== verification/FdEvents.thy ===== *)
theory FdEvents
  imports FdTable
begin

text \<open>
  What each system call does to the descriptor tables: the bodies of the line handlers of
  \<^verbatim>\<open>runInstallPhase\<close> (\<^verbatim>\<open>src/guest/phase-install.ts\<close>) for \<^verbatim>\<open>open\<close>, \<^verbatim>\<open>dup\<close>, \<^verbatim>\<open>close\<close>, \<^verbatim>\<open>close_range\<close>, \<^verbatim>\<open>unshare\<close>,
  \<^verbatim>\<open>fcntl\<close>, \<^verbatim>\<open>execve\<close> and \<^verbatim>\<open>clone\<close>, after the line has been matched and its numbers parsed. The text
  side is in \<open>SyscallLines\<close>.
\<close>

section \<open>Single entries\<close>

definition fd_get :: "int \<Rightarrow> int \<Rightarrow> fd_state \<Rightarrow> fd_entry option \<times> fd_state" where
  "fd_get pid fd s = (let (r, s) = rootedFd pid s in (map_of (dirfdTable s) (r, fd), s))"

definition fd_put :: "int \<Rightarrow> int \<Rightarrow> fd_entry \<Rightarrow> fd_state \<Rightarrow> fd_state" where
  "fd_put pid fd e s = (let (r, s) = rootedFd pid s in s\<lparr>dirfdTable := map_set (r, fd) e (dirfdTable s)\<rparr>)"

definition fd_del :: "int \<Rightarrow> int \<Rightarrow> fd_state \<Rightarrow> fd_state" where
  "fd_del pid fd s = (let (r, s) = rootedFd pid s in s\<lparr>dirfdTable := map_delete (r, fd) (dirfdTable s)\<rparr>)"

text \<open>The descriptor \<open>fd\<close> now stands for a known target, or for one that could not be resolved.\<close>

definition fd_known :: "int \<Rightarrow> int \<Rightarrow> fd_entry \<Rightarrow> fd_state \<Rightarrow> fd_state" where
  "fd_known pid fd e s =
     clearOpaqueFdReuse pid fd
       (recordPostMarkerFdReuse pid fd (cancelPendingTombstonesForFd pid fd (fd_put pid fd e s)))"

definition fd_unresolved :: "int \<Rightarrow> int \<Rightarrow> fd_state \<Rightarrow> fd_state" where
  "fd_unresolved pid fd s =
     recordOpaqueFdReuse pid fd
       (recordPostMarkerFdReuse pid fd (cancelPendingTombstonesForFd pid fd s))"

section \<open>Open and duplicate\<close>

text \<open>An \<^verbatim>\<open>open\<close> that returned \<open>fd\<close>; the target is \<open>None\<close> when its path could not be resolved.\<close>

definition fd_opened :: "int \<Rightarrow> int \<Rightarrow> string option \<Rightarrow> bool \<Rightarrow> fd_state \<Rightarrow> fd_state" where
  "fd_opened pid fd target cloexec s =
     (case target of
        Some p \<Rightarrow> fd_known pid fd \<lparr>fe_path = p, fe_cloexec = cloexec\<rparr> s
      | None \<Rightarrow> fd_unresolved pid fd (fd_del pid fd s))"

text \<open>\<^verbatim>\<open>dup\<close>, \<^verbatim>\<open>dup2\<close>, \<^verbatim>\<open>dup3\<close>, and the two \<^verbatim>\<open>F_DUPFD\<close> commands of \<^verbatim>\<open>fcntl\<close>.\<close>

definition fd_dup :: "int \<Rightarrow> int \<Rightarrow> int \<Rightarrow> bool \<Rightarrow> fd_state \<Rightarrow> fd_state" where
  "fd_dup pid oldFd newFd cloexec s =
     (let (oldVal, s) = fd_get pid oldFd s
      in case oldVal of
           Some e \<Rightarrow> fd_known pid newFd \<lparr>fe_path = fe_path e, fe_cloexec = cloexec\<rparr> s
         | None \<Rightarrow> fd_unresolved pid newFd (fdUnknownAdd pid (fd_del pid newFd s)))"

section \<open>Close\<close>

definition fd_close :: "int \<Rightarrow> int \<Rightarrow> int \<Rightarrow> fd_state \<Rightarrow> fd_state" where
  "fd_close pid fd rc s =
     (let s = (if rc = 0 then
                 (let (cur, s) = fd_get pid fd s;
                      s = (if cur = None then recordFdTombstone pid (TombClose fd) s else s)
                  in clearOpaqueFdReuse pid fd (recordPostMarkerFdClose pid fd s))
               else s)
      in fd_del pid fd s)"

text \<open>The sweep of a group over a range of numbers: mark close-on-exec, or drop.\<close>

definition sweep_range :: "int \<Rightarrow> int \<Rightarrow> int \<Rightarrow> bool \<Rightarrow> fd_table \<Rightarrow> fd_table" where
  "sweep_range root lo hi cloexec tbl =
     (if cloexec
      then map (\<lambda>(k, e). (k, if fst k = root \<and> lo \<le> snd k \<and> snd k \<le> hi then e\<lparr>fe_cloexec := True\<rparr> else e)) tbl
      else filter (\<lambda>(k, _). \<not> (fst k = root \<and> lo \<le> snd k \<and> snd k \<le> hi)) tbl)"

definition closeRange_done :: "int \<Rightarrow> int \<Rightarrow> int \<Rightarrow> bool \<Rightarrow> fd_state \<Rightarrow> fd_state" where
  "closeRange_done pid lo hi cloexec s =
     (if cloexec then s else clearOpaqueFdRange pid lo hi (recordPostMarkerFdRangeClose pid lo hi s))"

definition fd_sweep :: "int \<Rightarrow> int \<Rightarrow> int \<Rightarrow> bool \<Rightarrow> fd_state \<Rightarrow> fd_state" where
  "fd_sweep pid lo hi cloexec s =
     (let (r, s) = rootedFd pid s in s\<lparr>dirfdTable := sweep_range r lo hi cloexec (dirfdTable s)\<rparr>)"

text \<open>The marker a process leaves when it takes a private table before its \<^verbatim>\<open>clone\<close> was seen.\<close>

definition fd_marker :: "int \<Rightarrow> fd_detach_action \<Rightarrow> fd_state \<Rightarrow> fd_snapshot \<times> fd_state" where
  "fd_marker pid action s =
     (case appendFdAction pid action s of
        (Some snap, s') \<Rightarrow> (snap, s')
      | (None, s') \<Rightarrow> snapshotFd pid action s')"

definition set_marker :: "int \<Rightarrow> fd_snapshot option \<Rightarrow> fd_state \<Rightarrow> fd_state" where
  "set_marker pid snap s =
     (case snap of None \<Rightarrow> s | Some x \<Rightarrow> s\<lparr>pendingFdDetach := map_set pid x (pendingFdDetach s)\<rparr>)"

definition marker_if_single :: "int \<Rightarrow> fd_detach_action \<Rightarrow> fd_state \<Rightarrow> fd_snapshot option \<times> fd_state" where
  "marker_if_single pid action s =
     (let (single, s) = isFdSingleton pid s
      in if single then (let (snap, s) = fd_marker pid action s in (Some snap, s)) else (None, s))"

definition fd_close_range :: "int \<Rightarrow> int \<Rightarrow> int \<Rightarrow> bool \<Rightarrow> bool \<Rightarrow> fd_state \<Rightarrow> fd_state" where
  "fd_close_range pid lo hi unshare cloexec s =
     (if unshare then
        (let (snap, s) = marker_if_single pid (ActCloseRange lo hi cloexec) s;
             s = fd_sweep pid lo hi cloexec (detachFdGroup pid s)
         in closeRange_done pid lo hi cloexec (set_marker pid snap s))
      else
        closeRange_done pid lo hi cloexec
          (recordFdTombstone pid (TombCloseRange lo hi cloexec) (fd_sweep pid lo hi cloexec s)))"

section \<open>Unshare and execve\<close>

definition fd_unshare :: "int \<Rightarrow> fd_state \<Rightarrow> fd_state" where
  "fd_unshare pid s =
     (let (snap, s) = fd_marker pid ActNone s
      in set_marker pid (Some snap) (detachFdGroup pid s))"

definition fd_exec :: "int \<Rightarrow> fd_state \<Rightarrow> fd_state" where
  "fd_exec pid s =
     (let (snap, s) = marker_if_single pid (ActExecveCloexec {}) s;
          (root, s) = rootedFd pid (detachFdGroup pid s);
          gone = map fst (filter (\<lambda>(_, e). fe_cloexec e) (group_fds root (dirfdTable s)));
          s = s\<lparr>dirfdTable := filter (\<lambda>(k, e). \<not> (fst k = root \<and> fe_cloexec e)) (dirfdTable s)\<rparr>;
          s = fold (recordPostMarkerFdClose pid) gone s
      in set_marker pid snap s)"

text \<open>\<^verbatim>\<open>F_SETFD\<close> with the parsed flag, \<open>None\<close> when the argument was not understood.\<close>

definition fd_setfd :: "int \<Rightarrow> int \<Rightarrow> bool option \<Rightarrow> fd_state \<Rightarrow> fd_state" where
  "fd_setfd pid fd newCloexec s =
     (let (cur, s) = fd_get pid fd s
      in case newCloexec of
           None \<Rightarrow> fdUnknownAdd pid s
         | Some c \<Rightarrow>
             (case cur of
                Some e \<Rightarrow> fd_put pid fd (e\<lparr>fe_cloexec := c\<rparr>) s
              | None \<Rightarrow> if c then recordFdTombstone pid (TombCloexec fd) s else s))"


section \<open>Clone\<close>

text \<open>
  The \<^verbatim>\<open>clone\<close> line of the parent may be read after lines of the child. What the child did before is in
  its marker (\<open>snap\<close>), in the numbers it opened or closed since (\<open>touched\<close>, \<open>closed\<close>) and in its
  bucket of tombstones (\<open>standalone\<close>); taking them removes them from the state.
\<close>

record child_history =
  ch_snap :: "fd_snapshot option"
  ch_touched :: "int set"
  ch_closed :: "int set"
  ch_standalone :: "fd_tombstone list"

definition take_history :: "int \<Rightarrow> fd_state \<Rightarrow> child_history \<times> fd_state" where
  "take_history childPid s =
     (let snap = map_of (pendingFdDetach s) childPid;
          s = s\<lparr>pendingFdDetach := map_delete childPid (pendingFdDetach s)\<rparr>;
          (childFdRoot, s) = rootedFd childPid s;
          life = (case map_of (postMarkerFdReuses s) childFdRoot of None \<Rightarrow> [] | Some l \<Rightarrow> l);
          s = s\<lparr>postMarkerFdReuses := map_delete childFdRoot (postMarkerFdReuses s)\<rparr>;
          standalone = (case snap of
                          None \<Rightarrow> (case map_of (pendingFdTombstones s) childPid of None \<Rightarrow> [] | Some b \<Rightarrow> b)
                        | Some _ \<Rightarrow> []);
          s = s\<lparr>pendingFdTombstones := map_delete childPid (pendingFdTombstones s)\<rparr>
      in (\<lparr>ch_snap = snap, ch_touched = set (map fst life),
           ch_closed = set (map fst (filter (\<lambda>(_, st). st = FdClosed) life)),
           ch_standalone = standalone\<rparr>, s))"

definition mark_cloexec :: "int \<Rightarrow> int \<Rightarrow> fd_table \<Rightarrow> fd_table" where
  "mark_cloexec root fd tbl =
     (case map_of tbl (root, fd) of
        None \<Rightarrow> tbl
      | Some e \<Rightarrow> map_set (root, fd) \<lparr>fe_path = fe_path e, fe_cloexec = True\<rparr> tbl)"

definition range_hits :: "int \<Rightarrow> int \<Rightarrow> int \<Rightarrow> fd_table \<Rightarrow> int list" where
  "range_hits root lo hi tbl = filter (\<lambda>fd. lo \<le> fd \<and> fd \<le> hi) (map fst (group_fds root tbl))"

definition unknown_both :: "int \<Rightarrow> int \<Rightarrow> fd_state \<Rightarrow> fd_state" where
  "unknown_both pid childPid s = fdUnknownAdd childPid (fdUnknownAdd pid s)"

subsection \<open>A shared table\<close>

text \<open>The child's early closes, replayed on the merged group.\<close>

fun replay_merged :: "int \<Rightarrow> int \<Rightarrow> int \<Rightarrow> fd_tombstone \<Rightarrow> fd_state \<Rightarrow> fd_state" where
  "replay_merged root pid childPid (TombClose fd) s =
     unknown_both pid childPid (s\<lparr>dirfdTable := map_delete (root, fd) (dirfdTable s)\<rparr>)"
| "replay_merged root pid childPid (TombCloexec fd) s =
     s\<lparr>dirfdTable := mark_cloexec root fd (dirfdTable s)\<rparr>"
| "replay_merged root pid childPid (TombCloseRange lo hi c) s =
     (let hits = range_hits root lo hi (dirfdTable s);
          s = s\<lparr>dirfdTable := sweep_range root lo hi c (dirfdTable s)\<rparr>
      in if hits \<noteq> [] \<and> \<not> c then unknown_both pid childPid s else s)"

definition clone_shared :: "int \<Rightarrow> int \<Rightarrow> child_history \<Rightarrow> fd_state \<Rightarrow> fd_state" where
  "clone_shared pid childPid h s =
     (let s = unionFd pid childPid s
      in if ch_standalone h = [] then s
         else
           let (root, s) = rootedFd pid s;
               s = (case map_of (pendingFdDetach s) root of
                      None \<Rightarrow> s
                    | Some snap \<Rightarrow>
                        s\<lparr>pendingFdDetach :=
                           map_set root
                             (snap\<lparr>fs_postDetachLog := fs_postDetachLog snap @ map LogTombstone (ch_standalone h)\<rparr>)
                             (pendingFdDetach s)\<rparr>)
           in fold (replay_merged root pid childPid) (ch_standalone h) s)"

subsection \<open>A table of its own\<close>

definition copy_fd :: "int \<Rightarrow> int set \<Rightarrow> int set \<Rightarrow> int set \<Rightarrow> int \<times> fd_entry \<Rightarrow> fd_table \<Rightarrow> fd_table" where
  "copy_fd childRoot touched closed opq p tbl =
     (case p of (fd, val) \<Rightarrow>
        (case map_of tbl (childRoot, fd) of
           None \<Rightarrow>
             if fd \<in> closed \<or> fd \<in> touched \<or> fd \<in> opq then tbl else map_set (childRoot, fd) val tbl
         | Some existing \<Rightarrow>
             if fe_path existing = fe_path val then
               (if fe_cloexec existing \<noteq> fe_cloexec val
                then map_set (childRoot, fd)
                       \<lparr>fe_path = fe_path existing, fe_cloexec = fe_cloexec existing \<or> fe_cloexec val\<rparr> tbl
                else tbl)
             else if fd \<in> touched \<or> fd \<in> opq then tbl
             else map_delete (childRoot, fd) tbl))"

text \<open>The numbers on which the parent's table and the child's snapshot disagree.\<close>

definition snapshot_conflicts :: "int \<Rightarrow> fd_snapshot \<Rightarrow> fd_table \<Rightarrow> int set" where
  "snapshot_conflicts parentRoot snap tbl =
     set (map fst (filter (\<lambda>(fd, v).
            case map_of tbl (parentRoot, fd) of None \<Rightarrow> False | Some p \<Rightarrow> fe_path p \<noteq> fe_path v)
          (fs_entries snap)))"

definition delete_keys :: "int \<Rightarrow> int set \<Rightarrow> fd_table \<Rightarrow> fd_table" where
  "delete_keys root fds tbl = filter (\<lambda>(k, _). \<not> (fst k = root \<and> snd k \<in> fds)) tbl"

definition applyPointTombstone ::
  "int \<Rightarrow> int \<Rightarrow> int \<Rightarrow> int \<Rightarrow> int \<Rightarrow> bool \<Rightarrow> bool \<Rightarrow> bool \<Rightarrow> fd_state \<Rightarrow> fd_state" where
  "applyPointTombstone parentRoot childRoot pid childPid fd isClose toParent toChild s =
     (if isClose then
        (let s = (if toChild then s\<lparr>dirfdTable := map_delete (childRoot, fd) (dirfdTable s)\<rparr> else s)
         in if toParent
            then (let s = fdUnknownAdd pid (s\<lparr>dirfdTable := map_delete (parentRoot, fd) (dirfdTable s)\<rparr>)
                  in if toChild then fdUnknownAdd childPid s else s)
            else s)
      else
        (let s = (if toChild then s\<lparr>dirfdTable := mark_cloexec childRoot fd (dirfdTable s)\<rparr> else s)
         in if toParent then s\<lparr>dirfdTable := mark_cloexec parentRoot fd (dirfdTable s)\<rparr> else s))"

definition sweep_except :: "int \<Rightarrow> int \<Rightarrow> int \<Rightarrow> bool \<Rightarrow> int set \<Rightarrow> fd_table \<Rightarrow> fd_table" where
  "sweep_except root lo hi c excl tbl =
     (if c
      then map (\<lambda>(k, e). (k, if fst k = root \<and> lo \<le> snd k \<and> snd k \<le> hi \<and> snd k \<notin> excl
                            then e\<lparr>fe_cloexec := True\<rparr> else e)) tbl
      else filter (\<lambda>(k, _). \<not> (fst k = root \<and> lo \<le> snd k \<and> snd k \<le> hi \<and> snd k \<notin> excl)) tbl)"

definition applyRangeTombstone ::
  "int \<Rightarrow> int \<Rightarrow> int \<Rightarrow> int \<Rightarrow> int \<Rightarrow> int \<Rightarrow> bool \<Rightarrow> bool \<Rightarrow> int set \<Rightarrow> fd_state \<Rightarrow> fd_state" where
  "applyRangeTombstone parentRoot childRoot pid childPid lo hi c toParent excl s =
     (let s = s\<lparr>dirfdTable := sweep_except childRoot lo hi c excl (dirfdTable s)\<rparr>
      in if \<not> toParent then s
         else
           let hits = range_hits parentRoot lo hi (dirfdTable s);
               s = s\<lparr>dirfdTable := sweep_range parentRoot lo hi c (dirfdTable s)\<rparr>
           in if hits \<noteq> [] \<and> \<not> c
              then (let s = fdUnknownAdd pid s
                    in if set hits \<subseteq> excl then s else fdUnknownAdd childPid s)
              else s)"

fun replay_tombstone ::
  "int \<Rightarrow> int \<Rightarrow> int \<Rightarrow> int \<Rightarrow> bool \<Rightarrow> int set \<Rightarrow> fd_tombstone \<Rightarrow> fd_state \<Rightarrow> fd_state" where
  "replay_tombstone pr cr pid childPid toParent excl (TombClose fd) s =
     applyPointTombstone pr cr pid childPid fd True toParent (fd \<notin> excl) s"
| "replay_tombstone pr cr pid childPid toParent excl (TombCloexec fd) s =
     applyPointTombstone pr cr pid childPid fd False toParent (fd \<notin> excl) s"
| "replay_tombstone pr cr pid childPid toParent excl (TombCloseRange lo hi c) s =
     applyRangeTombstone pr cr pid childPid lo hi c toParent excl s"

fun replay_log ::
  "int \<Rightarrow> int \<Rightarrow> int \<Rightarrow> int \<Rightarrow> int set \<Rightarrow> fd_log_entry \<Rightarrow> fd_state \<Rightarrow> fd_state" where
  "replay_log pr cr pid childPid excl (LogAction ActNone) s = s"
| "replay_log pr cr pid childPid excl (LogAction (ActCloseRange lo hi c)) s =
     s\<lparr>dirfdTable := sweep_range cr lo hi c (dirfdTable s)\<rparr>"
| "replay_log pr cr pid childPid excl (LogAction (ActExecveCloexec xs)) s =
     s\<lparr>dirfdTable := filter (\<lambda>(k, e). \<not> (fst k = cr \<and> snd k \<notin> xs \<and> fe_cloexec e)) (dirfdTable s)\<rparr>"
| "replay_log pr cr pid childPid excl (LogTombstone t) s =
     replay_tombstone pr cr pid childPid False excl t s"

fun replay_standalone :: "int \<Rightarrow> fd_tombstone \<Rightarrow> fd_table \<Rightarrow> fd_table" where
  "replay_standalone cr (TombClose fd) tbl = map_delete (cr, fd) tbl"
| "replay_standalone cr (TombCloexec fd) tbl = mark_cloexec cr fd tbl"
| "replay_standalone cr (TombCloseRange lo hi c) tbl = sweep_range cr lo hi c tbl"

text \<open>The distrust the reconciliation spreads, before the child's history is replayed.\<close>

definition clone_distrust :: "int \<Rightarrow> int \<Rightarrow> int \<Rightarrow> bool \<Rightarrow> int set \<Rightarrow> fd_snapshot option \<Rightarrow> fd_state \<Rightarrow> fd_state" where
  "clone_distrust parentRoot pid childPid shared conflicts snap s =
     (let s = (if conflicts \<noteq> {}
               then unknown_both pid childPid (s\<lparr>dirfdTable := delete_keys parentRoot conflicts (dirfdTable s)\<rparr>)
               else s);
          s = (case snap of
                 Some x \<Rightarrow> if shared then s\<lparr>dirfdTable := delete_keys parentRoot (fs_preDetachOpaque x) (dirfdTable s)\<rparr> else s
               | None \<Rightarrow> s);
          (u, s) = fdUnknownHas pid s;
          s = (if u then fdUnknownAdd childPid s else s)
      in case snap of
           Some x \<Rightarrow>
             if shared \<and> fs_unknown x
             then unknown_both pid childPid (s\<lparr>dirfdTable := drop_group parentRoot (dirfdTable s)\<rparr>)
             else s
         | None \<Rightarrow> s)"

definition clone_copied :: "int \<Rightarrow> int \<Rightarrow> bool \<Rightarrow> child_history \<Rightarrow> fd_state \<Rightarrow> fd_state" where
  "clone_copied pid childPid cloneFiles h s =
     (let (parentRoot, s) = rootedFd pid s;
          (childRoot, s) = rootedFd childPid s
      in if parentRoot = childRoot then s
         else
           let shared = (ch_snap h \<noteq> None \<and> cloneFiles);
               conflicts = (case ch_snap h of
                              Some snap \<Rightarrow> if shared then snapshot_conflicts parentRoot snap (dirfdTable s) else {}
                            | None \<Rightarrow> {});
               s = s\<lparr>dirfdTable :=
                       fold (copy_fd childRoot (ch_touched h) (ch_closed h) (opaque_at s childRoot))
                         (group_fds parentRoot (dirfdTable s)) (dirfdTable s)\<rparr>;
               s = clone_distrust parentRoot pid childPid shared conflicts (ch_snap h) s;
               s = (case ch_snap h of
                      None \<Rightarrow> s
                    | Some snap \<Rightarrow>
                        fold (replay_log parentRoot childRoot pid childPid (ch_touched h)) (fs_postDetachLog snap)
                          (fold (replay_tombstone parentRoot childRoot pid childPid shared (ch_touched h))
                            (fs_preDetachTombstones snap) s))
           in s\<lparr>dirfdTable := fold (replay_standalone childRoot) (ch_standalone h) (dirfdTable s)\<rparr>)"

definition fd_clone :: "int \<Rightarrow> int \<Rightarrow> bool \<Rightarrow> fd_state \<Rightarrow> fd_state" where
  "fd_clone pid childPid cloneFiles s =
     (let (h, s) = take_history childPid s
      in if cloneFiles \<and> ch_snap h = None then clone_shared pid childPid h s
         else clone_copied pid childPid cloneFiles h s)"

end
