(* ===== verification/FdViews.thy ===== *)
theory FdViews
  imports FdEvents
begin

text \<open>
  What every handler of the descriptor tables does to what the processes see: the invariant is
  kept, the bookkeeping is invisible (\<open>quiet\<close>), and each system call changes the views of the
  caller's group in the way its handler says and nobody else's.
\<close>

section \<open>Bookkeeping is invisible\<close>

definition peers :: "fd_state \<Rightarrow> int \<Rightarrow> int \<Rightarrow> bool" where
  "peers s p q \<longleftrightarrow> find_root (fdParent s) p = find_root (fdParent s) q"

text \<open>The step may compress paths and write the bookkeeping fields, nothing else.\<close>

definition quiet :: "fd_state \<Rightarrow> fd_state \<Rightarrow> bool" where
  "quiet s s' \<longleftrightarrow>
     (forest (fdParent s) \<longrightarrow> forest (fdParent s') \<and> find_root (fdParent s') = find_root (fdParent s)) \<and>
     (flat_groups (fdParent s) \<longrightarrow> flat_groups (fdParent s')) \<and>
     dirfdTable s' = dirfdTable s \<and> dirfdStateUnknown s' = dirfdStateUnknown s \<and>
     opaqueFdReuses s' = opaqueFdReuses s"

named_theorems quiet \<open>steps that change the bookkeeping only\<close>

lemma quiet_refl [quiet, simp]: "quiet s s"
  by (simp add: quiet_def)

lemma quiet_trans [trans]: "quiet s t \<Longrightarrow> quiet t u \<Longrightarrow> quiet s u"
  by (auto simp: quiet_def)

lemma quiet_rooted [quiet]: "quiet s (s\<lparr>fdParent := snd (rooted pid (fdParent s))\<rparr>)"
  by (simp add: quiet_def fun_eq_iff)

lemma quiet_rooted_after [quiet]:
  "quiet s s' \<Longrightarrow> fdParent s' = fdParent s \<Longrightarrow> quiet s (s'\<lparr>fdParent := snd (rooted pid (fdParent s))\<rparr>)"
  by (auto simp: quiet_def fun_eq_iff)

lemma quiet_bookkeeping [quiet]:
  "quiet s s' \<Longrightarrow> quiet s (s'\<lparr>pendingFdDetach := a\<rparr>)"
  "quiet s s' \<Longrightarrow> quiet s (s'\<lparr>pendingFdTombstones := b\<rparr>)"
  "quiet s s' \<Longrightarrow> quiet s (s'\<lparr>postMarkerFdReuses := c\<rparr>)"
  by (auto simp: quiet_def)

lemma quiet_reuse [quiet]: "quiet s (recordPostMarkerFdReuse pid fd s)"
  by (auto simp: recordPostMarkerFdReuse_def rootedFd_pair Let_def intro!: quiet split: option.splits)

lemma quiet_close [quiet]: "quiet s (recordPostMarkerFdClose pid fd s)"
  by (auto simp: recordPostMarkerFdClose_def rootedFd_pair Let_def intro!: quiet split: option.splits)

lemma quiet_range_close [quiet]: "quiet s (recordPostMarkerFdRangeClose pid lo hi s)"
  by (auto simp: recordPostMarkerFdRangeClose_def rootedFd_pair Let_def intro!: quiet split: option.splits)

lemma quiet_singleton [quiet]: "quiet s (snd (isFdSingleton pid s))"
  by (auto simp: isFdSingleton_def rootedFd_pair Let_def intro!: quiet)

lemma quiet_tombstone [quiet]: "quiet s (recordFdTombstone pid t s)"
proof -
  let ?s1 = "s\<lparr>fdParent := snd (rooted pid (fdParent s))\<rparr>"
  have "quiet s (snd (isFdSingleton pid ?s1))"
    by (rule quiet_trans [OF quiet_rooted quiet_singleton])
  then show ?thesis
    by (auto simp: recordFdTombstone_def rootedFd_pair Let_def case_prod_beta intro!: quiet split: option.splits)
qed

lemma quiet_absorb [quiet]: "quiet s (snd (absorbPendingTombstones pid snap s))"
  by (auto simp: absorbPendingTombstones_def intro!: quiet split: option.splits)

lemma quiet_cancel [quiet]: "quiet s (cancelPendingTombstonesForFd pid fd s)"
  by (auto simp: cancelPendingTombstonesForFd_def rootedFd_pair Let_def intro!: quiet split: option.splits)

lemma quiet_snapshot [quiet]: "quiet s (snd (snapshotFd pid a s))"
  by (auto simp: snapshotFd_def rootedFd_pair Let_def intro: quiet_trans [OF quiet_rooted quiet_absorb])

lemma quiet_append [quiet]: "quiet s (snd (appendFdAction pid a s))"
  using quiet_absorb [of s pid]
  by (auto simp: appendFdAction_def case_prod_beta intro!: quiet split: option.splits)

lemma quiet_marker [quiet]: "quiet s (snd (fd_marker pid a s))"
proof (cases "appendFdAction pid a s")
  case (Pair x s1)
  then have "quiet s s1" using quiet_append [of s pid a] by simp
  then show ?thesis
    using Pair quiet_snapshot [of s1 pid a] by (auto simp: fd_marker_def intro: quiet_trans split: option.splits)
qed

lemma quiet_marker_if_single [quiet]: "quiet s (snd (marker_if_single pid a s))"
proof -
  have "quiet s (snd (fd_marker pid a (snd (isFdSingleton pid s))))"
    by (rule quiet_trans [OF quiet_singleton quiet_marker])
  then show ?thesis by (auto simp: marker_if_single_def case_prod_beta Let_def intro: quiet)
qed

lemma quiet_set_marker [quiet]: "quiet s (set_marker pid snap s)"
  by (auto simp: set_marker_def intro!: quiet split: option.splits)

lemma quiet_get [quiet]: "quiet s (snd (fd_get pid fd s))"
  by (auto simp: fd_get_def rootedFd_pair intro!: quiet)

lemma quiet_fold [quiet]: "(\<And>x s. quiet s (f x s)) \<Longrightarrow> quiet s (fold f xs s)"
  by (induction xs arbitrary: s) (auto intro: quiet_trans)

text \<open>What a quiet step keeps.\<close>

lemma quiet_roots:
  assumes "quiet s s'" "forest (fdParent s)"
  shows "forest (fdParent s')" "find_root (fdParent s') = find_root (fdParent s)" "peers s' = peers s"
    "up (fdParent s') r = None \<longleftrightarrow> up (fdParent s) r = None"
proof -
  show f: "forest (fdParent s')" and r: "find_root (fdParent s') = find_root (fdParent s)"
    using assms by (auto simp: quiet_def)
  show "peers s' = peers s" by (simp add: peers_def fun_eq_iff r)
  show "up (fdParent s') r = None \<longleftrightarrow> up (fdParent s) r = None"
    using find_root_eq_self [OF f] find_root_eq_self [OF assms(2)] r by simp
qed

lemma quiet_look: "quiet s s' \<Longrightarrow> fd_look s' = fd_look s"
  by (simp add: quiet_def fd_look_def opaque_at_def fun_eq_iff)

lemma quiet_views:
  assumes "quiet s s'" "forest (fdParent s)"
  shows "fd_view s' = fd_view s" "fd_doubt s' = fd_doubt s" "fd_opaque s' = fd_opaque s"
  using fd_look_view [of s'] fd_look_view [of s] quiet_roots(2) [OF assms] quiet_look [OF assms(1)]
  by (simp_all add: fun_eq_iff)

lemma quiet_inv:
  assumes "quiet s s'" "fd_inv s"
  shows "fd_inv s'"
proof -
  have f: "forest (fdParent s)" using assms(2) by (simp add: fd_inv_def)
  have "dirfdTable s' = dirfdTable s" using assms(1) by (simp add: quiet_def)
  with assms(2) show ?thesis
    by (auto simp: fd_inv_def quiet_roots [OF assms(1) f] quiet_look [OF assms(1)])
qed


section \<open>Steps that act on the caller's group\<close>

type_synonym fd_sight = "(int \<Rightarrow> fd_entry option) \<times> bool \<times> int set"

definition fd_sees :: "fd_state \<Rightarrow> int \<Rightarrow> fd_sight" where
  "fd_sees s q = fd_look s (find_root (fdParent s) q)"

lemma fd_sees_eq: "fd_sees s q = (fd_view s q, fd_doubt s q, fd_opaque s q)"
  by (simp add: fd_sees_def fd_look_view)

text \<open>\<open>acts pid F s s'\<close>: the groups stay, the sight of \<open>pid\<close>'s group is transformed by \<open>F\<close>, no other
  process sees a change, and the invariant is kept.\<close>

definition acts :: "int \<Rightarrow> (fd_sight \<Rightarrow> fd_sight) \<Rightarrow> fd_state \<Rightarrow> fd_state \<Rightarrow> bool" where
  "acts pid F s s' \<longleftrightarrow>
     (fd_inv s \<longrightarrow> fd_inv s' \<and> find_root (fdParent s') = find_root (fdParent s) \<and>
        (flat_groups (fdParent s) \<longrightarrow> flat_groups (fdParent s')) \<and>
        (\<forall>q. fd_sees s' q = (if peers s pid q then F (fd_sees s q) else fd_sees s q)))"

named_theorems acts \<open>what the handlers do to the sight of the caller's group\<close>

lemma actsD:
  assumes "acts pid F s s'" "fd_inv s"
  shows "fd_inv s'" "find_root (fdParent s') = find_root (fdParent s)" "peers s' = peers s"
    "fd_sees s' q = (if peers s pid q then F (fd_sees s q) else fd_sees s q)"
    "flat_groups (fdParent s) \<Longrightarrow> flat_groups (fdParent s')"
  using assms by (auto simp: acts_def peers_def fun_eq_iff)

lemma acts_quiet: "quiet s s' \<Longrightarrow> acts pid (\<lambda>x. x) s s'"
  using quiet_inv [of s s'] quiet_roots(2) [of s s'] quiet_look [of s s']
  by (auto simp: acts_def fd_sees_def fd_inv_def quiet_def)

lemma acts_then:
  assumes "acts pid F s s'" "acts pid G s' s''"
  shows "acts pid (\<lambda>x. G (F x)) s s''"
  unfolding acts_def
proof
  assume inv: "fd_inv s"
  note 1 = actsD [OF assms(1) inv]
  note 2 = actsD [OF assms(2) 1(1)]
  show "fd_inv s'' \<and> find_root (fdParent s'') = find_root (fdParent s) \<and>
        (flat_groups (fdParent s) \<longrightarrow> flat_groups (fdParent s'')) \<and>
        (\<forall>q. fd_sees s'' q = (if peers s pid q then G (F (fd_sees s q)) else fd_sees s q))"
    using 1 2 by auto
qed

lemma acts_before: "quiet s s' \<Longrightarrow> acts pid F s' s'' \<Longrightarrow> acts pid F s s''"
  using acts_then [OF acts_quiet] .

lemma acts_after: "acts pid F s s' \<Longrightarrow> quiet s' s'' \<Longrightarrow> acts pid F s s''"
  using acts_then [OF _ acts_quiet] .

lemma acts_cong: "acts pid F s s' \<Longrightarrow> (\<And>x. x = fd_sees s pid \<Longrightarrow> F x = G x) \<Longrightarrow> acts pid G s s'"
  by (auto simp: acts_def peers_def fd_sees_def)

text \<open>The rule for the primitive steps: one root is written.\<close>

lemma acts_root:
  assumes "\<And>s. fdParent (f s) = fdParent s"
    and "\<And>s. map_wf (dirfdTable s) \<Longrightarrow> map_wf (dirfdTable (f s))"
    and "\<And>r. fd_look (f (s\<lparr>fdParent := snd (rooted pid (fdParent s))\<rparr>)) r =
             (if r = find_root (fdParent s) pid then F (fd_look s r) else fd_look s r)"
  shows "acts pid F s (f (s\<lparr>fdParent := snd (rooted pid (fdParent s))\<rparr>))"
  unfolding acts_def
proof
  let ?s1 = "s\<lparr>fdParent := snd (rooted pid (fdParent s))\<rparr>"
  assume inv: "fd_inv s"
  then have f: "forest (fdParent s)" and wf: "map_wf (dirfdTable s)" by (simp_all add: fd_inv_def)
  have root: "find_root (fdParent (f ?s1)) = find_root (fdParent s)"
    using f by (simp add: assms(1) fun_eq_iff)
  have "fd_inv (f ?s1)"
    unfolding fd_inv_def
  proof (intro conjI allI impI)
    show "forest (fdParent (f ?s1))" using f by (simp add: assms(1))
    show "map_wf (dirfdTable (f ?s1))" using wf by (intro assms(2)) simp
    fix r assume "up (fdParent (f ?s1)) r \<noteq> None"
    then have "up (fdParent s) r \<noteq> None" using up_rooted_Some [OF f] by (simp add: assms(1))
    with inv up_find_root [OF f, of pid] show "fd_look (f ?s1) r = (\<lambda>_. None, False, {})"
      by (auto simp: assms(3) fd_inv_def)
  qed
  moreover have "fd_sees (f ?s1) q = (if peers s pid q then F (fd_sees s q) else fd_sees s q)" for q
    by (auto simp: fd_sees_def root assms(3) peers_def)
  moreover have "flat_groups (fdParent s) \<longrightarrow> flat_groups (fdParent (f ?s1))" by (simp add: assms(1))
  ultimately show "fd_inv (f ?s1) \<and> find_root (fdParent (f ?s1)) = find_root (fdParent s) \<and>
      (flat_groups (fdParent s) \<longrightarrow> flat_groups (fdParent (f ?s1))) \<and>
      (\<forall>q. fd_sees (f ?s1) q = (if peers s pid q then F (fd_sees s q) else fd_sees s q))"
    using root by blast
qed

definition upd_view :: "((int \<Rightarrow> fd_entry option) \<Rightarrow> (int \<Rightarrow> fd_entry option)) \<Rightarrow> fd_sight \<Rightarrow> fd_sight" where
  "upd_view f = (\<lambda>(v, d, x). (f v, d, x))"

definition upd_opaque :: "(int set \<Rightarrow> int set) \<Rightarrow> fd_sight \<Rightarrow> fd_sight" where
  "upd_opaque f = (\<lambda>(v, d, x). (v, d, f x))"

definition set_doubt :: "fd_sight \<Rightarrow> fd_sight" where
  "set_doubt = (\<lambda>(v, d, x). (v, True, x))"

lemmas sight_defs = upd_view_def upd_opaque_def set_doubt_def

lemma acts_put [acts]: "acts pid (upd_view (\<lambda>v. v(fd \<mapsto> e))) s (fd_put pid fd e s)"
  unfolding fd_put_def rootedFd_pair Let_def prod.case
  by (rule acts_root [of "\<lambda>s'. s'\<lparr>dirfdTable := map_set (find_root (fdParent s) pid, fd) e (dirfdTable s')\<rparr>"])
    (auto simp: jm.wf_put fd_look_def opaque_at_def jm.get_put sight_defs fun_eq_iff)

lemma acts_del [acts]: "acts pid (upd_view (\<lambda>v. v(fd := None))) s (fd_del pid fd s)"
  unfolding fd_del_def rootedFd_pair Let_def prod.case
  by (rule acts_root [of "\<lambda>s'. s'\<lparr>dirfdTable := map_delete (find_root (fdParent s) pid, fd) (dirfdTable s')\<rparr>"])
    (auto simp: jm.wf_del fd_look_def opaque_at_def jm.get_del sight_defs fun_eq_iff)

lemma acts_unknown [acts]: "acts pid set_doubt s (fdUnknownAdd pid s)"
  unfolding fdUnknownAdd_def rootedFd_pair Let_def prod.case
  by (rule acts_root [of "\<lambda>s'. s'\<lparr>dirfdStateUnknown := insert (find_root (fdParent s) pid) (dirfdStateUnknown s')\<rparr>"])
    (auto simp: fd_look_def opaque_at_def sight_defs fun_eq_iff)

lemma acts_opaque [acts]: "acts pid (upd_opaque (insert fd)) s (recordOpaqueFdReuse pid fd s)"
  unfolding recordOpaqueFdReuse_def rootedFd_pair Let_def prod.case
  by (rule acts_root [of "\<lambda>s'. s'\<lparr>opaqueFdReuses :=
        map_set (find_root (fdParent s) pid) (insert fd (opaque_at s' (find_root (fdParent s) pid))) (opaqueFdReuses s')\<rparr>"])
    (auto simp: fd_look_def opaque_at_def jm.get_put sight_defs fun_eq_iff)

lemma opaque_at_put: "opaque_at (put_opaque root x s) r = (if r = root then x else opaque_at s r)"
  by (auto simp: put_opaque_def opaque_at_def jm.get_put jm.get_del)

lemma put_opaque_fields [simp]:
  "dirfdTable (put_opaque root x s) = dirfdTable s" "fdParent (put_opaque root x s) = fdParent s"
  "dirfdStateUnknown (put_opaque root x s) = dirfdStateUnknown s"
  by (simp_all add: put_opaque_def)

lemma acts_clear_set:
  "acts pid (upd_opaque (\<lambda>x. x - K)) s
     (let (root, s) = rootedFd pid s
      in case map_of (opaqueFdReuses s) root of None \<Rightarrow> s | Some x \<Rightarrow> put_opaque root (x - K) s)"
  unfolding rootedFd_pair Let_def prod.case
  by (rule acts_root [of "\<lambda>s'. case map_of (opaqueFdReuses s') (find_root (fdParent s) pid) of
        None \<Rightarrow> s' | Some x \<Rightarrow> put_opaque (find_root (fdParent s) pid) (x - K) s'"])
    (auto simp: fd_look_def opaque_at_put sight_defs fun_eq_iff split: option.splits,
      auto simp: opaque_at_def)

lemma acts_clear [acts]: "acts pid (upd_opaque (\<lambda>x. x - {fd})) s (clearOpaqueFdReuse pid fd s)"
  unfolding clearOpaqueFdReuse_def by (rule acts_clear_set)

lemma acts_clear_range [acts]: "acts pid (upd_opaque (\<lambda>x. x - {lo..hi})) s (clearOpaqueFdRange pid lo hi s)"
  unfolding clearOpaqueFdRange_def by (rule acts_clear_set)

text \<open>The sweep over a range.\<close>

definition swept :: "int \<Rightarrow> int \<Rightarrow> bool \<Rightarrow> (int \<Rightarrow> fd_entry option) \<Rightarrow> int \<Rightarrow> fd_entry option" where
  "swept lo hi c v n =
     (if lo \<le> n \<and> n \<le> hi then (if c then map_option (\<lambda>e. e\<lparr>fe_cloexec := True\<rparr>) (v n) else None) else v n)"

lemma map_of_map_values: "map_of (map (\<lambda>(k, e). (k, g k e)) m) k = map_option (g k) (map_of m k)"
  by (induction m) auto

lemma map_wf_map_values: "map_wf m \<Longrightarrow> map_wf (map (\<lambda>(k, e). (k, g k e)) m)"
  by (simp add: map_wf_def case_prod_beta comp_def)

lemma map_of_sweep:
  "map_of (sweep_range root lo hi c tbl) (r, fd) =
     (if r = root then swept lo hi c (\<lambda>n. map_of tbl (r, n)) fd else map_of tbl (r, fd))"
  by (cases "map_of tbl (r, fd)"; cases c)
    (auto simp: sweep_range_def swept_def map_of_filter_keys
      map_of_map_values [of "\<lambda>k e. if fst k = root \<and> lo \<le> snd k \<and> snd k \<le> hi then e\<lparr>fe_cloexec := True\<rparr> else e"])

lemma map_wf_sweep: "map_wf tbl \<Longrightarrow> map_wf (sweep_range root lo hi c tbl)"
  by (simp add: sweep_range_def map_wf_filter
      map_wf_map_values [of _ "\<lambda>k e. if fst k = root \<and> lo \<le> snd k \<and> snd k \<le> hi then e\<lparr>fe_cloexec := True\<rparr> else e"])

lemma acts_sweep [acts]: "acts pid (upd_view (swept lo hi c)) s (fd_sweep pid lo hi c s)"
  unfolding fd_sweep_def rootedFd_pair Let_def prod.case
  by (rule acts_root [of "\<lambda>s'. s'\<lparr>dirfdTable := sweep_range (find_root (fdParent s) pid) lo hi c (dirfdTable s')\<rparr>"])
    (auto simp: map_wf_sweep fd_look_def opaque_at_def map_of_sweep sight_defs fun_eq_iff)


section \<open>The handlers\<close>

lemma acts_known: "acts pid (\<lambda>(v, d, x). (v(fd \<mapsto> e), d, x - {fd})) s (fd_known pid fd e s)"
  unfolding fd_known_def
  by (rule acts_cong, rule acts_then, rule acts_after, rule acts_after, rule acts_put, rule quiet_cancel,
      rule quiet_reuse, rule acts_clear)
    (simp add: sight_defs case_prod_beta)

lemma acts_unresolved: "acts pid (\<lambda>(v, d, x). (v, d, insert fd x)) s (fd_unresolved pid fd s)"
  unfolding fd_unresolved_def
  by (rule acts_cong, rule acts_before, rule quiet_trans, rule quiet_cancel, rule quiet_reuse, rule acts_opaque)
    (simp add: sight_defs)

lemma acts_opened [acts]:
  "acts pid (\<lambda>(v, d, x). case target of
       Some p \<Rightarrow> (v(fd \<mapsto> \<lparr>fe_path = p, fe_cloexec = c\<rparr>), d, x - {fd})
     | None \<Rightarrow> (v(fd := None), d, insert fd x)) s (fd_opened pid fd target c s)"
proof (cases target)
  case None
  show ?thesis unfolding fd_opened_def None option.case
    by (rule acts_cong, rule acts_then, rule acts_del, rule acts_unresolved) (simp add: sight_defs case_prod_beta)
next
  case (Some p)
  show ?thesis unfolding fd_opened_def Some option.case by (rule acts_known)
qed

lemma fd_get_fst: "fst (fd_get pid fd s) = fd_view s pid fd"
  by (simp add: fd_get_def rootedFd_pair Let_def fd_view_def)

lemma acts_dup [acts]:
  "acts pid (\<lambda>(v, d, x). case v oldFd of
       Some e \<Rightarrow> (v(newFd \<mapsto> \<lparr>fe_path = fe_path e, fe_cloexec = c\<rparr>), d, x - {newFd})
     | None \<Rightarrow> (v(newFd := None), True, insert newFd x)) s (fd_dup pid oldFd newFd c s)"
proof (cases "fd_view s pid oldFd")
  case None
  have "acts pid (\<lambda>(v, d, x). (v(newFd := None), True, insert newFd x)) s
      (fd_unresolved pid newFd (fdUnknownAdd pid (fd_del pid newFd (snd (fd_get pid oldFd s)))))"
    by (rule acts_cong, rule acts_then, rule acts_then, rule acts_before, rule quiet_get, rule acts_del,
        rule acts_unknown, rule acts_unresolved) (simp add: sight_defs case_prod_beta)
  then have "acts pid (\<lambda>(v, d, x). (v(newFd := None), True, insert newFd x)) s (fd_dup pid oldFd newFd c s)"
    using None fd_get_fst [of pid oldFd s] by (simp add: fd_dup_def case_prod_beta Let_def)
  then show ?thesis by (rule acts_cong) (simp add: fd_sees_eq None)
next
  case (Some e)
  have "acts pid (\<lambda>(v, d, x). (v(newFd \<mapsto> \<lparr>fe_path = fe_path e, fe_cloexec = c\<rparr>), d, x - {newFd})) s
      (fd_known pid newFd \<lparr>fe_path = fe_path e, fe_cloexec = c\<rparr> (snd (fd_get pid oldFd s)))"
    by (rule acts_before [OF quiet_get acts_known])
  then have "acts pid (\<lambda>(v, d, x). (v(newFd \<mapsto> \<lparr>fe_path = fe_path e, fe_cloexec = c\<rparr>), d, x - {newFd})) s
      (fd_dup pid oldFd newFd c s)"
    using Some fd_get_fst [of pid oldFd s] by (simp add: fd_dup_def case_prod_beta Let_def)
  then show ?thesis by (rule acts_cong) (simp add: fd_sees_eq Some)
qed

lemma acts_close [acts]:
  "acts pid (\<lambda>(v, d, x). (v(fd := None), d, if rc = 0 then x - {fd} else x)) s (fd_close pid fd rc s)"
proof (cases "rc = 0")
  case True
  let ?s1 = "snd (fd_get pid fd s)"
  let ?s2 = "if fst (fd_get pid fd s) = None then recordFdTombstone pid (TombClose fd) ?s1 else ?s1"
  have "quiet s ?s2"
    using quiet_trans [OF quiet_get [of s pid fd] quiet_tombstone] quiet_get [of s pid fd] by simp
  then have q: "quiet s (recordPostMarkerFdClose pid fd ?s2)" by (rule quiet_trans [OF _ quiet_close])
  have "acts pid (\<lambda>(v, d, x). (v(fd := None), d, x - {fd})) s
      (fd_del pid fd (clearOpaqueFdReuse pid fd (recordPostMarkerFdClose pid fd ?s2)))"
    by (rule acts_cong, rule acts_then, rule acts_before, rule q, rule acts_clear, rule acts_del)
      (simp add: sight_defs case_prod_beta)
  then show ?thesis using True by (simp add: fd_close_def case_prod_beta Let_def)
next
  case False
  show ?thesis unfolding fd_close_def Let_def if_not_P [OF False]
    by (rule acts_cong [OF acts_del]) (simp add: sight_defs)
qed

lemma acts_range_done: "acts pid (\<lambda>(v, d, x). (v, d, if c then x else x - {lo..hi})) s (closeRange_done pid lo hi c s)"
proof (cases c)
  case True
  then show ?thesis using acts_quiet [OF quiet_refl, of pid s] by (auto simp: closeRange_done_def elim: acts_cong)
next
  case False
  show ?thesis unfolding closeRange_done_def if_not_P [OF False]
    by (rule acts_cong, rule acts_before, rule quiet_range_close, rule acts_clear_range) (simp add: sight_defs)
qed

lemma acts_close_range [acts]:
  "acts pid (\<lambda>(v, d, x). (swept lo hi c v, d, if c then x else x - {lo..hi})) s (fd_close_range pid lo hi False c s)"
  unfolding fd_close_range_def if_False
  by (rule acts_cong, rule acts_then, rule acts_after, rule acts_sweep, rule quiet_tombstone, rule acts_range_done)
    (simp add: sight_defs case_prod_beta)

lemma acts_setfd [acts]:
  "acts pid (\<lambda>(v, d, x). case nc of
       None \<Rightarrow> (v, True, x)
     | Some c \<Rightarrow> (v(fd := map_option (\<lambda>e. e\<lparr>fe_cloexec := c\<rparr>) (v fd)), d, x)) s (fd_setfd pid fd nc s)"
proof (cases nc)
  case None
  have "acts pid set_doubt s (fdUnknownAdd pid (snd (fd_get pid fd s)))"
    by (rule acts_before [OF quiet_get acts_unknown])
  then show ?thesis using None by (auto simp: fd_setfd_def case_prod_beta Let_def sight_defs elim: acts_cong)
next
  case (Some c)
  show ?thesis
  proof (cases "fd_view s pid fd")
    case None
    have "quiet s (fd_setfd pid fd nc s)"
      using None Some fd_get_fst [of pid fd s] quiet_get [of s pid fd] quiet_tombstone
      by (auto simp: fd_setfd_def case_prod_beta Let_def intro: quiet_trans)
    from acts_quiet [OF this, of pid] show ?thesis
      by (rule acts_cong) (use None Some in \<open>auto simp: fd_sees_eq fun_eq_iff\<close>)
  next
    case e: (Some e)
    have "acts pid (upd_view (\<lambda>v. v(fd \<mapsto> e\<lparr>fe_cloexec := c\<rparr>))) s
        (fd_put pid fd (e\<lparr>fe_cloexec := c\<rparr>) (snd (fd_get pid fd s)))"
      by (rule acts_before [OF quiet_get acts_put])
    moreover have "fd_setfd pid fd nc s = fd_put pid fd (e\<lparr>fe_cloexec := c\<rparr>) (snd (fd_get pid fd s))"
      using e Some fd_get_fst [of pid fd s] by (simp add: fd_setfd_def case_prod_beta Let_def)
    ultimately have "acts pid (upd_view (\<lambda>v. v(fd \<mapsto> e\<lparr>fe_cloexec := c\<rparr>))) s (fd_setfd pid fd nc s)" by simp
    then show ?thesis by (rule acts_cong) (use e Some in \<open>auto simp: fd_sees_eq sight_defs fun_eq_iff\<close>)
  qed
qed


section \<open>Steps that leave the group first\<close>

text \<open>Who is with whom after \<^verbatim>\<open>detachFdGroup\<close>: when the groups are flat, and only then, nobody else
  leaves with the process.\<close>

lemma detach_roots:
  assumes inv: "fd_inv s" and flat: "flat_groups (fdParent s)"
  shows "peers (detachFdGroup pid s) p q \<longleftrightarrow> p = q \<or> p \<noteq> pid \<and> q \<noteq> pid \<and> peers s p q"
    and "flat_groups (fdParent (detachFdGroup pid s))"
proof -
  have f: "forest (fdParent s)" using inv by (simp add: fd_inv_def)
  let ?d = "detachFdGroup pid s"
  have "(peers ?d p q \<longleftrightarrow> p = q \<or> p \<noteq> pid \<and> q \<noteq> pid \<and> peers s p q) \<and> flat_groups (fdParent ?d)"
    using inv
  proof (cases rule: detach_cases [of s pid])
    case member
    let ?par = "snd (rooted pid (fdParent s))"
    have f1: "forest ?par" using f by simp
    have p: "fdParent ?d = map_delete pid ?par" by (rule detach_member_look [OF inv refl member])
    have rel: "up_rel ?par = up_rel (fdParent s)" by (simp add: up_rel_def up_rooted_flat [OF flat])
    have "find_root (fdParent s) x \<noteq> pid" for x using member f by (metis find_root_idem)
    moreover from this have root: "find_root (fdParent ?d) x = (if x = pid then pid else find_root (fdParent s) x)" for x
      using f flat_below_iff [OF flat, of pid x] by (auto simp: p find_root_delete [OF f1] rel)
    ultimately have "peers ?d p q \<longleftrightarrow> p = q \<or> p \<noteq> pid \<and> q \<noteq> pid \<and> peers s p q"
      by (auto simp: peers_def root)
    moreover have "flat_groups (fdParent ?d)" using flat by (simp add: p flat_delete)
    ultimately show ?thesis by blast
  next
    case root
    note hd = hd_other_members [OF f root]
    note r = find_root_promote [OF f root(1) refl root(2)]
    have p: "fdParent ?d = promote (other_members pid (fdParent s)) (fdParent s)"
      by (rule detach_root_look [OF inv root(1) refl root(2)])
    have self: "find_root (fdParent s) pid = pid" by (rule find_root_root [OF f root(1)])
    have nhd: "find_root (fdParent s) x \<noteq> hd (other_members pid (fdParent s))" for x
      using hd f by (metis find_root_idem)
    have "peers ?d p q \<longleftrightarrow> p = q \<or> p \<noteq> pid \<and> q \<noteq> pid \<and> peers s p q"
      using nhd [of p] nhd [of q] nhd [of pid] self by (auto simp: peers_def p r)
    moreover have "flat_groups (fdParent ?d)" unfolding p by (rule flat_promote [OF flat root(1)])
    ultimately show ?thesis by blast
  next
    case alone
    then have d: "?d = s" by (rule detach_alone [OF inv])
    have "find_root (fdParent s) pid = pid" by (rule find_root_root [OF f alone(1)])
    moreover have "find_root (fdParent s) x \<noteq> pid" if "x \<noteq> pid" for x
      using alone(2) set_other_members [OF f alone(1), of x] that by auto
    ultimately have "\<not> peers s pid x" "\<not> peers s x pid" if "x \<noteq> pid" for x
      using that by (simp_all add: peers_def) metis
    then show ?thesis using flat by (cases "p = pid"; cases "q = pid") (auto simp: d peers_def)
  qed
  then show "peers ?d p q \<longleftrightarrow> p = q \<or> p \<noteq> pid \<and> q \<noteq> pid \<and> peers s p q" "flat_groups (fdParent ?d)"
    by blast+
qed

text \<open>\<open>splits pid F s s'\<close>: the caller leaves its group and its own sight alone is transformed.\<close>

definition splits :: "int \<Rightarrow> (fd_sight \<Rightarrow> fd_sight) \<Rightarrow> fd_state \<Rightarrow> fd_state \<Rightarrow> bool" where
  "splits pid F s s' \<longleftrightarrow>
     (fd_inv s \<and> flat_groups (fdParent s) \<longrightarrow> fd_inv s' \<and> flat_groups (fdParent s') \<and>
        (\<forall>p q. peers s' p q \<longleftrightarrow> p = q \<or> p \<noteq> pid \<and> q \<noteq> pid \<and> peers s p q) \<and>
        (\<forall>q. fd_sees s' q = (if q = pid then F (fd_sees s q) else fd_sees s q)))"

lemma splits_detach: "splits pid (\<lambda>x. x) s (detachFdGroup pid s)"
  using detach_view [of s pid] detach_roots [of s pid] by (auto simp: splits_def fd_sees_eq)

lemma splits_before: "quiet s s' \<Longrightarrow> splits pid F s' s'' \<Longrightarrow> splits pid F s s''"
  using quiet_inv [of s s'] quiet_roots(2,3) [of s s'] quiet_look [of s s']
  by (auto simp: splits_def quiet_def fd_inv_def fd_sees_def)

lemma splits_then:
  assumes "splits pid F s s'" "acts pid G s' s''"
  shows "splits pid (\<lambda>x. G (F x)) s s''"
  unfolding splits_def
proof
  assume "fd_inv s \<and> flat_groups (fdParent s)"
  with assms(1) have 1: "fd_inv s'" "flat_groups (fdParent s')"
    "\<And>p q. peers s' p q \<longleftrightarrow> p = q \<or> p \<noteq> pid \<and> q \<noteq> pid \<and> peers s p q"
    "\<And>q. fd_sees s' q = (if q = pid then F (fd_sees s q) else fd_sees s q)"
    by (auto simp: splits_def)
  note 2 = actsD [OF assms(2) 1(1)]
  show "fd_inv s'' \<and> flat_groups (fdParent s'') \<and>
        (\<forall>p q. peers s'' p q \<longleftrightarrow> p = q \<or> p \<noteq> pid \<and> q \<noteq> pid \<and> peers s p q) \<and>
        (\<forall>q. fd_sees s'' q = (if q = pid then G (F (fd_sees s q)) else fd_sees s q))"
    using 1 2 by auto
qed

lemma splits_cong: "splits pid F s s' \<Longrightarrow> (\<And>x. F x = G x) \<Longrightarrow> splits pid G s s'"
  by (auto simp: splits_def)

lemma splits_unshare: "splits pid (\<lambda>x. x) s (fd_unshare pid s)"
proof -
  have "splits pid (\<lambda>x. x) s (detachFdGroup pid (snd (fd_marker pid ActNone s)))"
    by (rule splits_before [OF quiet_marker splits_detach])
  from splits_then [OF this acts_quiet [OF quiet_set_marker]] show ?thesis
    by (simp add: fd_unshare_def case_prod_beta Let_def)
qed

lemma splits_close_range:
  "splits pid (\<lambda>(v, d, x). (swept lo hi c v, d, if c then x else x - {lo..hi})) s (fd_close_range pid lo hi True c s)"
proof -
  let ?m = "marker_if_single pid (ActCloseRange lo hi c) s"
  let ?s1 = "set_marker pid (fst ?m) (fd_sweep pid lo hi c (detachFdGroup pid (snd ?m)))"
  have "splits pid (\<lambda>x. x) s (detachFdGroup pid (snd ?m))"
    by (rule splits_before [OF quiet_marker_if_single splits_detach])
  then have "splits pid (upd_view (swept lo hi c)) s ?s1"
    by (rule splits_then [OF splits_then acts_quiet, OF _ acts_sweep quiet_set_marker])
  then have "splits pid (\<lambda>x. case upd_view (swept lo hi c) x of (v, d, x) \<Rightarrow> (v, d, if c then x else x - {lo..hi}))
      s (closeRange_done pid lo hi c ?s1)"
    by (rule splits_then [OF _ acts_range_done])
  moreover have "closeRange_done pid lo hi c ?s1 = fd_close_range pid lo hi True c s"
    by (simp add: fd_close_range_def case_prod_beta Let_def)
  ultimately show ?thesis by (auto simp: sight_defs case_prod_beta elim!: splits_cong)
qed

text \<open>Exec drops the close-on-exec entries of the private copy.\<close>

definition exec_keeps :: "(int \<Rightarrow> fd_entry option) \<Rightarrow> int \<Rightarrow> fd_entry option" where
  "exec_keeps v fd = (case v fd of None \<Rightarrow> None | Some e \<Rightarrow> if fe_cloexec e then None else Some e)"

lemma map_of_filter_val:
  "map_wf m \<Longrightarrow> map_of (filter (\<lambda>(k, e). P k e) m) k =
     (case map_of m k of None \<Rightarrow> None | Some e \<Rightarrow> if P k e then Some e else None)"
proof (induction m)
  case (Cons x m)
  obtain a b where x: "x = (a, b)" by (cases x)
  from Cons.prems x have "map_of m a = None" "map_wf m" by (auto simp: map_wf_def map_of_eq_None_iff)
  then show ?case using Cons.IH x by (auto split: option.splits)
qed simp

lemma acts_exec_drop:
  "acts pid (upd_view exec_keeps) s
     (let (root, s) = rootedFd pid s
      in s\<lparr>dirfdTable := filter (\<lambda>(k, e). \<not> (fst k = root \<and> fe_cloexec e)) (dirfdTable s)\<rparr>)"
proof (cases "map_wf (dirfdTable s)")
  case True
  show ?thesis
  unfolding rootedFd_pair Let_def prod.case
  by (rule acts_root [of "\<lambda>s'. s'\<lparr>dirfdTable :=
        filter (\<lambda>(k, e). \<not> (fst k = find_root (fdParent s) pid \<and> fe_cloexec e)) (dirfdTable s')\<rparr>"])
    (use True in \<open>auto simp: map_wf_filter fd_look_def opaque_at_def sight_defs exec_keeps_def fun_eq_iff
       map_of_filter_val [of _ "\<lambda>k e. fst k = find_root (fdParent s) pid \<longrightarrow> \<not> fe_cloexec e"] split: option.splits\<close>)
next
  case False
  then show ?thesis by (simp add: acts_def fd_inv_def)
qed

lemma splits_exec: "splits pid (upd_view exec_keeps) s (fd_exec pid s)"
proof -
  let ?m = "marker_if_single pid (ActExecveCloexec {}) s"
  let ?d = "detachFdGroup pid (snd ?m)"
  let ?drop = "\<lambda>s. let (root, s) = rootedFd pid s
      in s\<lparr>dirfdTable := filter (\<lambda>(k, e). \<not> (fst k = root \<and> fe_cloexec e)) (dirfdTable s)\<rparr>"
  define gone where "gone = map fst (filter (\<lambda>(_, e). fe_cloexec e) (group_fds (fst (rootedFd pid ?d)) (dirfdTable ?d)))"
  have "splits pid (\<lambda>x. x) s ?d"
    by (rule splits_before [OF quiet_marker_if_single splits_detach])
  then have "splits pid (upd_view exec_keeps) s (?drop ?d)"
    by (rule splits_then [OF _ acts_exec_drop])
  then have "splits pid (upd_view exec_keeps) s (set_marker pid (fst ?m) (fold (recordPostMarkerFdClose pid) gone (?drop ?d)))"
    by (rule splits_then [OF splits_then acts_quiet, OF _ acts_quiet quiet_set_marker, OF _ quiet_fold]) (rule quiet_close)
  moreover have "set_marker pid (fst ?m) (fold (recordPostMarkerFdClose pid) gone (?drop ?d)) = fd_exec pid s"
    by (simp add: fd_exec_def gone_def rootedFd_pair case_prod_beta Let_def)
  ultimately show ?thesis by simp
qed

end
