(* ===== verification/FdFrames.thy ===== *)
theory FdFrames
  imports FdViews
begin

text \<open>
  Which bookkeeping a handler may write: the pending markers, the buckets of early closes and the
  lifecycles are only touched under the caller's pid and under its group's root. So a process that
  has not been heard of stays without any history.
\<close>

section \<open>The history kept for a process\<close>

type_synonym fd_book = "fd_snapshot option \<times> fd_tombstone list option \<times> (int, fd_life) js_map option"

definition fd_book :: "fd_state \<Rightarrow> int \<Rightarrow> fd_book" where
  "fd_book s c = (map_of (pendingFdDetach s) c, map_of (pendingFdTombstones s) c, map_of (postMarkerFdReuses s) c)"

definition frames :: "int \<Rightarrow> fd_state \<Rightarrow> fd_state \<Rightarrow> bool" where
  "frames pid s s' \<longleftrightarrow>
     (forest (fdParent s) \<longrightarrow> forest (fdParent s') \<and>
        find_root (fdParent s') pid \<in> {pid, find_root (fdParent s) pid} \<and>
        (\<forall>c. c \<notin> {pid, find_root (fdParent s) pid} \<longrightarrow> fd_book s' c = fd_book s c))"

named_theorems frames \<open>steps that write the caller's history only\<close>

lemma frames_refl [frames]: "frames pid s s"
  by (simp add: frames_def)

lemma frames_trans: "frames pid s t \<Longrightarrow> frames pid t u \<Longrightarrow> frames pid s u"
  by (auto simp: frames_def)

lemma frames_rooted [frames]: "frames pid s (s\<lparr>fdParent := snd (rooted q (fdParent s))\<rparr>)"
  by (simp add: frames_def fd_book_def)

lemma frames_same:
  "fdParent s' = fdParent s \<Longrightarrow> pendingFdDetach s' = pendingFdDetach s \<Longrightarrow>
   pendingFdTombstones s' = pendingFdTombstones s \<Longrightarrow> postMarkerFdReuses s' = postMarkerFdReuses s \<Longrightarrow>
   frames pid s s'"
  by (simp add: frames_def fd_book_def)

lemma frames_upd [simp]:
  "frames pid s (s'\<lparr>dirfdTable := a\<rparr>) \<longleftrightarrow> frames pid s s'"
  "frames pid s (s'\<lparr>dirfdStateUnknown := b\<rparr>) \<longleftrightarrow> frames pid s s'"
  "frames pid s (s'\<lparr>opaqueFdReuses := c\<rparr>) \<longleftrightarrow> frames pid s s'"
  by (simp_all add: frames_def fd_book_def)

lemma frames_write:
  "frames pid s s' \<Longrightarrow> r = find_root (fdParent s) pid \<or> r = pid \<Longrightarrow>
     frames pid s (s'\<lparr>pendingFdDetach := map_set r a (pendingFdDetach s')\<rparr>)"
  "frames pid s s' \<Longrightarrow> r = find_root (fdParent s) pid \<or> r = pid \<Longrightarrow>
     frames pid s (s'\<lparr>pendingFdTombstones := map_set r b (pendingFdTombstones s')\<rparr>)"
  "frames pid s s' \<Longrightarrow> r = find_root (fdParent s) pid \<or> r = pid \<Longrightarrow>
     frames pid s (s'\<lparr>pendingFdTombstones := map_delete r (pendingFdTombstones s')\<rparr>)"
  "frames pid s s' \<Longrightarrow> r = find_root (fdParent s) pid \<or> r = pid \<Longrightarrow>
     frames pid s (s'\<lparr>postMarkerFdReuses := map_set r c (postMarkerFdReuses s')\<rparr>)"
  by (auto simp: frames_def fd_book_def jm.get_put jm.get_del)

lemmas frames_intro = frames_write frames_rooted frames_refl

lemma frames_reuse [frames]: "frames pid s (recordPostMarkerFdReuse pid fd s)"
  by (auto simp: recordPostMarkerFdReuse_def rootedFd_pair Let_def frames_def fd_book_def jm.get_put split: option.splits)

lemma frames_close [frames]: "frames pid s (recordPostMarkerFdClose pid fd s)"
  by (auto simp: recordPostMarkerFdClose_def rootedFd_pair Let_def frames_def fd_book_def jm.get_put split: option.splits)

lemma frames_range_close [frames]: "frames pid s (recordPostMarkerFdRangeClose pid lo hi s)"
  by (auto simp: recordPostMarkerFdRangeClose_def rootedFd_pair Let_def frames_def fd_book_def jm.get_put split: option.splits)

lemma frames_singleton [frames]: "frames pid s (snd (isFdSingleton pid s))"
  by (auto simp: isFdSingleton_def rootedFd_pair Let_def intro!: frames)

lemma frames_tombstone [frames]: "frames pid s (recordFdTombstone pid t s)"
  by (auto simp: recordFdTombstone_def isFdSingleton_def rootedFd_pair Let_def frames_def fd_book_def jm.get_put
      split: option.splits)

lemma frames_absorb [frames]: "frames pid s (snd (absorbPendingTombstones pid snap s))"
  by (auto simp: absorbPendingTombstones_def intro!: frames_intro split: option.splits)

lemma frames_cancel [frames]: "frames pid s (cancelPendingTombstonesForFd pid fd s)"
  by (auto simp: cancelPendingTombstonesForFd_def rootedFd_pair Let_def frames_def fd_book_def jm.get_put jm.get_del
      split: option.splits)

lemma frames_snapshot [frames]: "frames pid s (snd (snapshotFd pid a s))"
  unfolding snapshotFd_def rootedFd_pair Let_def prod.case by (rule frames_trans [OF frames_rooted frames_absorb])

lemma frames_set_marker [frames]: "frames pid s (set_marker pid snap s)"
  by (auto simp: set_marker_def intro!: frames_intro split: option.splits)

lemma frames_append [frames]: "frames pid s (snd (appendFdAction pid a s))"
proof (cases "map_of (pendingFdDetach s) pid")
  case None
  then show ?thesis by (simp add: appendFdAction_def frames_refl)
next
  case (Some snap)
  let ?a = "absorbPendingTombstones pid (push_log (LogAction a) snap) s"
  have "frames pid s (set_marker pid (Some (fst ?a)) (snd ?a))"
    by (rule frames_trans [OF frames_absorb frames_set_marker])
  then show ?thesis by (simp add: appendFdAction_def Some case_prod_beta Let_def set_marker_def)
qed

lemma frames_marker [frames]: "frames pid s (snd (fd_marker pid a s))"
proof -
  let ?r = "appendFdAction pid a s"
  have "frames pid s (snd ?r)" "frames pid s (snd (snapshotFd pid a (snd ?r)))"
    using frames_append frames_trans [OF frames_append frames_snapshot] by blast+
  then show ?thesis by (cases ?r; cases "fst ?r") (auto simp: fd_marker_def)
qed

lemma frames_marker_if_single [frames]: "frames pid s (snd (marker_if_single pid a s))"
  using frames_singleton [of pid s] frames_trans [OF frames_singleton frames_marker]
  by (auto simp: marker_if_single_def case_prod_beta Let_def)

lemma frames_get [frames]: "frames pid s (snd (fd_get pid fd s))"
  by (auto simp: fd_get_def rootedFd_pair Let_def intro!: frames)

lemma frames_put [frames]: "frames pid s (fd_put pid fd e s)"
  by (auto simp: fd_put_def rootedFd_pair Let_def intro!: frames)

lemma frames_del [frames]: "frames pid s (fd_del pid fd s)"
  by (auto simp: fd_del_def rootedFd_pair Let_def intro!: frames)

lemma frames_unknown [frames]: "frames pid s (fdUnknownAdd pid s)"
  by (auto simp: fdUnknownAdd_def rootedFd_pair Let_def intro!: frames)

lemma frames_opaque [frames]: "frames pid s (recordOpaqueFdReuse pid fd s)"
  by (auto simp: recordOpaqueFdReuse_def rootedFd_pair Let_def intro!: frames)

lemma frames_clear [frames]: "frames pid s (clearOpaqueFdReuse pid fd s)"
  by (auto simp: clearOpaqueFdReuse_def put_opaque_def rootedFd_pair Let_def intro!: frames split: option.splits)

lemma frames_clear_range [frames]: "frames pid s (clearOpaqueFdRange pid lo hi s)"
  by (auto simp: clearOpaqueFdRange_def put_opaque_def rootedFd_pair Let_def intro!: frames split: option.splits)

lemma frames_sweep [frames]: "frames pid s (fd_sweep pid lo hi c s)"
  by (auto simp: fd_sweep_def rootedFd_pair Let_def intro!: frames)

lemma frames_fold: "(\<And>x s. frames pid s (f x s)) \<Longrightarrow> frames pid s (fold f xs s)"
proof (induction xs arbitrary: s)
  case (Cons x xs)
  then show ?case using frames_trans [of pid s "f x s"] by simp
qed (simp add: frames_refl)

text \<open>Leaving writes no history at all.\<close>

lemma detach_book: "fd_book (detachFdGroup pid s) c = fd_book s c"
  by (simp add: detachFdGroup_def rootedFd_pair Let_def member_leaves_def root_leaves_def fd_book_def)

lemma frames_detach [frames]: "frames pid s (detachFdGroup pid s)"
  unfolding frames_def
proof (intro impI conjI allI)
  let ?par = "snd (rooted pid (fdParent s))" and ?root = "find_root (fdParent s) pid"
  assume "forest (fdParent s)"
  then have f: "forest ?par" and r: "find_root ?par = find_root (fdParent s)" by (simp_all add: fun_eq_iff)
  have p: "fdParent (detachFdGroup pid s) =
      (if ?root \<noteq> pid then map_delete pid ?par
       else if other_members pid ?par = [] then ?par else promote (other_members pid ?par) ?par)"
    by (simp add: detachFdGroup_def rootedFd_pair Let_def member_leaves_def root_leaves_def)
  have up: "up ?par pid = None" if "?root = pid" using that find_root_eq_self [OF f, of pid] by (simp add: r)
  show "forest (fdParent (detachFdGroup pid s))"
    using f forest_delete [OF f] forest_promote [OF f up refl] by (auto simp: p)
  show "find_root (fdParent (detachFdGroup pid s)) pid \<in> {pid, ?root}"
    using find_root_promote [OF f up refl, of pid] by (auto simp: p find_root_delete [OF f] r)
qed (simp add: detach_book)


section \<open>The handlers\<close>

lemma frames_known [frames]: "frames pid s (fd_known pid fd e s)"
  unfolding fd_known_def
  by (rule frames_trans [OF frames_trans [OF frames_trans [OF frames_put frames_cancel] frames_reuse] frames_clear])

lemma frames_unresolved [frames]: "frames pid s (fd_unresolved pid fd s)"
  unfolding fd_unresolved_def
  by (rule frames_trans [OF frames_trans [OF frames_cancel frames_reuse] frames_opaque])

lemma frames_opened [frames]: "frames pid s (fd_opened pid fd target c s)"
  using frames_known frames_trans [OF frames_del frames_unresolved] by (auto simp: fd_opened_def split: option.splits)

lemma frames_dup [frames]: "frames pid s (fd_dup pid oldFd newFd c s)"
proof -
  let ?s1 = "snd (fd_get pid oldFd s)"
  have "frames pid s (fd_known pid newFd e ?s1)" for e
    by (rule frames_trans [OF frames_get frames_known])
  moreover have "frames pid s (fd_unresolved pid newFd (fdUnknownAdd pid (fd_del pid newFd ?s1)))"
    by (rule frames_trans [OF frames_trans [OF frames_trans [OF frames_get frames_del] frames_unknown] frames_unresolved])
  ultimately show ?thesis by (auto simp: fd_dup_def case_prod_beta Let_def split: option.splits)
qed

lemma frames_close_fd [frames]: "frames pid s (fd_close pid fd rc s)"
proof -
  let ?s1 = "snd (fd_get pid fd s)"
  let ?s2 = "if fst (fd_get pid fd s) = None then recordFdTombstone pid (TombClose fd) ?s1 else ?s1"
  have "frames pid s ?s2"
    using frames_get frames_trans [OF frames_get frames_tombstone] by auto
  then have "frames pid s (clearOpaqueFdReuse pid fd (recordPostMarkerFdClose pid fd ?s2))"
    by (rule frames_trans [OF frames_trans [OF _ frames_close] frames_clear])
  then show ?thesis
    by (auto simp: fd_close_def case_prod_beta Let_def intro: frames_trans [OF _ frames_del] frames_del)
qed

lemma frames_range_done [frames]: "frames pid s (closeRange_done pid lo hi c s)"
  using frames_refl frames_trans [OF frames_range_close frames_clear_range] by (auto simp: closeRange_done_def)

lemma frames_close_range [frames]: "frames pid s (fd_close_range pid lo hi u c s)"
proof -
  let ?m = "marker_if_single pid (ActCloseRange lo hi c) s"
  have "frames pid s (closeRange_done pid lo hi c (set_marker pid (fst ?m) (fd_sweep pid lo hi c (detachFdGroup pid (snd ?m)))))"
    by (rule frames_trans [OF frames_trans [OF frames_trans [OF frames_trans [OF frames_marker_if_single frames_detach]
        frames_sweep] frames_set_marker] frames_range_done])
  moreover have "frames pid s (closeRange_done pid lo hi c (recordFdTombstone pid t (fd_sweep pid lo hi c s)))" for t
    by (rule frames_trans [OF frames_trans [OF frames_sweep frames_tombstone] frames_range_done])
  ultimately show ?thesis by (simp add: fd_close_range_def case_prod_beta Let_def)
qed

lemma frames_unshare [frames]: "frames pid s (fd_unshare pid s)"
  unfolding fd_unshare_def case_prod_beta Let_def
  by (rule frames_trans [OF frames_trans [OF frames_marker frames_detach] frames_set_marker])

lemma frames_exec [frames]: "frames pid s (fd_exec pid s)"
proof -
  let ?m = "marker_if_single pid (ActExecveCloexec {}) s"
  let ?d = "detachFdGroup pid (snd ?m)"
  define root where "root = find_root (fdParent ?d) pid"
  define gone where "gone = map fst (filter (\<lambda>(_, e). fe_cloexec e) (group_fds root (dirfdTable ?d)))"
  have "frames pid s ?d" by (rule frames_trans [OF frames_marker_if_single frames_detach])
  then have "frames pid s (?d\<lparr>fdParent := snd (rooted pid (fdParent ?d)),
      dirfdTable := filter (\<lambda>(k, e). \<not> (fst k = root \<and> fe_cloexec e)) (dirfdTable ?d)\<rparr>)"
    unfolding frames_upd by (rule frames_trans [OF _ frames_rooted])
  then have "frames pid s (set_marker pid (fst ?m) (fold (recordPostMarkerFdClose pid) gone
      (?d\<lparr>fdParent := snd (rooted pid (fdParent ?d)),
          dirfdTable := filter (\<lambda>(k, e). \<not> (fst k = root \<and> fe_cloexec e)) (dirfdTable ?d)\<rparr>)))"
    by (rule frames_trans [OF frames_trans [OF _ frames_fold] frames_set_marker]) (rule frames_close)
  then show ?thesis
    by (simp add: fd_exec_def rootedFd_pair gone_def root_def case_prod_beta Let_def)
qed

lemma frames_setfd [frames]: "frames pid s (fd_setfd pid fd nc s)"
proof -
  note get = frames_trans [OF frames_get]
  show ?thesis
    using get [OF frames_unknown] get [OF frames_put] get [OF frames_tombstone] frames_get
    by (auto simp: fd_setfd_def case_prod_beta Let_def split: option.splits)
qed

end
