(* ===== verification/FdClone.thy ===== *)
theory FdClone
  imports FdFrames
begin

text \<open>
  The \<^verbatim>\<open>clone\<close> line of a child that has not been heard of: with \<open>CLONE_FILES\<close> it joins the parent's
  group, else it gets a copy of the parent's table, and nobody else notices.
\<close>

section \<open>A process without history\<close>

definition fresh :: "fd_state \<Rightarrow> int \<Rightarrow> bool" where
  "fresh s c \<longleftrightarrow>
     (\<forall>q. find_root (fdParent s) q = c \<longleftrightarrow> q = c) \<and> fd_book s c = (None, None, None) \<and>
     fd_look s c = (\<lambda>_. None, False, {})"

lemma fresh_init [simp]: "fresh fd_init c"
  by (simp add: fresh_def fd_init_def fd_book_def fd_look_def opaque_at_def find_root_root [OF flat_forest]
      flat_groups_def up_def)

lemma freshD:
  assumes "fresh s c"
  shows "find_root (fdParent s) c = c" "find_root (fdParent s) q = c \<Longrightarrow> q = c"
    "peers s c q \<longleftrightarrow> q = c" "peers s q c \<longleftrightarrow> q = c"
    "fd_sees s c = (\<lambda>_. None, False, {})" "fd_book s c = (None, None, None)"
proof -
  have r: "find_root (fdParent s) q = c \<longleftrightarrow> q = c" for q using assms unfolding fresh_def by blast
  show c: "find_root (fdParent s) c = c" using r by simp
  show "find_root (fdParent s) q = c \<Longrightarrow> q = c" using r by simp
  show "peers s c q \<longleftrightarrow> q = c" "peers s q c \<longleftrightarrow> q = c" unfolding peers_def c using r [of q] by auto
  show "fd_sees s c = (\<lambda>_. None, False, {})" "fd_book s c = (None, None, None)"
    using assms unfolding fresh_def fd_sees_def c by blast+
qed

text \<open>The handlers leave the processes outside the caller's group as fresh as they were.\<close>

lemma fresh_if:
  assumes "fresh s c" "fd_book s' c = fd_book s c" "fd_sees s' c = fd_sees s c"
    "\<And>q. peers s' q c \<longleftrightarrow> peers s q c" "fd_inv s'" "find_root (fdParent s') c = c"
  shows "fresh s' c"
proof -
  have "find_root (fdParent s') q = c \<longleftrightarrow> q = c" for q
    using assms(4) [of q] freshD(4) [OF assms(1), of q] assms(6) by (simp add: peers_def)
  moreover have "fd_look s' c = (\<lambda>_. None, False, {})"
    using assms(3,6) freshD(5) [OF assms(1)] by (simp add: fd_sees_def)
  ultimately show ?thesis using assms(2) freshD(6) [OF assms(1)] by (simp add: fresh_def)
qed

lemma fresh_acts:
  assumes "acts pid F s s'" "frames pid s s'" "fd_inv s" "fresh s c" "c \<noteq> pid"
  shows "fresh s' c"
proof (rule fresh_if [OF assms(4)])
  note a = actsD [OF assms(1,3)]
  have f: "forest (fdParent s)" using assms(3) by (simp add: fd_inv_def)
  have np: "\<not> peers s pid c" using freshD(4) [OF assms(4)] assms(5) by simp
  with f assms(2,5) freshD(1,2) [OF assms(4)] show "fd_book s' c = fd_book s c" by (auto simp: frames_def)
  show "fd_sees s' c = fd_sees s c" using a(4) np by simp
  show "peers s' q c \<longleftrightarrow> peers s q c" for q using a(3) by simp
  show "fd_inv s'" "find_root (fdParent s') c = c" using a(1,2) freshD(1) [OF assms(4)] by simp_all
qed

lemma fresh_splits:
  assumes "splits pid F s s'" "frames pid s s'" "fd_inv s" "flat_groups (fdParent s)" "fresh s c" "c \<noteq> pid"
  shows "fresh s' c"
proof (rule fresh_if [OF assms(5)])
  have f: "forest (fdParent s)" using assms(3) by (simp add: fd_inv_def)
  from assms(1,3,4) have inv: "fd_inv s'"
    and p: "\<And>p q. peers s' p q \<longleftrightarrow> p = q \<or> p \<noteq> pid \<and> q \<noteq> pid \<and> peers s p q"
    and see: "\<And>q. fd_sees s' q = (if q = pid then F (fd_sees s q) else fd_sees s q)"
    by (auto simp: splits_def)
  have np: "\<not> peers s pid c" using freshD(4) [OF assms(5)] assms(6) by simp
  with f assms(2,6) freshD(1,2) [OF assms(5)] show "fd_book s' c = fd_book s c" by (auto simp: frames_def)
  show "fd_sees s' c = fd_sees s c" using see assms(6) by simp
  show pq: "peers s' q c \<longleftrightarrow> peers s q c" for q
    using p [of q c] freshD(4) [OF assms(5), of q] assms(6) by auto
  show "fd_inv s'" by (rule inv)
  then have f': "forest (fdParent s')" by (simp add: fd_inv_def)
  have "peers s' (find_root (fdParent s') c) c" by (simp add: peers_def f')
  then show "find_root (fdParent s') c = c" using pq freshD(4) [OF assms(5)] by simp
qed

lemma take_history_fresh:
  assumes "fresh s c"
  shows "fst (take_history c s) = \<lparr>ch_snap = None, ch_touched = {}, ch_closed = {}, ch_standalone = []\<rparr>"
    and "quiet s (snd (take_history c s))"
    and "fd_book (snd (take_history c s)) = fd_book s"
proof -
  have b: "map_of (pendingFdDetach s) c = None" "map_of (pendingFdTombstones s) c = None"
    "map_of (postMarkerFdReuses s) c = None"
    using freshD(6) [OF assms] by (simp_all add: fd_book_def)
  note r = freshD(1) [OF assms]
  show "fst (take_history c s) = \<lparr>ch_snap = None, ch_touched = {}, ch_closed = {}, ch_standalone = []\<rparr>"
    by (simp add: take_history_def rootedFd_pair Let_def b r)
  show "quiet s (snd (take_history c s))"
    by (auto simp: take_history_def rootedFd_pair Let_def intro!: quiet)
  show "fd_book (snd (take_history c s)) = fd_book s"
    using b by (auto simp: take_history_def rootedFd_pair Let_def r fd_book_def jm.get_del fun_eq_iff)
qed

lemma fresh_quiet:
  assumes "quiet s s'" "fd_book s' = fd_book s" "fd_inv s" "fresh s c"
  shows "fresh s' c"
proof -
  have f: "forest (fdParent s)" using assms(3) by (simp add: fd_inv_def)
  from assms(2,4) show ?thesis
    unfolding fresh_def quiet_look [OF assms(1)] quiet_roots(2) [OF assms(1) f] by simp
qed


section \<open>A shared table\<close>

lemma clone_shared_fresh:
  assumes inv: "fd_inv s" and flat: "flat_groups (fdParent s)" and fresh: "fresh s c" and ne: "pid \<noteq> c"
  defines "s' \<equiv> fd_clone pid c True s"
  shows "fd_inv s'" and "flat_groups (fdParent s')"
    and "peers s' p q \<longleftrightarrow> peers s (if p = c then pid else p) (if q = c then pid else q)"
    and "fd_view s' q fd =
      (if q = c \<or> peers s pid q
       then if fd \<in> fd_opaque s pid then None else fd_view s pid fd
       else fd_view s q fd)"
    and "fd_doubt s' q \<longleftrightarrow> fd_doubt s (if q = c then pid else q)"
    and "fresh s d \<Longrightarrow> d \<noteq> c \<Longrightarrow> d \<noteq> pid \<Longrightarrow> fresh s' d"
proof -
  define s1 where "s1 = snd (take_history c s)"
  note h = take_history_fresh [OF fresh, folded s1_def]
  have s': "s' = unionFd pid c s1"
    by (simp add: s'_def fd_clone_def clone_shared_def case_prod_beta Let_def h(1) s1_def)
  have f: "forest (fdParent s)" using inv by (simp add: fd_inv_def)
  have inv1: "fd_inv s1" by (rule quiet_inv [OF h(2) inv])
  have f1: "forest (fdParent s1)" and flat1: "flat_groups (fdParent s1)"
    using inv1 h(2) flat by (auto simp: fd_inv_def quiet_def)
  note same = quiet_roots(2) [OF h(2) f] quiet_views [OF h(2) f]
  have c: "find_root (fdParent s) q = c \<longleftrightarrow> q = c" for q using freshD(1,2) [OF fresh] by blast
  let ?pr = "find_root (fdParent s) pid"
  have ne': "?pr \<noteq> c" using c ne by simp
  have c': "find_root (fdParent s) c = c" by (simp add: c)
  note u = unionFd_view [OF inv1 refl refl, of pid c, unfolded same, folded s', unfolded c', OF ne']
  show "fd_inv s'" by (rule u(1))
  have root: "find_root (fdParent s') q = (if q = c then ?pr else find_root (fdParent s) q)" for q
    using u(2) c by simp
  have peer: "peers s' p q \<longleftrightarrow> peers s (if p = c then pid else p) (if q = c then pid else q)" for p q
    unfolding peers_def root by simp
  then show "peers s' p q \<longleftrightarrow> peers s (if p = c then pid else p) (if q = c then pid else q)" by blast
  have empty: "fd_view s c = (\<lambda>_. None)" "\<not> fd_doubt s c" "fd_opaque s c = {}"
    using freshD(5) [OF fresh] by (simp_all add: fd_sees_eq)
  have mem: "find_root (fdParent s) q \<in> {?pr, c} \<longleftrightarrow> q = c \<or> peers s pid q" for q
    using c [of q] unfolding peers_def by (simp add: disj_commute eq_commute)
  show "fd_view s' q fd =
      (if q = c \<or> peers s pid q then if fd \<in> fd_opaque s pid then None else fd_view s pid fd else fd_view s q fd)" for q fd
    using u(3) [of q fd, unfolded mem empty] by simp
  show "fd_doubt s' q \<longleftrightarrow> fd_doubt s (if q = c then pid else q)" for q
  proof -
    have "peers s pid q \<Longrightarrow> fd_doubt s q \<longleftrightarrow> fd_doubt s pid" by (simp add: peers_def fd_doubt_def)
    then show ?thesis using u(4) [of q, unfolded mem] empty(2) by auto
  qed
  have par: "fdParent s' = map_set c ?pr (fdParent (s1\<lparr>fdParent := snd (rooted c (snd (rooted pid (fdParent s1))))\<rparr>))"
    using f1 ne' by (simp add: s' unionFd_cases union_roots_def Let_def same c')
  have flat2: "flat_groups (snd (rooted c (snd (rooted pid (fdParent s1)))))" using flat1 by simp
  have f2: "forest (snd (rooted c (snd (rooted pid (fdParent s1)))))" using f1 by simp
  have "flat_groups (map_set c ?pr (snd (rooted c (snd (rooted pid (fdParent s1))))))"
  proof (rule flat_link [OF flat2 _ _ ne' [symmetric]])
    show "find_root (snd (rooted c (snd (rooted pid (fdParent s1))))) x = c \<longleftrightarrow> x = c" for x
      using f1 c by (simp add: same)
    show "up (snd (rooted c (snd (rooted pid (fdParent s1))))) ?pr = None"
      using find_root_eq_self [OF f2, of ?pr] f f1 by (simp add: same)
  qed
  then show "flat_groups (fdParent s')" by (simp add: par)
  have book: "fd_book s' = fd_book s"
    using f1 h(3) by (simp add: s' unionFd_cases union_roots_def Let_def fd_book_def fun_eq_iff)
  show "fresh s' d" if d: "fresh s d" "d \<noteq> c" "d \<noteq> pid"
  proof (rule fresh_if [OF d(1)])
    have dq: "find_root (fdParent s) q = d \<longleftrightarrow> q = d" for q using freshD(1,2) [OF d(1)] by blast
    have np: "\<not> peers s pid d" using freshD(4) [OF d(1)] d(3) by simp
    show "fd_book s' d = fd_book s d" by (simp add: book)
    show "fd_sees s' d = fd_sees s d"
      using u(3,4,5) [of d, unfolded mem empty] np d(2) by (simp add: fd_sees_eq fun_eq_iff)
    show "peers s' q d \<longleftrightarrow> peers s q d" for q
      unfolding peer using freshD(4) [OF d(1)] d(2,3) by simp
    show "fd_inv s'" by (rule u(1))
    show "find_root (fdParent s') d = d" using root dq d(2) by simp
  qed
qed


section \<open>A copied table\<close>

lemma map_of_copy_fd:
  "map_of (copy_fd c {} {} {} (fd, e) tbl) (r, n) =
     (if r = c \<and> n = fd
      then (case map_of tbl (c, fd) of
              None \<Rightarrow> Some e
            | Some x \<Rightarrow> if fe_path x = fe_path e
                        then Some \<lparr>fe_path = fe_path x, fe_cloexec = fe_cloexec x \<or> fe_cloexec e\<rparr> else None)
      else map_of tbl (r, n))"
  by (cases "map_of tbl (c, fd)") (auto simp: copy_fd_def jm.get_put jm.get_del)

lemma map_wf_copy_fd: "map_wf tbl \<Longrightarrow> map_wf (copy_fd c t cl opq x tbl)"
  by (auto simp: copy_fd_def jm.wf_put jm.wf_del split: option.splits prod.splits)

lemma map_wf_copy_fds: "map_wf tbl \<Longrightarrow> map_wf (fold (copy_fd c t cl opq) es tbl)"
  by (induction es arbitrary: tbl) (auto simp: map_wf_copy_fd)

lemma map_of_copy_fds:
  assumes "distinct (map fst es)" "\<And>n. n \<in> fst ` set es \<Longrightarrow> map_of tbl (c, n) = None"
  shows "map_of (fold (copy_fd c {} {} {}) es tbl) (r, n) =
     (if r = c then (case map_of es n of None \<Rightarrow> map_of tbl (c, n) | Some e \<Rightarrow> Some e) else map_of tbl (r, n))"
  using assms
proof (induction es arbitrary: tbl)
  case (Cons x es)
  obtain a b where x: "x = (a, b)" by (cases x)
  have a: "a \<notin> fst ` set es" "map_of es a = None"
    using Cons.prems(1) x by (simp_all add: map_of_eq_None_iff)
  have none: "map_of tbl (c, a) = None" using Cons.prems(2) x by simp
  have "map_of (fold (copy_fd c {} {} {}) es (copy_fd c {} {} {} (a, b) tbl)) (r, n) =
     (if r = c then (case map_of es n of None \<Rightarrow> map_of (copy_fd c {} {} {} (a, b) tbl) (c, n) | Some e \<Rightarrow> Some e)
      else map_of (copy_fd c {} {} {} (a, b) tbl) (r, n))"
    using Cons.prems a by (intro Cons.IH) (auto simp: x map_of_copy_fd)
  with a x show ?case by (auto simp: map_of_copy_fd none split: option.splits)
qed simp

text \<open>The copy is a step of the child: it sees what the parent sees.\<close>

lemma acts_copy:
  assumes inv: "fd_inv s" and fresh: "fresh s c" and ne: "pr \<noteq> c"
  shows "acts c (\<lambda>(v, d, x). (\<lambda>n. map_of (dirfdTable s) (pr, n), d, x)) s
     (s\<lparr>fdParent := snd (rooted c (fdParent s)),
        dirfdTable := fold (copy_fd c {} {} {}) (group_fds pr (dirfdTable s)) (dirfdTable s)\<rparr>)"
proof -
  have c: "find_root (fdParent s) c = c" by (rule freshD(1) [OF fresh])
  have wf: "map_wf (dirfdTable s)" using inv by (simp add: fd_inv_def)
  have none: "map_of (dirfdTable s) (c, n) = None" for n
    using fresh by (auto simp: fresh_def fd_look_def fun_eq_iff)
  have "acts c (\<lambda>(v, d, x). (\<lambda>n. map_of (dirfdTable s) (pr, n), d, x)) s
     ((s\<lparr>fdParent := snd (rooted c (fdParent s))\<rparr>)\<lparr>dirfdTable :=
        fold (copy_fd c {} {} {}) (group_fds pr (dirfdTable (s\<lparr>fdParent := snd (rooted c (fdParent s))\<rparr>)))
          (dirfdTable (s\<lparr>fdParent := snd (rooted c (fdParent s))\<rparr>))\<rparr>)"
    by (rule acts_root [of "\<lambda>s'. s'\<lparr>dirfdTable :=
        fold (copy_fd c {} {} {}) (group_fds pr (dirfdTable s')) (dirfdTable s')\<rparr>"])
      (auto simp: map_wf_copy_fds fd_look_def opaque_at_def c fun_eq_iff none map_of_group_fds
        map_of_copy_fds [OF distinct_group_fds [OF wf]] split: option.splits)
  then show ?thesis by simp
qed

lemma clone_copied_fresh:
  assumes inv: "fd_inv s" and fresh: "fresh s c" and ne: "pid \<noteq> c"
  defines "s' \<equiv> fd_clone pid c False s"
  shows "acts c (\<lambda>(v, d, x). (fd_view s pid, d \<or> fd_doubt s pid, x)) s s'"
    and "fd_book s' = fd_book s"
proof -
  define s1 where "s1 = snd (take_history c s)"
  note h = take_history_fresh [OF fresh, folded s1_def]
  have f: "forest (fdParent s)" using inv by (simp add: fd_inv_def)
  note same = quiet_roots(2) [OF h(2) f] quiet_views [OF h(2) f]
  let ?pr = "find_root (fdParent s) pid"
  have c: "find_root (fdParent s) c = c" and ne': "?pr \<noteq> c"
    using freshD(1) [OF fresh] freshD(2) [OF fresh, of pid] ne by auto
  define s2 where "s2 = s1\<lparr>fdParent := snd (rooted pid (fdParent s1))\<rparr>"
  have q2: "quiet s s2" unfolding s2_def by (rule quiet_trans [OF h(2) quiet_rooted])
  have inv2: "fd_inv s2" by (rule quiet_inv [OF q2 inv])
  have f2: "forest (fdParent s2)" using inv2 by (simp add: fd_inv_def)
  have book2: "fd_book s2 = fd_book s" using h(3) by (simp add: s2_def fd_book_def fun_eq_iff)
  have fresh2: "fresh s2 c" by (rule fresh_quiet [OF q2 book2 inv fresh])
  note same2 = quiet_roots(2) [OF q2 f]
  have tbl2: "dirfdTable s2 = dirfdTable s" using q2 by (simp add: quiet_def)
  define s3 where "s3 = s2\<lparr>fdParent := snd (rooted c (fdParent s2)),
        dirfdTable := fold (copy_fd c {} {} {}) (group_fds ?pr (dirfdTable s2)) (dirfdTable s2)\<rparr>"
  have book3: "fd_book s3 = fd_book s" using book2 by (simp add: s3_def fd_book_def fun_eq_iff)
  have opq: "opaque_at (s2\<lparr>fdParent := p\<rparr>) c = {}" for p
    using fresh2 by (simp add: fresh_def fd_look_def opaque_at_def)
  have "acts c (\<lambda>(v, d, x). (\<lambda>n. map_of (dirfdTable s2) (?pr, n), d, x)) s2 s3"
    unfolding s3_def by (rule acts_copy [OF inv2 fresh2 ne'])
  then have a3: "acts c (\<lambda>(v, d, x). (fd_view s pid, d, x)) s s3"
    by (intro acts_before [OF q2]) (auto simp: fd_view_def tbl2 elim!: acts_cong)
  note a3' = actsD [OF a3 inv]
  define s4 where "s4 = snd (fdUnknownHas pid s3)"
  have u: "fdUnknownHas pid s3 = (fd_doubt s3 pid, s4)"
    by (simp add: s4_def fdUnknownHas_def rootedFd_pair Let_def fd_doubt_def)
  have q4: "quiet s3 s4" by (auto simp: s4_def fdUnknownHas_def rootedFd_pair Let_def intro!: quiet)
  have book4: "fd_book s4 = fd_book s"
    using book3 by (simp add: s4_def fdUnknownHas_def rootedFd_pair Let_def fd_book_def fun_eq_iff)
  have "\<not> peers s c pid" using freshD(3) [OF fresh] ne by simp
  then have d: "fd_doubt s3 pid = fd_doubt s pid" using a3'(4) [of pid] by (simp add: fd_sees_eq)
  have roots: "rootedFd pid s1 = (?pr, s2)"
    by (simp add: rootedFd_pair s2_def same)
  have rootc: "rootedFd c s2 = (c, s2\<lparr>fdParent := snd (rooted c (fdParent s2))\<rparr>)"
    by (simp add: rootedFd_pair same2 c)
  have s': "s' = (if fd_doubt s pid then fdUnknownAdd c s4 else s4)"
    using ne' by (simp add: s'_def fd_clone_def case_prod_beta [of _ "take_history c s"] h(1) s1_def [symmetric]
        clone_copied_def roots rootc opq Let_def s3_def [symmetric] clone_distrust_def u d)
  have "acts c (\<lambda>(v, d, x). (fd_view s pid, d, x)) s s4" by (rule acts_after [OF a3 q4])
  moreover from acts_then [OF this acts_unknown]
  have "acts c (\<lambda>x. set_doubt (case x of (v, d, x) \<Rightarrow> (fd_view s pid, d, x))) s (fdUnknownAdd c s4)" .
  ultimately show "acts c (\<lambda>(v, d, x). (fd_view s pid, d \<or> fd_doubt s pid, x)) s s'"
    unfolding s' by (cases "fd_doubt s pid") (auto simp: sight_defs elim!: acts_cong)
  show "fd_book s' = fd_book s"
    using book4 by (simp add: s' fdUnknownAdd_def rootedFd_pair Let_def fd_book_def fun_eq_iff)
qed

end
