(* ===== verification/FdKernel.thy ===== *)
theory FdKernel
  imports FdClone "HOL-Library.Multiset"
begin

text \<open>
  The contract of the descriptor tables: a kernel in which a process has a number for its table, the
  tables are private or shared, and every system call acts at once; and the tracker of
  \<open>FdEvents\<close> fed with the lines of those calls in the order in which they happened. Whatever the
  tracker claims about a descriptor is then true in the kernel.
\<close>

section \<open>The kernel\<close>

record kernel =
  k_live :: "int set"
  k_used :: "int set"
  k_table :: "int \<Rightarrow> nat"
  k_files :: "nat \<Rightarrow> int \<Rightarrow> fd_entry option"
  k_next :: nat

datatype fd_event =
    EvOpen int int string bool bool
  | EvDup int int int bool
  | EvClose int int int
  | EvCloseRange int int int bool bool
  | EvUnshare int
  | EvExec int
  | EvSetfd int int bool bool
  | EvClone int int bool
  | EvExit int

definition k_open :: "kernel \<Rightarrow> int \<Rightarrow> int \<Rightarrow> fd_entry option" where
  "k_open k p = k_files k (k_table k p)"

definition k_write :: "int \<Rightarrow> ((int \<Rightarrow> fd_entry option) \<Rightarrow> (int \<Rightarrow> fd_entry option)) \<Rightarrow> kernel \<Rightarrow> kernel" where
  "k_write p g k = k\<lparr>k_files := (k_files k)(k_table k p := g (k_open k p))\<rparr>"

definition k_private :: "int \<Rightarrow> int \<Rightarrow> kernel \<Rightarrow> kernel" where
  "k_private p q k = k\<lparr>k_table := (k_table k)(p := k_next k), k_files := (k_files k)(k_next k := k_open k q),
      k_next := Suc (k_next k), k_used := insert p (k_used k), k_live := insert p (k_live k)\<rparr>"

definition k_join :: "int \<Rightarrow> int \<Rightarrow> kernel \<Rightarrow> kernel" where
  "k_join p q k = k\<lparr>k_table := (k_table k)(p := k_table k q), k_used := insert p (k_used k),
      k_live := insert p (k_live k)\<rparr>"

text \<open>One system call, or the end of a process. A new process gets a pid no live process has, so the pid of a
  process that has ended may come back; \<open>k_used\<close> collects the pids ever given out.\<close>

inductive k_step :: "kernel \<Rightarrow> fd_event \<Rightarrow> kernel \<Rightarrow> bool" where
  opened: "p \<in> k_live k \<Longrightarrow>
     k_step k (EvOpen p fd path c known) (k_write p (\<lambda>t. t(fd \<mapsto> \<lparr>fe_path = path, fe_cloexec = c\<rparr>)) k)"
| duped: "p \<in> k_live k \<Longrightarrow> k_open k p old = Some e \<Longrightarrow>
     k_step k (EvDup p old new c) (k_write p (\<lambda>t. t(new \<mapsto> \<lparr>fe_path = fe_path e, fe_cloexec = c\<rparr>)) k)"
| closed: "p \<in> k_live k \<Longrightarrow> k_step k (EvClose p fd rc) (k_write p (\<lambda>t. t(fd := None)) k)"
| not_closed: "p \<in> k_live k \<Longrightarrow> rc \<noteq> 0 \<Longrightarrow> k_step k (EvClose p fd rc) k"
| range: "p \<in> k_live k \<Longrightarrow> k_step k (EvCloseRange p lo hi False c) (k_write p (swept lo hi c) k)"
| private_range: "p \<in> k_live k \<Longrightarrow>
     k_step k (EvCloseRange p lo hi True c) (k_write p (swept lo hi c) (k_private p p k))"
| unshared: "p \<in> k_live k \<Longrightarrow> k_step k (EvUnshare p) (k_private p p k)"
| execed: "p \<in> k_live k \<Longrightarrow> k_step k (EvExec p) (k_write p exec_keeps (k_private p p k))"
| flagged: "p \<in> k_live k \<Longrightarrow> k_open k p fd = Some e \<Longrightarrow>
     k_step k (EvSetfd p fd c known) (k_write p (\<lambda>t. t(fd \<mapsto> e\<lparr>fe_cloexec := c\<rparr>)) k)"
| cloned: "p \<in> k_live k \<Longrightarrow> q \<notin> k_live k \<Longrightarrow>
     k_step k (EvClone p q sharing) (if sharing then k_join q p k else k_private q p k)"
| exited: "p \<in> k_live k \<Longrightarrow> k_step k (EvExit p) (k\<lparr>k_live := k_live k - {p}\<rparr>)"

inductive_cases k_stepE: "k_step k e k'"

text \<open>What the handlers make of the line of the call: a path that could not be resolved and a flag
  that could not be read are \<open>None\<close> to them. The line of an exit leaves the tables alone.\<close>

fun observe :: "fd_event \<Rightarrow> fd_state \<Rightarrow> fd_state" where
  "observe (EvOpen p fd path c known) s = fd_opened p fd (if known then Some path else None) c s"
| "observe (EvDup p old new c) s = fd_dup p old new c s"
| "observe (EvClose p fd rc) s = fd_close p fd rc s"
| "observe (EvCloseRange p lo hi u c) s = fd_close_range p lo hi u c s"
| "observe (EvUnshare p) s = fd_unshare p s"
| "observe (EvExec p) s = fd_exec p s"
| "observe (EvSetfd p fd c known) s = fd_setfd p fd (if known then Some c else None) s"
| "observe (EvClone p q sharing) s = fd_clone p q sharing s"
| "observe (EvExit p) s = s"

fun cloned_pid :: "fd_event \<Rightarrow> int list" where
  "cloned_pid (EvClone p q sharing) = [q]"
| "cloned_pid _ = []"

text \<open>One process runs at first, with any descriptors; the tracker knows nothing. The list has the pids that
  clones gave out, in order: no pid is reused when it is distinct together with the first process.\<close>

inductive traced :: "int \<Rightarrow> int list \<Rightarrow> kernel \<Rightarrow> fd_state \<Rightarrow> bool" for root where
  start: "k_used k = {root} \<Longrightarrow> k_live k = {root} \<Longrightarrow> k_table k root < k_next k \<Longrightarrow> traced root [] k fd_init"
| line: "traced root qs k s \<Longrightarrow> k_step k e k' \<Longrightarrow> traced root (qs @ cloned_pid e) k' (observe e s)"

section \<open>The simulation\<close>

text \<open>What a process sees is sound for a table: where both have an entry the paths agree, and unless the
  group is marked unknown every entry is one of the table.\<close>

definition fd_sound :: "fd_sight \<Rightarrow> (int \<Rightarrow> fd_entry option) \<Rightarrow> bool" where
  "fd_sound x t \<longleftrightarrow> (case x of (v, d, _) \<Rightarrow>
     (\<forall>n e e'. v n = Some e \<and> t n = Some e' \<longrightarrow> fe_path e = fe_path e') \<and> (\<not> d \<longrightarrow> v \<subseteq>\<^sub>m t))"

definition fd_sim :: "kernel \<Rightarrow> fd_state \<Rightarrow> bool" where
  "fd_sim k s \<longleftrightarrow>
     fd_inv s \<and> flat_groups (fdParent s) \<and> k_live k \<subseteq> k_used k \<and>
     (\<forall>p\<in>k_used k. k_table k p < k_next k) \<and>
     (\<forall>p\<in>k_used k. \<forall>q\<in>k_used k. peers s p q \<longleftrightarrow> k_table k p = k_table k q) \<and>
     (\<forall>c. c \<notin> k_used k \<longrightarrow> fresh s c) \<and>
     (\<forall>p\<in>k_used k. fd_sound (fd_sees s p) (k_open k p))"

lemma fd_simD:
  assumes "fd_sim k s"
  shows "fd_inv s" "flat_groups (fdParent s)" "p \<in> k_used k \<Longrightarrow> k_table k p < k_next k"
    "p \<in> k_used k \<Longrightarrow> q \<in> k_used k \<Longrightarrow> peers s p q \<longleftrightarrow> k_table k p = k_table k q"
    "c \<notin> k_used k \<Longrightarrow> fresh s c" "p \<in> k_used k \<Longrightarrow> fd_sound (fd_sees s p) (k_open k p)"
    "k_live k \<subseteq> k_used k"
  using assms by (auto simp: fd_sim_def)

text \<open>How a sight and a table may change together.\<close>

definition tracks ::
  "(fd_sight \<Rightarrow> fd_sight) \<Rightarrow> ((int \<Rightarrow> fd_entry option) \<Rightarrow> (int \<Rightarrow> fd_entry option)) \<Rightarrow> (int \<Rightarrow> fd_entry option) \<Rightarrow> bool" where
  "tracks F g t \<longleftrightarrow> (\<forall>x. fd_sound x t \<longrightarrow> fd_sound (F x) (g t))"

lemma tracksD: "tracks F g t \<Longrightarrow> fd_sound x t \<Longrightarrow> fd_sound (F x) (g t)"
  unfolding tracks_def by blast

lemma k_write_fields [simp]:
  "k_used (k_write p g k) = k_used k" "k_live (k_write p g k) = k_live k" "k_table (k_write p g k) = k_table k" "k_next (k_write p g k) = k_next k"
  "k_open (k_write p g k) q = (if k_table k q = k_table k p then g (k_open k p) else k_open k q)"
  by (simp_all add: k_write_def k_open_def)

lemma k_private_fields [simp]:
  "k_used (k_private p q k) = insert p (k_used k)" "k_live (k_private p q k) = insert p (k_live k)"
  "k_next (k_private p q k) = Suc (k_next k)"
  "k_table (k_private p q k) = (k_table k)(p := k_next k)"
  "k_open (k_private p q k) r =
     (if r = p then k_open k q else if k_table k r = k_next k then k_open k q else k_open k r)"
  by (simp_all add: k_private_def k_open_def)

lemma sim_acts:
  assumes sim: "fd_sim k s" and act: "acts p F s s'" and fr: "frames p s s'" and p: "p \<in> k_used k"
    and tr: "tracks F g (k_open k p)"
  shows "fd_sim (k_write p g k) s'"
proof -
  note sim = fd_simD [OF sim]
  note a = actsD [OF act sim(1)]
  have "fd_sound (fd_sees s' q) (k_open (k_write p g k) q)" if q: "q \<in> k_used k" for q
  proof (cases "peers s p q")
    case True
    then have t: "k_table k q = k_table k p" and o: "k_open k q = k_open k p"
      using sim(4) [OF p q] by (simp_all add: k_open_def)
    show ?thesis using tracksD [OF tr sim(6) [OF q, unfolded o]] a(4) [of q] True by (simp add: t)
  next
    case False
    then have "k_table k q \<noteq> k_table k p" using sim(4) [OF p q] by simp
    then show ?thesis using sim(6) [OF q] a(4) [of q] False by simp
  qed
  moreover have "fresh s' c" if "c \<notin> k_used k" for c
    using fresh_acts [OF act fr sim(1) sim(5) [OF that]] that p by blast
  ultimately show ?thesis using a sim by (auto simp: fd_sim_def)
qed

lemma sim_splits:
  assumes sim: "fd_sim k s" and act: "splits p F s s'" and fr: "frames p s s'" and p: "p \<in> k_used k"
    and tr: "tracks F g (k_open k p)"
  shows "fd_sim (k_write p g (k_private p p k)) s'"
proof -
  note sim = fd_simD [OF sim]
  from act sim(1,2) have inv: "fd_inv s'" "flat_groups (fdParent s')"
    and peer: "\<And>p' q. peers s' p' q \<longleftrightarrow> p' = q \<or> p' \<noteq> p \<and> q \<noteq> p \<and> peers s p' q"
    and see: "\<And>q. fd_sees s' q = (if q = p then F (fd_sees s q) else fd_sees s q)"
    by (auto simp: splits_def)
  have ne: "k_table k q \<noteq> k_next k" if "q \<in> k_used k" for q using sim(3) [OF that] by simp
  have "fd_sound (fd_sees s' q) (k_open (k_write p g (k_private p p k)) q)" if q: "q \<in> k_used k" for q
    using tracksD [OF tr sim(6) [OF p]] sim(6) [OF q] see [of q] ne [OF q] by (cases "q = p") simp_all
  moreover have "fresh s' c" if "c \<notin> k_used k" for c
    using fresh_splits [OF act fr sim(1,2) sim(5) [OF that]] that p by blast
  moreover have "peers s' a b \<longleftrightarrow> ((k_table k)(p := k_next k)) a = ((k_table k)(p := k_next k)) b"
    if "a \<in> k_used k" "b \<in> k_used k" for a b
    using sim(4) [OF that] ne [OF that(1)] ne [OF that(2)] peer [of a b] by auto
  ultimately show ?thesis using inv sim(3,7) p by (auto simp: fd_sim_def insert_absorb less_SucI)
qed


lemma swept_le: "v \<subseteq>\<^sub>m t \<Longrightarrow> swept lo hi c v \<subseteq>\<^sub>m swept lo hi c t"
  by (auto simp: map_le_def swept_def dom_def split: if_splits)

lemma exec_keeps_le: "v \<subseteq>\<^sub>m t \<Longrightarrow> exec_keeps v \<subseteq>\<^sub>m exec_keeps t"
  by (force simp: map_le_def exec_keeps_def dom_def split: option.splits)

lemma le_get: "v \<subseteq>\<^sub>m t \<Longrightarrow> v n = Some e \<Longrightarrow> t n = Some e"
  by (auto simp: map_le_def dom_def)

lemma sound_swept: "fd_sound (v, d, x) t \<Longrightarrow> fd_sound (swept lo hi c v, d, x') (swept lo hi c t)"
  by (cases c) (auto simp: fd_sound_def swept_def swept_le [unfolded swept_def] map_le_def dom_def split: if_splits)

lemma sound_exec: "fd_sound (v, d, x) t \<Longrightarrow> fd_sound (exec_keeps v, d, x') (exec_keeps t)"
  by (auto simp: fd_sound_def exec_keeps_le) (auto simp: exec_keeps_def split: option.splits if_splits)

lemma sound_put:
  "fd_sound (v, d, x) t \<Longrightarrow> fe_path e = fe_path e' \<Longrightarrow> \<not> d \<longrightarrow> e = e' \<Longrightarrow>
   fd_sound (v(n \<mapsto> e), d, x') (t(n \<mapsto> e'))"
  by (auto simp: fd_sound_def map_le_def dom_def)

lemma sound_drop: "fd_sound (v, d, x) t \<Longrightarrow> d \<longrightarrow> d' \<Longrightarrow> fd_sound (v(n := None), d', x') (t(n := y))"
  "fd_sound (v, d, x) t \<Longrightarrow> fd_sound (v(n := None), d, x') t"
  by (auto simp: fd_sound_def map_le_def dom_def)

lemma sound_doubt: "fd_sound (v, d, x) t \<Longrightarrow> t n = Some e \<Longrightarrow> fe_path e' = fe_path e \<Longrightarrow>
    fd_sound (v, True, x') (t(n \<mapsto> e'))"
  by (auto simp: fd_sound_def)

lemma sound_less:
  "fd_sound (v, d, x) t \<Longrightarrow> (\<And>n. v' n \<noteq> None \<Longrightarrow> v' n = v n) \<Longrightarrow> fd_sound (v', d, x') t"
  by (fastforce simp: fd_sound_def map_le_def dom_def)

lemma write_same: "k_write p (\<lambda>t. t) k = k"
  by (simp add: k_write_def k_open_def)

lemma k_join_fields [simp]:
  "k_used (k_join q p k) = insert q (k_used k)" "k_live (k_join q p k) = insert q (k_live k)" "k_next (k_join q p k) = k_next k"
  "k_table (k_join q p k) = (k_table k)(q := k_table k p)"
  "k_open (k_join q p k) r = (if r = q then k_open k p else k_open k r)"
  by (simp_all add: k_join_def k_open_def)

lemma sim_join:
  assumes sim: "fd_sim k s" and p: "p \<in> k_used k" and q: "q \<notin> k_used k"
  shows "fd_sim (k_join q p k) (fd_clone p q True s)"
proof -
  note sim = fd_simD [OF sim]
  have ne: "p \<noteq> q" using p q by blast
  let ?s = "fd_clone p q True s"
  note c = clone_shared_fresh [OF sim(1,2) sim(5) [OF q] ne]
  have self: "(if a = q then p else a) \<in> k_used k" if "a \<in> insert q (k_used k)" for a using that p by auto
  have "peers ?s a b \<longleftrightarrow> ((k_table k)(q := k_table k p)) a = ((k_table k)(q := k_table k p)) b"
    if "a \<in> insert q (k_used k)" "b \<in> insert q (k_used k)" for a b
    using sim(4) [OF self [OF that(1)] self [OF that(2)]] by (simp add: c(3))
  moreover have "fd_sound (fd_sees ?s a) (k_open (k_join q p k) a)" if a: "a \<in> insert q (k_used k)" for a
  proof -
    let ?b = "if a = q then p else a"
    have b: "fd_sound (fd_sees s ?b) (k_open k ?b)" by (rule sim(6) [OF self [OF a]])
    have same: "fd_view s p = fd_view s ?b" if "a = q \<or> peers s p a"
      using that by (cases "a = q") (simp_all add: peers_def fd_view_def fun_eq_iff)
    have "fd_view s ?b = fd_view s a" if "\<not> (a = q \<or> peers s p a)" using that by simp
    with same have "fd_view ?s a n = fd_view s ?b n" if "fd_view ?s a n \<noteq> None" for n
      using that unfolding c(4) by presburger
    then have "fd_sound (fd_view ?s a, fd_doubt s ?b, fd_opaque ?s a) (k_open k ?b)"
      by (rule sound_less [OF b [unfolded fd_sees_eq]])
    then show ?thesis by (simp add: fd_sees_eq c(5) if_distrib cong: if_cong)
  qed
  moreover have "fresh ?s a" if "a \<notin> insert q (k_used k)" for a
    using c(6) [OF sim(5) [of a]] that p by auto
  moreover have "k_table k p < k_next k" by (rule sim(3) [OF p])
  ultimately show ?thesis using c(1,2) sim(3,7) by (auto simp: fd_sim_def)
qed

lemma sim_copy:
  assumes sim: "fd_sim k s" and p: "p \<in> k_used k" and q: "q \<notin> k_used k"
  shows "fd_sim (k_private q p k) (fd_clone p q False s)"
proof -
  note sim = fd_simD [OF sim]
  have ne: "p \<noteq> q" using p q by blast
  let ?s = "fd_clone p q False s"
  note c = clone_copied_fresh [OF sim(1) sim(5) [OF q] ne]
  note a = actsD [OF c(1) sim(1)]
  have fq: "peers s x q \<longleftrightarrow> x = q" "peers s q x \<longleftrightarrow> x = q" for x
    using freshD(3,4) [OF sim(5) [OF q]] by blast+
  have nt: "k_table k x \<noteq> k_next k" if "x \<in> k_used k" for x using sim(3) [OF that] by simp
  have see: "fd_sees ?s x = (if x = q then (fd_view s p, fd_doubt s p, fd_opaque ?s q) else fd_sees s x)" for x
    using a(4) [of x] freshD(5) [OF sim(5) [OF q]] by (auto simp: fq fd_sees_eq)
  have "peers ?s x y \<longleftrightarrow> ((k_table k)(q := k_next k)) x = ((k_table k)(q := k_next k)) y"
    if "x \<in> insert q (k_used k)" "y \<in> insert q (k_used k)" for x y
    using that sim(4) [of x y] q nt [of x] nt [of y] by (auto simp: a(3) fq)
  moreover have "fd_sound (fd_sees ?s x) (k_open (k_private q p k) x)" if x: "x \<in> insert q (k_used k)" for x
  proof (cases "x = q")
    case True
    have "fd_sound (fd_view s p, fd_doubt s p, fd_opaque ?s q) (k_open k p)"
      by (rule sound_less [OF sim(6) [OF p, unfolded fd_sees_eq]]) simp
    then show ?thesis using see [of q] by (simp add: True)
  next
    case False
    then show ?thesis using sim(6) [of x] nt [of x] x see [of x] by simp
  qed
  moreover have "fresh ?s x" if x: "x \<notin> insert q (k_used k)" for x
  proof (rule fresh_if [OF sim(5) [of x]])
    show "x \<notin> k_used k" using x by simp
    show "fd_book ?s x = fd_book s x" by (simp add: c(2))
    show "fd_sees ?s x = fd_sees s x" using x see [of x] by simp
    show "peers ?s y x \<longleftrightarrow> peers s y x" for y by (simp add: a(3))
    show "fd_inv ?s" by (rule a(1))
    show "find_root (fdParent ?s) x = x" using freshD(1) [OF sim(5) [of x]] x by (simp add: a(2))
  qed
  ultimately show ?thesis using a(1,5) sim(2,3,7) by (auto simp: fd_sim_def less_SucI)
qed

text \<open>One line keeps the simulation, when a clone gives out a pid that was never in use.\<close>

lemma sim_step:
  assumes sim: "fd_sim k s" and step: "k_step k e k'" and new: "set (cloned_pid e) \<inter> k_used k = {}"
  shows "fd_sim k' (observe e s)"
proof -
  have live: "p \<in> k_used k" if "p \<in> k_live k" for p using fd_simD(7) [OF sim] that by blast
  show ?thesis using step
  proof (cases rule: k_step.cases)
  case (opened p fd path c known)
  show ?thesis unfolding opened observe.simps
    by (rule sim_acts [OF sim acts_opened frames_opened live [OF opened(3)]])
      (cases known; auto simp: tracks_def intro: sound_put sound_drop(1))
next
  case (duped p old e' new c)
  have "tracks (\<lambda>(v, d, x). case v old of
       Some e \<Rightarrow> (v(new \<mapsto> \<lparr>fe_path = fe_path e, fe_cloexec = c\<rparr>), d, x - {new})
     | None \<Rightarrow> (v(new := None), True, insert new x))
     (\<lambda>t. t(new \<mapsto> \<lparr>fe_path = fe_path e', fe_cloexec = c\<rparr>)) (k_open k p)"
    unfolding tracks_def
  proof (intro allI impI, clarify)
    fix v d x
    assume s: "fd_sound (v, d, x) (k_open k p)"
    show "fd_sound (case v old of
         Some e \<Rightarrow> (v(new \<mapsto> \<lparr>fe_path = fe_path e, fe_cloexec = c\<rparr>), d, x - {new})
       | None \<Rightarrow> (v(new := None), True, insert new x))
      ((k_open k p)(new \<mapsto> \<lparr>fe_path = fe_path e', fe_cloexec = c\<rparr>))"
    proof (cases "v old")
      case None
      then show ?thesis using s by (auto intro: sound_drop)
    next
      case (Some e)
      have "fe_path e = fe_path e'" using s Some duped(4) by (auto simp: fd_sound_def)
      then show ?thesis using s Some by (auto intro: sound_put)
    qed
  qed
  then show ?thesis unfolding duped observe.simps
    by (rule sim_acts [OF sim acts_dup frames_dup live [OF duped(3)]])
next
  case (closed p fd rc)
  show ?thesis unfolding closed observe.simps
    by (rule sim_acts [OF sim acts_close frames_close_fd live [OF closed(3)]]) (auto simp: tracks_def intro: sound_drop)
next
  case (not_closed p rc fd)
  have "fd_sim (k_write p (\<lambda>t. t) k) (fd_close p fd rc s)"
    by (rule sim_acts [OF sim acts_close frames_close_fd live [OF not_closed(3)]]) (auto simp: tracks_def intro: sound_drop)
  then show ?thesis using not_closed by (simp add: write_same)
next
  case (range p lo hi c)
  show ?thesis unfolding range observe.simps
    by (rule sim_acts [OF sim acts_close_range frames_close_range live [OF range(3)]]) (auto simp: tracks_def intro: sound_swept)
next
  case (private_range p lo hi c)
  show ?thesis unfolding private_range observe.simps
    by (rule sim_splits [OF sim splits_close_range frames_close_range live [OF private_range(3)]])
      (auto simp: tracks_def intro: sound_swept)
next
  case (unshared p)
  have "fd_sim (k_write p (\<lambda>t. t) (k_private p p k)) (fd_unshare p s)"
    by (rule sim_splits [OF sim splits_unshare frames_unshare live [OF unshared(3)]]) (simp add: tracks_def)
  then show ?thesis using unshared by (simp add: write_same)
next
  case (execed p)
  show ?thesis unfolding execed observe.simps
    by (rule sim_splits [OF sim splits_exec frames_exec live [OF execed(3)]]) (auto simp: tracks_def sight_defs intro: sound_exec)
next
  case (flagged p fd e' c known)
  have "tracks (\<lambda>(v, d, x). case (if known then Some c else None) of
       None \<Rightarrow> (v, True, x)
     | Some c \<Rightarrow> (v(fd := map_option (\<lambda>e. e\<lparr>fe_cloexec := c\<rparr>) (v fd)), d, x))
     (\<lambda>t. t(fd \<mapsto> e'\<lparr>fe_cloexec := c\<rparr>)) (k_open k p)"
    unfolding tracks_def
  proof (intro allI impI, clarify)
    fix v d x
    assume s: "fd_sound (v, d, x) (k_open k p)"
    have "fd_sound (v(fd := map_option (\<lambda>e. e\<lparr>fe_cloexec := c\<rparr>) (v fd)), d, x)
        ((k_open k p)(fd \<mapsto> e'\<lparr>fe_cloexec := c\<rparr>))"
    proof (cases "v fd")
      case None
      then show ?thesis using s by (auto intro: sound_drop)
    next
      case (Some e)
      have "fe_path e = fe_path e'" using s Some flagged(4) by (simp add: fd_sound_def)
      moreover have "e = e'" if "\<not> d"
      proof -
        have "v \<subseteq>\<^sub>m k_open k p" using s that by (simp add: fd_sound_def)
        from le_get [OF this Some] flagged(4) show ?thesis by simp
      qed
      ultimately show ?thesis using s Some by (auto intro!: sound_put)
    qed
    then show "fd_sound (case if known then Some c else None of
         None \<Rightarrow> (v, True, x)
       | Some c \<Rightarrow> (v(fd := map_option (\<lambda>e. e\<lparr>fe_cloexec := c\<rparr>) (v fd)), d, x))
      ((k_open k p)(fd \<mapsto> e'\<lparr>fe_cloexec := c\<rparr>))"
      using sound_doubt [OF s flagged(4), of "e'\<lparr>fe_cloexec := c\<rparr>"] by simp
  qed
  then show ?thesis unfolding flagged observe.simps
    by (rule sim_acts [OF sim acts_setfd frames_setfd live [OF flagged(3)]])
next
  case (cloned p q sharing)
  then show ?thesis using sim_join [OF sim live] sim_copy [OF sim live] new by (cases sharing) simp_all
next
  case (exited p)
  then show ?thesis using sim by (auto simp: fd_sim_def k_open_def)
qed
qed

lemma k_step_used: "k_step k e k' \<Longrightarrow> k_live k \<subseteq> k_used k \<Longrightarrow> k_used k' = k_used k \<union> set (cloned_pid e) \<and> k_live k' \<subseteq> k_used k'"
  by (cases rule: k_step.cases) (auto split: if_splits)

lemma traced_used: "traced root qs k s \<Longrightarrow> k_used k = insert root (set qs) \<and> k_live k \<subseteq> k_used k"
proof (induction rule: traced.induct)
  case (line qs k s e k')
  then show ?case using k_step_used [of k e k'] by auto
qed simp

theorem traced_sim: "traced root qs k s \<Longrightarrow> distinct (root # qs) \<Longrightarrow> fd_sim k s"
proof (induction rule: traced.induct)
  case (start k)
  have flat: "flat_groups (fdParent fd_init)" and v: "fd_sound (fd_sees fd_init q) t" for q t
    by (simp_all add: flat_groups_def up_def fd_init_def fd_sees_def fd_look_def fd_sound_def map_le_def dom_def)
  show ?case unfolding fd_sim_def using start by (simp add: flat v peers_def)
next
  case (line qs k s e k')
  have "set (cloned_pid e) \<inter> k_used k = {}" using traced_used [OF line.hyps(1)] line.prems by auto
  with line show ?case by (intro sim_step) auto
qed

section \<open>What the contract gives\<close>

text \<open>A small run: a process opens a directory, clones a child that shares its table, the child leaves
  and reuses the number.\<close>

definition sample_kernel :: kernel where
  "sample_kernel = \<lparr>k_live = {1}, k_used = {1}, k_table = (\<lambda>_. 0), k_files = (\<lambda>_ _. None), k_next = 1\<rparr>"

definition sample_events :: "fd_event list" where
  "sample_events = [EvOpen 1 7 ''/safe'' False True, EvClone 1 2 True, EvUnshare 2,
     EvOpen 2 7 ''/evil'' False True, EvExec 1]"

fun k_run :: "fd_event list \<Rightarrow> kernel \<Rightarrow> kernel" where
  "k_run [] k = k"
| "k_run (EvOpen p fd path c known # es) k =
     k_run es (k_write p (\<lambda>t. t(fd \<mapsto> \<lparr>fe_path = path, fe_cloexec = c\<rparr>)) k)"
| "k_run (EvClose p fd rc # es) k = k_run es (k_write p (\<lambda>t. t(fd := None)) k)"
| "k_run (EvUnshare p # es) k = k_run es (k_private p p k)"
| "k_run (EvExec p # es) k = k_run es (k_write p exec_keeps (k_private p p k))"
| "k_run (EvClone p q sharing # es) k = k_run es (if sharing then k_join q p k else k_private q p k)"
| "k_run (EvExit p # es) k = k_run es (k\<lparr>k_live := k_live k - {p}\<rparr>)"
| "k_run (_ # es) k = k_run es k"

lemma traced_sample: "traced 1 [2] (k_run sample_events sample_kernel) (fold observe sample_events fd_init)"
proof -
  have 0: "traced 1 [] sample_kernel fd_init" by (rule traced.start) (simp_all add: sample_kernel_def)
  note 1 = traced.line [OF 0 k_step.opened [of 1 _ 7 "''/safe''" False True]]
  note 2 = traced.line [OF 1 k_step.cloned [of 1 _ 2 True]]
  note 3 = traced.line [OF 2 k_step.unshared [of 2]]
  note 4 = traced.line [OF 3 k_step.opened [of 2 _ 7 "''/evil''" False True]]
  note 5 = traced.line [OF 4 k_step.execed [of 1]]
  show ?thesis using 5 by (simp add: sample_events_def sample_kernel_def k_open_def k_write_def k_join_def k_private_def)
qed

text \<open>C26: as long as no pid is given out twice, the descriptor tables are never stale. When the lines of open,
  dup, close, close_range, fcntl, unshare, execve, clone and exit reach the tracker in the order of the calls, and
  the pids that clones gave out are distinct (and not the first process), whatever processes share their tables,
  an entry the tracker returns for a live process whose group is not marked unknown is the one the kernel holds
  for that process and number: path and close-on-exec flag. With a reused pid this fails.\<close>

theorem fd_never_stale:
  assumes "traced root qs k s" "distinct (root # qs)" "p \<in> k_live k"
    and "\<not> fst (fdUnknownHas p s)" "fst (fd_get p fd s) = Some e"
  shows "k_open k p fd = Some e"
proof -
  have "p \<in> k_used k" using traced_used [OF assms(1)] assms(3) by blast
  then have "fd_view s p \<subseteq>\<^sub>m k_open k p"
    using fd_simD(6) [OF traced_sim [OF assms(1,2)]] assms(4)
    by (simp add: fdUnknownHas_def rootedFd_pair fd_doubt_def fd_sees_eq fd_sound_def)
  then show ?thesis using assms(5) by (auto simp: fd_get_fst intro: le_get)
qed

theorem fd_never_stale_witness:
  "k_open (k_run sample_events sample_kernel) 1 7 = Some \<lparr>fe_path = ''/safe'', fe_cloexec = False\<rparr>"
proof (rule fd_never_stale [OF traced_sample])
  show "1 \<in> k_live (k_run sample_events sample_kernel)" by (simp add: sample_events_def sample_kernel_def)
  show "\<not> fst (fdUnknownHas 1 (fold observe sample_events fd_init))" by code_simp
  show "fst (fd_get 1 7 (fold observe sample_events fd_init)) = Some \<lparr>fe_path = ''/safe'', fe_cloexec = False\<rparr>"
    by code_simp
qed simp

text \<open>C27: as long as no pid is given out twice, two live processes have the same group exactly when the kernel
  lets them share one table, after any run observed in order; so a change one of them makes reaches exactly
  those it reaches in the kernel. With a reused pid this fails.\<close>

theorem fd_groups_exact:
  assumes "traced root qs k s" "distinct (root # qs)" "p \<in> k_live k" "q \<in> k_live k"
  shows "fst (rootedFd p s) = fst (rootedFd q s) \<longleftrightarrow> k_table k p = k_table k q"
proof -
  have "p \<in> k_used k" "q \<in> k_used k" using traced_used [OF assms(1)] assms(3,4) by auto
  with fd_simD(4) [OF traced_sim [OF assms(1,2)]] show ?thesis by (simp add: peers_def)
qed

theorem fd_groups_exact_witness:
  "fst (rootedFd 1 (fold observe sample_events fd_init)) \<noteq> fst (rootedFd 2 (fold observe sample_events fd_init))"
  using fd_groups_exact [OF traced_sample, of 1 2] by (simp add: sample_events_def sample_kernel_def)

section \<open>A pid that comes back\<close>

text \<open>The comment of the exit handler says that the directories and descriptors need no clearing, as the
  execve and clone lines govern them. But a clone line copies the entries of the parent beside those that the
  dead process of the same pid left behind: its successor is credited with a descriptor it does not have. And a
  pid that once shared a table is still filed with its old group after a clone line without sharing.\<close>

definition reused_events :: "fd_event list" where
  "reused_events = [EvClone 1 2 False, EvOpen 2 7 ''/old'' False True, EvExit 2, EvClone 1 2 False]"

definition regrouped_events :: "fd_event list" where
  "regrouped_events = [EvClone 1 2 True, EvExit 2, EvClone 1 2 False]"

lemma traced_reused: "traced 1 [2, 2] (k_run reused_events sample_kernel) (fold observe reused_events fd_init)"
proof -
  have 0: "traced 1 [] sample_kernel fd_init" by (rule traced.start) (simp_all add: sample_kernel_def)
  note 1 = traced.line [OF 0 k_step.cloned [of 1 _ 2 False]]
  note 2 = traced.line [OF 1 k_step.opened [of 2 _ 7 "''/old''" False True]]
  note 3 = traced.line [OF 2 k_step.exited [of 2]]
  note 4 = traced.line [OF 3 k_step.cloned [of 1 _ 2 False]]
  show ?thesis using 4 by (simp add: reused_events_def sample_kernel_def k_open_def k_write_def k_join_def k_private_def)
qed

lemma reused_pid_goes_stale:
  "traced 1 [2, 2] (k_run reused_events sample_kernel) (fold observe reused_events fd_init)"
  "2 \<in> k_live (k_run reused_events sample_kernel)"
  "\<not> fst (fdUnknownHas 2 (fold observe reused_events fd_init))"
  "fst (fd_get 2 7 (fold observe reused_events fd_init)) = Some \<lparr>fe_path = ''/old'', fe_cloexec = False\<rparr>"
  "k_open (k_run reused_events sample_kernel) 2 7 = None"
  subgoal by (rule traced_reused)
  subgoal by (simp add: reused_events_def sample_kernel_def)
  subgoal by code_simp
  subgoal by code_simp
  subgoal by (simp add: reused_events_def sample_kernel_def k_open_def k_write_def k_private_def)
  done

lemma reused_pid_regrouped:
  "fst (rootedFd 1 (fold observe regrouped_events fd_init)) = fst (rootedFd 2 (fold observe regrouped_events fd_init))"
  "k_table (k_run regrouped_events sample_kernel) 1 \<noteq> k_table (k_run regrouped_events sample_kernel) 2"
  subgoal by code_simp
  subgoal by (simp add: regrouped_events_def sample_kernel_def k_join_def k_private_def)
  done

section \<open>The parent pointers never have a cycle\<close>

text \<open>This holds for the lines in any order, so the loops of \<^verbatim>\<open>findFdRoot\<close> end whatever is observed.\<close>

named_theorems forest_kept \<open>operations that keep the parent pointers free of cycles\<close>

lemma forest_unknown [forest_kept]: "forest (fdParent s) \<Longrightarrow> forest (fdParent (fdUnknownAdd pid s))"
  by (simp add: fdUnknownAdd_def rootedFd_pair Let_def)

lemma forest_unknown_both [forest_kept]: "forest (fdParent s) \<Longrightarrow> forest (fdParent (unknown_both p c s))"
  by (simp add: unknown_both_def forest_kept)

lemma forest_replay_merged [forest_kept]: "forest (fdParent s) \<Longrightarrow> forest (fdParent (replay_merged r p c t s))"
  by (cases t) (simp_all add: Let_def forest_kept)

lemma forest_union [forest_kept]:
  assumes "forest (fdParent s)"
  shows "forest (fdParent (unionFd p c s))"
proof -
  let ?s1 = "s\<lparr>fdParent := snd (rooted c (snd (rooted p (fdParent s))))\<rparr>"
  have f: "forest (fdParent ?s1)" using assms by simp
  have "up (fdParent ?s1) (find_root (fdParent s) x) = None" for x
    using find_root_eq_self [OF f, of "find_root (fdParent s) x"] assms by simp
  then show ?thesis
    using f forest_link [OF f] by (auto simp: unionFd_cases [OF assms] union_roots_def Let_def)
qed

lemma forest_fold: "(\<And>x s. forest (fdParent s) \<Longrightarrow> forest (fdParent (f x s))) \<Longrightarrow>
    forest (fdParent s) \<Longrightarrow> forest (fdParent (fold f xs s))"
  by (induction xs arbitrary: s) auto

lemma forest_history [forest_kept]: "forest (fdParent s) \<Longrightarrow> forest (fdParent (snd (take_history c s)))"
  by (simp add: take_history_def rootedFd_pair Let_def)

lemma forest_shared [forest_kept]:
  assumes "forest (fdParent s)"
  shows "forest (fdParent (clone_shared p c h s))"
  unfolding clone_shared_def Let_def rootedFd_pair prod.case
  by (auto intro!: forest_fold forest_kept assms simp: forest_union [OF assms] split: option.splits)

lemma forest_point [forest_kept]:
  "forest (fdParent s) \<Longrightarrow> forest (fdParent (applyPointTombstone pr cr p c fd x y z s))"
  by (auto simp: applyPointTombstone_def Let_def intro!: forest_kept)

lemma forest_range [forest_kept]:
  "forest (fdParent s) \<Longrightarrow> forest (fdParent (applyRangeTombstone pr cr p c lo hi x y z s))"
  by (auto simp: applyRangeTombstone_def Let_def intro!: forest_kept)

lemma forest_replay [forest_kept]: "forest (fdParent s) \<Longrightarrow> forest (fdParent (replay_tombstone pr cr p c x y t s))"
  by (cases t) (simp_all add: forest_kept)

lemma forest_replay_log [forest_kept]: "forest (fdParent s) \<Longrightarrow> forest (fdParent (replay_log pr cr p c x t s))"
  by (cases "(pr, cr, p, c, x, t, s)" rule: replay_log.cases) (simp_all add: forest_kept)

lemma forest_distrust [forest_kept]: "forest (fdParent s) \<Longrightarrow> forest (fdParent (clone_distrust pr p c sh cf sn s))"
  unfolding clone_distrust_def Let_def fdUnknownHas_def rootedFd_pair prod.case
  by (simp add: forest_kept split: option.splits)

lemma forest_copied [forest_kept]:
  assumes "forest (fdParent s)"
  shows "forest (fdParent (clone_copied p c sh h s))"
proof -
  define s2 where "s2 = s\<lparr>fdParent := snd (rooted c (snd (rooted p (fdParent s))))\<rparr>"
  have f2: "forest (fdParent s2)" using assms by (simp add: s2_def)
  with assms show ?thesis
    by (auto simp: clone_copied_def rootedFd_pair Let_def s2_def [symmetric] intro!: forest_fold forest_kept split: option.splits)
qed

lemma forest_clone [forest_kept]: "forest (fdParent s) \<Longrightarrow> forest (fdParent (fd_clone p c sh s))"
  by (auto simp: fd_clone_def case_prod_beta Let_def intro!: forest_kept)

lemma forest_frames: "frames p s s' \<Longrightarrow> forest (fdParent s) \<Longrightarrow> forest (fdParent s')"
  by (simp add: frames_def)

lemma forest_observe: "forest (fdParent s) \<Longrightarrow> forest (fdParent (observe e s))"
  by (cases e) (auto intro: forest_clone forest_frames frames)

lemma forest_run: "forest (fdParent s) \<Longrightarrow> forest (fdParent (fold observe es s))"
  by (induction es arbitrary: s) (auto intro: forest_observe)

text \<open>C28: looking up the group of a process always ends. The loops of \<^verbatim>\<open>findFdRoot\<close> follow the parent
  pointers with no bound of their own; after any sequence of lines whatsoever, a clone read before
  or after its child's lines, a pid used twice, a line repeated, the pointers have no cycle and the
  loop returns for every pid.\<close>

theorem find_root_returns:
  "find_loop (fdParent (fold observe es fd_init)) p = Some (fst (rootedFd p (fold observe es fd_init)))"
proof -
  have "forest (fdParent fd_init)" using fd_inv_init unfolding fd_inv_def by blast
  from find_loop_root [OF forest_run [OF this]] show ?thesis by simp
qed



section \<open>Leaving and joining\<close>

text \<open>A process that leaves its group takes nothing from anybody. After \<^verbatim>\<open>detachFdGroup\<close> every process,
  the leaving one, the new root and the rest, has the entries, the unknown mark and the opaque
  numbers it had before, the state stays well formed, and the process is its own root.\<close>

theorem leaving_unnoticed:
  assumes "fd_inv s"
  shows "fd_inv (detachFdGroup p s) \<and> fst (rootedFd p (detachFdGroup p s)) = p \<and>
    (\<forall>q. fd_sees (detachFdGroup p s) q = fd_sees s q)"
  using detach_view [OF assms] by (simp add: fd_sees_eq)

theorem leaving_unnoticed_witness:
  "fd_sees (detachFdGroup 1 (fold observe sample_events fd_init)) 2 = fd_sees (fold observe sample_events fd_init) 2"
  using leaving_unnoticed [OF fd_simD(1) [OF traced_sim [OF traced_sample, simplified]]] by simp

text \<open>Two groups that join agree on the merge. Every member of either group sees an entry that only
  one side had, an entry on whose path both agree (close-on-exec if either says so), and nothing
  where the paths differ or a number is opaque to one side; the group is unknown if either was;
  nobody else notices.\<close>

theorem joining_merges:
  assumes "fd_inv s" and ne: "fst (rootedFd p s) \<noteq> fst (rootedFd c s)"
  shows "fd_inv (unionFd p c s) \<and>
    (\<forall>q. fd_sees (unionFd p c s) q =
      (if peers s q p \<or> peers s q c
       then (\<lambda>fd. if fd \<in> fd_opaque s c \<union> fd_opaque s p then None
                  else merged_entry (fd_view s p fd) (fd_view s c fd),
             fd_doubt s p \<or> fd_doubt s c, fd_opaque s c \<union> fd_opaque s p)
       else fd_sees s q))"
  using unionFd_view [OF assms(1) refl refl] ne by (auto simp: fd_sees_eq peers_def fun_eq_iff)

theorem joining_merges_witness:
  "fd_view (unionFd 1 2 (fold observe sample_events fd_init)) 2 7 = None"
proof -
  let ?s = "fold observe sample_events fd_init"
  have "fst (rootedFd 1 ?s) \<noteq> fst (rootedFd 2 ?s)" by code_simp
  note j = joining_merges [OF fd_simD(1) [OF traced_sim [OF traced_sample, simplified]] this, THEN conjunct2, rule_format, of 2]
  have "peers ?s 2 2" by (simp add: peers_def)
  with j have "fd_view (unionFd 1 2 ?s) 2 = (\<lambda>fd. if fd \<in> fd_opaque ?s 2 \<union> fd_opaque ?s 1 then None
      else merged_entry (fd_view ?s 1 fd) (fd_view ?s 2 fd))"
    unfolding fd_sees_eq by simp
  moreover have "merged_entry (fd_view (fold observe sample_events fd_init) 1 7)
      (fd_view (fold observe sample_events fd_init) 2 7) = None" by code_simp
  ultimately show ?thesis by simp
qed


section \<open>Out of order\<close>

text \<open>
  The clone lines of a chain of processes may be read from the bottom up. Then the group is a tree of
  depth two, and \<^verbatim>\<open>detachFdGroup\<close> clears the parent pointer of an inner process with others still
  below it: they leave with it, although the comment of the function says that the remaining members
  keep their root.
\<close>

definition chain_events :: "fd_event list" where
  "chain_events = [EvOpen 1 7 ''/safe'' False True, EvClone 1 2 True, EvClone 2 3 True, EvUnshare 2,
     EvClose 3 7 0, EvOpen 3 7 ''/evil'' False True]"

definition chain_lines :: "fd_event list" where
  "chain_lines = [EvOpen 1 7 ''/safe'' False True, EvClone 2 3 True, EvClone 1 2 True, EvUnshare 2,
     EvClose 3 7 0, EvOpen 3 7 ''/evil'' False True]"

text \<open>The guarantee needs the order. When the clone line of a grandchild is read before that of its
  parent and the parent then unshares, the grandchild is filed with the parent instead of with the
  process it still shares its table with, and that process keeps a stale entry that is not marked
  unknown: the kernel's descriptor 7 is \<^verbatim>\<open>/evil\<close>, the tracker answers \<^verbatim>\<open>/safe\<close>.\<close>

theorem inner_detach_goes_stale:
  "mset chain_lines = mset chain_events \<and>
   \<not> fst (fdUnknownHas 1 (fold observe chain_lines fd_init)) \<and>
   fst (fd_get 1 7 (fold observe chain_lines fd_init)) = Some \<lparr>fe_path = ''/safe'', fe_cloexec = False\<rparr> \<and>
   k_open (k_run chain_events sample_kernel) 1 7 = Some \<lparr>fe_path = ''/evil'', fe_cloexec = False\<rparr>"
proof (intro conjI)
  show "mset chain_lines = mset chain_events" by (simp add: chain_lines_def chain_events_def)
  show "\<not> fst (fdUnknownHas 1 (fold observe chain_lines fd_init))" by code_simp
  show "fst (fd_get 1 7 (fold observe chain_lines fd_init)) = Some \<lparr>fe_path = ''/safe'', fe_cloexec = False\<rparr>"
    by code_simp
  show "k_open (k_run chain_events sample_kernel) 1 7 = Some \<lparr>fe_path = ''/evil'', fe_cloexec = False\<rparr>"
    by (simp add: chain_events_def sample_kernel_def k_open_def k_write_def k_join_def k_private_def)
qed

end
