(* ===== verification/PathPosix.thy ===== *)
theory PathPosix
  imports JsString
begin

text \<open>
  The functions of \<^verbatim>\<open>node:path\<close> (POSIX) that the sources call: \<^verbatim>\<open>path.isAbsolute\<close> and \<^verbatim>\<open>path.resolve\<close>. The
  resolution is lexical: segments between slashes, empty ones and \<^verbatim>\<open>.\<close> ignored, \<^verbatim>\<open>..\<close> removes the last
  one, and above the root it removes nothing. The directory of the running process, which
  \<^verbatim>\<open>path.resolve\<close> falls back to, is a parameter.
\<close>

section \<open>Segments\<close>

fun split_slash :: "string \<Rightarrow> string list" where
  "split_slash [] = [[]]"
| "split_slash (c # s) =
     (if c = CHR ''/'' then [] # split_slash s
      else (c # hd (split_slash s)) # tl (split_slash s))"

fun norm_segs :: "string list \<Rightarrow> string list \<Rightarrow> string list" where
  "norm_segs acc [] = rev acc"
| "norm_segs acc (x # xs) =
     norm_segs (if x = [] \<or> x = ''.'' then acc else if x = ''..'' then tl acc else x # acc) xs"

definition path_isAbsolute :: "string \<Rightarrow> bool" where
  "path_isAbsolute p \<longleftrightarrow> (case p of [] \<Rightarrow> False | c # _ \<Rightarrow> c = CHR ''/'')"

text \<open>From right to left, until the path is absolute.\<close>

fun resolve_join :: "string \<Rightarrow> string list \<Rightarrow> string \<Rightarrow> string" where
  "resolve_join pcwd [] acc = pcwd @ CHR ''/'' # acc"
| "resolve_join pcwd (p # ps) acc =
     (if p = [] then resolve_join pcwd ps acc
      else if path_isAbsolute p then p @ CHR ''/'' # acc
      else resolve_join pcwd ps (p @ CHR ''/'' # acc))"

definition path_resolve :: "string \<Rightarrow> string list \<Rightarrow> string" where
  "path_resolve pcwd ps = CHR ''/'' # join ''/'' (norm_segs [] (split_slash (resolve_join pcwd (rev ps) [])))"


section \<open>Canonical paths\<close>

definition plain_seg :: "string \<Rightarrow> bool" where
  "plain_seg x \<longleftrightarrow> x \<noteq> [] \<and> x \<noteq> ''.'' \<and> x \<noteq> ''..'' \<and> CHR ''/'' \<notin> set x"

text \<open>An absolute path without empty, \<^verbatim>\<open>.\<close> or \<^verbatim>\<open>..\<close> segments and without a trailing slash.\<close>

definition canonical_path :: "string \<Rightarrow> bool" where
  "canonical_path p \<longleftrightarrow> (\<exists>xs. p = CHR ''/'' # join ''/'' xs \<and> list_all plain_seg xs)"

lemma split_slash_ne [simp]: "split_slash s \<noteq> []"
  by (induction s) auto

lemma split_slash_no: "CHR ''/'' \<notin> set s \<Longrightarrow> split_slash s = [s]"
  by (induction s) auto

lemma split_slash_append:
  "split_slash (a @ CHR ''/'' # b) = split_slash a @ split_slash b"
  by (induction a) (auto simp: hd_append)

lemma split_slash_segs: "x \<in> set (split_slash s) \<Longrightarrow> CHR ''/'' \<notin> set x"
proof (induction s arbitrary: x)
  case (Cons c s)
  obtain y ys where ys: "split_slash s = y # ys" by (cases "split_slash s") auto
  with Cons show ?case by (auto split: if_splits)
qed simp

lemma split_join:
  "xs \<noteq> [] \<Longrightarrow> \<forall>x\<in>set xs. CHR ''/'' \<notin> set x \<Longrightarrow> split_slash (join ''/'' xs) = xs"
proof (induction xs)
  case (Cons x xs)
  then show ?case by (cases xs) (auto simp: split_slash_no split_slash_append)
qed simp

lemma norm_segs_append: "norm_segs acc (xs @ ys) = norm_segs (rev (norm_segs acc xs)) ys"
  by (induction acc xs rule: norm_segs.induct) auto

lemma norm_segs_plain: "list_all plain_seg xs \<Longrightarrow> norm_segs acc xs = rev acc @ xs"
  by (induction xs arbitrary: acc) (auto simp: plain_seg_def)

lemma plain_norm_segs:
  "\<forall>x\<in>set xs. CHR ''/'' \<notin> set x \<Longrightarrow> list_all plain_seg acc \<Longrightarrow> list_all plain_seg (norm_segs acc xs)"
proof (induction acc xs rule: norm_segs.induct)
  case (2 acc x xs)
  have tl: "list_all plain_seg (tl acc)" using 2(3) by (cases acc) auto
  have "list_all plain_seg (x # acc)" if "\<not> (x = [] \<or> x = ''.'')" "x \<noteq> ''..''"
    using that 2(2,3) by simp (simp add: plain_seg_def)
  with 2 tl have "list_all plain_seg (if x = [] \<or> x = ''.'' then acc else if x = ''..'' then tl acc else x # acc)" by simp
  with 2 show ?case by simp
qed (simp add: list_all_iff)

lemma path_resolve_canonical: "canonical_path (path_resolve pcwd ps)"
  unfolding canonical_path_def path_resolve_def
  using plain_norm_segs [of "split_slash (resolve_join pcwd (rev ps) [])" "[]"] split_slash_segs by auto

lemma canonical_absolute: "canonical_path p \<Longrightarrow> path_isAbsolute p"
  by (auto simp: canonical_path_def path_isAbsolute_def)

lemma norm_join:
  assumes "list_all plain_seg xs"
  shows "norm_segs acc (split_slash (join ''/'' xs)) = rev acc @ xs"
proof (cases "xs = []")
  case False
  have "split_slash (join ''/'' xs) = xs"
    using assms False by (intro split_join) (auto simp: list_all_iff plain_seg_def)
  then show ?thesis using assms by (simp add: norm_segs_plain)
qed simp

lemma split_canonical:
  "list_all plain_seg xs \<Longrightarrow> norm_segs acc (split_slash (CHR ''/'' # join ''/'' xs)) = rev acc @ xs"
  by (simp add: norm_join)

text \<open>What the callers rely on: an absolute path resolves by itself, a canonical one to itself, and
  resolving step by step is resolving at once.\<close>

lemma norm_tail: "norm_segs acc (split_slash (p @ ''/'')) = norm_segs acc (split_slash p)"
  using split_slash_append [of p "[]"] by (simp add: norm_segs_append)

lemma resolve_absolute:
  "path_isAbsolute p \<Longrightarrow> path_resolve pcwd (ps @ [p]) = CHR ''/'' # join ''/'' (norm_segs [] (split_slash p))"
  by (auto simp: path_resolve_def path_isAbsolute_def norm_tail split: list.splits)

lemma resolve_canonical: "canonical_path p \<Longrightarrow> path_resolve pcwd (ps @ [p]) = p"
  by (subst resolve_absolute [OF canonical_absolute]) (auto simp: canonical_path_def norm_join)

lemma resolve_relative:
  assumes "canonical_path d" "p \<noteq> []" "\<not> path_isAbsolute p"
  shows "path_resolve pcwd [d, p] =
    CHR ''/'' # join ''/'' (norm_segs (rev (norm_segs [] (split_slash d))) (split_slash p))"
proof -
  have d: "d \<noteq> []" "path_isAbsolute d"
    using assms(1) canonical_absolute by (auto simp: canonical_path_def)
  show ?thesis
    using assms d split_slash_append [of d "p @ ''/''"] by (simp add: path_resolve_def norm_segs_append norm_tail)
qed

lemma resolve_empty: "canonical_path d \<Longrightarrow> path_resolve pcwd [d, []] = d"
  using resolve_canonical [of d pcwd "[]"] by (simp add: path_resolve_def)

lemma resolve_pcwd_irrelevant: "path_isAbsolute d \<Longrightarrow> path_resolve pcwd [d, p] = path_resolve pcwd' [d, p]"
  by (cases "d = []") (auto simp: path_resolve_def path_isAbsolute_def)

lemma resolve_steps:
  assumes "canonical_path d" "\<not> path_isAbsolute q"
  shows "path_resolve pcwd [path_resolve pcwd [d, p], q] = path_resolve pcwd [d, p, q]"
proof (cases "q = []")
  case True
  have "path_resolve pcwd [d, p, []] = path_resolve pcwd [d, p]" by (simp add: path_resolve_def)
  then show ?thesis by (simp add: True resolve_empty [OF path_resolve_canonical])
next
  case False
  have d: "d \<noteq> []" "path_isAbsolute d"
    using assms(1) canonical_absolute by (auto simp: canonical_path_def)
  define J where "J = (if p = [] then d else if path_isAbsolute p then p else d @ CHR ''/'' # p)"
  have J: "path_resolve pcwd [d, p] = CHR ''/'' # join ''/'' (norm_segs [] (split_slash J))"
    using d norm_tail [of "[]" p] norm_tail [of "[]" d] split_slash_append [of d "p @ ''/''"]
    by (auto simp: path_resolve_def J_def norm_segs_append norm_tail split_slash_append)
  have "path_resolve pcwd [d, p, q] = CHR ''/'' # join ''/'' (norm_segs [] (split_slash (J @ CHR ''/'' # q)))"
    using False assms(2) d norm_tail [of "[]" "J @ CHR ''/'' # q"]
    by (auto simp: path_resolve_def J_def)
  also have "norm_segs [] (split_slash (J @ CHR ''/'' # q)) = norm_segs (rev (norm_segs [] (split_slash J))) (split_slash q)"
    by (simp add: split_slash_append norm_segs_append)
  also have "norm_segs [] (split_slash J) = norm_segs [] (split_slash (path_resolve pcwd [d, p]))"
    by (simp add: J norm_join plain_norm_segs split_slash_segs)
  also have "CHR ''/'' # join ''/'' (norm_segs (rev \<dots>) (split_slash q)) = path_resolve pcwd [path_resolve pcwd [d, p], q]"
    by (rule resolve_relative [OF path_resolve_canonical False assms(2), symmetric])
  finally show ?thesis by simp
qed

end
