(* ===== verification/CwdTable.thy ===== *)
theory CwdTable
  imports SharingGroups PathPosix
begin

text \<open>
  The working directory of each process, as \<^verbatim>\<open>runInstallPhase\<close> (\<^verbatim>\<open>src/guest/phase-install.ts\<close>) tracks it: one
  value per group of processes that share it (\<^verbatim>\<open>CLONE_FS\<close>), or the mark that it is not known. The
  groups are the union-find of \<open>SharingGroups\<close>; \<open>everCwdShared\<close> and the times of the mutations are
  kept for the opens that are resolved later.
\<close>

section \<open>State\<close>

record cwd_snapshot =
  cs_cwd :: "string option"
  cs_unknown :: bool

record cwd_state =
  cwdParent :: parents
  pidCwd :: "(int, string) js_map"
  pidCwdUnknown :: "int set"
  pendingCwdDetach :: "(int, cwd_snapshot) js_map"
  everCwdShared :: "int set"
  firstCwdMutationTs :: "(int, int) js_map"
  lastCwdMutationTs :: "(int, int) js_map"

definition cwd_init :: cwd_state where
  "cwd_init = \<lparr>cwdParent = [], pidCwd = [], pidCwdUnknown = {}, pendingCwdDetach = [], everCwdShared = {},
     firstCwdMutationTs = [], lastCwdMutationTs = []\<rparr>"

definition rootedCwd :: "int \<Rightarrow> cwd_state \<Rightarrow> int \<times> cwd_state" where
  "rootedCwd pid s = (let (r, p) = rooted pid (cwdParent s) in (r, s\<lparr>cwdParent := p\<rparr>))"

definition cwdGet :: "int \<Rightarrow> cwd_state \<Rightarrow> string option \<times> cwd_state" where
  "cwdGet pid s = (let (r, s) = rootedCwd pid s in (map_of (pidCwd s) r, s))"

definition cwdSet :: "int \<Rightarrow> string \<Rightarrow> cwd_state \<Rightarrow> cwd_state" where
  "cwdSet pid v s = (let (r, s) = rootedCwd pid s in s\<lparr>pidCwd := map_set r v (pidCwd s)\<rparr>)"

definition cwdDelete :: "int \<Rightarrow> cwd_state \<Rightarrow> cwd_state" where
  "cwdDelete pid s = (let (r, s) = rootedCwd pid s in s\<lparr>pidCwd := map_delete r (pidCwd s)\<rparr>)"

definition cwdUnknownHas :: "int \<Rightarrow> cwd_state \<Rightarrow> bool \<times> cwd_state" where
  "cwdUnknownHas pid s = (let (r, s) = rootedCwd pid s in (r \<in> pidCwdUnknown s, s))"

definition cwdUnknownAdd :: "int \<Rightarrow> cwd_state \<Rightarrow> cwd_state" where
  "cwdUnknownAdd pid s = (let (r, s) = rootedCwd pid s in s\<lparr>pidCwdUnknown := insert r (pidCwdUnknown s)\<rparr>)"

definition cwdUnknownDelete :: "int \<Rightarrow> cwd_state \<Rightarrow> cwd_state" where
  "cwdUnknownDelete pid s = (let (r, s) = rootedCwd pid s in s\<lparr>pidCwdUnknown := pidCwdUnknown s - {r}\<rparr>)"

definition snapshotCwd :: "int \<Rightarrow> cwd_state \<Rightarrow> cwd_snapshot \<times> cwd_state" where
  "snapshotCwd pid s =
     (let (c, s) = cwdGet pid s; (u, s) = cwdUnknownHas pid s in (\<lparr>cs_cwd = c, cs_unknown = u\<rparr>, s))"

section \<open>Joining and leaving\<close>

definition union_cwd_roots :: "int \<Rightarrow> int \<Rightarrow> cwd_state \<Rightarrow> cwd_state" where
  "union_cwd_roots pr cr s =
     (let parentCwd = map_of (pidCwd s) pr; childCwd = map_of (pidCwd s) cr;
          parentUnknown = (pr \<in> pidCwdUnknown s); childUnknown = (cr \<in> pidCwdUnknown s);
          s = s\<lparr>cwdParent := map_set cr pr (cwdParent s)\<rparr>;
          s = (if childCwd \<noteq> None then s\<lparr>pidCwd := map_delete cr (pidCwd s)\<rparr> else s);
          s = (if childUnknown then s\<lparr>pidCwdUnknown := pidCwdUnknown s - {cr}\<rparr> else s);
          s = (case (childCwd, parentCwd) of
                 (Some c, None) \<Rightarrow> s\<lparr>pidCwd := map_set pr c (pidCwd s)\<rparr>
               | (Some c, Some p) \<Rightarrow>
                   if c \<noteq> p
                   then s\<lparr>pidCwd := map_delete pr (pidCwd s), pidCwdUnknown := insert pr (pidCwdUnknown s)\<rparr>
                   else s
               | _ \<Rightarrow> s)
      in if childUnknown \<or> parentUnknown then s\<lparr>pidCwdUnknown := insert pr (pidCwdUnknown s)\<rparr> else s)"

definition unionCwd :: "int \<Rightarrow> int \<Rightarrow> cwd_state \<Rightarrow> cwd_state" where
  "unionCwd parentPid childPid s =
     (let s = s\<lparr>everCwdShared := insert childPid (insert parentPid (everCwdShared s))\<rparr>;
          (pr, s) = rootedCwd parentPid s;
          (cr, s) = rootedCwd childPid s
      in if pr = cr then s else union_cwd_roots pr cr s)"

definition cwd_member_leaves :: "int \<Rightarrow> int \<Rightarrow> cwd_state \<Rightarrow> cwd_state" where
  "cwd_member_leaves pid sharedRoot s =
     s\<lparr>everCwdShared := insert pid (everCwdShared s),
       cwdParent := map_delete pid (cwdParent s),
       pidCwd := (case map_of (pidCwd s) sharedRoot of None \<Rightarrow> pidCwd s | Some c \<Rightarrow> map_set pid c (pidCwd s)),
       pidCwdUnknown :=
         (if sharedRoot \<in> pidCwdUnknown s then insert pid (pidCwdUnknown s) else pidCwdUnknown s)\<rparr>"

definition cwd_root_leaves :: "int \<Rightarrow> int list \<Rightarrow> cwd_state \<Rightarrow> cwd_state" where
  "cwd_root_leaves pid others s =
     (let newRoot = hd others
      in s\<lparr>everCwdShared := insert pid (everCwdShared s),
           cwdParent := promote others (cwdParent s),
           pidCwd :=
             (case map_of (pidCwd s) pid of
                None \<Rightarrow> pidCwd s
              | Some c \<Rightarrow> map_set pid c (map_delete pid (map_set newRoot c (pidCwd s)))),
           pidCwdUnknown :=
             (if pid \<in> pidCwdUnknown s then insert pid (insert newRoot (pidCwdUnknown s - {pid}))
              else pidCwdUnknown s)\<rparr>)"

definition detachCwdGroup :: "int \<Rightarrow> cwd_state \<Rightarrow> cwd_state" where
  "detachCwdGroup pid s =
     (let (sharedRoot, s) = rootedCwd pid s;
          others = other_members pid (cwdParent s)
      in if sharedRoot \<noteq> pid then cwd_member_leaves pid sharedRoot s
         else if others = [] then s
         else cwd_root_leaves pid others s)"

section \<open>The handlers\<close>

text \<open>The time of the first and the last line that changes the directory of the process.\<close>

definition cwd_mutated :: "int \<Rightarrow> int \<Rightarrow> cwd_state \<Rightarrow> cwd_state" where
  "cwd_mutated pid ts s =
     s\<lparr>firstCwdMutationTs :=
         (if map_of (firstCwdMutationTs s) pid = None then map_set pid ts (firstCwdMutationTs s)
          else firstCwdMutationTs s),
       lastCwdMutationTs := map_set pid ts (lastCwdMutationTs s)\<rparr>"

text \<open>\<^verbatim>\<open>chdir\<close> that succeeded, with the decoded argument; \<open>pcwd\<close> is the directory of the agent.\<close>

definition cwd_chdir :: "string \<Rightarrow> int \<Rightarrow> int \<Rightarrow> string \<Rightarrow> cwd_state \<Rightarrow> cwd_state" where
  "cwd_chdir pcwd pid ts decoded s =
     (let s = cwd_mutated pid ts s
      in if path_isAbsolute decoded
         then cwdUnknownDelete pid (cwdSet pid (path_resolve pcwd [decoded]) s)
         else let (current, s) = cwdGet pid s
              in case current of
                   Some c \<Rightarrow> cwdSet pid (path_resolve pcwd [c, decoded]) s
                 | None \<Rightarrow> cwdUnknownAdd pid s)"

text \<open>\<^verbatim>\<open>fchdir\<close> on a descriptor whose path is known, or not.\<close>

definition cwd_fchdir :: "int \<Rightarrow> int \<Rightarrow> string option \<Rightarrow> cwd_state \<Rightarrow> cwd_state" where
  "cwd_fchdir pid ts dir s =
     (let s = cwd_mutated pid ts s
      in case dir of
           Some d \<Rightarrow> cwdUnknownDelete pid (cwdSet pid d s)
         | None \<Rightarrow> cwdDelete pid (cwdUnknownAdd pid s))"

text \<open>A \<^verbatim>\<open>chdir\<close> or \<^verbatim>\<open>fchdir\<close> whose line is split in two.\<close>

definition cwd_split :: "int \<Rightarrow> int \<Rightarrow> cwd_state \<Rightarrow> cwd_state" where
  "cwd_split pid ts s = cwdDelete pid (cwdUnknownAdd pid (cwd_mutated pid ts s))"

definition cwd_unshare :: "int \<Rightarrow> cwd_state \<Rightarrow> cwd_state" where
  "cwd_unshare pid s =
     (let (snap, s) = snapshotCwd pid s;
          s = detachCwdGroup pid s
      in s\<lparr>pendingCwdDetach := map_set pid snap (pendingCwdDetach s)\<rparr>)"

text \<open>The copy of the directory on a \<^verbatim>\<open>clone\<close> line without sharing, or of a child that left already.\<close>

definition cwd_copied :: "int \<Rightarrow> int \<Rightarrow> bool \<Rightarrow> cwd_snapshot option \<Rightarrow> cwd_state \<Rightarrow> cwd_state" where
  "cwd_copied pid childPid cloneFs snap s =
     (let (parentCwd, s) = cwdGet pid s;
          (parentCwdUnknown, s) = cwdUnknownHas pid s;
          (childCwd, s) = (case snap of Some x \<Rightarrow> (cs_cwd x, s) | None \<Rightarrow> cwdGet childPid s);
          (childCwdUnknown, s) = (case snap of Some x \<Rightarrow> (cs_unknown x, s) | None \<Rightarrow> cwdUnknownHas childPid s);
          (currentChildCwd, s) = cwdGet childPid s;
          shared = (snap \<noteq> None \<and> cloneFs)
      in if parentCwdUnknown \<or> childCwdUnknown then
           (let s = cwdUnknownAdd childPid s
            in if shared then cwdUnknownAdd pid (cwdDelete pid (cwdDelete childPid s)) else s)
         else case (parentCwd, childCwd) of
             (Some p, Some c) \<Rightarrow>
               if p \<noteq> c then
                 (let s = cwdUnknownAdd childPid (cwdDelete childPid s)
                  in if shared then cwdUnknownAdd pid (cwdDelete pid s) else s)
               else s
           | (Some p, None) \<Rightarrow> if currentChildCwd = None then cwdSet childPid p s else s
           | _ \<Rightarrow> s)"

definition cwd_clone :: "int \<Rightarrow> int \<Rightarrow> bool \<Rightarrow> cwd_state \<Rightarrow> cwd_state" where
  "cwd_clone pid childPid cloneFs s =
     (let s = (if cloneFs then s\<lparr>everCwdShared := insert childPid (insert pid (everCwdShared s))\<rparr> else s);
          snap = map_of (pendingCwdDetach s) childPid;
          s = s\<lparr>pendingCwdDetach := map_delete childPid (pendingCwdDetach s)\<rparr>
      in if cloneFs \<and> snap = None then unionCwd pid childPid s
         else cwd_copied pid childPid cloneFs snap s)"

end
