(* ===== verification/CwdViews.thy ===== *)
theory CwdViews
  imports CwdTable
begin

text \<open>
  What the operations on the working directories do to what a process sees: the directory of its
  group, if any, and whether it is marked unknown.
\<close>

type_synonym cwd_sight = "string option \<times> bool"

definition cwd_look :: "cwd_state \<Rightarrow> int \<Rightarrow> cwd_sight" where
  "cwd_look s r = (map_of (pidCwd s) r, r \<in> pidCwdUnknown s)"

interpretation cwg: group_state cwdParent "\<lambda>p s. s\<lparr>cwdParent := p\<rparr>" cwd_look "(None, False)"
  by unfold_locales (simp_all add: cwd_look_def fun_eq_iff)

abbreviation cwd_sees :: "cwd_state \<Rightarrow> int \<Rightarrow> cwd_sight" where "cwd_sees \<equiv> cwg.sees"
abbreviation cwd_peers :: "cwd_state \<Rightarrow> int \<Rightarrow> int \<Rightarrow> bool" where "cwd_peers \<equiv> cwg.together"

lemma rootedCwd_pair:
  "rootedCwd pid s = (find_root (cwdParent s) pid, s\<lparr>cwdParent := snd (rooted pid (cwdParent s))\<rparr>)"
  by (simp add: rootedCwd_def rooted_def Let_def)

section \<open>Steps on the caller's group\<close>

definition cwd_acts :: "int \<Rightarrow> (cwd_sight \<Rightarrow> cwd_sight) \<Rightarrow> cwd_state \<Rightarrow> cwd_state \<Rightarrow> bool" where
  "cwd_acts pid F s s' \<longleftrightarrow>
     (cwg.ok s \<longrightarrow> cwg.ok s' \<and> cwd_peers s' = cwd_peers s \<and>
        (flat_groups (cwdParent s) \<longrightarrow> flat_groups (cwdParent s')) \<and>
        (\<forall>q. cwd_sees s' q = (if cwd_peers s pid q then F (cwd_sees s q) else cwd_sees s q)) \<and>
        pendingCwdDetach s' = pendingCwdDetach s)"

lemma cwd_actsD:
  assumes "cwd_acts pid F s s'" "cwg.ok s"
  shows "cwg.ok s'" "cwd_peers s' = cwd_peers s" "flat_groups (cwdParent s) \<Longrightarrow> flat_groups (cwdParent s')"
    "cwd_sees s' q = (if cwd_peers s pid q then F (cwd_sees s q) else cwd_sees s q)"
    "pendingCwdDetach s' = pendingCwdDetach s"
  using assms by (auto simp: cwd_acts_def)

lemma cwd_acts_then:
  assumes "cwd_acts pid F s s'" "cwd_acts pid G s' s''"
  shows "cwd_acts pid (\<lambda>x. G (F x)) s s''"
  unfolding cwd_acts_def
proof
  assume "cwg.ok s"
  note 1 = cwd_actsD [OF assms(1) this]
  note 2 = cwd_actsD [OF assms(2) 1(1)]
  show "cwg.ok s'' \<and> cwd_peers s'' = cwd_peers s \<and> (flat_groups (cwdParent s) \<longrightarrow> flat_groups (cwdParent s'')) \<and>
      (\<forall>q. cwd_sees s'' q = (if cwd_peers s pid q then G (F (cwd_sees s q)) else cwd_sees s q)) \<and>
      pendingCwdDetach s'' = pendingCwdDetach s"
    using 1 2 by auto
qed

lemma cwd_acts_cong:
  assumes "cwd_acts pid F s s'" "\<And>x. x = cwd_sees s pid \<Longrightarrow> F x = G x"
  shows "cwd_acts pid G s s'"
proof -
  have "cwd_sees s q = cwd_sees s pid" if "cwd_peers s pid q" for q
    using that by (simp add: cwg.sees_def cwg.together_def)
  with assms show ?thesis by (auto simp: cwd_acts_def)
qed

lemma cwd_acts_root:
  assumes "cwdParent s' = cwdParent s \<or> cwdParent s' = snd (rooted pid (cwdParent s))"
    and "\<And>r. cwd_look s' r = (if r = find_root (cwdParent s) pid then F (cwd_look s r) else cwd_look s r)"
    and "pendingCwdDetach s' = pendingCwdDetach s"
  shows "cwd_acts pid F s s'"
  unfolding cwd_acts_def
proof
  assume ok: "cwg.ok s"
  have look: "cwd_look s' r = (if r = find_root (cwdParent s) pid then F (cwd_look s (find_root (cwdParent s) pid))
      else cwd_look s r)" for r
    by (simp add: assms(2))
  note w = cwg.write_root [OF ok assms(1) look]
  have "cwd_sees s q = cwd_look s (find_root (cwdParent s) pid)" if "cwd_peers s pid q" for q
    using that by (simp add: cwg.sees_def cwg.together_def)
  then show "cwg.ok s' \<and> cwd_peers s' = cwd_peers s \<and> (flat_groups (cwdParent s) \<longrightarrow> flat_groups (cwdParent s')) \<and>
      (\<forall>q. cwd_sees s' q = (if cwd_peers s pid q then F (cwd_sees s q) else cwd_sees s q)) \<and>
      pendingCwdDetach s' = pendingCwdDetach s"
    using w assms(3) by auto
qed

lemma cwd_acts_same:
  "cwdParent s' = cwdParent s \<or> cwdParent s' = snd (rooted pid (cwdParent s)) \<Longrightarrow> pidCwd s' = pidCwd s \<Longrightarrow>
   pidCwdUnknown s' = pidCwdUnknown s \<Longrightarrow> pendingCwdDetach s' = pendingCwdDetach s \<Longrightarrow>
   cwd_acts pid (\<lambda>x. x) s s'"
  by (rule cwd_acts_root) (simp_all add: cwd_look_def)

lemma cwd_acts_set: "cwd_acts pid (\<lambda>(c, u). (Some v, u)) s (cwdSet pid v s)"
  by (rule cwd_acts_root) (auto simp: cwdSet_def rootedCwd_pair Let_def cwd_look_def jm.get_put)

lemma cwd_acts_delete: "cwd_acts pid (\<lambda>(c, u). (None, u)) s (cwdDelete pid s)"
  by (rule cwd_acts_root) (auto simp: cwdDelete_def rootedCwd_pair Let_def cwd_look_def jm.get_del)

lemma cwd_acts_unknown: "cwd_acts pid (\<lambda>(c, u). (c, True)) s (cwdUnknownAdd pid s)"
  by (rule cwd_acts_root) (auto simp: cwdUnknownAdd_def rootedCwd_pair Let_def cwd_look_def)

lemma cwd_acts_known: "cwd_acts pid (\<lambda>(c, u). (c, False)) s (cwdUnknownDelete pid s)"
  by (rule cwd_acts_root) (auto simp: cwdUnknownDelete_def rootedCwd_pair Let_def cwd_look_def)

lemma cwd_acts_mutated: "cwd_acts pid (\<lambda>x. x) s (cwd_mutated pid ts s)"
  by (rule cwd_acts_same) (simp_all add: cwd_mutated_def)

lemma cwdGet_fst [simp]: "fst (cwdGet pid s) = fst (cwd_sees s pid)"
  by (simp add: cwdGet_def rootedCwd_pair Let_def cwg.sees_def cwd_look_def)

lemma cwdUnknownHas_fst [simp]: "fst (cwdUnknownHas pid s) = snd (cwd_sees s pid)"
  by (simp add: cwdUnknownHas_def rootedCwd_pair Let_def cwg.sees_def cwd_look_def)

lemma cwd_acts_get: "cwd_acts q (\<lambda>x. x) s (snd (cwdGet pid s))"
proof -
  have "cwd_acts pid (\<lambda>x. x) s (snd (cwdGet pid s))"
    by (rule cwd_acts_same) (simp_all add: cwdGet_def rootedCwd_pair Let_def)
  then show ?thesis by (simp add: cwd_acts_def)
qed

lemma cwd_acts_has: "cwd_acts q (\<lambda>x. x) s (snd (cwdUnknownHas pid s))"
proof -
  have "cwd_acts pid (\<lambda>x. x) s (snd (cwdUnknownHas pid s))"
    by (rule cwd_acts_same) (simp_all add: cwdUnknownHas_def rootedCwd_pair Let_def)
  then show ?thesis by (simp add: cwd_acts_def)
qed

lemmas cwd_reads = cwd_acts_get cwd_acts_has

section \<open>The handlers that do not move processes\<close>

lemma cwd_acts_chdir:
  "cwd_acts pid (\<lambda>(c, u).
     if path_isAbsolute decoded then (Some (path_resolve pcwd [decoded]), False)
     else case c of Some d \<Rightarrow> (Some (path_resolve pcwd [d, decoded]), u) | None \<Rightarrow> (None, True))
   s (cwd_chdir pcwd pid ts decoded s)"
proof (cases "path_isAbsolute decoded")
  case True
  have "cwd_acts pid (\<lambda>x. (\<lambda>(c, u). (c, False)) ((\<lambda>(c, u). (Some (path_resolve pcwd [decoded]), u)) x)) s
      (cwdUnknownDelete pid (cwdSet pid (path_resolve pcwd [decoded]) (cwd_mutated pid ts s)))"
    by (rule cwd_acts_then [OF cwd_acts_then [OF cwd_acts_mutated cwd_acts_set] cwd_acts_known])
  then show ?thesis using True by (auto simp: cwd_chdir_def Let_def elim!: cwd_acts_cong split: prod.splits)
next
  case False
  let ?s1 = "cwd_mutated pid ts s"
  let ?s2 = "snd (cwdGet pid ?s1)"
  have a: "cwd_acts pid (\<lambda>x. x) s ?s2" by (rule cwd_acts_then [OF cwd_acts_mutated cwd_acts_get])
  have same: "cwd_sees ?s1 pid = cwd_sees s pid"
    by (simp add: cwg.sees_def cwd_mutated_def cwd_look_def)
  show ?thesis
  proof (cases "fst (cwd_sees s pid)")
    case None
    then have s': "cwd_chdir pcwd pid ts decoded s = cwdUnknownAdd pid ?s2"
      using False cwdGet_fst [of pid ?s1] by (simp add: cwd_chdir_def Let_def case_prod_beta same)
    from cwd_acts_then [OF a cwd_acts_unknown] show ?thesis
      unfolding s' by (rule cwd_acts_cong) (use None False in \<open>auto split: prod.splits\<close>)
  next
    case (Some d)
    then have s': "cwd_chdir pcwd pid ts decoded s = cwdSet pid (path_resolve pcwd [d, decoded]) ?s2"
      using False cwdGet_fst [of pid ?s1] by (simp add: cwd_chdir_def Let_def case_prod_beta same)
    from cwd_acts_then [OF a cwd_acts_set] show ?thesis
      unfolding s' by (rule cwd_acts_cong) (use Some False in \<open>auto split: prod.splits\<close>)
  qed
qed

lemma cwd_acts_fchdir:
  "cwd_acts pid (\<lambda>(c, u). case dir of Some d \<Rightarrow> (Some d, False) | None \<Rightarrow> (None, True)) s (cwd_fchdir pid ts dir s)"
proof (cases dir)
  case None
  from cwd_acts_then [OF cwd_acts_then [OF cwd_acts_mutated cwd_acts_unknown] cwd_acts_delete] show ?thesis
    unfolding None cwd_fchdir_def Let_def option.case by (rule cwd_acts_cong) (simp split: prod.splits)
next
  case (Some d)
  from cwd_acts_then [OF cwd_acts_then [OF cwd_acts_mutated cwd_acts_set] cwd_acts_known] show ?thesis
    unfolding Some cwd_fchdir_def Let_def option.case by (rule cwd_acts_cong) (simp split: prod.splits)
qed

lemma cwd_acts_split: "cwd_acts pid (\<lambda>_. (None, True)) s (cwd_split pid ts s)"
  unfolding cwd_split_def
  using cwd_acts_then [OF cwd_acts_then [OF cwd_acts_mutated cwd_acts_unknown] cwd_acts_delete]
  by (rule cwd_acts_cong) (simp split: prod.splits)


section \<open>Leaving\<close>

lemma detach_cwd_member:
  assumes ok: "cwg.ok s" and root: "find_root (cwdParent s) pid \<noteq> pid"
  shows "cwdParent (detachCwdGroup pid s) = map_delete pid (snd (rooted pid (cwdParent s)))"
    and "cwd_look (detachCwdGroup pid s) r =
      (if r = pid then cwd_look s (find_root (cwdParent s) pid) else cwd_look s r)"
  using cwg.ok_bare [OF ok root] root
  by (auto simp: detachCwdGroup_def rootedCwd_pair Let_def cwd_member_leaves_def cwd_look_def jm.get_put
      split: option.splits)

lemma detach_cwd_root:
  assumes ok: "cwg.ok s" and root: "up (cwdParent s) pid = None" and others: "other_members pid (cwdParent s) \<noteq> []"
  shows "cwdParent (detachCwdGroup pid s) = promote (other_members pid (cwdParent s)) (cwdParent s)"
    and "cwd_look (detachCwdGroup pid s) r =
      (if r = hd (other_members pid (cwdParent s)) then cwd_look s pid else cwd_look s r)"
proof -
  have f: "forest (cwdParent s)" by (rule cwg.ok_forest [OF ok])
  have self: "find_root (cwdParent s) pid = pid" by (rule find_root_root [OF f root])
  have same: "snd (rooted pid (cwdParent s)) = cwdParent s" by (simp add: rooted_def Let_def self compress_def)
  have hd: "hd (other_members pid (cwdParent s)) \<noteq> pid"
    "find_root (cwdParent s) (hd (other_members pid (cwdParent s))) = pid"
    using hd_other_members [OF f root others] by simp_all
  have bare: "cwd_look s (hd (other_members pid (cwdParent s))) = (None, False)"
    using cwg.ok_bare [OF ok] hd by simp
  have d: "detachCwdGroup pid s = cwd_root_leaves pid (other_members pid (cwdParent s)) s"
    using others by (simp add: detachCwdGroup_def rootedCwd_pair Let_def self same)
  show "cwdParent (detachCwdGroup pid s) = promote (other_members pid (cwdParent s)) (cwdParent s)"
    by (simp add: d cwd_root_leaves_def Let_def)
  show "cwd_look (detachCwdGroup pid s) r =
      (if r = hd (other_members pid (cwdParent s)) then cwd_look s pid else cwd_look s r)"
    using bare hd(1)
    by (auto simp: d cwd_root_leaves_def Let_def cwd_look_def jm.get_put jm.get_del split: option.splits)
qed

lemma detach_cwd:
  assumes ok: "cwg.ok s"
  shows "cwg.ok (detachCwdGroup pid s)" "cwd_sees (detachCwdGroup pid s) q = cwd_sees s q"
    "find_root (cwdParent (detachCwdGroup pid s)) pid = pid"
    "flat_groups (cwdParent s) \<Longrightarrow> flat_groups (cwdParent (detachCwdGroup pid s)) \<and>
       (cwd_peers (detachCwdGroup pid s) x y \<longleftrightarrow> x = y \<or> x \<noteq> pid \<and> y \<noteq> pid \<and> cwd_peers s x y)"
proof -
  have f: "forest (cwdParent s)" by (rule cwg.ok_forest [OF ok])
  let ?d = "detachCwdGroup pid s"
  have "cwg.ok ?d \<and> cwd_sees ?d q = cwd_sees s q \<and> find_root (cwdParent ?d) pid = pid \<and>
    (flat_groups (cwdParent s) \<longrightarrow> flat_groups (cwdParent ?d) \<and>
       (cwd_peers ?d x y \<longleftrightarrow> x = y \<or> x \<noteq> pid \<and> y \<noteq> pid \<and> cwd_peers s x y))"
  proof (cases "find_root (cwdParent s) pid = pid")
    case False
    from cwg.leave_member [OF ok detach_cwd_member(1) [OF ok False] False detach_cwd_member(2) [OF ok False]]
    show ?thesis by blast
  next
    case True
    then have root: "up (cwdParent s) pid = None" using find_root_eq_self [OF f] by simp
    show ?thesis
    proof (cases "other_members pid (cwdParent s) = []")
      case False
      from cwg.leave_root [OF ok root refl False detach_cwd_root(1) [OF ok root False] detach_cwd_root(2) [OF ok root False]]
      show ?thesis by blast
    next
      case alone: True
      have "find_root (cwdParent s) x \<noteq> pid" if "x \<noteq> pid" for x
        using set_other_members [OF f root, of x] alone that by simp
      then have "cwd_peers s x y \<longleftrightarrow> x = y \<or> x \<noteq> pid \<and> y \<noteq> pid \<and> cwd_peers s x y"
        using True unfolding cwg.together_def by metis
      moreover have "?d = s"
        using True alone by (simp add: detachCwdGroup_def rootedCwd_pair Let_def rooted_def compress_def)
      ultimately show ?thesis using ok True by simp
    qed
  qed
  then show "cwg.ok ?d" "cwd_sees ?d q = cwd_sees s q" "find_root (cwdParent ?d) pid = pid"
    "flat_groups (cwdParent s) \<Longrightarrow> flat_groups (cwdParent ?d) \<and>
       (cwd_peers ?d x y \<longleftrightarrow> x = y \<or> x \<noteq> pid \<and> y \<noteq> pid \<and> cwd_peers s x y)" by blast+
qed

lemma detach_cwd_pending [simp]: "pendingCwdDetach (detachCwdGroup pid s) = pendingCwdDetach s"
  by (simp add: detachCwdGroup_def rootedCwd_pair Let_def cwd_member_leaves_def cwd_root_leaves_def)

lemma snapshot_cwd_acts: "cwd_acts q (\<lambda>x. x) s (snd (snapshotCwd pid s))"
  using cwd_acts_then [OF cwd_acts_get [of q s pid] cwd_acts_has [of q "snd (cwdGet pid s)" pid]]
  by (simp add: snapshotCwd_def case_prod_beta Let_def)

lemma unshare_cwd:
  assumes ok: "cwg.ok s"
  shows "cwg.ok (cwd_unshare pid s)" "cwd_sees (cwd_unshare pid s) q = cwd_sees s q"
    "c \<noteq> pid \<Longrightarrow> map_of (pendingCwdDetach (cwd_unshare pid s)) c = map_of (pendingCwdDetach s) c"
    "flat_groups (cwdParent s) \<Longrightarrow> flat_groups (cwdParent (cwd_unshare pid s)) \<and>
       (cwd_peers (cwd_unshare pid s) x y \<longleftrightarrow> x = y \<or> x \<noteq> pid \<and> y \<noteq> pid \<and> cwd_peers s x y)"
proof -
  let ?s1 = "snd (snapshotCwd pid s)"
  note a = cwd_actsD [OF snapshot_cwd_acts [of pid s pid] ok]
  note d = detach_cwd [OF a(1), of pid]
  have s': "cwd_unshare pid s = (detachCwdGroup pid ?s1)\<lparr>pendingCwdDetach :=
      map_set pid (fst (snapshotCwd pid s)) (pendingCwdDetach (detachCwdGroup pid ?s1))\<rparr>"
    by (simp add: cwd_unshare_def case_prod_beta Let_def)
  have same: "cwg.ok (cwd_unshare pid s) = cwg.ok (detachCwdGroup pid ?s1)"
    "cwd_sees (cwd_unshare pid s) = cwd_sees (detachCwdGroup pid ?s1)"
    "cwd_peers (cwd_unshare pid s) = cwd_peers (detachCwdGroup pid ?s1)"
    "cwdParent (cwd_unshare pid s) = cwdParent (detachCwdGroup pid ?s1)"
    by (simp_all add: s' cwg.ok_def cwg.sees_def cwg.together_def cwd_look_def fun_eq_iff)
  show "cwg.ok (cwd_unshare pid s)" "cwd_sees (cwd_unshare pid s) q = cwd_sees s q"
    using d a(4) [of q] by (simp_all add: same)
  show "map_of (pendingCwdDetach (cwd_unshare pid s)) c = map_of (pendingCwdDetach s) c" if "c \<noteq> pid"
    using that a(5) by (simp add: s' jm.get_put)
  show "flat_groups (cwdParent (cwd_unshare pid s)) \<and>
      (cwd_peers (cwd_unshare pid s) x y \<longleftrightarrow> x = y \<or> x \<noteq> pid \<and> y \<noteq> pid \<and> cwd_peers s x y)"
    if "flat_groups (cwdParent s)"
    using d(4) [OF a(3) [OF that]] a(2) by (simp add: same)
qed

section \<open>The clone line of a process without history\<close>

definition cwd_fresh :: "cwd_state \<Rightarrow> int \<Rightarrow> bool" where
  "cwd_fresh s c \<longleftrightarrow> cwg.sole s c \<and> map_of (pendingCwdDetach s) c = None"

lemma clone_cwd_shared:
  assumes ok: "cwg.ok s" and c: "cwd_fresh s c" "pid \<noteq> c"
  shows "cwg.ok (cwd_clone pid c True s)" "cwd_sees (cwd_clone pid c True s) q = cwd_sees s (if q = c then pid else q)"
    "cwd_peers (cwd_clone pid c True s) x y \<longleftrightarrow> cwd_peers s (if x = c then pid else x) (if y = c then pid else y)"
    "flat_groups (cwdParent s) \<Longrightarrow> flat_groups (cwdParent (cwd_clone pid c True s))"
    "map_of (pendingCwdDetach (cwd_clone pid c True s)) = map_of (pendingCwdDetach s)"
proof -
  have sole: "cwg.sole s c" and pend: "map_of (pendingCwdDetach s) c = None" using c(1) by (simp_all add: cwd_fresh_def)
  have f: "forest (cwdParent s)" by (rule cwg.ok_forest [OF ok])
  note r = cwg.soleD(1) [OF sole]
  have rc: "find_root (cwdParent s) c = c" using r by blast
  have ne: "find_root (cwdParent s) pid \<noteq> c" using r [of pid] c(2) by simp
  have bare: "map_of (pidCwd s) c = None" "c \<notin> pidCwdUnknown s"
    using sole by (simp_all add: cwg.sole_def cwd_look_def)
  let ?s' = "cwd_clone pid c True s"
  have p: "cwdParent ?s' = map_set c (find_root (cwdParent s) pid) (snd (rooted c (snd (rooted pid (cwdParent s)))))"
    using f ne bare by (simp add: cwd_clone_def unionCwd_def rootedCwd_pair Let_def pend rc union_cwd_roots_def)
  have look: "cwd_look ?s' = cwd_look s"
    using f ne bare
    by (auto simp: cwd_clone_def unionCwd_def rootedCwd_pair Let_def pend rc union_cwd_roots_def cwd_look_def fun_eq_iff)
  from cwg.join_sole [OF ok sole c(2) p look] show "cwg.ok ?s'" "cwd_sees ?s' q = cwd_sees s (if q = c then pid else q)"
    "cwd_peers ?s' x y \<longleftrightarrow> cwd_peers s (if x = c then pid else x) (if y = c then pid else y)"
    "flat_groups (cwdParent s) \<Longrightarrow> flat_groups (cwdParent ?s')" by blast+
  show "map_of (pendingCwdDetach ?s') = map_of (pendingCwdDetach s)"
    using f ne bare pend
    by (auto simp: cwd_clone_def unionCwd_def rootedCwd_pair Let_def rc union_cwd_roots_def jm.get_del fun_eq_iff)
qed

lemma clone_cwd_copied:
  assumes ok: "cwg.ok s" and c: "cwd_fresh s c" "pid \<noteq> c"
  shows "cwg.ok (cwd_clone pid c False s)" "cwd_peers (cwd_clone pid c False s) = cwd_peers s"
    "flat_groups (cwdParent s) \<Longrightarrow> flat_groups (cwdParent (cwd_clone pid c False s))"
    "q \<noteq> c \<Longrightarrow> cwd_sees (cwd_clone pid c False s) q = cwd_sees s q"
    "cwd_sees (cwd_clone pid c False s) c = (if snd (cwd_sees s pid) then (None, True) else (fst (cwd_sees s pid), False))"
    "map_of (pendingCwdDetach (cwd_clone pid c False s)) = map_of (pendingCwdDetach s)"
proof -
  have sole: "cwg.sole s c" and pend: "map_of (pendingCwdDetach s) c = None" using c(1) by (simp_all add: cwd_fresh_def)
  define s0 where "s0 = s\<lparr>pendingCwdDetach := map_delete c (pendingCwdDetach s)\<rparr>"
  define s1 where "s1 = snd (cwdGet pid s0)"
  define s2 where "s2 = snd (cwdUnknownHas pid s1)"
  define s3 where "s3 = snd (cwdGet c s2)"
  define s4 where "s4 = snd (cwdUnknownHas c s3)"
  define s5 where "s5 = snd (cwdGet c s4)"
  have ok0: "cwg.ok s0" using ok by (simp add: s0_def cwg.ok_def cwd_look_def)
  have sees0: "cwd_sees s0 = cwd_sees s" "cwd_peers s0 = cwd_peers s" "cwdParent s0 = cwdParent s"
    by (simp_all add: s0_def cwg.sees_def cwg.together_def cwd_look_def fun_eq_iff)
  have a5: "cwd_acts c (\<lambda>x. x) s0 s5"
    unfolding s1_def s2_def s3_def s4_def s5_def
    by (rule cwd_acts_then [OF cwd_acts_then [OF cwd_acts_then [OF cwd_acts_then [OF cwd_acts_get cwd_acts_has]
        cwd_acts_get] cwd_acts_has] cwd_acts_get])
  have same: "cwd_sees s1 q = cwd_sees s q" "cwd_sees s2 q = cwd_sees s q" "cwd_sees s3 q = cwd_sees s q"
      "cwd_sees s4 q = cwd_sees s q" for q
    using cwd_actsD(4) [OF cwd_acts_get [of c s0 pid] ok0, folded s1_def]
      cwd_actsD(4) [OF cwd_acts_then [OF cwd_acts_get [of c s0 pid] cwd_acts_has [of c _ pid]] ok0, folded s1_def s2_def]
      cwd_actsD(4) [OF cwd_acts_then [OF cwd_acts_then [OF cwd_acts_get [of c s0 pid] cwd_acts_has [of c _ pid]]
        cwd_acts_get [of c _ c]] ok0, folded s1_def s2_def s3_def]
      cwd_actsD(4) [OF cwd_acts_then [OF cwd_acts_then [OF cwd_acts_then [OF cwd_acts_get [of c s0 pid]
        cwd_acts_has [of c _ pid]] cwd_acts_get [of c _ c]] cwd_acts_has [of c _ c]] ok0, folded s1_def s2_def s3_def s4_def]
    by (simp_all add: sees0)
  have cs: "cwd_sees s c = (None, False)" by (rule cwg.soleD(4) [OF sole])
  have s': "cwd_clone pid c False s =
      (if snd (cwd_sees s pid) then cwdUnknownAdd c s5
       else case fst (cwd_sees s pid) of Some p \<Rightarrow> cwdSet c p s5 | None \<Rightarrow> s5)"
    using cwdGet_fst [of pid s0] cwdUnknownHas_fst [of pid s1] cwdGet_fst [of c s2] cwdUnknownHas_fst [of c s3]
      cwdGet_fst [of c s4]
    by (simp add: cwd_clone_def Let_def pend s0_def [symmetric] cwd_copied_def case_prod_beta s1_def [symmetric]
        s2_def [symmetric] s3_def [symmetric] s4_def [symmetric] s5_def [symmetric] sees0 same cs split: option.splits)
  have "cwd_acts c (\<lambda>_. if snd (cwd_sees s pid) then (None, True) else (fst (cwd_sees s pid), False)) s0
      (cwd_clone pid c False s)"
  proof (cases "snd (cwd_sees s pid)")
    case True
    from cwd_acts_then [OF a5 cwd_acts_unknown] show ?thesis
      unfolding s' if_P [OF True] by (rule cwd_acts_cong) (simp add: sees0 cs)
  next
    case False
    show ?thesis
    proof (cases "fst (cwd_sees s pid)")
      case None
      from a5 show ?thesis unfolding s' if_not_P [OF False] None option.case
        by (rule cwd_acts_cong) (simp add: sees0 cs)
    next
      case (Some p)
      from cwd_acts_then [OF a5 cwd_acts_set] show ?thesis unfolding s' if_not_P [OF False] Some option.case
        by (rule cwd_acts_cong) (simp add: sees0 cs)
    qed
  qed
  note a = cwd_actsD [OF this ok0, unfolded sees0]
  show "cwg.ok (cwd_clone pid c False s)" "cwd_peers (cwd_clone pid c False s) = cwd_peers s"
    "flat_groups (cwdParent s) \<Longrightarrow> flat_groups (cwdParent (cwd_clone pid c False s))" by (fact a)+
  show "cwd_sees (cwd_clone pid c False s) q = cwd_sees s q" if "q \<noteq> c"
    using a(4) [of q] that cwg.soleD(2) [OF sole, of q] by simp
  show "cwd_sees (cwd_clone pid c False s) c = (if snd (cwd_sees s pid) then (None, True) else (fst (cwd_sees s pid), False))"
    using a(4) [of c] cwg.soleD(2) [OF sole, of c] by simp
  show "map_of (pendingCwdDetach (cwd_clone pid c False s)) = map_of (pendingCwdDetach s)"
    using a(5) pend by (auto simp: s0_def jm.get_del fun_eq_iff)
qed

end
