(* ===== verification/ProcTrace.thy ===== *)
theory ProcTrace
  imports FdKernel CwdViews
begin

text \<open>
  Directories and descriptors together: the path an \<^verbatim>\<open>open\<close> line stands for
  (\<^verbatim>\<open>canonicalizeOpenTarget\<close>, \<^verbatim>\<open>canonicalizeForEmit\<close> of \<^verbatim>\<open>src/guest/phase-install.ts\<close>), the handlers that need
  both (\<^verbatim>\<open>open\<close>, \<^verbatim>\<open>fchdir\<close>, \<^verbatim>\<open>unshare\<close>, \<^verbatim>\<open>clone\<close>), and the kernel they follow: tables as in \<open>FdKernel\<close>, directories
  shared and private in the same way, and paths resolved lexically (no symbolic links), as the
  comments of the two functions state.
\<close>

section \<open>The path of an open\<close>

type_synonym proc_state = "cwd_state \<times> fd_state"

definition canonicalizeOpenTarget ::
  "string \<Rightarrow> int \<Rightarrow> string \<Rightarrow> int option \<Rightarrow> proc_state \<Rightarrow> string option \<times> proc_state" where
  "canonicalizeOpenTarget pcwd pid targetPath dirfd st =
     (case st of (cs, fs) \<Rightarrow>
        (case dirfd of
           None \<Rightarrow>
             if path_isAbsolute targetPath then (Some (path_resolve pcwd [targetPath]), cs, fs)
             else
               (let (unknown, cs) = cwdUnknownHas pid cs
                in if unknown then (None, cs, fs)
                   else let (cwd, cs) = cwdGet pid cs
                        in case cwd of
                             None \<Rightarrow> (None, cs, fs)
                           | Some d \<Rightarrow> (Some (path_resolve pcwd [d, targetPath]), cs, fs))
         | Some fd \<Rightarrow>
             (let (unknown, fs) = fdUnknownHas pid fs
              in if unknown then (None, cs, fs)
                 else let (dirEntry, fs) = fd_get pid fd fs
                      in case dirEntry of
                           None \<Rightarrow> (None, cs, fs)
                         | Some e \<Rightarrow> (Some (path_resolve pcwd [fe_path e, targetPath]), cs, fs))))"

text \<open>The same for the path of an event that is emitted; the code has the body twice.\<close>

definition canonicalizeForEmit ::
  "string \<Rightarrow> int \<Rightarrow> string \<Rightarrow> int option \<Rightarrow> proc_state \<Rightarrow> string option \<times> proc_state" where
  "canonicalizeForEmit pcwd pid targetPath dirfd st =
     (case st of (cs, fs) \<Rightarrow>
        (case dirfd of
           None \<Rightarrow>
             if path_isAbsolute targetPath then (Some (path_resolve pcwd [targetPath]), cs, fs)
             else
               (let (unknown, cs) = cwdUnknownHas pid cs
                in if unknown then (None, cs, fs)
                   else let (tracked, cs) = cwdGet pid cs
                        in (map_option (\<lambda>d. path_resolve pcwd [d, targetPath]) tracked, cs, fs))
         | Some fd \<Rightarrow>
             (let (unknown, fs) = fdUnknownHas pid fs
              in if unknown then (None, cs, fs)
                 else let (dirEntry, fs) = fd_get pid fd fs
                      in (map_option (\<lambda>e. path_resolve pcwd [fe_path e, targetPath]) dirEntry, cs, fs))))"

section \<open>The handlers\<close>

definition proc_init :: "string \<Rightarrow> int \<Rightarrow> string \<Rightarrow> proc_state" where
  "proc_init pcwd rootPid workDir = (cwdSet rootPid (path_resolve pcwd [workDir]) cwd_init, fd_init)"

definition proc_open ::
  "string \<Rightarrow> int \<Rightarrow> int option \<Rightarrow> string \<Rightarrow> int \<Rightarrow> bool \<Rightarrow> proc_state \<Rightarrow> proc_state" where
  "proc_open pcwd pid dirfd target retFd cloexec st =
     (let (canonicalForFd, cs, fs) = canonicalizeOpenTarget pcwd pid target dirfd st
      in (cs, fd_opened pid retFd canonicalForFd cloexec fs))"

definition proc_fchdir :: "int \<Rightarrow> int \<Rightarrow> int \<Rightarrow> proc_state \<Rightarrow> proc_state" where
  "proc_fchdir pid ts fd st =
     (case st of (cs, fs) \<Rightarrow>
        let (dirEntry, fs) = fd_get pid fd fs
        in (cwd_fchdir pid ts (map_option fe_path dirEntry) cs, fs))"

definition proc_unshare :: "int \<Rightarrow> bool \<Rightarrow> bool \<Rightarrow> proc_state \<Rightarrow> proc_state" where
  "proc_unshare pid detachCwd detachFds st =
     (case st of (cs, fs) \<Rightarrow>
        (if detachCwd then cwd_unshare pid cs else cs, if detachFds then fd_unshare pid fs else fs))"

definition proc_clone :: "int \<Rightarrow> int \<Rightarrow> bool \<Rightarrow> bool \<Rightarrow> proc_state \<Rightarrow> proc_state" where
  "proc_clone pid childPid cloneFs cloneFiles st =
     (case st of (cs, fs) \<Rightarrow> (cwd_clone pid childPid cloneFs cs, fd_clone pid childPid cloneFiles fs))"

section \<open>The kernel\<close>

record dirs =
  d_group :: "int \<Rightarrow> nat"
  d_dir :: "nat \<Rightarrow> string"
  d_next :: nat

definition d_cwd :: "dirs \<Rightarrow> int \<Rightarrow> string" where
  "d_cwd d p = d_dir d (d_group d p)"

definition d_write :: "int \<Rightarrow> string \<Rightarrow> dirs \<Rightarrow> dirs" where
  "d_write p v d = d\<lparr>d_dir := (d_dir d)(d_group d p := v)\<rparr>"

definition d_private :: "int \<Rightarrow> int \<Rightarrow> dirs \<Rightarrow> dirs" where
  "d_private p q d = d\<lparr>d_group := (d_group d)(p := d_next d), d_dir := (d_dir d)(d_next d := d_cwd d q),
     d_next := Suc (d_next d)\<rparr>"

definition d_join :: "int \<Rightarrow> int \<Rightarrow> dirs \<Rightarrow> dirs" where
  "d_join p q d = d\<lparr>d_group := (d_group d)(p := d_group d q)\<rparr>"

text \<open>The path a call names: absolute, relative to a descriptor, or to the working directory.\<close>

definition k_path :: "string \<Rightarrow> kernel \<Rightarrow> dirs \<Rightarrow> int \<Rightarrow> int option \<Rightarrow> string \<Rightarrow> string option" where
  "k_path pcwd k d p dirfd target =
     (if path_isAbsolute target then Some (path_resolve pcwd [target])
      else case dirfd of
             None \<Rightarrow> Some (path_resolve pcwd [d_cwd d p, target])
           | Some fd \<Rightarrow> map_option (\<lambda>e. path_resolve pcwd [fe_path e, target]) (k_open k p fd))"

text \<open>Runs of the kernel beside the tracker, every line read in the order of the calls. A call on the
  tables alone, or the end of a process, is one of \<open>k_step\<close>. The flag is kept while no line of a directory change was
  split and every \<^verbatim>\<open>fchdir\<close> was on a descriptor the tracker knows; the list has the pids that clones gave out.\<close>

inductive watched :: "string \<Rightarrow> int \<Rightarrow> int list \<Rightarrow> bool \<Rightarrow> kernel \<Rightarrow> dirs \<Rightarrow> proc_state \<Rightarrow> bool" for pcwd root where
  start: "k_used k = {root} \<Longrightarrow> k_live k = {root} \<Longrightarrow> k_table k root < k_next k \<Longrightarrow> d_group d root < d_next d \<Longrightarrow>
     d_cwd d root = path_resolve pcwd [workDir] \<Longrightarrow> watched pcwd root [] True k d (proc_init pcwd root workDir)"
| opened: "watched pcwd root qs b k d st \<Longrightarrow> p \<in> k_live k \<Longrightarrow> k_path pcwd k d p dirfd target = Some path \<Longrightarrow>
     watched pcwd root qs b (k_write p (\<lambda>t. t(fd \<mapsto> \<lparr>fe_path = path, fe_cloexec = c\<rparr>)) k) d
       (proc_open pcwd p dirfd target fd c st)"
| table: "watched pcwd root qs b k d (cs, fs) \<Longrightarrow> k_step k e k' \<Longrightarrow>
     (case e of EvOpen _ _ _ _ _ \<Rightarrow> False | EvClone _ _ _ \<Rightarrow> False | _ \<Rightarrow> True) \<Longrightarrow>
     watched pcwd root qs b k' d (cs, observe e fs)"
| chdir: "watched pcwd root qs b k d (cs, fs) \<Longrightarrow> p \<in> k_live k \<Longrightarrow> k_path pcwd k d p None target = Some path \<Longrightarrow>
     watched pcwd root qs b k (d_write p path d) (cwd_chdir pcwd p ts target cs, fs)"
| fchdir: "watched pcwd root qs b k d st \<Longrightarrow> p \<in> k_live k \<Longrightarrow> k_open k p fd = Some e \<Longrightarrow>
     watched pcwd root qs (b \<and> fst (fd_get p fd (snd st)) \<noteq> None) k (d_write p (fe_path e) d) (proc_fchdir p ts fd st)"
| split_chdir: "watched pcwd root qs b k d (cs, fs) \<Longrightarrow> p \<in> k_live k \<Longrightarrow>
     watched pcwd root qs False k (d_write p path d) (cwd_split p ts cs, fs)"
| unshared: "watched pcwd root qs b k d st \<Longrightarrow> p \<in> k_live k \<Longrightarrow>
     watched pcwd root qs b (if fi then k_private p p k else k) (if fs' then d_private p p d else d) (proc_unshare p fs' fi st)"
| cloned: "watched pcwd root qs b k d st \<Longrightarrow> p \<in> k_live k \<Longrightarrow> q \<notin> k_live k \<Longrightarrow>
     watched pcwd root (qs @ [q]) b (if fi then k_join q p k else k_private q p k) (if fs' then d_join q p d else d_private q p d)
       (proc_clone p q fs' fi st)"
| looked: "watched pcwd root qs b k d st \<Longrightarrow> p \<in> k_live k \<Longrightarrow>
     watched pcwd root qs b k d (snd (canonicalizeForEmit pcwd p target dirfd st))"

inductive_cases watchedE: "watched pcwd root qs b k d st"

section \<open>The simulation of the directories\<close>

text \<open>A directory that is known is the right one; with the flag it is known.\<close>

definition dir_sound :: "bool \<Rightarrow> cwd_sight \<Rightarrow> string \<Rightarrow> bool" where
  "dir_sound b x v \<longleftrightarrow> (snd x \<or> fst x = None \<or> fst x = Some v) \<and> (b \<longrightarrow> x = (Some v, False))"

lemma dir_sound_weaken: "dir_sound b x v \<Longrightarrow> b' \<longrightarrow> b \<Longrightarrow> dir_sound b' x v"
  by (simp add: dir_sound_def)

definition cwd_sim :: "bool \<Rightarrow> dirs \<Rightarrow> int set \<Rightarrow> cwd_state \<Rightarrow> bool" where
  "cwd_sim b d U s \<longleftrightarrow>
     cwg.ok s \<and> flat_groups (cwdParent s) \<and> (\<forall>p\<in>U. d_group d p < d_next d) \<and>
     (\<forall>p\<in>U. \<forall>q\<in>U. cwd_peers s p q \<longleftrightarrow> d_group d p = d_group d q) \<and>
     (\<forall>c. c \<notin> U \<longrightarrow> cwd_fresh s c) \<and> (\<forall>p\<in>U. dir_sound b (cwd_sees s p) (d_cwd d p))"

lemma cwd_simD:
  assumes "cwd_sim b d U s"
  shows "cwg.ok s" "flat_groups (cwdParent s)" "p \<in> U \<Longrightarrow> d_group d p < d_next d"
    "p \<in> U \<Longrightarrow> q \<in> U \<Longrightarrow> cwd_peers s p q \<longleftrightarrow> d_group d p = d_group d q"
    "c \<notin> U \<Longrightarrow> cwd_fresh s c" "p \<in> U \<Longrightarrow> dir_sound b (cwd_sees s p) (d_cwd d p)"
  using assms by (auto simp: cwd_sim_def)

lemma d_fields [simp]:
  "d_group (d_write p v d) = d_group d" "d_next (d_write p v d) = d_next d"
  "d_cwd (d_write p v d) q = (if d_group d q = d_group d p then v else d_cwd d q)"
  "d_group (d_private p q' d) = (d_group d)(p := d_next d)" "d_next (d_private p q' d) = Suc (d_next d)"
  "d_cwd (d_private p q' d) q =
     (if q = p then d_cwd d q' else if d_group d q = d_next d then d_cwd d q' else d_cwd d q)"
  "d_group (d_join p q' d) = (d_group d)(p := d_group d q')" "d_next (d_join p q' d) = d_next d"
  "d_cwd (d_join p q' d) q = (if q = p then d_cwd d q' else d_cwd d q)"
  by (simp_all add: d_write_def d_private_def d_join_def d_cwd_def)

lemma cwd_fresh_acts:
  assumes "cwd_acts p F s s'" "cwg.ok s" "cwd_fresh s c" "c \<noteq> p"
  shows "cwd_fresh s' c"
proof -
  note a = cwd_actsD [OF assms(1,2)]
  have sole: "cwg.sole s c" using assms(3) by (simp add: cwd_fresh_def)
  have "\<not> cwd_peers s p c" using cwg.soleD(3) [OF sole, of p] assms(4) by simp
  then have "cwd_sees s' c = cwd_sees s c" using a(4) [of c] by simp
  from cwg.sole_if [OF sole a(1) this] a(2) assms(3) a(5) show ?thesis by (simp add: cwd_fresh_def)
qed

lemma cwd_sim_acts:
  assumes sim: "cwd_sim b d U s" and act: "cwd_acts p F s s'" and p: "p \<in> U"
    and v: "\<And>x. dir_sound b x (d_cwd d p) \<Longrightarrow> dir_sound b' (F x) v" and b: "b' \<longrightarrow> b"
  shows "cwd_sim b' (d_write p v d) U s'"
proof -
  note sim = cwd_simD [OF sim]
  note a = cwd_actsD [OF act sim(1)]
  have "dir_sound b' (cwd_sees s' q) (d_cwd (d_write p v d) q)" if q: "q \<in> U" for q
  proof (cases "cwd_peers s p q")
    case True
    then have "d_cwd d q = d_cwd d p" "d_group d q = d_group d p" using sim(4) [OF p q] by (simp_all add: d_cwd_def)
    then show ?thesis using v [of "cwd_sees s q"] sim(6) [OF q] a(4) [of q] True by simp
  next
    case False
    then have "d_group d q \<noteq> d_group d p" using sim(4) [OF p q] by simp
    then show ?thesis using dir_sound_weaken [OF sim(6) [OF q] b] a(4) [of q] False by simp
  qed
  moreover have "cwd_fresh s' c" if "c \<notin> U" for c
    using cwd_fresh_acts [OF act sim(1) sim(5) [OF that]] that p by blast
  ultimately show ?thesis using a sim by (auto simp: cwd_sim_def)
qed

lemma cwd_sim_read: "cwd_sim b d U s \<Longrightarrow> (\<And>q. cwd_acts q (\<lambda>x. x) s s') \<Longrightarrow> cwd_sim b d U s'"
proof -
  assume sim: "cwd_sim b d U s" and act: "\<And>q. cwd_acts q (\<lambda>x. x) s s'"
  note sim = cwd_simD [OF sim]
  note a = cwd_actsD [OF act sim(1)]
  have "cwd_fresh s' c" if "c \<notin> U" for c
    using cwd_fresh_acts [OF act [of "c + 1"] sim(1) sim(5) [OF that]] by simp
  moreover have "cwd_sees s' q = cwd_sees s q" for q using a(4) [of q q] by simp
  ultimately show "cwd_sim b d U s'" using a(1,2,3) sim by (auto simp: cwd_sim_def)
qed

lemma cwd_sim_unshare:
  assumes sim: "cwd_sim b d U s" and p: "p \<in> U"
  shows "cwd_sim b (d_private p p d) U (cwd_unshare p s)"
proof -
  note sim = cwd_simD [OF sim]
  note u = unshare_cwd [OF sim(1), where pid = p]
  have ne: "d_group d q \<noteq> d_next d" if "q \<in> U" for q using sim(3) [OF that] by simp
  have "cwd_peers (cwd_unshare p s) x y \<longleftrightarrow> ((d_group d)(p := d_next d)) x = ((d_group d)(p := d_next d)) y"
    if "x \<in> U" "y \<in> U" for x y
    using u(4) [OF sim(2), of x y] sim(4) [OF that] ne [OF that(1)] ne [OF that(2)] by auto
  moreover have "cwd_fresh (cwd_unshare p s) c" if "c \<notin> U" for c
  proof -
    have fr: "cwg.sole s c" "map_of (pendingCwdDetach s) c = None" "c \<noteq> p"
      using sim(5) [OF that] that p by (auto simp: cwd_fresh_def)
    have "cwd_peers (cwd_unshare p s) q c \<longleftrightarrow> cwd_peers s q c" for q
      using u(4) [OF sim(2), of q c] cwg.soleD(3) [OF fr(1), of q] fr(3) by auto
    from cwg.sole_if [OF fr(1) u(1) u(2) this] u(3) [OF fr(3)] fr(2) show ?thesis by (simp add: cwd_fresh_def)
  qed
  moreover have "dir_sound b (cwd_sees (cwd_unshare p s) q) (d_cwd (d_private p p d) q)" if "q \<in> U" for q
    using sim(6) [OF that] ne [OF that] by (cases "q = p") (simp_all add: u(2))
  ultimately show ?thesis using u(1) u(4) [OF sim(2)] sim(3) by (auto simp: cwd_sim_def less_SucI)
qed

lemma cwd_sim_clone:
  assumes sim: "cwd_sim b d U s" and p: "p \<in> U" and q: "q \<notin> U"
  shows "cwd_sim b (if sh then d_join q p d else d_private q p d) (insert q U) (cwd_clone p q sh s)"
proof -
  note sim = cwd_simD [OF sim]
  have ne: "p \<noteq> q" using p q by blast
  have fq: "cwd_fresh s q" by (rule sim(5) [OF q])
  then have sole: "cwg.sole s q" by (simp add: cwd_fresh_def)
  note soleq = cwg.soleD(2,3) [OF sole]
  have nt: "d_group d x \<noteq> d_next d" if "x \<in> U" for x using sim(3) [OF that] by simp
  show ?thesis
  proof (cases sh)
    case True
    note c = clone_cwd_shared [OF sim(1) fq ne]
    let ?s = "cwd_clone p q True s"
    have self: "(if a = q then p else a) \<in> U" if "a \<in> insert q U" for a using that p by auto
    have "cwd_peers ?s x y \<longleftrightarrow> ((d_group d)(q := d_group d p)) x = ((d_group d)(q := d_group d p)) y"
      if "x \<in> insert q U" "y \<in> insert q U" for x y
      using sim(4) [OF self [OF that(1)] self [OF that(2)]] by (simp add: c(3))
    moreover have "dir_sound b (cwd_sees ?s x) (d_cwd (d_join q p d) x)" if "x \<in> insert q U" for x
      using sim(6) [OF self [OF that]] by (simp add: c(2) if_distrib cong: if_cong)
    moreover have "cwd_fresh ?s x" if x: "x \<notin> insert q U" for x
    proof -
      have fx: "cwg.sole s x" "map_of (pendingCwdDetach s) x = None" using sim(5) [of x] x by (simp_all add: cwd_fresh_def)
      have "cwd_peers ?s y x \<longleftrightarrow> cwd_peers s y x" for y
        unfolding c(3) using cwg.soleD(3) [OF fx(1)] x p by auto
      from cwg.sole_if [OF fx(1) c(1) _ this] x fx(2) show ?thesis by (simp add: cwd_fresh_def c(2,5))
    qed
    moreover have "d_group d p < d_next d" by (rule sim(3) [OF p])
    ultimately show ?thesis using c(1) c(4) [OF sim(2)] sim(3) True by (auto simp: cwd_sim_def)
  next
    case False
    note c = clone_cwd_copied [OF sim(1) fq ne]
    let ?s = "cwd_clone p q False s"
    have "cwd_peers ?s x y \<longleftrightarrow> ((d_group d)(q := d_next d)) x = ((d_group d)(q := d_next d)) y"
      if "x \<in> insert q U" "y \<in> insert q U" for x y
      using that sim(4) [of x y] q nt [of x] nt [of y] by (auto simp: c(2) soleq)
    moreover have "dir_sound b (cwd_sees ?s x) (d_cwd (d_private q p d) x)" if x: "x \<in> insert q U" for x
    proof (cases "x = q")
      case True
      then show ?thesis using sim(6) [OF p] c(5) by (cases "cwd_sees s p") (auto simp: dir_sound_def)
    next
      case False
      then show ?thesis using sim(6) [of x] nt [of x] x c(4) [of x] by simp
    qed
    moreover have "cwd_fresh ?s x" if x: "x \<notin> insert q U" for x
    proof -
      have fx: "cwg.sole s x" "map_of (pendingCwdDetach s) x = None" using sim(5) [of x] x by (simp_all add: cwd_fresh_def)
      have "cwd_sees ?s x = cwd_sees s x" using c(4) [of x] x by simp
      from cwg.sole_if [OF fx(1) c(1) this] fx(2) show ?thesis by (simp add: cwd_fresh_def c(2,6))
    qed
    ultimately show ?thesis using c(1) c(3) [OF sim(2)] sim(3) False by (auto simp: cwd_sim_def less_SucI)
  qed
qed

section \<open>The simulation of both\<close>

definition proc_sim :: "bool \<Rightarrow> kernel \<Rightarrow> dirs \<Rightarrow> proc_state \<Rightarrow> bool" where
  "proc_sim b k d st \<longleftrightarrow> fd_sim k (snd st) \<and> cwd_sim b d (k_used k) (fst st)"

lemma fd_sim_quiet:
  assumes "fd_sim k s" "quiet s s'" "fd_book s' = fd_book s"
  shows "fd_sim k s'"
proof -
  note sim = fd_simD [OF assms(1)]
  have f: "forest (fdParent s)" using sim(1) by (simp add: fd_inv_def)
  have inv: "fd_inv s'" by (rule quiet_inv [OF assms(2) sim(1)])
  have "fd_sees s' = fd_sees s"
    using quiet_roots(2) [OF assms(2) f] quiet_look [OF assms(2)] by (simp add: fd_sees_def fun_eq_iff)
  moreover have "fresh s' c" if "c \<notin> k_used k" for c
    by (rule fresh_quiet [OF assms(2,3) sim(1) sim(5) [OF that]])
  moreover have "flat_groups (fdParent s')" using assms(2) sim(2) by (simp add: quiet_def)
  ultimately show ?thesis using inv sim quiet_roots(3) [OF assms(2) f] by (auto simp: fd_sim_def)
qed

lemma quiet_has: "quiet s (snd (fdUnknownHas pid s))" "fd_book (snd (fdUnknownHas pid s)) = fd_book s"
  by (auto simp: fdUnknownHas_def rootedFd_pair Let_def fd_book_def fun_eq_iff intro!: quiet)

lemma book_get: "fd_book (snd (fd_get pid fd s)) = fd_book s"
  by (simp add: fd_get_def rootedFd_pair Let_def fd_book_def fun_eq_iff)

lemma fd_sim_has: "fd_sim k s \<Longrightarrow> fd_sim k (snd (fdUnknownHas pid s))"
  using fd_sim_quiet quiet_has by blast

lemma fd_sim_get: "fd_sim k s \<Longrightarrow> fd_sim k (snd (fd_get pid fd s))"
  using fd_sim_quiet quiet_get book_get by blast

lemma canonicalize_same: "canonicalizeForEmit pcwd p target dirfd st = canonicalizeOpenTarget pcwd p target dirfd st"
  by (auto simp: canonicalizeForEmit_def canonicalizeOpenTarget_def case_prod_beta Let_def split: option.splits)

text \<open>The heart: a path that is returned is the kernel's.\<close>

lemma canonicalize_sim:
  assumes sim: "proc_sim b k d st" and p: "p \<in> k_used k"
  shows "proc_sim b k d (snd (canonicalizeOpenTarget pcwd p target dirfd st))"
    and "fst (canonicalizeOpenTarget pcwd p target dirfd st) = Some path \<Longrightarrow> k_path pcwd k d p dirfd target = Some path"
proof -
  obtain cs fs where st: "st = (cs, fs)" by (cases st)
  have fsim: "fd_sim k fs" and csim: "cwd_sim b d (k_used k) cs" using sim by (simp_all add: proc_sim_def st)
  have "proc_sim b k d (snd (canonicalizeOpenTarget pcwd p target dirfd st)) \<and>
    (fst (canonicalizeOpenTarget pcwd p target dirfd st) = Some path \<longrightarrow> k_path pcwd k d p dirfd target = Some path)"
  proof (cases dirfd)
    case None
    let ?c1 = "snd (cwdUnknownHas p cs)" and ?c2 = "snd (cwdGet p (snd (cwdUnknownHas p cs)))"
    have 1: "cwd_sim b d (k_used k) ?c1" by (rule cwd_sim_read [OF csim cwd_acts_has])
    then have 2: "cwd_sim b d (k_used k) ?c2" by (rule cwd_sim_read [OF _ cwd_acts_get])
    have same: "cwd_sees ?c1 p = cwd_sees cs p"
      using cwd_actsD(4) [OF cwd_acts_has [of p cs p] cwd_simD(1) [OF csim], of p] by simp
    have "d_cwd d p = c" if "cwd_sees cs p = (Some c, False)" for c
      using cwd_simD(6) [OF csim p] that by (simp add: dir_sound_def)
    then show ?thesis using 1 2 fsim csim None
      by (cases "cwd_sees cs p")
        (auto simp: canonicalizeOpenTarget_def st case_prod_beta Let_def proc_sim_def k_path_def same split: option.splits)
  next
    case (Some fd)
    let ?f1 = "snd (fdUnknownHas p fs)" and ?f2 = "snd (fd_get p fd (snd (fdUnknownHas p fs)))"
    have 1: "fd_sim k ?f1" by (rule fd_sim_has [OF fsim])
    then have 2: "fd_sim k ?f2" by (rule fd_sim_get)
    have f: "forest (fdParent fs)" using fd_simD(1) [OF fsim] by (simp add: fd_inv_def)
    have e: "k_open k p fd = Some e" if "\<not> fst (fdUnknownHas p fs)" "fst (fd_get p fd ?f1) = Some e" for e
    proof -
      have "fd_view ?f1 = fd_view fs" by (rule quiet_views(1) [OF quiet_has(1) f])
      then have "fd_view fs p fd = Some e" using that(2) by (simp add: fd_get_fst)
      moreover have "fd_view fs p \<subseteq>\<^sub>m k_open k p"
        using fd_simD(6) [OF fsim p] that(1)
        by (simp add: fdUnknownHas_def rootedFd_pair fd_doubt_def fd_sees_eq fd_sound_def)
      ultimately show ?thesis by (rule le_get [rotated])
    qed
    have abs: "path_resolve pcwd [x, target] = path_resolve pcwd [target]" if "path_isAbsolute target" for x
      using resolve_absolute [OF that, of pcwd "[x]"] resolve_absolute [OF that, of pcwd "[]"] by simp
    show ?thesis using 1 2 fsim csim Some e abs
      by (auto simp: canonicalizeOpenTarget_def st case_prod_beta Let_def proc_sim_def k_path_def split: option.splits)
  qed
  then show "proc_sim b k d (snd (canonicalizeOpenTarget pcwd p target dirfd st))"
    "fst (canonicalizeOpenTarget pcwd p target dirfd st) = Some path \<Longrightarrow> k_path pcwd k d p dirfd target = Some path"
    by blast+
qed


lemma live_used: "proc_sim b k d st \<Longrightarrow> p \<in> k_live k \<Longrightarrow> p \<in> k_used k"
  using fd_simD(7) by (auto simp: proc_sim_def)

lemma proc_simD: "proc_sim b k d (cs, fs) \<Longrightarrow> fd_sim k fs \<and> cwd_sim b d (k_used k) cs"
  by (simp add: proc_sim_def)

lemma table_step_used:
  "k_step k e k' \<Longrightarrow> (case e of EvOpen _ _ _ _ _ \<Rightarrow> False | EvClone _ _ _ \<Rightarrow> False | _ \<Rightarrow> True) \<Longrightarrow> k_live k \<subseteq> k_used k \<Longrightarrow>
   k_used k' = k_used k \<and> cloned_pid e = []"
  using k_step_used [of k e k'] by (cases e) auto

lemma d_write_same: "d_write p (d_cwd d p) d = d"
  by (simp add: d_write_def d_cwd_def)

lemma sim_open:
  assumes sim: "proc_sim b k d st" and p': "p \<in> k_live k" and path: "k_path pcwd k d p dirfd target = Some path"
  shows "proc_sim b (k_write p (\<lambda>t. t(fd \<mapsto> \<lparr>fe_path = path, fe_cloexec = c\<rparr>)) k) d (proc_open pcwd p dirfd target fd c st)"
proof -
  let ?c = "canonicalizeOpenTarget pcwd p target dirfd st"
  obtain r cs fs where c: "?c = (r, cs, fs)" by (cases ?c)
  have p: "p \<in> k_used k" by (rule live_used [OF sim p'])
  note s = canonicalize_sim [OF sim p, of pcwd target dirfd, unfolded c fst_conv snd_conv]
  have r: "r = (if r \<noteq> None then Some path else None)" using s(2) path by (cases r) auto
  have "fd_sim (k_write p (\<lambda>t. t(fd \<mapsto> \<lparr>fe_path = path, fe_cloexec = c\<rparr>)) k) (observe (EvOpen p fd path c (r \<noteq> None)) fs)"
    using sim_step [OF conjunct1 [OF proc_simD [OF s(1)]] k_step.opened [OF p']] by simp
  then have "fd_sim (k_write p (\<lambda>t. t(fd \<mapsto> \<lparr>fe_path = path, fe_cloexec = c\<rparr>)) k) (fd_opened p fd r c fs)"
    using r by (cases r) simp_all
  then show ?thesis using proc_simD [OF s(1)] by (simp add: proc_open_def c proc_sim_def)
qed

lemma sim_chdir:
  assumes sim: "cwd_sim b d U cs" and p: "p \<in> U" and path: "k_path pcwd k d p None target = Some path"
  shows "cwd_sim b (d_write p path d) U (cwd_chdir pcwd p ts target cs)"
  by (rule cwd_sim_acts [OF sim cwd_acts_chdir p])
    (use path in \<open>auto simp: dir_sound_def k_path_def split: option.splits if_splits prod.splits\<close>)

lemma sim_fchdir:
  assumes sim: "proc_sim b k d st" and p: "p \<in> k_used k" and e: "k_open k p fd = Some e"
  shows "proc_sim (b \<and> fst (fd_get p fd (snd st)) \<noteq> None) k (d_write p (fe_path e) d) (proc_fchdir p ts fd st)"
proof -
  obtain cs fs where st: "st = (cs, fs)" by (cases st)
  have s: "fd_sim k fs" "cwd_sim b d (k_used k) cs" using proc_simD sim by (auto simp: st)
  have path: "fe_path e' = fe_path e" if "fst (fd_get p fd fs) = Some e'" for e'
    using fd_simD(6) [OF s(1) p] that e by (auto simp: fd_get_fst fd_sees_eq fd_sound_def)
  have "cwd_sim (b \<and> fst (fd_get p fd fs) \<noteq> None) (d_write p (fe_path e) d) (k_used k)
      (cwd_fchdir p ts (map_option fe_path (fst (fd_get p fd fs))) cs)"
  proof (cases "fst (fd_get p fd fs)")
    case None
    show ?thesis unfolding None
      by (rule cwd_sim_acts [OF s(2) cwd_acts_fchdir p]) (auto simp: dir_sound_def)
  next
    case (Some e')
    show ?thesis unfolding Some option.map path [OF Some]
      by (rule cwd_sim_acts [OF s(2) cwd_acts_fchdir p]) (auto simp: dir_sound_def)
  qed
  then show ?thesis using fd_sim_get [OF s(1)] by (simp add: st proc_fchdir_def case_prod_beta Let_def proc_sim_def)
qed

lemma watched_used: "watched pcwd root qs b k d st \<Longrightarrow> k_used k = insert root (set qs) \<and> k_live k \<subseteq> k_used k"
proof (induction rule: watched.induct)
  case (table qs b k d cs fs e k')
  then have IH: "k_used k = insert root (set qs)" "k_live k \<subseteq> k_used k" by blast+
  note step = table_step_used [OF table.hyps(2,3) IH(2)]
  then have "k_used k' = insert root (set qs)" "cloned_pid e = []" using IH(1) by blast+
  then show ?case using k_step_used [OF table.hyps(2) IH(2)] by auto
qed (auto simp: insert_commute split: if_splits)

theorem watched_sim: "watched pcwd root qs b k d st \<Longrightarrow> distinct (root # qs) \<Longrightarrow> proc_sim b k d st"
proof (induction rule: watched.induct)
  case (start k d workDir)
  define p where "p = root"
  note start = start [folded p_def]
  have "fd_sim k fd_init" by (rule traced_sim [OF traced.start [OF start(1-3)]]) simp
  moreover have "cwd_sim False d {p} cwd_init"
  proof -
    have flat: "flat_groups (cwdParent cwd_init)" by (simp add: flat_groups_def up_def cwd_init_def)
    have r: "find_root (cwdParent cwd_init) x = x" for x
      by (rule find_root_root [OF flat_forest [OF flat]]) (simp add: up_def cwd_init_def)
    have "cwg.ok cwd_init" using flat_forest [OF flat] by (simp add: cwg.ok_def up_def cwd_init_def)
    moreover have "cwd_fresh cwd_init c" for c
      using r by (simp add: cwd_fresh_def cwg.sole_def cwd_look_def) (simp add: cwd_init_def)
    moreover have "dir_sound False (cwd_sees cwd_init q) v" for q v
      by (simp add: dir_sound_def cwg.sees_def cwd_look_def cwd_init_def)
    ultimately show ?thesis using flat start(4) by (simp add: cwd_sim_def cwg.together_def)
  qed
  then have 1: "cwd_sim False (d_write p (d_cwd d p) d) {p} (cwdSet p (d_cwd d p) cwd_init)"
    by (rule cwd_sim_acts [OF _ cwd_acts_set]) (auto simp: dir_sound_def)
  have "cwg.ok cwd_init" by (simp add: cwg.ok_def flat_forest flat_groups_def up_def cwd_init_def)
  from cwd_actsD(4) [OF cwd_acts_set this, of p "d_cwd d p" p]
  have "cwd_sees (cwdSet p (d_cwd d p) cwd_init) p = (Some (d_cwd d p), False)"
    by (simp add: cwg.together_def cwg.sees_def cwd_look_def) (simp add: cwd_init_def)
  with 1 have "cwd_sim True d {p} (cwdSet p (d_cwd d p) cwd_init)"
    by (simp add: cwd_sim_def dir_sound_def d_write_same)
  with \<open>fd_sim k fd_init\<close> show ?case using start by (simp add: proc_sim_def proc_init_def p_def [symmetric])
next
  case (opened qs b k d st p dirfd target path fd c)
  from sim_open [OF opened.IH [OF opened.prems] opened.hyps(2,3)] show ?case .
next
  case (table qs b k d cs fs e k')
  then have sim: "fd_sim k fs" "cwd_sim b d (k_used k) cs" by (simp_all add: proc_sim_def)
  note step = table_step_used [OF table.hyps(2,3) conjunct2 [OF watched_used [OF table.hyps(1)]]]
  from step sim_step [OF sim(1) table.hyps(2)] sim(2) show ?case by (simp add: proc_sim_def)
next
  case (chdir qs b k d cs fs p target path ts)
  then have sim: "proc_sim b k d (cs, fs)" by simp
  with sim_chdir [of b d "k_used k" cs p pcwd k target path ts] live_used [OF sim chdir.hyps(2)] chdir.hyps(3)
  show ?case by (simp add: proc_sim_def)
next
  case (fchdir qs b k d st p fd e ts)
  then have sim: "proc_sim b k d st" by simp
  from sim_fchdir [OF sim live_used [OF sim fchdir.hyps(2)] fchdir.hyps(3)] show ?case .
next
  case (split_chdir qs b k d cs fs p path ts)
  then have sim: "proc_sim b k d (cs, fs)" by simp
  have "cwd_sim False (d_write p path d) (k_used k) (cwd_split p ts cs)"
    by (rule cwd_sim_acts [OF _ cwd_acts_split live_used [OF sim split_chdir.hyps(2)]])
      (use sim in \<open>auto simp: proc_sim_def dir_sound_def\<close>)
  with sim show ?case by (simp add: proc_sim_def)
next
  case (unshared qs b k d st p fi fs')
  then have sim: "proc_sim b k d st" by simp
  obtain cs fs where st: "st = (cs, fs)" by (cases st)
  have s: "fd_sim k fs" "cwd_sim b d (k_used k) cs" using proc_simD sim by (auto simp: st)
  note p = live_used [OF sim unshared.hyps(2)]
  have used: "k_used (if fi then k_private p p k else k) = k_used k" using p by (auto simp: insert_absorb)
  have "fd_sim (if fi then k_private p p k else k) (if fi then fd_unshare p fs else fs)"
    using s(1) sim_step [OF s(1) k_step.unshared [OF unshared.hyps(2)]] by simp
  moreover have "cwd_sim b (if fs' then d_private p p d else d) (k_used k) (if fs' then cwd_unshare p cs else cs)"
    using s(2) cwd_sim_unshare [OF s(2) p] by simp
  ultimately show ?case by (simp add: st proc_unshare_def proc_sim_def used)
next
  case (cloned qs b k d st p q fi fs')
  then have sim: "proc_sim b k d st" by simp
  obtain cs fs where st: "st = (cs, fs)" by (cases st)
  have s: "fd_sim k fs" "cwd_sim b d (k_used k) cs" using proc_simD sim by (auto simp: st)
  have pq: "p \<in> k_used k" "q \<notin> k_used k"
    using live_used [OF sim cloned.hyps(2)] watched_used [OF cloned.hyps(1)] cloned.prems by auto
  have used: "k_used (if fi then k_join q p k else k_private q p k) = insert q (k_used k)" by simp
  have "fd_sim (if fi then k_join q p k else k_private q p k) (fd_clone p q fi fs)"
    using sim_step [OF s(1) k_step.cloned [OF cloned.hyps(2,3)]] pq by simp
  then show ?case using cwd_sim_clone [OF s(2) pq] by (simp add: st proc_clone_def proc_sim_def used)
next
  case (looked qs b k d st p target dirfd)
  then have sim: "proc_sim b k d st" by simp
  from canonicalize_sim(1) [OF sim live_used [OF sim looked.hyps(2)]] show ?case by (simp add: canonicalize_same)
qed


section \<open>What is emitted\<close>

text \<open>A run: the root clones a child that shares its directory and its table, the child changes the
  directory and opens one, the root opens relative to both.\<close>

definition sample_proc :: proc_state where
  "sample_proc = proc_open ''/agent'' 2 None ''lib'' 9 False
     (cwd_chdir ''/agent'' 2 5 ''pkg/../src'' (fst (proc_clone 1 2 True True (proc_init ''/agent'' 1 ''/repo''))),
      snd (proc_clone 1 2 True True (proc_init ''/agent'' 1 ''/repo'')))"

definition sample_dirs :: dirs where
  "sample_dirs = \<lparr>d_group = (\<lambda>_. 0), d_dir = (\<lambda>_. ''/repo''), d_next = 1\<rparr>"

lemma watched_sample:
  "watched ''/agent'' 1 [2] True
     (k_write 2 (\<lambda>t. t(9 \<mapsto> \<lparr>fe_path = ''/repo/src/lib'', fe_cloexec = False\<rparr>)) (k_join 2 1 sample_kernel))
     (d_write 2 ''/repo/src'' (d_join 2 1 sample_dirs)) sample_proc"
proof -
  have 0: "watched ''/agent'' 1 [] True sample_kernel sample_dirs (proc_init ''/agent'' 1 ''/repo'')"
  proof (rule watched.start)
    show "d_cwd sample_dirs 1 = path_resolve ''/agent'' [''/repo'']" by code_simp
  qed (simp_all add: sample_kernel_def sample_dirs_def)
  have 1: "watched ''/agent'' 1 [2] True (k_join 2 1 sample_kernel) (d_join 2 1 sample_dirs)
      (proc_clone 1 2 True True (proc_init ''/agent'' 1 ''/repo''))"
    using watched.cloned [OF 0, of 1 2 True True] by (simp add: sample_kernel_def)
  have k1: "k_path ''/agent'' (k_join 2 1 sample_kernel) (d_join 2 1 sample_dirs) 2 None ''pkg/../src'' = Some ''/repo/src''"
    by code_simp
  have 2: "watched ''/agent'' 1 [2] True (k_join 2 1 sample_kernel) (d_write 2 ''/repo/src'' (d_join 2 1 sample_dirs))
      (cwd_chdir ''/agent'' 2 5 ''pkg/../src'' (fst (proc_clone 1 2 True True (proc_init ''/agent'' 1 ''/repo''))),
       snd (proc_clone 1 2 True True (proc_init ''/agent'' 1 ''/repo'')))"
    by (rule watched.chdir [OF _ _ k1]) (use 1 in \<open>simp_all\<close>)
  have k2: "k_path ''/agent'' (k_join 2 1 sample_kernel) (d_write 2 ''/repo/src'' (d_join 2 1 sample_dirs)) 2 None ''lib''
      = Some ''/repo/src/lib''"
    by code_simp
  show ?thesis unfolding sample_proc_def by (rule watched.opened [OF 2 _ k2]) simp
qed

text \<open>The state of the tracker after the run.\<close>

lemma sample_proc_cwd:
  "cwd_chdir ''/agent'' 2 5 ''pkg/../src'' (fst (proc_clone 1 2 True True (proc_init ''/agent'' 1 ''/repo''))) =
   \<lparr>cwdParent = [(2, 1)], pidCwd = [(1, ''/repo/src'')], pidCwdUnknown = {}, pendingCwdDetach = [],
    everCwdShared = {2, 1}, firstCwdMutationTs = [(2, 5)], lastCwdMutationTs = [(2, 5)]\<rparr>"
  by code_simp

lemma sample_proc_fd: "snd (proc_clone 1 2 True True (proc_init ''/agent'' 1 ''/repo'')) = fd_init\<lparr>fdParent := [(2, 1)]\<rparr>"
  by code_simp

lemma sample_proc_eq:
  "sample_proc = (\<lparr>cwdParent = [(2, 1)], pidCwd = [(1, ''/repo/src'')], pidCwdUnknown = {}, pendingCwdDetach = [],
      everCwdShared = {2, 1}, firstCwdMutationTs = [(2, 5)], lastCwdMutationTs = [(2, 5)]\<rparr>,
    fd_init\<lparr>fdParent := [(2, 1)], dirfdTable := [((1, 9), \<lparr>fe_path = ''/repo/src/lib'', fe_cloexec = False\<rparr>)]\<rparr>)"
proof -
  let ?cs = "\<lparr>cwdParent = [(2, 1)], pidCwd = [(1, ''/repo/src'')], pidCwdUnknown = {}, pendingCwdDetach = [],
      everCwdShared = {2, 1}, firstCwdMutationTs = [(2, 5)], lastCwdMutationTs = [(2, 5)]\<rparr> :: cwd_state"
  have "canonicalizeOpenTarget ''/agent'' 2 ''lib'' None (?cs, fd_init\<lparr>fdParent := [(2, 1)]\<rparr>) =
      (Some ''/repo/src/lib'', ?cs, fd_init\<lparr>fdParent := [(2, 1)]\<rparr>)" by code_simp
  moreover have "fd_opened 2 9 (Some ''/repo/src/lib'') False (fd_init\<lparr>fdParent := [(2, 1)]\<rparr>) =
      fd_init\<lparr>fdParent := [(2, 1)], dirfdTable := [((1, 9), \<lparr>fe_path = ''/repo/src/lib'', fe_cloexec = False\<rparr>)]\<rparr>" by code_simp
  ultimately show ?thesis by (simp add: sample_proc_def sample_proc_cwd sample_proc_fd proc_open_def)
qed

text \<open>C24: an emitted path is the path of the access, as long as no pid is given out twice. After any run read in
  order in which the pids that clones gave out are distinct (and not the first process), whatever processes share
  directories and tables and however they change them, when \<^verbatim>\<open>canonicalizeForEmit\<close> returns a path for an open of
  a live process, relative to its working directory or to a descriptor, that is the path the kernel resolves.
  Resolution is lexical on both sides. With a reused pid this fails.\<close>

theorem emitted_path_true:
  assumes "watched pcwd root qs b k d st" "distinct (root # qs)" "p \<in> k_live k"
    and "fst (canonicalizeForEmit pcwd p target dirfd st) = Some path"
  shows "k_path pcwd k d p dirfd target = Some path"
proof -
  note sim = watched_sim [OF assms(1,2)]
  show ?thesis using canonicalize_sim(2) [OF sim live_used [OF sim assms(3)]] assms(4) by (simp add: canonicalize_same)
qed

theorem emitted_path_true_witness:
  "k_path ''/agent'' (k_write 2 (\<lambda>t. t(9 \<mapsto> \<lparr>fe_path = ''/repo/src/lib'', fe_cloexec = False\<rparr>)) (k_join 2 1 sample_kernel))
     (d_write 2 ''/repo/src'' (d_join 2 1 sample_dirs)) 1 (Some 9) ''../a'' = Some ''/repo/src/a''"
proof (rule emitted_path_true [OF watched_sample])
  show "fst (canonicalizeForEmit ''/agent'' 1 ''../a'' (Some 9) sample_proc) = Some ''/repo/src/a''"
    unfolding sample_proc_eq by code_simp
qed (simp_all add: sample_kernel_def)

text \<open>C25: no access is dropped for want of a directory. In a run read in order in which no pid is given out twice,
  no line of a directory change was split and every \<^verbatim>\<open>fchdir\<close> was on a descriptor whose open was seen, every path
  relative to the working directory of any live process resolves, to the kernel's path. With a reused pid a
  directory may become unknown.\<close>

theorem relative_path_resolves:
  assumes "watched pcwd root qs True k d st" "distinct (root # qs)" "p \<in> k_live k"
  shows "fst (canonicalizeForEmit pcwd p target None st) = k_path pcwd k d p None target"
proof -
  obtain cs fs where st: "st = (cs, fs)" by (cases st)
  note psim = watched_sim [OF assms(1,2)]
  have sim: "cwd_sim True d (k_used k) cs" using psim by (simp add: st proc_sim_def)
  have see: "cwd_sees cs p = (Some (d_cwd d p), False)"
    using cwd_simD(6) [OF sim live_used [OF psim assms(3)]] by (simp add: dir_sound_def)
  have same: "cwd_sees (snd (cwdUnknownHas p cs)) p = cwd_sees cs p"
    using cwd_actsD(4) [OF cwd_acts_has [of p cs p] cwd_simD(1) [OF sim], of p] by simp
  show ?thesis
    by (simp add: canonicalizeForEmit_def st case_prod_beta Let_def k_path_def same see)
qed

theorem relative_path_resolves_witness:
  "fst (canonicalizeForEmit ''/agent'' 1 ''x'' None sample_proc) = Some ''/repo/src/x''"
proof -
  have "fst (canonicalizeForEmit ''/agent'' 1 ''x'' None sample_proc) =
      k_path ''/agent'' (k_write 2 (\<lambda>t. t(9 \<mapsto> \<lparr>fe_path = ''/repo/src/lib'', fe_cloexec = False\<rparr>)) (k_join 2 1 sample_kernel))
        (d_write 2 ''/repo/src'' (d_join 2 1 sample_dirs)) 1 None ''x''"
    by (rule relative_path_resolves [OF watched_sample]) (simp_all add: sample_kernel_def)
  also have "\<dots> = Some ''/repo/src/x''" by code_simp
  finally show ?thesis .
qed

end
