(* ===== verification/Emission.thy ===== *)
theory Emission
  imports ProtectedPaths RootAnchor
begin

text \<open>
  The end of the pipeline of \<^verbatim>\<open>src/guest/phase-install.ts\<close>: \<^verbatim>\<open>emitFinal\<close>, \<^verbatim>\<open>emit\<close> and the flush of the deferred
  root events. An event that claims the audited root waits until the whole process tree is known;
  every other event goes straight to the emitter.
\<close>

section \<open>The root verdict of an event\<close>

text \<open>The field \<^verbatim>\<open>root_anchored\<close> of the six kinds that have it; the outer option tells whether the kind does.\<close>

fun anchor_field :: "raw_event \<Rightarrow> bool option option" where
  "anchor_field (ReadEv e) = Some (fs_root_anchored e)"
| "anchor_field (WriteEv e) = Some (fs_root_anchored e)"
| "anchor_field (EnvReadEv e) = Some (er_root_anchored e)"
| "anchor_field (SpawnEv e) = Some (sp_root_anchored e)"
| "anchor_field (ConnectEv e) = Some (nw_root_anchored e)"
| "anchor_field (EnvTamperEv e) = Some (et_root_anchored e)"
| "anchor_field (DlopenEv e) = None"
| "anchor_field (ExecEv e) = None"

fun with_anchor :: "bool \<Rightarrow> raw_event \<Rightarrow> raw_event" where
  "with_anchor v (ReadEv e) = ReadEv (e\<lparr>fs_root_anchored := Some v\<rparr>)"
| "with_anchor v (WriteEv e) = WriteEv (e\<lparr>fs_root_anchored := Some v\<rparr>)"
| "with_anchor v (EnvReadEv e) = EnvReadEv (e\<lparr>er_root_anchored := Some v\<rparr>)"
| "with_anchor v (SpawnEv e) = SpawnEv (e\<lparr>sp_root_anchored := Some v\<rparr>)"
| "with_anchor v (ConnectEv e) = ConnectEv (e\<lparr>nw_root_anchored := Some v\<rparr>)"
| "with_anchor v (EnvTamperEv e) = EnvTamperEv (e\<lparr>et_root_anchored := Some v\<rparr>)"
| "with_anchor v r = r"

fun raw_pid :: "raw_event \<Rightarrow> int" where
  "raw_pid (ReadEv e) = fs_pid e"
| "raw_pid (WriteEv e) = fs_pid e"
| "raw_pid (EnvReadEv e) = er_pid e"
| "raw_pid (SpawnEv e) = sp_pid e"
| "raw_pid (ConnectEv e) = nw_pid e"
| "raw_pid (EnvTamperEv e) = et_pid e"
| "raw_pid (DlopenEv e) = dl_pid e"
| "raw_pid (ExecEv e) = ex_pid e"

section \<open>emitFinal and emit\<close>

record emit_input =
  ei_rootPkgKeys :: "string set option"
  ei_glob :: "string \<Rightarrow> string list \<Rightarrow> bool"
  ei_matcher :: matcher

text \<open>What the emitter was given, the counter, and the queue.\<close>

record emit_state =
  es_emitted :: "attributed_event list"
  es_eventCount :: nat
  es_deferredRoot :: "attributed_event list"

definition emit_init :: emit_state where
  "emit_init = \<lparr>es_emitted = [], es_eventCount = 0, es_deferredRoot = []\<rparr>"

definition emitFinal :: "emit_input \<Rightarrow> attributed_event \<Rightarrow> emit_state \<Rightarrow> emit_state" where
  "emitFinal inp ev s =
     (case applyProtectedPathsPolicy (ei_glob inp) (ei_matcher inp) ev of
        None \<Rightarrow> s
      | Some filtered \<Rightarrow> s\<lparr>es_emitted := es_emitted s @ [filtered], es_eventCount := es_eventCount s + 1\<rparr>)"

definition waits_for_root :: "emit_input \<Rightarrow> attributed_event \<Rightarrow> bool" where
  "waits_for_root inp ev =
     (case ei_rootPkgKeys inp of
        None \<Rightarrow> False
      | Some keys \<Rightarrow> ev_pkg ev \<in> keys \<and> anchor_field (ev_raw ev) = Some None)"

definition emit :: "emit_input \<Rightarrow> attributed_event \<Rightarrow> emit_state \<Rightarrow> emit_state" where
  "emit inp ev s =
     (if waits_for_root inp ev then s\<lparr>es_deferredRoot := es_deferredRoot s @ [ev]\<rparr>
      else emitFinal inp ev s)"

definition stamp :: "(int \<Rightarrow> bool) \<Rightarrow> attributed_event \<Rightarrow> attributed_event" where
  "stamp anchored ev = ev\<lparr>ev_raw := with_anchor (anchored (raw_pid (ev_raw ev))) (ev_raw ev)\<rparr>"

definition flush_root :: "emit_input \<Rightarrow> (int \<Rightarrow> bool) \<Rightarrow> emit_state \<Rightarrow> emit_state" where
  "flush_root inp anchored s =
     (fold (\<lambda>ev. emitFinal inp (stamp anchored ev)) (es_deferredRoot s) s)\<lparr>es_deferredRoot := []\<rparr>"

section \<open>Nothing is lost, nothing overtakes its own verdict\<close>

text \<open>What the policy lets through, as a list.\<close>

definition passed :: "emit_input \<Rightarrow> attributed_event list \<Rightarrow> attributed_event list" where
  "passed inp = List.map_filter (applyProtectedPathsPolicy (ei_glob inp) (ei_matcher inp))"

lemma passed_simps [simp]:
  "passed inp [] = []"
  "passed inp (ev # evs) =
     (case applyProtectedPathsPolicy (ei_glob inp) (ei_matcher inp) ev of
        None \<Rightarrow> passed inp evs | Some f \<Rightarrow> f # passed inp evs)"
  "passed inp (evs @ evs') = passed inp evs @ passed inp evs'"
  by (simp_all add: passed_def List.map_filter_def split: option.splits)

lemma passed_mem:
  "f \<in> set (passed inp evs) \<longleftrightarrow>
   (\<exists>ev\<in>set evs. applyProtectedPathsPolicy (ei_glob inp) (ei_matcher inp) ev = Some f)"
  by (induction evs) (auto split: option.splits)

lemma emitFinal_simps [simp]:
  "es_emitted (emitFinal inp ev s) = es_emitted s @ passed inp [ev]"
  "es_eventCount (emitFinal inp ev s) = es_eventCount s + length (passed inp [ev])"
  "es_deferredRoot (emitFinal inp ev s) = es_deferredRoot s"
  by (simp_all add: emitFinal_def split: option.splits)

lemma fold_emitFinal:
  "es_emitted (fold (\<lambda>ev. emitFinal inp (g ev)) evs s) = es_emitted s @ passed inp (map g evs)"
  "es_eventCount (fold (\<lambda>ev. emitFinal inp (g ev)) evs s) = es_eventCount s + length (passed inp (map g evs))"
  "es_deferredRoot (fold (\<lambda>ev. emitFinal inp (g ev)) evs s) = es_deferredRoot s"
  by (induction evs arbitrary: s) (auto split: option.splits)

lemma fold_emit:
  "es_emitted (fold (emit inp) evs s) = es_emitted s @ passed inp (filter (\<lambda>ev. \<not> waits_for_root inp ev) evs)"
  "es_eventCount (fold (emit inp) evs s) =
     es_eventCount s + length (passed inp (filter (\<lambda>ev. \<not> waits_for_root inp ev) evs))"
  "es_deferredRoot (fold (emit inp) evs s) = es_deferredRoot s @ filter (waits_for_root inp) evs"
  by (induction evs arbitrary: s) (auto simp: emit_def split: option.splits)

lemma flush_root_simps [simp]:
  "es_emitted (flush_root inp anchored s) = es_emitted s @ passed inp (map (stamp anchored) (es_deferredRoot s))"
  "es_eventCount (flush_root inp anchored s) =
     es_eventCount s + length (passed inp (map (stamp anchored) (es_deferredRoot s)))"
  "es_deferredRoot (flush_root inp anchored s) = []"
  by (simp_all add: flush_root_def fold_emitFinal)

text \<open>The whole output, exactly: the events that claim no root in the order they came, then the events that
  do, each with the verdict on its process.\<close>

lemma emission_exact:
  "es_emitted (flush_root inp anchored (fold (emit inp) evs emit_init)) =
     passed inp (filter (\<lambda>ev. \<not> waits_for_root inp ev) evs @ map (stamp anchored) (filter (waits_for_root inp) evs))"
  "es_eventCount (flush_root inp anchored (fold (emit inp) evs emit_init)) =
     length (es_emitted (flush_root inp anchored (fold (emit inp) evs emit_init)))"
  by (simp_all add: fold_emit emit_init_def)

lemma anchor_with_anchor [simp]:
  "anchor_field r \<noteq> None \<Longrightarrow> anchor_field (with_anchor v r) = Some (Some v)"
  "raw_pid (with_anchor v r) = raw_pid r"
  by (cases r; simp)+

lemma policy_keeps:
  assumes "applyProtectedPathsPolicy glob m ev = Some ev'"
  shows "anchor_field (ev_raw ev') = anchor_field (ev_raw ev)" "raw_pid (ev_raw ev') = raw_pid (ev_raw ev)"
    "ev_pkg ev' = ev_pkg ev" "ev_lifecycle ev' = ev_lifecycle ev"
  using assms
  by (cases "ev_raw ev"; auto simp: applyProtectedPathsPolicy_def stripTransport_def
      split: if_splits option.splits)+

text \<open>No event that claims the root reaches the emitter without the final verdict on its process.\<close>

lemma root_events_stamped:
  assumes "ev \<in> set (es_emitted (flush_root inp anchored (fold (emit inp) evs emit_init)))"
    and "ei_rootPkgKeys inp = Some keys" "ev_pkg ev \<in> keys" "anchor_field (ev_raw ev) \<noteq> None"
    and "\<And>e. e \<in> set evs \<Longrightarrow> anchor_field (ev_raw e) \<noteq> None \<Longrightarrow> anchor_field (ev_raw e) = Some None"
  shows "anchor_field (ev_raw ev) = Some (Some (anchored (raw_pid (ev_raw ev))))"
proof -
  from assms(1) obtain e where e: "applyProtectedPathsPolicy (ei_glob inp) (ei_matcher inp) e = Some ev"
    "e \<in> set (filter (\<lambda>ev. \<not> waits_for_root inp ev) evs @ map (stamp anchored) (filter (waits_for_root inp) evs))"
    unfolding emission_exact passed_mem by blast
  note k = policy_keeps [OF e(1)]
  from e(2) consider "e \<in> set evs" "\<not> waits_for_root inp e"
    | d where "d \<in> set evs" "waits_for_root inp d" "e = stamp anchored d" by auto
  then show ?thesis
  proof cases
    case 1
    with assms k have False by (simp add: waits_for_root_def)
    then show ?thesis ..
  next
    case 2
    then show ?thesis using k by (simp add: stamp_def waits_for_root_def split: option.splits)
  qed
qed

end
