(* ===== verification/NodeBootstrap.thy ===== *)
theory NodeBootstrap
  imports Emission StraceParser "HOL-Library.Multiset"
begin

text \<open>
  Telling Node's own start-up from what a script does: the names of \<^verbatim>\<open>isNodeSpawn\<close> and
  \<^verbatim>\<open>isPackageManagerClientSpawn\<close>, and the node-bootstrap state of \<^verbatim>\<open>src/guest/phase-install.ts\<close>. Reads of a
  process between the execution of Node and the marker its first line sends are dropped; a process that
  may yet turn out to be Node has its reads buffered until it does or does not.
\<close>

section \<open>Which executions are Node, which are package managers\<close>

definition pathBasename :: "string \<Rightarrow> string" where
  "pathBasename pathLike = basename (before_char (CHR 0x00) pathLike)"

definition isNodeBasename :: "string option \<Rightarrow> bool" where
  "isNodeBasename pathLike =
     (case pathLike of
        None \<Rightarrow> False
      | Some p \<Rightarrow> p \<noteq> [] \<and> pathBasename p \<in> {''node'', ''nodejs''})"

definition pm_client_names :: "string list" where
  "pm_client_names = [''npm'', ''npx'', ''npm-cli.js'', ''pnpm'', ''pnpm.cjs'', ''pnpm.mjs'', ''yarn'', ''yarnpkg'',
     ''yarn.js'', ''corepack'']"

definition isPackageManagerClientBasename :: "string option \<Rightarrow> bool" where
  "isPackageManagerClientBasename pathLike =
     (case pathLike of
        None \<Rightarrow> False
      | Some p \<Rightarrow> p \<noteq> [] \<and> pathBasename p \<in> set pm_client_names)"

text \<open>\<^verbatim>\<open>/^execve\("((?:\\.|[^"\\])*)"/\<close> and \<^verbatim>\<open>/^execveat\([^,]+,\s*"((?:\\.|[^"\\])*)"/\<close>: the text between the quotes,
  as it stands in the line.\<close>

definition quoted_text :: "string \<Rightarrow> string option" where
  "quoted_text s = (case s of CHR 0x22 # t \<Rightarrow> map_option fst (quoted_raw t) | _ \<Rightarrow> None)"

definition firstExecPathFromStraceLine :: "string \<Rightarrow> string option" where
  "firstExecPathFromStraceLine line =
     (if starts_with line ''execve('' \<and> quoted_text (drop 7 line) \<noteq> None then quoted_text (drop 7 line)
      else if starts_with line ''execveat('' then
        (let rest = drop 9 line
         in if CHR '','' \<in> set rest \<and> before_char (CHR '','') rest \<noteq> []
            then quoted_text (trim_start (after_char (CHR '','') rest)) else None)
      else None)"

definition argv_at :: "spawn_event \<Rightarrow> nat \<Rightarrow> string option" where
  "argv_at e i = (if i < length (sp_argv e) then Some (sp_argv e ! i) else None)"

definition isNodeSpawn :: "spawn_event \<Rightarrow> string \<Rightarrow> bool" where
  "isNodeSpawn e line =
     (sp_result e = SpawnOk \<and>
      (isNodeBasename (argv_at e 0) \<or> isNodeBasename (firstExecPathFromStraceLine line)))"

definition isPackageManagerClientSpawn :: "spawn_event \<Rightarrow> string \<Rightarrow> bool" where
  "isPackageManagerClientSpawn e line =
     (if sp_result e \<noteq> SpawnOk then False
      else if isPackageManagerClientBasename (argv_at e 0) then True
      else if isPackageManagerClientBasename (firstExecPathFromStraceLine line) then True
      else if isNodeBasename (argv_at e 0) then isPackageManagerClientBasename (argv_at e 1)
      else False)"

section \<open>The state\<close>

text \<open>A \<^verbatim>\<open>Set\<close> that is iterated is a list without repetitions; a \<^verbatim>\<open>Map\<close> that is not is a function.\<close>

record node_state =
  nodeBootstrapEnvPendingPids :: "int set"
  nodeBootstrapFilePendingPids :: "int set"
  nodeBootstrapFileCompletedPids :: "int set"
  nodeBootstrapChildrenByPid :: "(int, int list) js_map"
  nodeBootstrapCandidateEventsByPid :: "(int, attributed_event list) js_map"
  nodeBootstrapCandidateConfirmedPids :: "int set"
  nodeBootstrapCandidateFileMarkerPids :: "int set"
  nodeBootstrapEnvReads :: "string set"
  nodeBootstrapFileReads :: "string set"
  packageManagerClientPids :: "int set"
  completedPackageManagerClientPids :: "int set"
  nodeBootstrapFileEndedTs :: "int \<Rightarrow> nat option"
  nodeBootstrapEnvEndedTs :: "int \<Rightarrow> nat option"

definition node_init :: node_state where
  "node_init =
     \<lparr>nodeBootstrapEnvPendingPids = {}, nodeBootstrapFilePendingPids = {}, nodeBootstrapFileCompletedPids = {},
      nodeBootstrapChildrenByPid = [], nodeBootstrapCandidateEventsByPid = [],
      nodeBootstrapCandidateConfirmedPids = {}, nodeBootstrapCandidateFileMarkerPids = {},
      nodeBootstrapEnvReads = {}, nodeBootstrapFileReads = {}, packageManagerClientPids = {},
      completedPackageManagerClientPids = {}, nodeBootstrapFileEndedTs = Map.empty,
      nodeBootstrapEnvEndedTs = Map.empty\<rparr>"

section \<open>The subtree of a process\<close>

definition node_children :: "(int, int list) js_map \<Rightarrow> int \<Rightarrow> int list" where
  "node_children ch p = (case map_of ch p of None \<Rightarrow> [] | Some cs \<Rightarrow> cs)"

text \<open>The loop over the growing array: \<open>seen\<close> is what stands before the index, \<open>todo\<close> what stands from it on.
  There is no test for a process met before, so the loop need not end.\<close>

partial_function (option) subtree_loop ::
  "(int, int list) js_map \<Rightarrow> int list \<Rightarrow> int list \<Rightarrow> int list option" where
  "subtree_loop ch seen todo =
     (case todo of
        [] \<Rightarrow> Some seen
      | current # rest \<Rightarrow> subtree_loop ch (seen @ [current]) (rest @ node_children ch current))"

lemma subtree_loop_simps [simp, code]:
  "subtree_loop ch seen [] = Some seen"
  "subtree_loop ch seen (p # ps) = subtree_loop ch (seen @ [p]) (ps @ node_children ch p)"
  by (simp_all add: subtree_loop.simps)

definition nodeBootstrapSubtree :: "int \<Rightarrow> node_state \<Rightarrow> int list option" where
  "nodeBootstrapSubtree rootPid s = subtree_loop (nodeBootstrapChildrenByPid s) [] [rootPid]"

definition node_edge :: "(int, int list) js_map \<Rightarrow> (int \<times> int) set" where
  "node_edge ch = {(c, p). c \<in> set (node_children ch p)}"

section \<open>The operations\<close>

definition clearNodeBootstrap :: "int \<Rightarrow> node_state \<Rightarrow> node_state option" where
  "clearNodeBootstrap rootPid s =
     map_option (\<lambda>tree. s\<lparr>
       nodeBootstrapEnvPendingPids := nodeBootstrapEnvPendingPids s - set tree,
       nodeBootstrapFilePendingPids := nodeBootstrapFilePendingPids s - set tree,
       nodeBootstrapFileCompletedPids := nodeBootstrapFileCompletedPids s - set tree,
       nodeBootstrapChildrenByPid := fold map_delete tree (nodeBootstrapChildrenByPid s)\<rparr>)
       (nodeBootstrapSubtree rootPid s)"

definition clearNodeBootstrapEnv :: "int \<Rightarrow> node_state \<Rightarrow> node_state option" where
  "clearNodeBootstrapEnv rootPid s =
     map_option (\<lambda>tree. s\<lparr>nodeBootstrapEnvPendingPids := nodeBootstrapEnvPendingPids s - set tree\<rparr>)
       (nodeBootstrapSubtree rootPid s)"

definition clearNodeBootstrapFile :: "int \<Rightarrow> node_state \<Rightarrow> node_state option" where
  "clearNodeBootstrapFile rootPid s =
     map_option (\<lambda>tree. s\<lparr>
       nodeBootstrapFilePendingPids := nodeBootstrapFilePendingPids s - set tree,
       nodeBootstrapChildrenByPid :=
         fold map_delete (filter (\<lambda>p. p \<notin> nodeBootstrapEnvPendingPids s) tree) (nodeBootstrapChildrenByPid s)\<rparr>)
       (nodeBootstrapSubtree rootPid s)"

definition beginNodeBootstrap :: "int \<Rightarrow> node_state \<Rightarrow> node_state option" where
  "beginNodeBootstrap pid s =
     map_option (\<lambda>s. s\<lparr>nodeBootstrapEnvPendingPids := insert pid (nodeBootstrapEnvPendingPids s),
                       nodeBootstrapFilePendingPids := insert pid (nodeBootstrapFilePendingPids s)\<rparr>)
       (clearNodeBootstrap pid s)"

definition forget_candidate :: "int \<Rightarrow> node_state \<Rightarrow> node_state" where
  "forget_candidate pid s = s\<lparr>
     nodeBootstrapCandidateEventsByPid := map_delete pid (nodeBootstrapCandidateEventsByPid s),
     nodeBootstrapCandidateConfirmedPids := nodeBootstrapCandidateConfirmedPids s - {pid},
     nodeBootstrapCandidateFileMarkerPids := nodeBootstrapCandidateFileMarkerPids s - {pid}\<rparr>"

text \<open>The events to emit, and the state.\<close>

definition flushNodeBootstrapCandidate :: "int \<Rightarrow> node_state \<Rightarrow> attributed_event list \<times> node_state" where
  "flushNodeBootstrapCandidate pid s =
     (case map_of (nodeBootstrapCandidateEventsByPid s) pid of
        None \<Rightarrow> ([], s)
      | Some buffered \<Rightarrow> (buffered, forget_candidate pid s))"

fun record_env_baseline :: "attributed_event list \<Rightarrow> string set \<Rightarrow> string set" where
  "record_env_baseline [] names = names"
| "record_env_baseline (ev # evs) names =
     record_env_baseline evs (case ev_raw ev of EnvReadEv e \<Rightarrow> insert (er_name e) names | _ \<Rightarrow> names)"

fun record_file_baseline :: "attributed_event list \<Rightarrow> string set \<Rightarrow> string set" where
  "record_file_baseline [] paths = paths"
| "record_file_baseline (ev # evs) paths =
     record_file_baseline evs (case ev_raw ev of ReadEv e \<Rightarrow> insert (fs_path e) paths | _ \<Rightarrow> paths)"

definition dropNodeBootstrapCandidateAsNode :: "int \<Rightarrow> node_state \<Rightarrow> node_state" where
  "dropNodeBootstrapCandidateAsNode pid s =
     (case map_of (nodeBootstrapCandidateEventsByPid s) pid of
        None \<Rightarrow> s
      | Some buffered \<Rightarrow>
          (forget_candidate pid s)\<lparr>
            nodeBootstrapFileReads := record_file_baseline buffered (nodeBootstrapFileReads s),
            nodeBootstrapEnvReads :=
              (if pid \<in> packageManagerClientPids s then nodeBootstrapEnvReads s
               else record_env_baseline buffered (nodeBootstrapEnvReads s))\<rparr>)"

fun is_env_read :: "raw_event \<Rightarrow> bool" where
  "is_env_read (EnvReadEv _) = True"
| "is_env_read _ = False"

definition dropNodeBootstrapCandidateEnvReadsAsNode :: "int \<Rightarrow> node_state \<Rightarrow> node_state" where
  "dropNodeBootstrapCandidateEnvReadsAsNode pid s =
     (case map_of (nodeBootstrapCandidateEventsByPid s) pid of
        None \<Rightarrow> s
      | Some buffered \<Rightarrow> s\<lparr>
          nodeBootstrapEnvReads :=
            (if pid \<in> packageManagerClientPids s then nodeBootstrapEnvReads s
             else record_env_baseline buffered (nodeBootstrapEnvReads s)),
          nodeBootstrapCandidateEventsByPid :=
            map_set pid (filter (\<lambda>ev. \<not> is_env_read (ev_raw ev)) buffered) (nodeBootstrapCandidateEventsByPid s)\<rparr>)"

definition beginNodeBootstrapCandidate :: "int \<Rightarrow> node_state \<Rightarrow> attributed_event list \<times> node_state" where
  "beginNodeBootstrapCandidate pid s =
     (let (evs, s) = flushNodeBootstrapCandidate pid s
      in (evs, s\<lparr>
        nodeBootstrapFileCompletedPids := nodeBootstrapFileCompletedPids s - {pid},
        nodeBootstrapCandidateConfirmedPids := nodeBootstrapCandidateConfirmedPids s - {pid},
        nodeBootstrapCandidateFileMarkerPids := nodeBootstrapCandidateFileMarkerPids s - {pid},
        nodeBootstrapCandidateEventsByPid := map_set pid [] (nodeBootstrapCandidateEventsByPid s)\<rparr>))"

fun flush_each :: "int list \<Rightarrow> node_state \<Rightarrow> attributed_event list \<times> node_state" where
  "flush_each [] s = ([], s)"
| "flush_each (pid # pids) s =
     (let (evs, s) = flushNodeBootstrapCandidate pid s; (evs', s) = flush_each pids s in (evs @ evs', s))"

definition flushAllNodeBootstrapCandidates :: "node_state \<Rightarrow> attributed_event list \<times> node_state" where
  "flushAllNodeBootstrapCandidates s = flush_each (map fst (nodeBootstrapCandidateEventsByPid s)) s"

definition confirmNodeBootstrapCandidate :: "int \<Rightarrow> node_state \<Rightarrow> bool \<times> node_state" where
  "confirmNodeBootstrapCandidate pid s =
     (if map_of (nodeBootstrapCandidateEventsByPid s) pid = None then (False, s)
      else (let s = s\<lparr>nodeBootstrapCandidateConfirmedPids := insert pid (nodeBootstrapCandidateConfirmedPids s)\<rparr>;
                s = dropNodeBootstrapCandidateEnvReadsAsNode pid s
            in (True, if pid \<in> nodeBootstrapCandidateFileMarkerPids s
                      then dropNodeBootstrapCandidateAsNode pid s else s)))"

definition completeNodeBootstrapCandidateFileMarker :: "int \<Rightarrow> node_state \<Rightarrow> bool \<times> node_state" where
  "completeNodeBootstrapCandidateFileMarker pid s =
     (if map_of (nodeBootstrapCandidateEventsByPid s) pid = None then (False, s)
      else (let s = s\<lparr>nodeBootstrapCandidateFileMarkerPids := insert pid (nodeBootstrapCandidateFileMarkerPids s)\<rparr>
            in (True, if pid \<in> nodeBootstrapCandidateConfirmedPids s
                      then dropNodeBootstrapCandidateAsNode pid s else s)))"

definition set_add :: "'a \<Rightarrow> 'a list \<Rightarrow> 'a list" where
  "set_add x xs = (if x \<in> set xs then xs else xs @ [x])"

definition propagateNodeBootstrap :: "int \<Rightarrow> int \<Rightarrow> node_state \<Rightarrow> node_state" where
  "propagateNodeBootstrap parentPid childPid s =
     (let env = parentPid \<in> nodeBootstrapEnvPendingPids s; file = parentPid \<in> nodeBootstrapFilePendingPids s;
          s = (if env then s\<lparr>nodeBootstrapEnvPendingPids := insert childPid (nodeBootstrapEnvPendingPids s)\<rparr> else s);
          s = (if file then s\<lparr>nodeBootstrapFilePendingPids := insert childPid (nodeBootstrapFilePendingPids s)\<rparr> else s)
      in if \<not> env \<and> \<not> file then s
         else s\<lparr>nodeBootstrapChildrenByPid :=
           map_set parentPid (set_add childPid (node_children (nodeBootstrapChildrenByPid s) parentPid))
             (nodeBootstrapChildrenByPid s)\<rparr>)"

section \<open>The filters\<close>

definition shouldFilterNodeBootstrapEnvRead :: "raw_event \<Rightarrow> node_state \<Rightarrow> bool \<times> node_state" where
  "shouldFilterNodeBootstrapEnvRead raw s =
     (case raw of
        EnvReadEv e \<Rightarrow>
          if er_hidden e then (False, s)
          else if er_pid e \<in> nodeBootstrapEnvPendingPids s then
            (True, if er_pid e \<in> packageManagerClientPids s then s
                   else s\<lparr>nodeBootstrapEnvReads := insert (er_name e) (nodeBootstrapEnvReads s)\<rparr>)
          else (case nodeBootstrapEnvEndedTs s (er_pid e) of
                  Some endedTs \<Rightarrow> (er_ts e < endedTs, s)
                | None \<Rightarrow> (er_name e \<in> nodeBootstrapEnvReads s, s))
      | _ \<Rightarrow> (False, s))"

definition shouldFilterPackageManagerClientEnvRead :: "raw_event \<Rightarrow> node_state \<Rightarrow> bool" where
  "shouldFilterPackageManagerClientEnvRead raw s =
     (case raw of
        EnvReadEv e \<Rightarrow>
          \<not> er_hidden e \<and>
          (er_pid e \<in> packageManagerClientPids s \<or> er_pid e \<in> completedPackageManagerClientPids s)
      | _ \<Rightarrow> False)"

text \<open>A read the classifier may look at: not hidden and not on a protected path.\<close>

definition open_read :: "emit_input \<Rightarrow> raw_event \<Rightarrow> fs_event option" where
  "open_read inp raw =
     (case raw of
        ReadEv e \<Rightarrow> if fs_hidden e \<or> isProtected (ei_glob inp) (ei_matcher inp) (fs_path e) then None else Some e
      | _ \<Rightarrow> None)"

definition shouldFilterNodeBootstrapFileRead :: "emit_input \<Rightarrow> raw_event \<Rightarrow> node_state \<Rightarrow> bool \<times> node_state" where
  "shouldFilterNodeBootstrapFileRead inp raw s =
     (case open_read inp raw of
        None \<Rightarrow> (False, s)
      | Some e \<Rightarrow>
          if fs_pid e \<in> nodeBootstrapFilePendingPids s
          then (True, s\<lparr>nodeBootstrapFileReads := insert (fs_path e) (nodeBootstrapFileReads s)\<rparr>)
          else (fs_path e \<in> nodeBootstrapFileReads s, s))"

definition buffer_candidate :: "int \<Rightarrow> int set \<Rightarrow> attributed_event \<Rightarrow> node_state \<Rightarrow> bool \<times> node_state" where
  "buffer_candidate pid settled ev s =
     (case map_of (nodeBootstrapCandidateEventsByPid s) pid of
        None \<Rightarrow> (False, s)
      | Some buffered \<Rightarrow>
          if pid \<in> settled then (False, s)
          else (True, s\<lparr>nodeBootstrapCandidateEventsByPid :=
                  map_set pid (buffered @ [ev]) (nodeBootstrapCandidateEventsByPid s)\<rparr>))"

definition shouldBufferNodeBootstrapCandidateFileRead ::
  "emit_input \<Rightarrow> attributed_event \<Rightarrow> node_state \<Rightarrow> bool \<times> node_state" where
  "shouldBufferNodeBootstrapCandidateFileRead inp ev s =
     (case open_read inp (ev_raw ev) of
        None \<Rightarrow> (False, s)
      | Some e \<Rightarrow> buffer_candidate (fs_pid e) (nodeBootstrapCandidateFileMarkerPids s) ev s)"

definition shouldBufferNodeBootstrapCandidateEnvRead :: "attributed_event \<Rightarrow> node_state \<Rightarrow> bool \<times> node_state" where
  "shouldBufferNodeBootstrapCandidateEnvRead ev s =
     (case ev_raw ev of
        EnvReadEv e \<Rightarrow>
          if er_hidden e then (False, s)
          else buffer_candidate (er_pid e) (nodeBootstrapCandidateConfirmedPids s) ev s
      | _ \<Rightarrow> (False, s))"

section \<open>When the subtree loop ends\<close>

lemma node_edge_iff: "(c, p) \<in> node_edge ch \<longleftrightarrow> c \<in> set (node_children ch p)"
  by (simp add: node_edge_def)

text \<open>A loop that returns went through every descendant, so none of them lies below itself.\<close>

lemma subtree_loop_acc:
  "subtree_loop ch seen todo = Some r \<Longrightarrow> set todo \<subseteq> Wellfounded.acc (node_edge ch) \<and> set r = set seen \<union> ((node_edge ch)\<inverse>)\<^sup>* `` set todo"
proof (induction ch seen todo r rule: subtree_loop.raw_induct [rotated, consumes 1, case_names 1])
  case (1 loop ch seen todo r)
  show ?case
  proof (cases todo)
    case Nil
    with 1 show ?thesis by simp
  next
    case (Cons p ps)
    let ?E = "(node_edge ch)\<inverse>"
    have l: "loop ch (seen @ [p]) (ps @ node_children ch p) = Some r"
      using 1(2) Cons by simp
    have ih: "set (ps @ node_children ch p) \<subseteq> Wellfounded.acc (node_edge ch)"
      "set r = set (seen @ [p]) \<union> ?E\<^sup>* `` set (ps @ node_children ch p)"
      using 1(1) [OF l] by auto
    have "p \<in> Wellfounded.acc (node_edge ch)"
      by (rule accI) (use ih(1) in \<open>auto simp: node_edge_iff\<close>)
    moreover have "?E\<^sup>* `` {p} = insert p (?E\<^sup>* `` set (node_children ch p))"
      by (auto 4 4 simp: node_edge_iff elim: converse_rtranclE intro: converse_rtrancl_into_rtrancl)
    ultimately show ?thesis using ih Cons by auto
  qed
qed

lemma wf_below_acc: "wf {(c, p). (c, p) \<in> r \<and> p \<in> Wellfounded.acc r}"
proof (rule wfI_min)
  fix x :: 'a and Q assume x: "x \<in> Q"
  show "\<exists>z\<in>Q. \<forall>y. (y, z) \<in> {(c, p). (c, p) \<in> r \<and> p \<in> Wellfounded.acc r} \<longrightarrow> y \<notin> Q"
  proof (cases "x \<in> Wellfounded.acc r")
    case True
    then show ?thesis using x
      by (induction rule: acc.induct) blast
  next
    case False
    with x show ?thesis by blast
  qed
qed

lemma subtree_loop_returns:
  assumes "set todo \<subseteq> Wellfounded.acc (node_edge ch)"
  shows "\<exists>r. subtree_loop ch seen todo = Some r"
  using assms
proof (induction "mset todo" arbitrary: seen todo rule: wf_induct_rule [OF wf_mult [OF wf_below_acc [of "node_edge ch"]]])
  case 1
  show ?case
  proof (cases todo)
    case (Cons p ps)
    have p: "p \<in> Wellfounded.acc (node_edge ch)" using 1(2) Cons by simp
    have sub: "set (ps @ node_children ch p) \<subseteq> Wellfounded.acc (node_edge ch)"
      using 1(2) Cons p by (auto simp: node_edge_iff dest: acc_downward)
    have "(mset ps + mset (node_children ch p), mset ps + {#p#})
        \<in> mult {(c, q). (c, q) \<in> node_edge ch \<and> q \<in> Wellfounded.acc (node_edge ch)}"
      by (rule one_step_implies_mult) (use p in \<open>auto simp: node_edge_iff\<close>)
    then have "(mset (ps @ node_children ch p), mset todo)
        \<in> mult {(c, q). (c, q) \<in> node_edge ch \<and> q \<in> Wellfounded.acc (node_edge ch)}"
      by (simp add: Cons)
    from 1(1) [OF this sub] show ?thesis by (simp add: Cons)
  qed simp
qed

lemma finite_node_edge: "finite (node_edge ch)"
proof (rule finite_subset)
  show "node_edge ch \<subseteq> (\<Union>(p, cs)\<in>set ch. (\<lambda>c. (c, p)) ` set cs)"
  proof safe
    fix c p assume "(c, p) \<in> node_edge ch"
    then obtain cs where "(p, cs) \<in> set ch" "c \<in> set cs"
      by (auto simp: node_edge_iff node_children_def split: option.splits dest!: map_of_SomeD [OF sym])
    then show "(c, p) \<in> (\<Union>(p, cs)\<in>set ch. (\<lambda>c. (c, p)) ` set cs)" by force
  qed
qed auto

lemma acc_no_cycle:
  assumes "finite r"
  shows "p \<in> Wellfounded.acc r \<longleftrightarrow> (\<forall>q. (q, p) \<in> r\<^sup>* \<longrightarrow> (q, q) \<notin> r\<^sup>+)"
proof
  assume "p \<in> Wellfounded.acc r"
  then show "\<forall>q. (q, p) \<in> r\<^sup>* \<longrightarrow> (q, q) \<notin> r\<^sup>+"
  proof (induction rule: acc.induct)
    case (accI x)
    show ?case
    proof (intro allI impI notI)
      fix q assume qx: "(q, x) \<in> r\<^sup>*" and cyc: "(q, q) \<in> r\<^sup>+"
      have "(q, x) \<in> r\<^sup>+" using qx cyc by (auto simp: rtrancl_eq_or_trancl intro: trancl_trans)
      then obtain y where "(q, y) \<in> r\<^sup>*" "(y, x) \<in> r" by (auto dest: tranclD2)
      with accI.IH cyc show False by blast
    qed
  qed
next
  assume no: "\<forall>q. (q, p) \<in> r\<^sup>* \<longrightarrow> (q, q) \<notin> r\<^sup>+"
  let ?s = "{(c, q). (c, q) \<in> r \<and> (q, p) \<in> r\<^sup>*}"
  have "acyclic ?s"
  proof (rule acyclicI, rule allI, rule notI)
    fix x assume c: "(x, x) \<in> ?s\<^sup>+"
    then obtain y where "(x, y) \<in> ?s" by (auto dest: tranclD)
    then have "(x, p) \<in> r\<^sup>*" by (auto intro: converse_rtrancl_into_rtrancl)
    moreover have "(x, x) \<in> r\<^sup>+" using c by (rule trancl_mono) auto
    ultimately show False using no by blast
  qed
  then have wf: "wf ?s" using finite_subset [OF _ assms, of ?s] by (auto intro: finite_acyclic_wf)
  have "(q, p) \<in> r\<^sup>* \<longrightarrow> q \<in> Wellfounded.acc r" for q
  proof (induction q rule: wf_induct_rule [OF wf])
    case (1 q)
    show ?case
    proof
      assume q: "(q, p) \<in> r\<^sup>*"
      show "q \<in> Wellfounded.acc r"
        by (rule accI) (use 1 q in \<open>auto intro: converse_rtrancl_into_rtrancl\<close>)
    qed
  qed
  then show "p \<in> Wellfounded.acc r" by blast
qed

text \<open>The processes below \<open>p\<close>, and those of them that lie below themselves.\<close>

definition node_below :: "node_state \<Rightarrow> int \<Rightarrow> int set" where
  "node_below s p = {q. (q, p) \<in> (node_edge (nodeBootstrapChildrenByPid s))\<^sup>*}"

definition node_cyclic :: "node_state \<Rightarrow> int \<Rightarrow> int set" where
  "node_cyclic s p = {q \<in> node_below s p. (q, q) \<in> (node_edge (nodeBootstrapChildrenByPid s))\<^sup>+}"

lemma subtree_returns_when:
  "map_option set (nodeBootstrapSubtree p s) = (if node_cyclic s p = {} then Some (node_below s p) else None)"
proof -
  let ?ch = "nodeBootstrapChildrenByPid s"
  have "nodeBootstrapSubtree p s \<noteq> None \<longleftrightarrow> p \<in> Wellfounded.acc (node_edge ?ch)"
    using subtree_loop_acc [of ?ch "[]" "[p]"] subtree_loop_returns [of "[p]" ?ch "[]"]
    by (auto simp: nodeBootstrapSubtree_def)
  also have "\<dots> \<longleftrightarrow> node_cyclic s p = {}"
    using acc_no_cycle [OF finite_node_edge, of p ?ch] by (auto simp: node_cyclic_def node_below_def)
  finally have "nodeBootstrapSubtree p s \<noteq> None \<longleftrightarrow> node_cyclic s p = {}" .
  moreover have "set r = node_below s p" if "nodeBootstrapSubtree p s = Some r" for r
    using subtree_loop_acc [of ?ch "[]" "[p]" r] that
    by (auto simp: nodeBootstrapSubtree_def node_below_def rtrancl_converse)
  ultimately show ?thesis by (cases "nodeBootstrapSubtree p s") auto
qed

text \<open>C29: the loop over a process's descendants returns exactly when no descendant is its own descendant, and
  then with the descendants.\<close>

theorem subtree_returns_iff:
  "map_option set (nodeBootstrapSubtree p s) = (if node_cyclic s p = {} then Some (node_below s p) else None)"
  by (rule subtree_returns_when)

text \<open>A pid that is recycled as its own descendant closes a cycle: Node starts as 5, forks 6, and 6, still
  before the marker, forks a process that gets the pid 5 again. The next line that clears 5 never returns.\<close>

definition recycled_below_itself :: "node_state option" where
  "recycled_below_itself =
     map_option (\<lambda>s. propagateNodeBootstrap 6 5 (propagateNodeBootstrap 5 6 s)) (beginNodeBootstrap 5 node_init)"

lemma begin_init: "beginNodeBootstrap pid node_init =
    Some (node_init\<lparr>nodeBootstrapEnvPendingPids := {pid}, nodeBootstrapFilePendingPids := {pid}\<rparr>)"
  by (simp add: beginNodeBootstrap_def clearNodeBootstrap_def nodeBootstrapSubtree_def node_init_def
      node_children_def map_delete_def)

lemma propagate_simps [simp]:
  "nodeBootstrapEnvPendingPids (propagateNodeBootstrap p c s) =
     (if p \<in> nodeBootstrapEnvPendingPids s then insert c (nodeBootstrapEnvPendingPids s)
      else nodeBootstrapEnvPendingPids s)"
  "nodeBootstrapFilePendingPids (propagateNodeBootstrap p c s) =
     (if p \<in> nodeBootstrapFilePendingPids s then insert c (nodeBootstrapFilePendingPids s)
      else nodeBootstrapFilePendingPids s)"
  "nodeBootstrapChildrenByPid (propagateNodeBootstrap p c s) =
     (if p \<in> nodeBootstrapEnvPendingPids s \<or> p \<in> nodeBootstrapFilePendingPids s
      then map_set p (set_add c (node_children (nodeBootstrapChildrenByPid s) p)) (nodeBootstrapChildrenByPid s)
      else nodeBootstrapChildrenByPid s)"
  by (simp_all add: propagateNodeBootstrap_def Let_def)

lemma recycled_children:
  "\<exists>s. recycled_below_itself = Some s \<and> nodeBootstrapChildrenByPid s = [(5, [6]), (6, [5])]"
  by (simp add: recycled_below_itself_def begin_init)
    (simp add: node_init_def node_children_def set_add_def)

text \<open>The loop over the descendants does not always return. When Node starts as 5 and forks 6, and 6, still
  before the marker, forks a process that gets the pid 5 again, the child map has a cycle, and the marker
  that closes the window of 5 makes the loop run forever.\<close>

theorem recycled_subtree_diverges:
  "\<exists>s. recycled_below_itself = Some s \<and> clearNodeBootstrapEnv 5 s = None"
proof -
  obtain s where s: "recycled_below_itself = Some s" "nodeBootstrapChildrenByPid s = [(5, [6]), (6, [5])]"
    using recycled_children by blast
  have e: "(6, 5) \<in> node_edge (nodeBootstrapChildrenByPid s)" "(5, 6) \<in> node_edge (nodeBootstrapChildrenByPid s)"
    by (simp_all add: s(2) node_edge_iff node_children_def)
  then have "(5, 5) \<in> (node_edge (nodeBootstrapChildrenByPid s))\<^sup>+"
    by (meson r_into_trancl trancl_trans)
  then have "node_cyclic s 5 \<noteq> {}" by (auto simp: node_cyclic_def node_below_def)
  then have "nodeBootstrapSubtree 5 s = None" using subtree_returns_when [of 5 s] by simp
  with s(1) show ?thesis by (auto simp: clearNodeBootstrapEnv_def)
qed

end
