(* ===== verification/ShimLines.thy ===== *)
theory ShimLines
  imports Attribution "HOL-Library.Monad_Syntax"
begin

text \<open>
  The lines of the preload's channel: \<^verbatim>\<open>parseShimLine\<close>, \<^verbatim>\<open>shimNpmFields\<close> and what is built on them in
  \<^verbatim>\<open>src/guest/phase-install.ts\<close>, and the two schemas of \<^verbatim>\<open>src/lock/schema.ts\<close> they validate with. \<^verbatim>\<open>JSON.parse\<close>
  is a parameter (\<open>parse\<close>, \<open>None\<close> where it throws). Numbers are integers, times are not negative.
\<close>

section \<open>JSON values\<close>

datatype json =
    JNull
  | JBool bool
  | JNum int
  | JStr string
  | JArr "json list"
  | JObj "(string \<times> json) list"

text \<open>\<^verbatim>\<open>obj[key]\<close> on a value of any type but \<^verbatim>\<open>null\<close>: \<open>None\<close> is \<^verbatim>\<open>undefined\<close>. Reading a property of \<^verbatim>\<open>null\<close> throws,
  which the callers catch and turn into their own \<^verbatim>\<open>null\<close>, as they do for \<^verbatim>\<open>undefined\<close>.\<close>

fun json_field :: "json \<Rightarrow> string \<Rightarrow> json option" where
  "json_field (JObj ps) k = map_of ps k"
| "json_field _ k = None"

fun j_str :: "json \<Rightarrow> string option" where
  "j_str (JStr s) = Some s"
| "j_str _ = None"

fun j_int :: "json \<Rightarrow> int option" where
  "j_int (JNum n) = Some n"
| "j_int _ = None"

fun j_bool :: "json \<Rightarrow> bool option" where
  "j_bool (JBool b) = Some b"
| "j_bool _ = None"

fun j_strs :: "json \<Rightarrow> string list option" where
  "j_strs (JArr js) = those (map j_str js)"
| "j_strs _ = None"

section \<open>Fields of a schema\<close>

definition z_req :: "(json \<Rightarrow> 'a option) \<Rightarrow> json \<Rightarrow> string \<Rightarrow> 'a option" where
  "z_req conv obj k = Option.bind (json_field obj k) conv"

definition z_opt :: "(json \<Rightarrow> 'a option) \<Rightarrow> json \<Rightarrow> string \<Rightarrow> 'a option option" where
  "z_opt conv obj k = (case json_field obj k of None \<Rightarrow> Some None | Some j \<Rightarrow> map_option Some (conv j))"

definition z_default :: "'a \<Rightarrow> (json \<Rightarrow> 'a option) \<Rightarrow> json \<Rightarrow> string \<Rightarrow> 'a option" where
  "z_default d conv obj k = (case json_field obj k of None \<Rightarrow> Some d | Some j \<Rightarrow> conv j)"

fun j_nullable :: "(json \<Rightarrow> 'a option) \<Rightarrow> json \<Rightarrow> 'a option option" where
  "j_nullable conv JNull = Some None"
| "j_nullable conv j = map_option Some (conv j)"

definition j_result :: "json \<Rightarrow> exec_result option" where
  "j_result j = (case j of
     JStr s \<Rightarrow> if s = ''ok'' then Some ExecOk else if s = ''failed'' then Some ExecFailed else None
   | _ \<Rightarrow> None)"

definition tamper_ops :: "tamper_op list" where
  "tamper_ops = [Setenv, Unsetenv, Putenv, Clearenv, AuditFdLost]"

definition j_op :: "json \<Rightarrow> tamper_op option" where
  "j_op j = (case j of JStr s \<Rightarrow> find (\<lambda>op. tamper_op_name op = s) tamper_ops | _ \<Rightarrow> None)"

definition exec_schema :: "json \<Rightarrow> exec_event option" where
  "exec_schema obj = do {
     prog \<leftarrow> z_req j_str obj ''prog'';
     argv0 \<leftarrow> z_req (j_nullable j_str) obj ''argv0'';
     failed_open \<leftarrow> z_req j_bool obj ''envp_alloc_failed'';
     bypass \<leftarrow> z_default False j_bool obj ''syscall_bypass'';
     forgery \<leftarrow> z_default False j_bool obj ''events_file_forgery'';
     unresolved \<leftarrow> z_default False j_bool obj ''unresolved_path'';
     res \<leftarrow> z_default ExecOk j_result obj ''result'';
     pid \<leftarrow> z_req j_int obj ''pid'';
     ts \<leftarrow> z_req j_int obj ''ts'';
     blind \<leftarrow> z_opt j_bool obj ''audit_blind'';
     argv \<leftarrow> z_opt j_strs obj ''argv'';
     err \<leftarrow> z_opt j_str obj ''exec_errno'';
     Some \<lparr>ex_prog = prog, ex_argv0 = argv0, ex_envp_alloc_failed = failed_open, ex_syscall_bypass = bypass,
           ex_events_file_forgery = forgery, ex_unresolved_path = unresolved, ex_result = res, ex_pid = pid,
           ex_ts = nat ts, ex_audit_blind = blind, ex_argv = argv, ex_exec_errno = err\<rparr>
   }"

definition env_tamper_schema :: "json \<Rightarrow> env_tamper_event option" where
  "env_tamper_schema obj = do {
     op \<leftarrow> z_req j_op obj ''op'';
     name \<leftarrow> z_opt j_str obj ''name'';
     reason \<leftarrow> z_opt j_str obj ''reason'';
     refused \<leftarrow> z_req j_bool obj ''refused'';
     pid \<leftarrow> z_req j_int obj ''pid'';
     ts \<leftarrow> z_req j_int obj ''ts'';
     anchored \<leftarrow> z_opt j_bool obj ''root_anchored'';
     if refused
     then Some \<lparr>et_op = op, et_name = name, et_reason = reason, et_pid = pid, et_ts = nat ts,
                et_root_anchored = anchored\<rparr>
     else None
   }"

section \<open>A line\<close>

datatype shim_event = ShimRaw raw_event | NodeStartupDone int nat

definition env_read_line :: "json \<Rightarrow> raw_event option" where
  "env_read_line obj = do {
     name \<leftarrow> z_req j_str obj ''name'';
     pid \<leftarrow> z_req j_int obj ''pid'';
     ts \<leftarrow> z_req j_int obj ''ts'';
     hidden \<leftarrow> z_req j_bool obj ''hidden'';
     Some (EnvReadEv \<lparr>er_name = name, er_pid = pid, er_ts = nat ts, er_hidden = hidden, er_root_anchored = None\<rparr>)
   }"

definition dlopen_line :: "json \<Rightarrow> raw_event option" where
  "dlopen_line obj = do {
     filename \<leftarrow> z_req j_str obj ''filename'';
     pid \<leftarrow> z_req j_int obj ''pid'';
     ts \<leftarrow> z_req j_int obj ''ts'';
     Some (DlopenEv \<lparr>dl_filename = filename, dl_pid = pid, dl_ts = nat ts\<rparr>)
   }"

definition startup_line :: "json \<Rightarrow> shim_event option" where
  "startup_line obj = do {
     pid \<leftarrow> z_req j_int obj ''pid'';
     ts \<leftarrow> z_req j_int obj ''ts'';
     Some (NodeStartupDone pid (nat ts))
   }"

definition parseShimLine :: "(string \<Rightarrow> json option) \<Rightarrow> string \<Rightarrow> shim_event option" where
  "parseShimLine parse line =
     (case parse line of
        None \<Rightarrow> None
      | Some obj \<Rightarrow>
          (let kind = json_field obj ''kind''
           in if kind = Some (JStr ''env_read'') then map_option ShimRaw (env_read_line obj)
              else if kind = Some (JStr ''dlopen'') then map_option ShimRaw (dlopen_line obj)
              else if kind = Some (JStr ''exec'') then map_option (ShimRaw \<circ> ExecEv) (exec_schema obj)
              else if kind = Some (JStr ''env_tamper'')
                   then map_option (ShimRaw \<circ> EnvTamperEv) (env_tamper_schema obj)
              else if kind = Some (JStr ''node_startup_done'') then startup_line obj
              else None))"

section \<open>The lifecycle fields of a line\<close>

record npm_fields =
  nf_name :: "string option"
  nf_version :: "string option"
  nf_event :: "string option"
  nf_pathological :: bool

definition string_field :: "json \<Rightarrow> string \<Rightarrow> string option" where
  "string_field obj k = Option.bind (json_field obj k) j_str"

definition longer_than :: "nat \<Rightarrow> string option \<Rightarrow> bool" where
  "longer_than n s = (case s of None \<Rightarrow> False | Some t \<Rightarrow> n < length t)"

definition shimNpmFields :: "(string \<Rightarrow> json option) \<Rightarrow> string \<Rightarrow> string \<Rightarrow> npm_fields option" where
  "shimNpmFields parse line kind =
     (case parse line of
        None \<Rightarrow> None
      | Some obj \<Rightarrow>
          if json_field obj ''kind'' \<noteq> Some (JStr kind) then None
          else (let name = string_field obj ''npm_package_name''; version = string_field obj ''npm_package_version''
                in Some \<lparr>nf_name = name, nf_version = version, nf_event = string_field obj ''npm_lifecycle_event'',
                         nf_pathological = (longer_than 214 name \<or> longer_than 256 version)\<rparr>))"

definition shimNpmAttribution ::
  "(string \<Rightarrow> json option) \<Rightarrow> string \<Rightarrow> string \<Rightarrow> string option \<Rightarrow> string set option \<Rightarrow> attribution_result option" where
  "shimNpmAttribution parse line kind rootSentinel rootKeys =
     (case shimNpmFields parse line kind of
        None \<Rightarrow> None
      | Some f \<Rightarrow>
          if nf_pathological f then None
          else attributionFromEnvVars (nf_name f) (nf_version f) (nf_event f) rootSentinel rootKeys)"

definition shimExecAttribution ::
  "(string \<Rightarrow> json option) \<Rightarrow> string \<Rightarrow> string option \<Rightarrow> string set option \<Rightarrow> attribution_result option" where
  "shimExecAttribution parse line rootSentinel rootKeys = shimNpmAttribution parse line ''exec'' rootSentinel rootKeys"

definition shimNodeStartupAttribution ::
  "(string \<Rightarrow> json option) \<Rightarrow> string \<Rightarrow> string option \<Rightarrow> string set option \<Rightarrow> attribution_result option" where
  "shimNodeStartupAttribution parse line rootSentinel rootKeys =
     shimNpmAttribution parse line ''node_startup_done'' rootSentinel rootKeys"

definition classifyShimNodeStartupMarker ::
  "(string \<Rightarrow> json option) \<Rightarrow> string \<Rightarrow> string option \<Rightarrow> string set option \<Rightarrow> attribution_result option \<times> bool" where
  "classifyShimNodeStartupMarker parse line rootSentinel rootKeys =
     (case shimNpmFields parse line ''node_startup_done'' of
        None \<Rightarrow> (None, False)
      | Some f \<Rightarrow>
          if nf_pathological f then (None, True)
          else (attributionFromEnvVars (nf_name f) (nf_version f) (nf_event f) rootSentinel rootKeys, False))"

section \<open>What the readers agree on\<close>

lemma startup_marker_attribution:
  "shimNodeStartupAttribution parse line s ks = fst (classifyShimNodeStartupMarker parse line s ks)"
  by (simp add: shimNodeStartupAttribution_def shimNpmAttribution_def classifyShimNodeStartupMarker_def
      split: option.splits)

text \<open>The printed form of an event and the value a JSON parser gives for it.\<close>

definition json_of_exec :: "exec_event \<Rightarrow> json" where
  "json_of_exec e = JObj
     ([(''kind'', JStr ''exec''), (''prog'', JStr (ex_prog e)),
       (''argv0'', case ex_argv0 e of None \<Rightarrow> JNull | Some a \<Rightarrow> JStr a),
       (''envp_alloc_failed'', JBool (ex_envp_alloc_failed e)), (''syscall_bypass'', JBool (ex_syscall_bypass e)),
       (''events_file_forgery'', JBool (ex_events_file_forgery e)),
       (''unresolved_path'', JBool (ex_unresolved_path e)),
       (''result'', JStr (case ex_result e of ExecOk \<Rightarrow> ''ok'' | ExecFailed \<Rightarrow> ''failed'')),
       (''pid'', JNum (ex_pid e)), (''ts'', JNum (int (ex_ts e)))] @
      (case ex_audit_blind e of None \<Rightarrow> [] | Some b \<Rightarrow> [(''audit_blind'', JBool b)]) @
      (case ex_argv e of None \<Rightarrow> [] | Some as \<Rightarrow> [(''argv'', JArr (map JStr as))]) @
      (case ex_exec_errno e of None \<Rightarrow> [] | Some x \<Rightarrow> [(''exec_errno'', JStr x)]))"

lemma those_strs [simp]: "those (map (j_str \<circ> JStr) xs) = Some xs"
  by (induction xs) simp_all

lemma exec_schema_round_trip: "exec_schema (json_of_exec e) = Some e"
  by (cases e)
    (simp add: exec_schema_def json_of_exec_def z_req_def z_opt_def z_default_def j_result_def
      split: option.splits exec_result.splits)

end
