(* ===== verification/Lineage.thy ===== *)
theory Lineage
  imports Emission CwdViews PathPosix
begin

text \<open>
  The process tree \<^verbatim>\<open>src/guest/phase-install.ts\<close> builds from the clone lines, the directory each process had at
  its first execution, and what the end of the run reads off them: whether a process is anchored at the
  repository root, and the path of an open that was read before the clone line of its process.
\<close>

record lineage =
  childParent :: "int \<Rightarrow> int option"
  childParentReused :: "int set"
  childAllParents :: "int \<Rightarrow> int list"
  execCwd :: "int \<Rightarrow> string option option"
  pendingExecCwd :: "int set"
  cloneFsEdges :: "(int, int list) js_map"
  pidCloneTimeCwd :: "int \<Rightarrow> string option option"
  childSeedCloneTs :: "int \<Rightarrow> int option"

definition lineage_init :: lineage where
  "lineage_init = \<lparr>childParent = Map.empty, childParentReused = {}, childAllParents = (\<lambda>_. []),
     execCwd = Map.empty, pendingExecCwd = {}, cloneFsEdges = [], pidCloneTimeCwd = Map.empty,
     childSeedCloneTs = Map.empty\<rparr>"

section \<open>Building the tree\<close>

definition set_if_absent :: "'k \<Rightarrow> 'v \<Rightarrow> ('k \<Rightarrow> 'v option) \<Rightarrow> 'k \<Rightarrow> 'v option" where
  "set_if_absent k v m = (if m k = None then m(k \<mapsto> v) else m)"

definition add_to_set :: "'a \<Rightarrow> 'a list \<Rightarrow> 'a list" where
  "add_to_set x xs = (if x \<in> set xs then xs else xs @ [x])"

definition adjacent :: "(int, int list) js_map \<Rightarrow> int \<Rightarrow> int list" where
  "adjacent m a = (case map_of m a of None \<Rightarrow> [] | Some bs \<Rightarrow> bs)"

definition addCloneFsEdge :: "int \<Rightarrow> int \<Rightarrow> lineage \<Rightarrow> lineage" where
  "addCloneFsEdge a b l =
     (let m = map_set a (add_to_set b (adjacent (cloneFsEdges l) a)) (cloneFsEdges l)
      in l\<lparr>cloneFsEdges := map_set b (add_to_set a (adjacent m b)) m\<rparr>)"

text \<open>The part of a clone line that only concerns the tree; \<open>parentCwd\<close> is the directory of the parent when
  the line is read, \<open>None\<close> when it is not known.\<close>

definition lineage_clone :: "int \<Rightarrow> int \<Rightarrow> int \<Rightarrow> bool \<Rightarrow> string option \<Rightarrow> lineage \<Rightarrow> lineage" where
  "lineage_clone pid childPid ts cloneFs parentCwd l =
     (let reused = (case childParent l childPid of Some prior \<Rightarrow> prior \<noteq> pid | None \<Rightarrow> False);
          l = l\<lparr>childParentReused := (if reused then insert childPid (childParentReused l) else childParentReused l),
                childParent := (childParent l)(childPid \<mapsto> pid),
                childAllParents := (childAllParents l)(childPid := add_to_set pid (childAllParents l childPid)),
                pidCloneTimeCwd := set_if_absent childPid parentCwd (pidCloneTimeCwd l),
                childSeedCloneTs := set_if_absent childPid ts (childSeedCloneTs l)\<rparr>
      in if cloneFs then addCloneFsEdge pid childPid l else l)"

text \<open>The directory as the code reads it everywhere: \<open>None\<close> when it is marked unknown or was never set.\<close>

definition known_cwd :: "int \<Rightarrow> cwd_state \<Rightarrow> string option \<times> cwd_state" where
  "known_cwd pid cs =
     (let (unknown, cs) = cwdUnknownHas pid cs
      in if unknown then (None, cs) else cwdGet pid cs)"

text \<open>The root, when its first line is read.\<close>

definition lineage_root :: "int \<Rightarrow> string \<Rightarrow> lineage \<Rightarrow> lineage" where
  "lineage_root pid dir l =
     l\<lparr>pidCloneTimeCwd := set_if_absent pid (Some dir) (pidCloneTimeCwd l), execCwd := (execCwd l)(pid \<mapsto> Some dir)\<rparr>"

text \<open>A successful execution: the first one fixes the directory, unless it is not known yet.\<close>

definition note_exec_cwd :: "int \<Rightarrow> cwd_state \<Rightarrow> lineage \<Rightarrow> lineage \<times> cwd_state" where
  "note_exec_cwd pid cs l =
     (if execCwd l pid \<noteq> None then (l, cs)
      else let (unknown, cs) = cwdUnknownHas pid cs
           in if unknown then (l\<lparr>execCwd := (execCwd l)(pid \<mapsto> None)\<rparr>, cs)
              else let (cwd, cs) = cwdGet pid cs
                   in case cwd of
                        Some d \<Rightarrow> (l\<lparr>execCwd := (execCwd l)(pid \<mapsto> Some d)\<rparr>, cs)
                      | None \<Rightarrow> (l\<lparr>pendingExecCwd := insert pid (pendingExecCwd l)\<rparr>, cs))"

text \<open>The clone line that reaches a process which executed before it was read.\<close>

definition settle_exec_cwd :: "int \<Rightarrow> cwd_state \<Rightarrow> lineage \<Rightarrow> lineage \<times> cwd_state" where
  "settle_exec_cwd childPid cs l =
     (if childPid \<notin> pendingExecCwd l then (l, cs)
      else let (d, cs) = known_cwd childPid cs
           in (l\<lparr>execCwd := (execCwd l)(childPid \<mapsto> d), pendingExecCwd := pendingExecCwd l - {childPid}\<rparr>, cs))"

text \<open>The end of the run: who executed and has no directory by now never will.\<close>

definition finalize_exec_cwd :: "int set \<Rightarrow> lineage \<Rightarrow> lineage" where
  "finalize_exec_cwd execd l =
     l\<lparr>execCwd := (\<lambda>p. if p \<in> pendingExecCwd l then Some None
                      else if p \<in> execd \<and> execCwd l p = None then Some None else execCwd l p),
       pendingExecCwd := {}\<rparr>"

definition rootAnchored :: "string \<Rightarrow> int option \<Rightarrow> int set \<Rightarrow> cwd_state \<Rightarrow> lineage \<Rightarrow> int \<Rightarrow> bool" where
  "rootAnchored workDir installRootPid pidRecycled cs l pid =
     (case installRootPid of
        None \<Rightarrow> False
      | Some rootPid \<Rightarrow>
          isRepoRootAnchored
            \<lparr>ai_pid = pid, ai_childParent = childParent l, ai_execCwd = execCwd l,
             ai_cwdUnknown = (\<lambda>p. fst (cwdUnknownHas p cs)),
             ai_recycled = (\<lambda>p. p \<in> childParentReused l \<or> p \<in> pidRecycled),
             ai_workDir = workDir, ai_rootPid = rootPid\<rparr>)"

section \<open>Sharing along the lineage\<close>

definition LINEAGE_CAP :: nat where
  "LINEAGE_CAP = 100000"

text \<open>The loop of the two walks with \<open>n\<close> iterations left; \<open>bad\<close> is the test on the ancestor, and running out,
  meeting a process again or a reused edge count as \<open>True\<close>. The two walks order their tests differently,
  which makes no difference to the result.\<close>

fun lineage_walk :: "(int \<Rightarrow> bool) \<Rightarrow> int set \<Rightarrow> (int \<Rightarrow> int option) \<Rightarrow> nat \<Rightarrow> int set \<Rightarrow> int option \<Rightarrow> bool" where
  "lineage_walk bad reused parent n seen None = False"
| "lineage_walk bad reused parent 0 seen (Some a) = True"
| "lineage_walk bad reused parent (Suc n) seen (Some a) =
     (if a \<in> seen then True
      else if bad a then True
      else if a \<in> reused then True
      else lineage_walk bad reused parent n (insert a seen) (parent a))"

definition lineageEverCwdShared :: "cwd_state \<Rightarrow> lineage \<Rightarrow> int \<Rightarrow> bool" where
  "lineageEverCwdShared cs l startPid =
     lineage_walk (\<lambda>a. a \<in> everCwdShared cs) (childParentReused l) (childParent l) LINEAGE_CAP {} (Some startPid)"

text \<open>Everything a process ever shared its directory with, directly or not.\<close>

definition edge_nodes :: "(int, int list) js_map \<Rightarrow> int set" where
  "edge_nodes m = (\<Union>(a, bs)\<in>set m. insert a (set bs))"

lemma finite_edge_nodes [simp]: "finite (edge_nodes m)"
  by (auto simp: edge_nodes_def)

lemma adjacent_nodes: "b \<in> set (adjacent m a) \<Longrightarrow> b \<in> edge_nodes m"
proof -
  assume "b \<in> set (adjacent m a)"
  then obtain bs where "(a, bs) \<in> set m" "b \<in> set bs"
    by (auto simp: adjacent_def split: option.splits dest!: map_of_SomeD [OF sym])
  then show ?thesis by (force simp: edge_nodes_def)
qed

text \<open>The stack of the search has its top in front; the neighbours are pushed one after the other.\<close>

function group_search :: "(int, int list) js_map \<Rightarrow> (int \<Rightarrow> bool) \<Rightarrow> int set \<Rightarrow> int list \<Rightarrow> bool" where
  "group_search m hit seen [] = False"
| "group_search m hit seen (cur # stack) =
     (if cur \<in> seen then group_search m hit seen stack
      else if hit cur then True
      else group_search m hit (insert cur seen)
             (rev (filter (\<lambda>n. n \<notin> insert cur seen) (adjacent m cur)) @ stack))"
  by pat_completeness auto
termination
proof (relation "inv_image (finite_psubset <*lex*> less_than)
    (\<lambda>(m, hit, seen, stack). (edge_nodes m \<union> set stack - seen, length stack))", goal_cases)
  case (2 m hit seen cur stack)
  then have "edge_nodes m \<union> set (cur # stack) - seen = edge_nodes m \<union> set stack - seen" by auto
  then show ?case by simp
next
  case (3 m hit seen cur stack)
  then show ?case by (auto simp: finite_psubset_def dest: adjacent_nodes)
qed auto

definition cloneFsGroupEverMutated :: "cwd_state \<Rightarrow> lineage \<Rightarrow> int \<Rightarrow> bool" where
  "cloneFsGroupEverMutated cs l pid =
     group_search (cloneFsEdges l) (\<lambda>p. map_of (firstCwdMutationTs cs) p \<noteq> None) {} [pid]"

definition lineageSharedGroupMutated :: "cwd_state \<Rightarrow> lineage \<Rightarrow> int \<Rightarrow> bool" where
  "lineageSharedGroupMutated cs l startPid =
     lineage_walk (\<lambda>a. a \<in> everCwdShared cs \<and> cloneFsGroupEverMutated cs l a) (childParentReused l) (childParent l)
       LINEAGE_CAP {} (Some startPid)"

section \<open>The initial directory of a process\<close>

text \<open>The climb from the parent at the seeding clone, with \<open>n\<close> iterations left: \<open>prev\<close> is the process that \<open>a\<close>
  cloned.\<close>

fun recover_cwd :: "cwd_state \<Rightarrow> lineage \<Rightarrow> nat \<Rightarrow> int set \<Rightarrow> int \<Rightarrow> int option \<Rightarrow> string option" where
  "recover_cwd cs l n seen prev None = None"
| "recover_cwd cs l 0 seen prev (Some a) = None"
| "recover_cwd cs l (Suc n) seen prev (Some a) =
     (if a \<in> seen then None
      else case map_of (firstCwdMutationTs cs) a of
             Some firstMut \<Rightarrow>
               (case childSeedCloneTs l prev of
                  None \<Rightarrow> None
                | Some seedTs \<Rightarrow>
                    if firstMut > seedTs then
                      (case pidCloneTimeCwd l a of
                         Some (Some d) \<Rightarrow> Some d
                       | _ \<Rightarrow> recover_cwd cs l n (insert a seen) a (childParent l a))
                    else (case map_of (lastCwdMutationTs cs) a of
                            None \<Rightarrow> None
                          | Some lastMut \<Rightarrow> if lastMut < seedTs then fst (cwdGet a cs) else None))
           | None \<Rightarrow>
               (case pidCloneTimeCwd l a of
                  Some (Some d) \<Rightarrow> Some d
                | _ \<Rightarrow> recover_cwd cs l n (insert a seen) a (childParent l a)))"

section \<open>Opens read before the clone line of their process\<close>

record deferred_rel =
  dr_raw :: raw_event
  dr_attr :: "(string \<times> lifecycle_stage) option"
  dr_sharedAtRead :: bool
  dr_initialCwd :: "string option"
  dr_cloneFsSeed :: bool
  dr_bootstrapPendingInherited :: bool
  dr_seedParentPid :: "int option"
  dr_inheritedAttrib :: "(string \<times> lifecycle_stage) option"
  dr_stamped :: bool

definition new_deferred :: "raw_event \<Rightarrow> (string \<times> lifecycle_stage) option \<Rightarrow> bool \<Rightarrow> deferred_rel" where
  "new_deferred raw attr shared =
     \<lparr>dr_raw = raw, dr_attr = attr, dr_sharedAtRead = shared, dr_initialCwd = None, dr_cloneFsSeed = False,
      dr_bootstrapPendingInherited = False, dr_seedParentPid = None, dr_inheritedAttrib = None, dr_stamped = False\<rparr>"

definition stampDeferredRelOpens ::
  "int \<Rightarrow> string option \<Rightarrow> bool \<Rightarrow> (string \<times> lifecycle_stage) option \<Rightarrow> int \<Rightarrow> bool
    \<Rightarrow> deferred_rel list \<Rightarrow> deferred_rel list" where
  "stampDeferredRelOpens childPid inheritedCwd cloneFsSeed parentAttrib parentPid bootstrapPending =
     map (\<lambda>d.
       if dr_stamped d \<or> raw_pid (dr_raw d) \<noteq> childPid then d
       else d\<lparr>dr_inheritedAttrib := (if dr_attr d = None then parentAttrib else dr_inheritedAttrib d),
              dr_initialCwd := inheritedCwd, dr_cloneFsSeed := cloneFsSeed, dr_seedParentPid := Some parentPid,
              dr_bootstrapPendingInherited := bootstrapPending, dr_stamped := True\<rparr>)"

definition reuse_hid_sharing :: "cwd_state \<Rightarrow> lineage \<Rightarrow> int \<Rightarrow> bool" where
  "reuse_hid_sharing cs l p =
     (p \<in> childParentReused l \<and> (\<exists>pp\<in>set (childAllParents l p). lineageEverCwdShared cs l pp))"

definition deferred_initial :: "cwd_state \<Rightarrow> lineage \<Rightarrow> int \<Rightarrow> deferred_rel \<Rightarrow> string option" where
  "deferred_initial cs l p d =
     (if dr_initialCwd d = None \<and> dr_stamped d
      then recover_cwd cs l LINEAGE_CAP {} p (dr_seedParentPid d) else dr_initialCwd d)"

definition deferred_shared :: "cwd_state \<Rightarrow> lineage \<Rightarrow> int \<Rightarrow> deferred_rel \<Rightarrow> bool" where
  "deferred_shared cs l p d =
     (dr_sharedAtRead d \<or> dr_cloneFsSeed d \<or> reuse_hid_sharing cs l p \<or>
      (case dr_seedParentPid d of None \<Rightarrow> False | Some q \<Rightarrow> lineageSharedGroupMutated cs l q))"

text \<open>The path the open is emitted under, or nothing when it cannot be proved.\<close>

definition deferred_path :: "string \<Rightarrow> cwd_state \<Rightarrow> lineage \<Rightarrow> fs_event \<Rightarrow> deferred_rel \<Rightarrow> string option" where
  "deferred_path pcwd cs l e d =
     (if \<not> dr_stamped d \<or> deferred_shared cs l (fs_pid e) d then None
      else case deferred_initial cs l (fs_pid e) d of
             None \<Rightarrow> None
           | Some dir \<Rightarrow>
               (case map_of (firstCwdMutationTs cs) (fs_pid e) of
                  None \<Rightarrow> Some (path_resolve pcwd [dir, fs_path e])
                | Some firstMut \<Rightarrow>
                    if int (fs_ts e) < firstMut then Some (path_resolve pcwd [dir, fs_path e]) else None))"

section \<open>What the walks decide\<close>

text \<open>A chain that climbs to a process with no known parent without meeting trouble.\<close>

definition clean_chain :: "(int \<Rightarrow> bool) \<Rightarrow> int set \<Rightarrow> (int \<Rightarrow> int option) \<Rightarrow> nat \<Rightarrow> int \<Rightarrow> bool" where
  "clean_chain bad reused parent k p \<longleftrightarrow>
     (\<exists>q. anc parent k p = Some q \<and> parent q = None) \<and>
     (\<forall>j\<le>k. \<forall>q. anc parent j p = Some q \<longrightarrow> \<not> bad q \<and> q \<notin> reused)"

lemma clean_chain_0: "clean_chain bad reused parent 0 p \<longleftrightarrow> parent p = None \<and> \<not> bad p \<and> p \<notin> reused"
  by (auto simp: clean_chain_def)

lemma clean_chain_Suc:
  "clean_chain bad reused parent (Suc k) p \<longleftrightarrow>
     \<not> bad p \<and> p \<notin> reused \<and> (\<exists>q. parent p = Some q \<and> clean_chain bad reused parent k q)"
proof (cases "parent p")
  case None
  then show ?thesis by (auto simp: clean_chain_def)
next
  case (Some q)
  have all: "(\<forall>j\<le>Suc k. \<forall>r. anc parent j p = Some r \<longrightarrow> Q r) \<longleftrightarrow> Q p \<and> (\<forall>j\<le>k. \<forall>r. anc parent j q = Some r \<longrightarrow> Q r)" for Q
  proof (intro iffI conjI allI impI)
    assume a: "\<forall>j\<le>Suc k. \<forall>r. anc parent j p = Some r \<longrightarrow> Q r"
    from a [rule_format, of 0 p] show "Q p" by simp
    show "Q r" if "j \<le> k" "anc parent j q = Some r" for j r
      using a [rule_format, of "Suc j" r] that Some by simp
  next
    fix j r assume a: "Q p \<and> (\<forall>j\<le>k. \<forall>r. anc parent j q = Some r \<longrightarrow> Q r)" "j \<le> Suc k" "anc parent j p = Some r"
    then show "Q r" using Some by (cases j) auto
  qed
  show ?thesis unfolding clean_chain_def all by (auto simp: Some)
qed

text \<open>A chain to an orphan never comes back to where it started.\<close>

lemma orphan_no_return:
  assumes "anc parent k p = Some q" "parent q = None" "anc parent (Suc j) p = Some p"
  shows False
proof -
  have "anc parent (m * Suc j) p = Some p" for m
  proof (induction m)
    case (Suc m)
    have "anc parent (Suc m * Suc j) p = anc parent (Suc j + m * Suc j) p" by (simp only: mult_Suc)
    also have "\<dots> = Some p" unfolding anc_add assms(3) using Suc by simp
    finally show ?case .
  qed simp
  from this [of "Suc k"] have loop: "anc parent (Suc k * Suc j) p = Some p" .
  have "Suc k \<le> Suc k * Suc j" by simp
  then obtain n where n: "Suc k * Suc j = k + Suc n" by (metis add_Suc_right le_add_diff_inverse less_eq_Suc_le Suc_le_lessD less_imp_Suc_add)
  have "anc parent (Suc k * Suc j) p = None" unfolding n anc_add assms(1) by (simp add: assms(2))
  with loop show False by simp
qed

lemma lineage_walk_iff:
  assumes "\<And>a. a \<in> seen \<Longrightarrow> \<exists>j. anc parent (Suc j) a = Some p"
  shows "\<not> lineage_walk bad reused parent n seen (Some p) \<longleftrightarrow> (\<exists>k<n. clean_chain bad reused parent k p)"
  using assms
proof (induction n arbitrary: p seen)
  case 0
  show ?case by simp
next
  case (Suc n)
  have step: "(\<exists>k<Suc n. clean_chain bad reused parent k p) \<longleftrightarrow>
      \<not> bad p \<and> p \<notin> reused \<and>
      (case parent p of None \<Rightarrow> True | Some q \<Rightarrow> \<exists>k<n. clean_chain bad reused parent k q)"
  proof (cases "parent p")
    case None
    then show ?thesis
      by (auto simp: clean_chain_0 intro: exI [of _ 0]) (metis clean_chain_0 clean_chain_Suc not0_implies_Suc option.distinct(1))+
  next
    case (Some q)
    have "(\<exists>k<Suc n. clean_chain bad reused parent k p) \<longleftrightarrow> (\<exists>k<n. clean_chain bad reused parent (Suc k) p)"
    proof
      assume "\<exists>k<Suc n. clean_chain bad reused parent k p"
      then obtain k where k: "k < Suc n" "clean_chain bad reused parent k p" by blast
      with Some obtain m where "k = Suc m" by (cases k) (auto simp: clean_chain_0)
      with k show "\<exists>k<n. clean_chain bad reused parent (Suc k) p" by auto
    qed auto
    then show ?thesis using Some by (auto simp: clean_chain_Suc)
  qed
  show ?case
  proof (cases "p \<in> seen")
    case True
    then obtain j where j: "anc parent (Suc j) p = Some p" using Suc.prems by blast
    have "\<not> clean_chain bad reused parent k p" for k
      using orphan_no_return [OF _ _ j] by (auto simp: clean_chain_def)
    with True show ?thesis by auto
  next
    case False
    show ?thesis
    proof (cases "parent p")
      case None
      with False show ?thesis unfolding step by auto
    next
      case (Some q)
      have "\<exists>j. anc parent (Suc j) a = Some q" if "a \<in> insert p seen" for a
      proof (cases "a = p")
        case True
        then show ?thesis using Some by (intro exI [of _ 0]) simp
      next
        case False
        with that Suc.prems obtain j where j: "anc parent (Suc j) a = Some p" by blast
        have "anc parent (Suc j + 1) a = Some q" unfolding anc_add j using Some by simp
        then show ?thesis by (intro exI [of _ "Suc j"]) (simp only: Suc_eq_plus1)
      qed
      from Suc.IH [of "insert p seen" q, OF this] show ?thesis
        unfolding step using False Some by auto
    qed
  qed
qed

lemma group_search_iff:
  "group_search m hit seen stack \<longleftrightarrow>
   (\<exists>q. hit q \<and> (\<exists>p\<in>set stack. (p, q) \<in> {(a, b). b \<in> set (adjacent m a) \<and> a \<notin> seen \<and> b \<notin> seen}\<^sup>* \<and> p \<notin> seen))"
proof (induction m hit seen stack rule: group_search.induct)
  case (1 m hit seen)
  show ?case by simp
next
  case (2 m hit seen cur stack)
  let ?R = "\<lambda>S. {(a, b). b \<in> set (adjacent m a) \<and> a \<notin> S \<and> b \<notin> S}"
  show ?case
  proof (cases "cur \<in> seen \<or> hit cur")
    case True
    then show ?thesis using 2 by auto
  next
    case False
    let ?next = "rev (filter (\<lambda>n. n \<notin> insert cur seen) (adjacent m cur)) @ stack"
    have ih: "group_search m hit (insert cur seen) ?next \<longleftrightarrow>
        (\<exists>q. hit q \<and> (\<exists>p\<in>set ?next. (p, q) \<in> (?R (insert cur seen))\<^sup>* \<and> p \<notin> insert cur seen))"
      using 2 False by simp
    have cut: "(p, q) \<in> (?R (insert cur seen))\<^sup>* \<or> (\<exists>p'\<in>set (adjacent m cur). p' \<notin> insert cur seen \<and> (p', q) \<in> (?R (insert cur seen))\<^sup>*) \<or> q = cur"
      if "(p, q) \<in> (?R seen)\<^sup>*" "p \<notin> seen" "p \<noteq> cur" for p q
      using that(1)
    proof (induction rule: rtrancl_induct)
      case base
      show ?case by simp
    next
      case (step y z)
      show ?case
      proof (cases "z = cur \<or> y = cur")
        case True
        then show ?thesis using step.hyps by auto
      next
        case False
        then have "(y, z) \<in> ?R (insert cur seen)" using step.hyps by auto
        then show ?thesis using step.IH False by (meson rtrancl.rtrancl_into_rtrancl)
      qed
    qed
    have from_cur: "(\<exists>p'\<in>set (adjacent m cur). p' \<notin> insert cur seen \<and> (p', q) \<in> (?R (insert cur seen))\<^sup>*) \<or> q = cur"
      if "(cur, q) \<in> (?R seen)\<^sup>*" for q
      using that
    proof (cases rule: converse_rtranclE)
      case (step y)
      then have y: "y \<in> set (adjacent m cur)" "y \<notin> seen" by auto
      show ?thesis
      proof (cases "y = cur")
        case True
        show ?thesis using that
        proof (induction rule: rtrancl_induct)
          case (step u v)
          show ?case
          proof (cases "v = cur \<or> u = cur")
            case False
            then have "(u, v) \<in> ?R (insert cur seen)" using step.hyps by auto
            then show ?thesis using step.IH False by (meson rtrancl.rtrancl_into_rtrancl)
          qed (use step.hyps in auto)
        qed simp
      next
        case False
        from cut [OF step(2) y(2) False] y False show ?thesis by auto
      qed
    qed simp
    have mono: "(?R (insert cur seen))\<^sup>* \<subseteq> (?R seen)\<^sup>*" by (rule rtrancl_mono) auto
    have "(\<exists>q. hit q \<and> (\<exists>p\<in>set ?next. (p, q) \<in> (?R (insert cur seen))\<^sup>* \<and> p \<notin> insert cur seen)) \<longleftrightarrow>
        (\<exists>q. hit q \<and> (\<exists>p\<in>set (cur # stack). (p, q) \<in> (?R seen)\<^sup>* \<and> p \<notin> seen))" (is "?l \<longleftrightarrow> ?r")
    proof
      assume ?l
      then obtain q p where q: "hit q" "p \<in> set ?next" "(p, q) \<in> (?R (insert cur seen))\<^sup>*" "p \<notin> insert cur seen" by blast
      then consider "p \<in> set (adjacent m cur)" | "p \<in> set stack" by auto
      then show ?r
      proof cases
        case 1
        then have "(cur, p) \<in> ?R seen" using q(4) False by auto
        then have "(cur, q) \<in> (?R seen)\<^sup>*" using q(3) mono by (meson converse_rtrancl_into_rtrancl subsetD)
        then show ?thesis using q(1) False by auto
      next
        case 2
        then show ?thesis using q mono by auto
      qed
    next
      assume ?r
      then obtain q p where q: "hit q" "p \<in> set (cur # stack)" "(p, q) \<in> (?R seen)\<^sup>*" "p \<notin> seen" by blast
      have ne: "q \<noteq> cur" using q(1) False by auto
      show ?l
      proof (cases "p = cur")
        case True
        from from_cur [OF q(3) [unfolded True]] ne q(1) show ?thesis by auto
      next
        case False
        from cut [OF q(3,4) False] ne q False show ?thesis by auto
      qed
    qed
    with ih False show ?thesis by simp
  qed
qed

text \<open>The lineage of a process counts as shared unless its chain of parents climbs, in fewer than 100000 steps,
  to a process whose parent was never seen, through processes that never shared a directory and whose
  parent was always the same.\<close>

theorem lineage_shared_iff:
  "lineageEverCwdShared cs l p \<longleftrightarrow>
     \<not> (\<exists>k<LINEAGE_CAP. clean_chain (\<lambda>a. a \<in> everCwdShared cs) (childParentReused l) (childParent l) k p)"
  using lineage_walk_iff [of "{}" "childParent l" p] by (auto simp: lineageEverCwdShared_def)

text \<open>A group counts as mutated exactly when someone a process shared with, directly or through others, ever
  changed its directory.\<close>

theorem group_mutated_iff:
  "cloneFsGroupEverMutated cs l p \<longleftrightarrow>
     (\<exists>q. (p, q) \<in> {(a, b). b \<in> set (adjacent (cloneFsEdges l) a)}\<^sup>* \<and> map_of (firstCwdMutationTs cs) q \<noteq> None)"
  unfolding cloneFsGroupEverMutated_def group_search_iff by auto

end
