(* ===== verification/DrainOrder.thy ===== *)
theory DrainOrder
  imports Lineage
begin

text \<open>
  The order in which the lines of different processes are read is arbitrary; only the lines of one process
  come in their order. This theory runs the handlers of \<open>CwdTable\<close> and \<open>Lineage\<close> over such a reading of a
  forest of processes that do not share directories, and shows that a relative path, resolved when its line
  is read or put off to the end, is the path the process meant.
\<close>

section \<open>Readings\<close>

datatype fork_op = OpChdir string | OpClone int | OpOpen string

type_synonym reading = "(int \<times> fork_op) list"

text \<open>The lines of one process, and the directory it is in after a list of them.\<close>

definition lines_of :: "int \<Rightarrow> reading \<Rightarrow> fork_op list" where
  "lines_of p xs = map snd (filter (\<lambda>x. fst x = p) xs)"

fun cwd_after :: "string \<Rightarrow> string \<Rightarrow> fork_op list \<Rightarrow> string" where
  "cwd_after pcwd d [] = d"
| "cwd_after pcwd d (OpChdir t # ops) = cwd_after pcwd (path_resolve pcwd [d, t]) ops"
| "cwd_after pcwd d (_ # ops) = cwd_after pcwd d ops"

text \<open>The directory a process starts in: that of its parent at the call that creates it.\<close>

inductive starts :: "string \<Rightarrow> reading \<Rightarrow> int \<Rightarrow> string \<Rightarrow> int \<Rightarrow> string \<Rightarrow> bool" for pcwd xs root dir where
  root: "starts pcwd xs root dir root dir"
| child: "starts pcwd xs root dir p d \<Longrightarrow> i < length xs \<Longrightarrow> xs ! i = (p, OpClone c) \<Longrightarrow>
     starts pcwd xs root dir c (cwd_after pcwd d (lines_of p (take i xs)))"

text \<open>No pid is used twice.\<close>

definition pids_once :: "int \<Rightarrow> reading \<Rightarrow> bool" where
  "pids_once root xs \<longleftrightarrow>
     (\<forall>i < length xs. \<forall>j < length xs. \<forall>p q c. xs ! i = (p, OpClone c) \<longrightarrow> xs ! j = (q, OpClone c) \<longrightarrow> i = j) \<and>
     (\<forall>i < length xs. \<forall>p. xs ! i \<noteq> (p, OpClone root))"

section \<open>The dispatcher on a reading\<close>

record drain_state =
  dn_cwd :: cwd_state
  dn_lineage :: lineage
  dn_deferred :: "deferred_rel list"
  dn_paths :: "(nat \<times> string) list"

definition open_of :: "int \<Rightarrow> nat \<Rightarrow> string \<Rightarrow> fs_event" where
  "open_of p i t = \<lparr>fs_path = t, fs_pid = p, fs_ts = i, fs_hidden = False, fs_errno = None, fs_dirfd = None,
     fs_retFd = None, fs_root_anchored = None\<rparr>"

fun drain_step :: "string \<Rightarrow> nat \<Rightarrow> int \<times> fork_op \<Rightarrow> drain_state \<Rightarrow> drain_state" where
  "drain_step pcwd i (p, OpChdir t) s = s\<lparr>dn_cwd := cwd_chdir pcwd p (int i) t (dn_cwd s)\<rparr>"
| "drain_step pcwd i (p, OpClone c) s =
     (let (parentCwd, cs) = known_cwd p (dn_cwd s)
      in s\<lparr>dn_lineage := lineage_clone p c (int i) False parentCwd (dn_lineage s),
           dn_cwd := cwd_clone p c False cs,
           dn_deferred := stampDeferredRelOpens c parentCwd False None p False (dn_deferred s)\<rparr>)"
| "drain_step pcwd i (p, OpOpen t) s =
     (if path_isAbsolute t then s\<lparr>dn_paths := dn_paths s @ [(i, path_resolve pcwd [t])]\<rparr>
      else let (dir, cs) = known_cwd p (dn_cwd s)
           in case dir of
                Some d \<Rightarrow> s\<lparr>dn_cwd := cs, dn_paths := dn_paths s @ [(i, path_resolve pcwd [d, t])]\<rparr>
              | None \<Rightarrow> s\<lparr>dn_cwd := cs, dn_deferred := dn_deferred s @
                  [new_deferred (ReadEv (open_of p i t)) (Some ([], Install)) (p \<in> everCwdShared cs)]\<rparr>)"

definition drain_init :: "string \<Rightarrow> int \<Rightarrow> string \<Rightarrow> drain_state" where
  "drain_init pcwd root dir =
     \<lparr>dn_cwd = cwdSet root dir cwd_init, dn_lineage = lineage_root root dir lineage_init, dn_deferred = [],
      dn_paths = []\<rparr>"

fun drain_from :: "string \<Rightarrow> nat \<Rightarrow> reading \<Rightarrow> drain_state \<Rightarrow> drain_state" where
  "drain_from pcwd i [] s = s"
| "drain_from pcwd i (x # xs) s = drain_from pcwd (Suc i) xs (drain_step pcwd i x s)"

definition drain :: "string \<Rightarrow> int \<Rightarrow> string \<Rightarrow> reading \<Rightarrow> drain_state" where
  "drain pcwd root dir xs = drain_from pcwd 0 xs (drain_init pcwd root dir)"

text \<open>The end: the opens put off are resolved where that can be proved.\<close>

definition resolved_late :: "string \<Rightarrow> drain_state \<Rightarrow> (nat \<times> string) list" where
  "resolved_late pcwd s = List.map_filter (\<lambda>d. case fs_of (dr_raw d) of
      Some e \<Rightarrow> map_option (\<lambda>p. (fs_ts e, p)) (deferred_path pcwd (dn_cwd s) (dn_lineage s) e d)
    | None \<Rightarrow> None) (dn_deferred s)"

definition resolved_paths :: "string \<Rightarrow> int \<Rightarrow> string \<Rightarrow> reading \<Rightarrow> (nat \<times> string) list" where
  "resolved_paths pcwd root dir xs =
     dn_paths (drain pcwd root dir xs) @ resolved_late pcwd (drain pcwd root dir xs)"

section \<open>Lines of one process\<close>

lemma lines_of_Suc:
  "n < length xs \<Longrightarrow> lines_of p (take (Suc n) xs) =
     lines_of p (take n xs) @ (if fst (xs ! n) = p then [snd (xs ! n)] else [])"
  by (simp add: lines_of_def take_Suc_conv_app_nth)

lemma lines_of_le:
  assumes "i \<le> j"
  shows "\<exists>more. lines_of p (take j xs) = lines_of p (take i xs) @ more"
proof -
  have "take j xs = take i xs @ take (j - i) (drop i xs)" using assms by (metis le_add_diff_inverse take_add)
  then show ?thesis by (simp add: lines_of_def)
qed

lemma cwd_after_append [simp]: "cwd_after pcwd d (a @ b) = cwd_after pcwd (cwd_after pcwd d a) b"
  by (induction pcwd d a rule: cwd_after.induct) auto

definition still :: "fork_op list \<Rightarrow> bool" where
  "still ops \<longleftrightarrow> (\<forall>t. OpChdir t \<notin> set ops)"

lemma still_cwd: "still ops \<Longrightarrow> cwd_after pcwd d ops = d"
  by (induction pcwd d ops rule: cwd_after.induct) (auto simp: still_def)

lemma still_le: "still (lines_of p (take j xs)) \<Longrightarrow> i \<le> j \<Longrightarrow> still (lines_of p (take i xs))"
  using lines_of_le [of i j p xs] by (auto simp: still_def)

section \<open>A process has one creation\<close>

lemma starts_of_clone:
  assumes once: "pids_once root xs" and i: "i < length xs" "xs ! i = (p, OpClone c)" and s: "starts pcwd xs root dir c d"
  shows "\<exists>d'. starts pcwd xs root dir p d' \<and> d = cwd_after pcwd d' (lines_of p (take i xs))"
  using s
proof cases
  case root
  with once i show ?thesis by (auto simp: pids_once_def)
next
  case (child q d' j)
  then have "j = i" using once i unfolding pids_once_def by blast
  with child i show ?thesis by auto
qed

section \<open>The handlers when nothing is shared\<close>

definition solo :: "cwd_state \<Rightarrow> bool" where
  "solo cs \<longleftrightarrow> cwdParent cs = [] \<and> pendingCwdDetach cs = [] \<and> everCwdShared cs = {}"

lemma rooted_solo: "cwdParent cs = [] \<Longrightarrow> rootedCwd p cs = (p, cs)"
  by (cases cs) (simp add: rootedCwd_def rooted_def find_root_def compress_def)

lemma solo_ops:
  assumes "cwdParent cs = []"
  shows "cwdGet p cs = (map_of (pidCwd cs) p, cs)" "cwdUnknownHas p cs = (p \<in> pidCwdUnknown cs, cs)"
    "cwdSet p v cs = cs\<lparr>pidCwd := map_set p v (pidCwd cs)\<rparr>" "cwdDelete p cs = cs\<lparr>pidCwd := map_delete p (pidCwd cs)\<rparr>"
    "cwdUnknownAdd p cs = cs\<lparr>pidCwdUnknown := insert p (pidCwdUnknown cs)\<rparr>"
    "cwdUnknownDelete p cs = cs\<lparr>pidCwdUnknown := pidCwdUnknown cs - {p}\<rparr>"
    "known_cwd p cs = (if p \<in> pidCwdUnknown cs then None else map_of (pidCwd cs) p, cs)"
  using assms by (simp_all add: cwdGet_def cwdUnknownHas_def cwdSet_def cwdDelete_def cwdUnknownAdd_def
      cwdUnknownDelete_def known_cwd_def rooted_solo)

section \<open>The invariant\<close>

text \<open>What is known about the directories and their changes after \<open>n\<close> lines.\<close>

definition settled :: "string \<Rightarrow> reading \<Rightarrow> int \<Rightarrow> nat \<Rightarrow> nat \<Rightarrow> bool" where
  "settled pcwd xs p i n \<longleftrightarrow> (\<forall>j d. i < j \<longrightarrow> j \<le> n \<longrightarrow>
     cwd_after pcwd d (lines_of p (take j xs)) = cwd_after pcwd d (lines_of p (take n xs)))"

definition times_true :: "string \<Rightarrow> reading \<Rightarrow> nat \<Rightarrow> int \<Rightarrow> cwd_state \<Rightarrow> bool" where
  "times_true pcwd xs n p cs \<longleftrightarrow>
     (case (map_of (firstCwdMutationTs cs) p, map_of (lastCwdMutationTs cs) p) of
        (None, None) \<Rightarrow> still (lines_of p (take n xs))
      | (Some f, Some g) \<Rightarrow>
          (\<exists>i<n. f = int i \<and> still (lines_of p (take i xs))) \<and>
          (\<exists>i<n. g = int i \<and> settled pcwd xs p i n)
      | _ \<Rightarrow> False)"

definition cwd_true :: "string \<Rightarrow> reading \<Rightarrow> int \<Rightarrow> string \<Rightarrow> nat \<Rightarrow> cwd_state \<Rightarrow> bool" where
  "cwd_true pcwd xs root dir n cs \<longleftrightarrow>
     solo cs \<and>
     (\<forall>p v d. map_of (pidCwd cs) p = Some v \<longrightarrow> starts pcwd xs root dir p d \<longrightarrow>
        v = cwd_after pcwd d (lines_of p (take n xs))) \<and>
     (\<forall>p. map_of (pidCwd cs) p = None \<longrightarrow> p \<notin> pidCwdUnknown cs \<longrightarrow> still (lines_of p (take n xs))) \<and>
     (\<forall>p. times_true pcwd xs n p cs)"

definition tree_true :: "string \<Rightarrow> reading \<Rightarrow> int \<Rightarrow> string \<Rightarrow> nat \<Rightarrow> lineage \<Rightarrow> bool" where
  "tree_true pcwd xs root dir n l \<longleftrightarrow>
     childParentReused l = {} \<and>
     (\<forall>c v d. pidCloneTimeCwd l c = Some (Some v) \<longrightarrow> starts pcwd xs root dir c d \<longrightarrow> v = d) \<and>
     (\<forall>c. case childParent l c of
            None \<Rightarrow> childSeedCloneTs l c = None \<and> (\<forall>i<n. \<forall>p. xs ! i \<noteq> (p, OpClone c))
          | Some p \<Rightarrow> (\<exists>i<n. xs ! i = (p, OpClone c) \<and> childSeedCloneTs l c = Some (int i)))"

definition entry_true :: "string \<Rightarrow> reading \<Rightarrow> int \<Rightarrow> string \<Rightarrow> nat \<Rightarrow> lineage \<Rightarrow> deferred_rel \<Rightarrow> bool" where
  "entry_true pcwd xs root dir n l d \<longleftrightarrow>
     (\<exists>p i t. dr_raw d = ReadEv (open_of p i t) \<and> i < n \<and> xs ! i = (p, OpOpen t) \<and>
        (dr_stamped d \<longrightarrow> (\<exists>q. dr_seedParentPid d = Some q \<and> childParent l p = Some q)) \<and>
        (\<forall>v e. dr_initialCwd d = Some v \<longrightarrow> starts pcwd xs root dir p e \<longrightarrow> v = e))"

text \<open>The path of the open on line \<open>i\<close>, as the process meant it.\<close>

definition meant :: "string \<Rightarrow> reading \<Rightarrow> int \<Rightarrow> string \<Rightarrow> nat \<Rightarrow> string \<Rightarrow> bool" where
  "meant pcwd xs root dir i path \<longleftrightarrow>
     (\<exists>p t. i < length xs \<and> xs ! i = (p, OpOpen t) \<and>
        (\<forall>d. starts pcwd xs root dir p d \<longrightarrow>
           path = path_resolve pcwd [cwd_after pcwd d (lines_of p (take i xs)), t]))"

definition drain_inv :: "string \<Rightarrow> reading \<Rightarrow> int \<Rightarrow> string \<Rightarrow> nat \<Rightarrow> drain_state \<Rightarrow> bool" where
  "drain_inv pcwd xs root dir n s \<longleftrightarrow>
     cwd_true pcwd xs root dir n (dn_cwd s) \<and> tree_true pcwd xs root dir n (dn_lineage s) \<and>
     (\<forall>d\<in>set (dn_deferred s). entry_true pcwd xs root dir n (dn_lineage s) d) \<and>
     (\<forall>(i, path)\<in>set (dn_paths s). meant pcwd xs root dir i path)"

lemma times_step:
  assumes n: "n < length xs" and t: "times_true pcwd xs n p cs" and no: "\<nexists>t. xs ! n = (p, OpChdir t)"
    and same: "firstCwdMutationTs cs' = firstCwdMutationTs cs" "lastCwdMutationTs cs' = lastCwdMutationTs cs"
  shows "times_true pcwd xs (Suc n) p cs'"
proof -
  have l: "cwd_after pcwd d (lines_of p (take (Suc n) xs)) = cwd_after pcwd d (lines_of p (take n xs))"
    "still (lines_of p (take (Suc n) xs)) \<longleftrightarrow> still (lines_of p (take n xs))" for d
    using no by (cases "snd (xs ! n)"; cases "xs ! n"; auto simp: lines_of_Suc [OF n] still_def)+
  show ?thesis
  proof (cases "map_of (firstCwdMutationTs cs) p")
    case None
    with t l(2) show ?thesis by (auto simp: times_true_def same split: option.splits)
  next
    case (Some f)
    with t obtain g i j where g: "map_of (lastCwdMutationTs cs) p = Some g" "i < n" "f = int i"
      "still (lines_of p (take i xs))" "j < n" "g = int j" "settled pcwd xs p j n"
      by (auto simp: times_true_def split: option.splits)
    have "settled pcwd xs p j (Suc n)"
      using g(7) l(1) unfolding settled_def by (metis le_SucE)
    with g(2-6) have "\<exists>i<Suc n. f = int i \<and> still (lines_of p (take i xs))"
      "\<exists>j<Suc n. g = int j \<and> settled pcwd xs p j (Suc n)"
      using less_SucI by blast+
    then show ?thesis unfolding times_true_def same Some g(1) by simp
  qed
qed

lemma times_chdir:
  assumes n: "n < length xs" and t: "\<forall>q. times_true pcwd xs n q cs" and x: "xs ! n = (p, OpChdir u)"
    and same: "firstCwdMutationTs cs' = firstCwdMutationTs (cwd_mutated p (int n) cs)"
      "lastCwdMutationTs cs' = lastCwdMutationTs (cwd_mutated p (int n) cs)"
  shows "times_true pcwd xs (Suc n) q cs'"
proof (cases "q = p")
  case False
  have "times_true pcwd xs (Suc n) q cs"
    using times_step [OF n t [rule_format], where p = q and cs' = cs] x False by simp
  then show ?thesis using False same by (simp add: times_true_def cwd_mutated_def jm.get_put)
next
  case True
  have last: "map_of (lastCwdMutationTs cs') p = Some (int n)"
    by (simp add: same cwd_mutated_def jm.get_put)
  have "settled pcwd xs p n (Suc n)"
    unfolding settled_def by (metis le_antisym Suc_leI)
  moreover have "\<exists>f. map_of (firstCwdMutationTs cs') p = Some f \<and> (\<exists>i<Suc n. f = int i \<and> still (lines_of p (take i xs)))"
    using t [rule_format, of p]
    by (auto simp: same cwd_mutated_def times_true_def jm.get_put less_Suc_eq split: option.splits)
  ultimately show ?thesis using last True by (auto simp: times_true_def)
qed

section \<open>Each line keeps the invariant\<close>

lemma cwd_trueD:
  assumes "cwd_true pcwd xs root dir n cs"
  shows "cwdParent cs = []" "pendingCwdDetach cs = []" "everCwdShared cs = {}"
    "map_of (pidCwd cs) p = Some v \<Longrightarrow> starts pcwd xs root dir p d \<Longrightarrow> v = cwd_after pcwd d (lines_of p (take n xs))"
    "map_of (pidCwd cs) p = None \<Longrightarrow> p \<notin> pidCwdUnknown cs \<Longrightarrow> still (lines_of p (take n xs))"
    "times_true pcwd xs n p cs"
  using assms by (auto simp: cwd_true_def solo_def)

lemma cwd_trueI:
  assumes "cwdParent cs = []" "pendingCwdDetach cs = []" "everCwdShared cs = {}"
    "\<And>p v d. map_of (pidCwd cs) p = Some v \<Longrightarrow> starts pcwd xs root dir p d \<Longrightarrow> v = cwd_after pcwd d (lines_of p (take n xs))"
    "\<And>p. map_of (pidCwd cs) p = None \<Longrightarrow> p \<notin> pidCwdUnknown cs \<Longrightarrow> still (lines_of p (take n xs))"
    "\<And>p. times_true pcwd xs n p cs"
  shows "cwd_true pcwd xs root dir n cs"
  using assms by (simp add: cwd_true_def solo_def)

lemma absolute_forgets: "path_isAbsolute t \<Longrightarrow> path_resolve pcwd [d, t] = path_resolve pcwd [t]"
  using resolve_absolute [of t pcwd "[d]"] resolve_absolute [of t pcwd "[]"] by simp

lemma cwd_true_chdir:
  assumes inv: "cwd_true pcwd xs root dir n cs" and n: "n < length xs" and x: "xs ! n = (p, OpChdir t)"
  shows "cwd_true pcwd xs root dir (Suc n) (cwd_chdir pcwd p (int n) t cs)"
proof -
  note i = cwd_trueD [OF inv]
  let ?m = "cwd_mutated p (int n) cs"
  let ?cs = "cwd_chdir pcwd p (int n) t cs"
  have m: "cwdParent ?m = []" "pidCwd ?m = pidCwd cs" "pidCwdUnknown ?m = pidCwdUnknown cs"
    "pendingCwdDetach ?m = []" "everCwdShared ?m = {}"
    using i(1-3) by (simp_all add: cwd_mutated_def)
  have eq: "?cs = (if path_isAbsolute t
      then ?m\<lparr>pidCwd := map_set p (path_resolve pcwd [t]) (pidCwd cs), pidCwdUnknown := pidCwdUnknown cs - {p}\<rparr>
      else case map_of (pidCwd cs) p of
             Some c \<Rightarrow> ?m\<lparr>pidCwd := map_set p (path_resolve pcwd [c, t]) (pidCwd cs)\<rparr>
           | None \<Rightarrow> ?m\<lparr>pidCwdUnknown := insert p (pidCwdUnknown cs)\<rparr>)"
    by (simp add: cwd_chdir_def Let_def solo_ops m split: option.splits)
  have lines: "lines_of q (take (Suc n) xs) = lines_of q (take n xs) @ (if q = p then [OpChdir t] else [])" for q
    by (auto simp: lines_of_Suc [OF n] x)
  show ?thesis
  proof (rule cwd_trueI)
    fix q v d assume v: "map_of (pidCwd ?cs) q = Some v" and s: "starts pcwd xs root dir q d"
    show "v = cwd_after pcwd d (lines_of q (take (Suc n) xs))"
    proof (cases "q = p")
      case False
      then have "map_of (pidCwd cs) q = Some v"
        using v by (auto simp: eq jm.get_put m split: if_splits option.splits)
      with i(4) s False show ?thesis by (simp add: lines)
    next
      case True
      show ?thesis
        using v s True i(4) [of p _ d]
        by (auto simp: eq jm.get_put m lines absolute_forgets split: if_splits option.splits)
    qed
  next
    fix q assume q: "map_of (pidCwd ?cs) q = None" "q \<notin> pidCwdUnknown ?cs"
    then have "q \<noteq> p" "map_of (pidCwd cs) q = None" "q \<notin> pidCwdUnknown cs"
      by (auto simp: eq jm.get_put m split: if_splits option.splits)
    then show "still (lines_of q (take (Suc n) xs))" using i(5) by (simp add: lines)
  next
    fix q
    have "firstCwdMutationTs ?cs = firstCwdMutationTs ?m" "lastCwdMutationTs ?cs = lastCwdMutationTs ?m"
      by (auto simp: eq split: option.splits)
    then show "times_true pcwd xs (Suc n) q ?cs" using times_chdir [OF n _ x] i(6) by blast
  qed (auto simp: eq m split: option.splits)
qed

lemma cwd_true_clone:
  assumes inv: "cwd_true pcwd xs root dir n cs" and n: "n < length xs" and x: "xs ! n = (p, OpClone c)"
    and once: "pids_once root xs"
  shows "cwd_true pcwd xs root dir (Suc n) (cwd_clone p c False cs)"
proof -
  note i = cwd_trueD [OF inv]
  let ?cs = "cwd_clone p c False cs"
  have self: "cs\<lparr>pendingCwdDetach := []\<rparr> = cs" using i(2) by (cases cs) simp
  have eq: "?cs =
      (if p \<in> pidCwdUnknown cs \<or> c \<in> pidCwdUnknown cs then cs\<lparr>pidCwdUnknown := insert c (pidCwdUnknown cs)\<rparr>
       else case (map_of (pidCwd cs) p, map_of (pidCwd cs) c) of
           (Some a, Some b) \<Rightarrow>
             if a \<noteq> b then cs\<lparr>pidCwd := map_delete c (pidCwd cs), pidCwdUnknown := insert c (pidCwdUnknown cs)\<rparr> else cs
         | (Some a, None) \<Rightarrow> cs\<lparr>pidCwd := map_set c a (pidCwd cs)\<rparr>
         | _ \<Rightarrow> cs)"
    using i(1,2) self
    by (auto simp: cwd_clone_def cwd_copied_def Let_def solo_ops map_delete_def [of _ "[]"] split: option.splits)
  have lines: "cwd_after pcwd d (lines_of q (take (Suc n) xs)) = cwd_after pcwd d (lines_of q (take n xs))"
    "still (lines_of q (take (Suc n) xs)) \<longleftrightarrow> still (lines_of q (take n xs))" for q d
    by (auto simp: lines_of_Suc [OF n] x still_def)
  show ?thesis
  proof (rule cwd_trueI)
    fix q v d assume v: "map_of (pidCwd ?cs) q = Some v" and s: "starts pcwd xs root dir q d"
    show "v = cwd_after pcwd d (lines_of q (take (Suc n) xs))"
    proof (cases "map_of (pidCwd cs) q = Some v")
      case True
      with i(4) s show ?thesis by (simp add: lines)
    next
      case False
      then have q: "q = c" "map_of (pidCwd cs) p = Some v" "map_of (pidCwd cs) c = None" "c \<notin> pidCwdUnknown cs"
        using v by (auto simp: eq jm.get_put jm.get_del split: if_splits option.splits)
      from starts_of_clone [OF once n x] s q(1) obtain d' where
        d': "starts pcwd xs root dir p d'" "d = cwd_after pcwd d' (lines_of p (take n xs))" by blast
      with i(4) q(2) have "v = d" by blast
      moreover have "still (lines_of c (take n xs))" using i(5) q by blast
      ultimately show ?thesis using q(1) by (simp add: lines still_cwd)
    qed
  next
    fix q assume q: "map_of (pidCwd ?cs) q = None" "q \<notin> pidCwdUnknown ?cs"
    then have "map_of (pidCwd cs) q = None" "q \<notin> pidCwdUnknown cs"
      by (auto simp: eq jm.get_put jm.get_del split: if_splits option.splits)
    then show "still (lines_of q (take (Suc n) xs))" using i(5) by (simp add: lines)
  next
    fix q
    have "firstCwdMutationTs ?cs = firstCwdMutationTs cs" "lastCwdMutationTs ?cs = lastCwdMutationTs cs"
      by (auto simp: eq split: option.splits)
    then show "times_true pcwd xs (Suc n) q ?cs" using times_step [OF n i(6)] x by auto
  qed (use i(1-3) in \<open>auto simp: eq split: option.splits\<close>)
qed

lemma cwd_true_open:
  assumes inv: "cwd_true pcwd xs root dir n cs" and n: "n < length xs" and x: "xs ! n = (p, OpOpen t)"
  shows "cwd_true pcwd xs root dir (Suc n) cs"
proof -
  note i = cwd_trueD [OF inv]
  have lines: "cwd_after pcwd d (lines_of q (take (Suc n) xs)) = cwd_after pcwd d (lines_of q (take n xs))"
    "still (lines_of q (take (Suc n) xs)) \<longleftrightarrow> still (lines_of q (take n xs))" for q d
    by (auto simp: lines_of_Suc [OF n] x still_def)
  show ?thesis
    by (rule cwd_trueI) (use i times_step [OF n i(6)] x in \<open>auto simp: lines\<close>)
qed

lemma tree_trueD:
  assumes "tree_true pcwd xs root dir n l"
  shows "childParentReused l = {}"
    "pidCloneTimeCwd l c = Some (Some v) \<Longrightarrow> starts pcwd xs root dir c d \<Longrightarrow> v = d"
    "childParent l c = None \<Longrightarrow> childSeedCloneTs l c = None"
    "childParent l c = None \<Longrightarrow> i < n \<Longrightarrow> xs ! i \<noteq> (p, OpClone c)"
    "childParent l c = Some p \<Longrightarrow> \<exists>i<n. xs ! i = (p, OpClone c) \<and> childSeedCloneTs l c = Some (int i)"
proof -
  have c: "case childParent l c of
      None \<Rightarrow> childSeedCloneTs l c = None \<and> (\<forall>i<n. \<forall>p. xs ! i \<noteq> (p, OpClone c))
    | Some p \<Rightarrow> (\<exists>i<n. xs ! i = (p, OpClone c) \<and> childSeedCloneTs l c = Some (int i))"
    using assms by (simp add: tree_true_def)
  show "childParent l c = None \<Longrightarrow> childSeedCloneTs l c = None"
    "childParent l c = None \<Longrightarrow> i < n \<Longrightarrow> xs ! i \<noteq> (p, OpClone c)"
    "childParent l c = Some p \<Longrightarrow> \<exists>i<n. xs ! i = (p, OpClone c) \<and> childSeedCloneTs l c = Some (int i)"
    using c by simp_all
qed (use assms in \<open>auto simp: tree_true_def\<close>)

lemma tree_true_other:
  assumes inv: "tree_true pcwd xs root dir n l" and x: "\<nexists>p c. xs ! n = (p, OpClone c)"
  shows "tree_true pcwd xs root dir (Suc n) l"
  unfolding tree_true_def
proof (intro conjI allI impI)
  fix c
  show "case childParent l c of
      None \<Rightarrow> childSeedCloneTs l c = None \<and> (\<forall>i<Suc n. \<forall>p. xs ! i \<noteq> (p, OpClone c))
    | Some p \<Rightarrow> \<exists>i<Suc n. xs ! i = (p, OpClone c) \<and> childSeedCloneTs l c = Some (int i)"
    using tree_trueD(3-5) [OF inv, of c] x by (auto split: option.splits simp: less_Suc_eq)
qed (use tree_trueD(1,2) [OF inv] in auto)

lemma no_parent_yet:
  assumes "tree_true pcwd xs root dir n l" "n < length xs" "xs ! n = (p, OpClone c)" "pids_once root xs"
  shows "childParent l c = None"
proof (rule ccontr)
  assume "childParent l c \<noteq> None"
  then obtain q i where "i < n" "xs ! i = (q, OpClone c)" using tree_trueD(5) [OF assms(1)] by blast
  then show False using assms unfolding pids_once_def by (metis less_irrefl less_trans)
qed

lemma tree_true_clone:
  assumes inv: "tree_true pcwd xs root dir n l" and n: "n < length xs" and x: "xs ! n = (p, OpClone c)"
    and once: "pids_once root xs"
    and cwd: "\<And>v d. parentCwd = Some v \<Longrightarrow> starts pcwd xs root dir c d \<Longrightarrow> v = d"
  shows "tree_true pcwd xs root dir (Suc n) (lineage_clone p c (int n) False parentCwd l)"
    "childParent (lineage_clone p c (int n) False parentCwd l) = (childParent l)(c \<mapsto> p)"
proof -
  let ?l = "lineage_clone p c (int n) False parentCwd l"
  note t = tree_trueD [OF inv]
  have none: "childParent l c = None" by (rule no_parent_yet [OF inv n x once])
  have eq: "childParentReused ?l = {}" "childParent ?l = (childParent l)(c \<mapsto> p)"
    "pidCloneTimeCwd ?l = set_if_absent c parentCwd (pidCloneTimeCwd l)"
    "childSeedCloneTs ?l = (childSeedCloneTs l)(c \<mapsto> int n)"
    using none t(1) t(3) [of c] by (simp_all add: lineage_clone_def set_if_absent_def)
  show "childParent ?l = (childParent l)(c \<mapsto> p)" by (rule eq)
  show "tree_true pcwd xs root dir (Suc n) ?l"
    unfolding tree_true_def
  proof (intro conjI allI impI)
    fix c' v d assume v: "pidCloneTimeCwd ?l c' = Some (Some v)" and s: "starts pcwd xs root dir c' d"
    show "v = d"
    proof (cases "pidCloneTimeCwd l c' = Some (Some v)")
      case False
      then have "c' = c" "parentCwd = Some v" using v by (auto simp: eq set_if_absent_def split: if_splits)
      with cwd s show ?thesis by simp
    qed (use t(2) s in blast)
  next
    fix c'
    show "case childParent ?l c' of
        None \<Rightarrow> childSeedCloneTs ?l c' = None \<and> (\<forall>i<Suc n. \<forall>q. xs ! i \<noteq> (q, OpClone c'))
      | Some q \<Rightarrow> \<exists>i<Suc n. xs ! i = (q, OpClone c') \<and> childSeedCloneTs ?l c' = Some (int i)"
      using t(3-5) [of c'] x by (auto simp: eq less_Suc_eq split: option.splits)
  qed (rule eq)
qed

lemma entry_true_mono:
  assumes "entry_true pcwd xs root dir n l d" "childParent l \<subseteq>\<^sub>m childParent l'"
  shows "entry_true pcwd xs root dir (Suc n) l' d"
proof -
  from assms(1) obtain p i t where e: "dr_raw d = ReadEv (open_of p i t)" "i < n" "xs ! i = (p, OpOpen t)"
    "dr_stamped d \<Longrightarrow> \<exists>q. dr_seedParentPid d = Some q \<and> childParent l p = Some q"
    "\<And>v e. dr_initialCwd d = Some v \<Longrightarrow> starts pcwd xs root dir p e \<Longrightarrow> v = e"
    unfolding entry_true_def by blast
  have "dr_stamped d \<Longrightarrow> \<exists>q. dr_seedParentPid d = Some q \<and> childParent l' p = Some q"
    using e(4) assms(2) by (metis domI map_le_def)
  with e show ?thesis unfolding entry_true_def by (intro exI [of _ p] exI [of _ i] exI [of _ t]) auto
qed

lemma entry_true_stamp:
  assumes e: "\<forall>d\<in>set ds. entry_true pcwd xs root dir n l d" and none: "childParent l c = None"
    and l': "childParent l' = (childParent l)(c \<mapsto> p)"
    and cwd: "\<And>v d. parentCwd = Some v \<Longrightarrow> starts pcwd xs root dir c d \<Longrightarrow> v = d"
  shows "\<forall>d\<in>set (stampDeferredRelOpens c parentCwd False attr p b ds). entry_true pcwd xs root dir (Suc n) l' d"
proof
  fix d' assume "d' \<in> set (stampDeferredRelOpens c parentCwd False attr p b ds)"
  then obtain d where d: "d \<in> set ds" "d' = (if dr_stamped d \<or> raw_pid (dr_raw d) \<noteq> c then d
      else d\<lparr>dr_inheritedAttrib := (if dr_attr d = None then attr else dr_inheritedAttrib d),
              dr_initialCwd := parentCwd, dr_cloneFsSeed := False, dr_seedParentPid := Some p,
              dr_bootstrapPendingInherited := b, dr_stamped := True\<rparr>)"
    by (auto simp: stampDeferredRelOpens_def)
  have le: "childParent l \<subseteq>\<^sub>m childParent l'" using none by (auto simp: l' map_le_def)
  show "entry_true pcwd xs root dir (Suc n) l' d'"
  proof (cases "dr_stamped d \<or> raw_pid (dr_raw d) \<noteq> c")
    case True
    then show ?thesis using d e entry_true_mono [OF _ le] by auto
  next
    case False
    from e d(1) obtain q i t where q: "dr_raw d = ReadEv (open_of q i t)" "i < n" "xs ! i = (q, OpOpen t)"
      unfolding entry_true_def by blast
    with False have "q = c" by (simp add: open_of_def)
    then show ?thesis using False d(2) q cwd l'
      unfolding entry_true_def by (intro exI [of _ q] exI [of _ i] exI [of _ t]) auto
  qed
qed

lemma drain_inv_step:
  assumes inv: "drain_inv pcwd xs root dir n s" and n: "n < length xs" and once: "pids_once root xs"
  shows "drain_inv pcwd xs root dir (Suc n) (drain_step pcwd n (xs ! n) s)"
proof -
  have i: "cwd_true pcwd xs root dir n (dn_cwd s)" "tree_true pcwd xs root dir n (dn_lineage s)"
    "\<forall>d\<in>set (dn_deferred s). entry_true pcwd xs root dir n (dn_lineage s) d"
    "\<forall>(i, path)\<in>set (dn_paths s). meant pcwd xs root dir i path"
    using inv by (simp_all add: drain_inv_def)
  note c = cwd_trueD [OF i(1)]
  have known: "known_cwd q (dn_cwd s) =
      (if q \<in> pidCwdUnknown (dn_cwd s) then None else map_of (pidCwd (dn_cwd s)) q, dn_cwd s)" for q
    using solo_ops(7) [OF c(1)] .
  have same: "\<forall>d\<in>set (dn_deferred s). entry_true pcwd xs root dir (Suc n) (dn_lineage s) d"
    using i(3) entry_true_mono [OF _ map_le_refl] by blast
  obtain p op where x: "xs ! n = (p, op)" by (cases "xs ! n")
  show ?thesis
  proof (cases op)
    case (OpChdir t)
    then show ?thesis
      using cwd_true_chdir [OF i(1) n] tree_true_other [OF i(2)] same i(4) x by (simp add: drain_inv_def)
  next
    case (OpClone ch)
    let ?pc = "if p \<in> pidCwdUnknown (dn_cwd s) then None else map_of (pidCwd (dn_cwd s)) p"
    have pc: "v = d" if "?pc = Some v" "starts pcwd xs root dir ch d" for v d
    proof -
      from starts_of_clone [OF once n x [unfolded OpClone] that(2)] obtain d' where
        "starts pcwd xs root dir p d'" "d = cwd_after pcwd d' (lines_of p (take n xs))" by blast
      with c(4) that(1) show ?thesis by (auto split: if_splits)
    qed
    have tr: "tree_true pcwd xs root dir (Suc n) (lineage_clone p ch (int n) False ?pc (dn_lineage s))"
      "childParent (lineage_clone p ch (int n) False ?pc (dn_lineage s)) = (childParent (dn_lineage s))(ch \<mapsto> p)"
      using tree_true_clone [OF i(2) n x [unfolded OpClone] once pc] by blast+
    have none: "childParent (dn_lineage s) ch = None"
      by (rule no_parent_yet [OF i(2) n x [unfolded OpClone] once])
    from cwd_true_clone [OF i(1) n x [unfolded OpClone] once] entry_true_stamp [OF i(3) none tr(2) pc] tr(1) i(4)
    show ?thesis by (simp add: drain_inv_def x OpClone known)
  next
    case (OpOpen t)
    have still_true: "cwd_true pcwd xs root dir (Suc n) (dn_cwd s)" "tree_true pcwd xs root dir (Suc n) (dn_lineage s)"
      using cwd_true_open [OF i(1) n] tree_true_other [OF i(2)] x OpOpen by auto
    show ?thesis
    proof (cases "path_isAbsolute t")
      case True
      have "meant pcwd xs root dir n (path_resolve pcwd [t])"
        using n x OpOpen by (simp add: meant_def absolute_forgets [OF True])
      then show ?thesis using True still_true same i(4) x OpOpen by (simp add: drain_inv_def)
    next
      case False
      let ?d = "if p \<in> pidCwdUnknown (dn_cwd s) then None else map_of (pidCwd (dn_cwd s)) p"
      show ?thesis
      proof (cases ?d)
        case None
        have "entry_true pcwd xs root dir (Suc n) (dn_lineage s)
            (new_deferred (ReadEv (open_of p n t)) (Some ([], Install)) (p \<in> everCwdShared (dn_cwd s)))"
          using x OpOpen by (auto simp: entry_true_def new_deferred_def)
        then show ?thesis using False None still_true same i(4) x OpOpen by (simp add: drain_inv_def known)
      next
        case (Some v)
        have "meant pcwd xs root dir n (path_resolve pcwd [v, t])"
          using n x OpOpen Some c(4) by (auto simp: meant_def split: if_splits)
        then show ?thesis using False Some still_true same i(4) x OpOpen by (simp add: drain_inv_def known)
      qed
    qed
  qed
qed

lemma drain_from_inv:
  assumes "drain_inv pcwd xs root dir n s" "ys = drop n xs" "pids_once root xs" "n \<le> length xs"
  shows "drain_inv pcwd xs root dir (length xs) (drain_from pcwd n ys s)"
  using assms
proof (induction ys arbitrary: n s)
  case Nil
  then have "n = length xs" by simp
  with Nil show ?case by simp
next
  case (Cons y ys)
  then have n: "n < length xs" by (metis drop_all linorder_not_less list.distinct(1))
  then have "y = xs ! n" "ys = drop (Suc n) xs" using Cons.prems(2) by (simp_all add: Cons_nth_drop_Suc [symmetric])
  then show ?case using Cons.IH [of "Suc n"] drain_inv_step [OF Cons.prems(1) n Cons.prems(3)] Cons.prems(3) n by simp
qed

lemma starts_root: "pids_once root xs \<Longrightarrow> starts pcwd xs root dir root d \<Longrightarrow> d = dir"
  by (erule starts.cases) (auto simp: pids_once_def)

lemma drain_inv_start:
  assumes "pids_once root xs"
  shows "drain_inv pcwd xs root dir 0 (drain_init pcwd root dir)"
proof -
  have e: "cwdSet root dir cwd_init = cwd_init\<lparr>pidCwd := [(root, dir)]\<rparr>"
    by (simp add: solo_ops(3) cwd_init_def)
  have "cwd_true pcwd xs root dir 0 (cwd_init\<lparr>pidCwd := [(root, dir)]\<rparr>)"
    using starts_root [OF assms]
    by (intro cwd_trueI) (auto simp: cwd_init_def lines_of_def still_def times_true_def split: if_splits)
  moreover have "tree_true pcwd xs root dir 0 (lineage_root root dir lineage_init)"
    using starts_root [OF assms]
    by (auto simp: tree_true_def lineage_root_def lineage_init_def set_if_absent_def split: if_splits)
  ultimately show ?thesis by (simp add: drain_inv_def drain_init_def e)
qed

section \<open>The climb finds the right directory\<close>

lemma recover_true:
  assumes cwd: "cwd_true pcwd xs root dir (length xs) cs" and tree: "tree_true pcwd xs root dir (length xs) l"
    and once: "pids_once root xs"
  shows "recover_cwd cs l n seen prev (Some a) = Some v \<Longrightarrow> childParent l prev = Some a \<Longrightarrow>
    starts pcwd xs root dir prev d \<Longrightarrow> v = d"
proof (induction n arbitrary: seen prev a d)
  case 0
  then show ?case by simp
next
  case (Suc n)
  obtain i where i: "i < length xs" "xs ! i = (a, OpClone prev)" "childSeedCloneTs l prev = Some (int i)"
    using tree_trueD(5) [OF tree Suc.prems(2)] by blast
  obtain d' where d': "starts pcwd xs root dir a d'" "d = cwd_after pcwd d' (lines_of a (take i xs))"
    using starts_of_clone [OF once i(1,2) Suc.prems(3)] by blast
  have fresh: "a \<notin> seen" using Suc.prems(1) by (auto split: if_splits)
  have inherited: "v = d" if up: "(case pidCloneTimeCwd l a of Some (Some d) \<Rightarrow> Some d
        | _ \<Rightarrow> recover_cwd cs l n (insert a seen) a (childParent l a)) = Some v"
      and "still (lines_of a (take i xs))"
  proof -
    have "d = d'" using d'(2) still_cwd [OF that(2)] by simp
    moreover have "v = d'"
    proof (cases "\<exists>u. pidCloneTimeCwd l a = Some (Some u)")
      case True
      with up tree_trueD(2) [OF tree _ d'(1)] show ?thesis by auto
    next
      case False
      then have r: "recover_cwd cs l n (insert a seen) a (childParent l a) = Some v"
        using up by (auto split: option.splits)
      then obtain b where "childParent l a = Some b" by (cases "childParent l a") auto
      with Suc.IH [of "insert a seen" a b d'] r d'(1) show ?thesis by simp
    qed
    ultimately show ?thesis by simp
  qed
  note t = cwd_trueD(6) [OF cwd, of a, unfolded times_true_def]
  show ?case
  proof (cases "map_of (firstCwdMutationTs cs) a")
    case None
    with t have "still (lines_of a (take (length xs) xs))" by (auto split: option.splits)
    then have "still (lines_of a (take i xs))" by (rule still_le) (use i(1) in simp)
    with inherited Suc.prems(1) fresh None show ?thesis by simp
  next
    case (Some f)
    with t obtain g j k where g: "map_of (lastCwdMutationTs cs) a = Some g" "f = int j" "still (lines_of a (take j xs))"
      "g = int k" "settled pcwd xs a k (length xs)"
      by (auto split: option.splits)
    show ?thesis
    proof (cases "f > int i")
      case True
      then have "still (lines_of a (take i xs))" using still_le [OF g(3), of i] g(2) by simp
      with inherited Suc.prems(1) fresh Some i(3) True show ?thesis by simp
    next
      case False
      then have last: "k < i" "map_of (pidCwd cs) a = Some v"
        using Suc.prems(1) fresh Some i(3) g(1,4) by (auto simp: solo_ops [OF cwd_trueD(1) [OF cwd]] split: if_splits)
      have "cwd_after pcwd d' (lines_of a (take i xs)) = cwd_after pcwd d' (lines_of a (take (length xs) xs))"
        using g(5) last(1) i(1) unfolding settled_def by (meson less_imp_le)
      moreover have "v = cwd_after pcwd d' (lines_of a (take (length xs) xs))"
        using cwd_trueD(4) [OF cwd last(2) d'(1)] .
      ultimately show ?thesis using d'(2) by simp
    qed
  qed
qed

lemma late_meant:
  assumes inv: "drain_inv pcwd xs root dir (length xs) s" and once: "pids_once root xs"
    and d: "d \<in> set (dn_deferred s)" "fs_of (dr_raw d) = Some e"
    and path: "deferred_path pcwd (dn_cwd s) (dn_lineage s) e d = Some path"
  shows "meant pcwd xs root dir (fs_ts e) path"
proof -
  have cwd: "cwd_true pcwd xs root dir (length xs) (dn_cwd s)" and tree: "tree_true pcwd xs root dir (length xs) (dn_lineage s)"
    using inv by (simp_all add: drain_inv_def)
  have "entry_true pcwd xs root dir (length xs) (dn_lineage s) d" using inv d(1) unfolding drain_inv_def by blast
  then obtain p i t where en: "dr_raw d = ReadEv (open_of p i t)" "i < length xs" "xs ! i = (p, OpOpen t)"
    "dr_stamped d \<Longrightarrow> \<exists>q. dr_seedParentPid d = Some q \<and> childParent (dn_lineage s) p = Some q"
    "\<And>v e. dr_initialCwd d = Some v \<Longrightarrow> starts pcwd xs root dir p e \<Longrightarrow> v = e"
    unfolding entry_true_def by blast
  have e: "e = open_of p i t" using d(2) en(1) by simp
  then have f: "fs_pid e = p" "fs_ts e = i" "fs_path e = t" by (simp_all add: open_of_def)
  obtain v where v: "deferred_initial (dn_cwd s) (dn_lineage s) p d = Some v" "dr_stamped d"
    and first: "case map_of (firstCwdMutationTs (dn_cwd s)) p of None \<Rightarrow> True | Some m \<Rightarrow> int i < m"
    and res: "path = path_resolve pcwd [v, t]"
    using path by (auto simp: deferred_path_def f split: if_splits option.splits)
  have "still (lines_of p xs) \<Longrightarrow> still (lines_of p (take i xs))"
    using still_le [of p "length xs" xs i] en(2) by simp
  then have quiet: "still (lines_of p (take i xs))"
    using first cwd_trueD(6) [OF cwd, of p, unfolded times_true_def] still_le [of p _ xs i]
    by (auto split: option.splits)
  have "v = d'" if "starts pcwd xs root dir p d'" for d'
  proof (cases "dr_initialCwd d")
    case None
    obtain q where q: "dr_seedParentPid d = Some q" "childParent (dn_lineage s) p = Some q" using en(4) v(2) by blast
    have "recover_cwd (dn_cwd s) (dn_lineage s) LINEAGE_CAP {} p (Some q) = Some v"
      using v None q(1) by (simp add: deferred_initial_def)
    from recover_true [OF cwd tree once this q(2) that] show ?thesis .
  next
    case (Some u)
    with v en(5) that show ?thesis by (simp add: deferred_initial_def)
  qed
  with quiet en(2,3) f(2) res show ?thesis
    unfolding meant_def by (auto simp: still_cwd)
qed

text \<open>C5: whatever the order in which the lines of different processes are read, in a forest of processes that do
  not share directories and never reuse a pid, every path that is given to an open, at once or at the end,
  is the one the process meant: its directory is what its creation and its own earlier calls made it.\<close>

theorem reading_order_harmless:
  assumes "pids_once root xs" "(i, path) \<in> set (resolved_paths pcwd root dir xs)"
  shows "meant pcwd xs root dir i path"
proof -
  have inv: "drain_inv pcwd xs root dir (length xs) (drain pcwd root dir xs)"
    unfolding drain_def by (rule drain_from_inv [OF drain_inv_start [OF assms(1)]]) (use assms(1) in auto)
  from assms(2) consider "(i, path) \<in> set (dn_paths (drain pcwd root dir xs))"
    | "(i, path) \<in> set (resolved_late pcwd (drain pcwd root dir xs))"
    by (auto simp: resolved_paths_def)
  then show ?thesis
  proof cases
    case 1
    with inv show ?thesis by (auto simp: drain_inv_def)
  next
    case 2
    then obtain d e where "d \<in> set (dn_deferred (drain pcwd root dir xs))" "fs_of (dr_raw d) = Some e"
      "deferred_path pcwd (dn_cwd (drain pcwd root dir xs)) (dn_lineage (drain pcwd root dir xs)) e d = Some path" "i = fs_ts e"
      by (auto simp: resolved_late_def List.map_filter_def split: option.splits)
    with late_meant [OF inv assms(1)] show ?thesis by blast
  qed
qed

text \<open>The lines of a grandchild of the root read first, then those of its parent, then those of the root.\<close>

definition leaf_up :: reading where
  "leaf_up = [(3, OpOpen ''a''), (2, OpClone 3), (2, OpChdir ''/x''), (1, OpClone 2)]"

lemma leaf_up_once: "pids_once 1 leaf_up"
  by (auto simp: pids_once_def leaf_up_def less_Suc_eq nth_Cons split: nat.splits)

lemma cap_steps: "LINEAGE_CAP = Suc (Suc 99998)"
  by (simp add: LINEAGE_CAP_def)

lemma leaf_up_cwd: "dn_cwd (drain ''/p'' 1 ''/r'' leaf_up) =
   \<lparr>cwdParent = [], pidCwd = [(1, ''/r'')], pidCwdUnknown = {2}, pendingCwdDetach = [], everCwdShared = {},
    firstCwdMutationTs = [(2, 2)], lastCwdMutationTs = [(2, 2)]\<rparr>"
  by code_simp

lemma leaf_up_deferred: "dn_deferred (drain ''/p'' 1 ''/r'' leaf_up) =
   [(new_deferred (ReadEv (open_of 3 0 ''a'')) (Some ([], Install)) False)
      \<lparr>dr_seedParentPid := Some 2, dr_stamped := True\<rparr>]"
  by code_simp

lemma leaf_up_lineage:
  defines "l \<equiv> dn_lineage (drain ''/p'' 1 ''/r'' leaf_up)"
  shows "childParent l 3 = Some 2" "childParent l 2 = Some 1" "childParent l 1 = None"
    "childParentReused l = {}" "childSeedCloneTs l 3 = Some 1" "pidCloneTimeCwd l 2 = Some (Some ''/r'')"
  unfolding l_def by code_simp+

lemma leaf_up_resolved: "(0, ''/r/a'') \<in> set (resolved_paths ''/p'' 1 ''/r'' leaf_up)"
proof -
  let ?s = "drain ''/p'' 1 ''/r'' leaf_up"
  let ?d = "(new_deferred (ReadEv (open_of 3 0 ''a'')) (Some ([], Install)) False)
      \<lparr>dr_seedParentPid := Some 2, dr_stamped := True\<rparr>"
  have "clean_chain bad {} (childParent (dn_lineage ?s)) (Suc 0) 2" if "\<And>a. \<not> bad a" for bad
    unfolding clean_chain_Suc clean_chain_0 by (simp add: leaf_up_lineage that)
  then have "\<not> lineageSharedGroupMutated (dn_cwd ?s) (dn_lineage ?s) 2"
    unfolding lineageSharedGroupMutated_def leaf_up_lineage
    by (subst lineage_walk_iff) (auto simp: leaf_up_cwd LINEAGE_CAP_def intro!: exI [of _ "Suc 0"])
  then have "\<not> deferred_shared (dn_cwd ?s) (dn_lineage ?s) 3 ?d"
    by (simp add: deferred_shared_def reuse_hid_sharing_def leaf_up_lineage new_deferred_def)
  moreover have "deferred_initial (dn_cwd ?s) (dn_lineage ?s) 3 ?d = Some ''/r''"
    unfolding deferred_initial_def cap_steps
    by (simp only: new_deferred_def deferred_rel.simps recover_cwd.simps leaf_up_cwd cwd_state.simps)
      (simp add: leaf_up_lineage)
  moreover have "path_resolve ''/p'' [''/r'', ''a''] = ''/r/a''" by code_simp
  ultimately have "deferred_path ''/p'' (dn_cwd ?s) (dn_lineage ?s) (open_of 3 0 ''a'') ?d = Some ''/r/a''"
    by (simp add: deferred_path_def open_of_def leaf_up_cwd new_deferred_def)
  then have "(0, ''/r/a'') \<in> set (resolved_late ''/p'' ?s)"
    unfolding resolved_late_def leaf_up_deferred
    by (simp add: List.map_filter_def new_deferred_def) (simp add: open_of_def)
  then show ?thesis by (simp add: resolved_paths_def)
qed

theorem reading_order_harmless_witness: "meant ''/p'' leaf_up 1 ''/r'' 0 ''/r/a''"
  by (rule reading_order_harmless [OF leaf_up_once leaf_up_resolved])

end
