(* ===== verification/Snapshots.thy ===== *)
theory Snapshots
  imports Attribution
begin

text \<open>
  What the dispatcher of \<^verbatim>\<open>src/guest/phase-install.ts\<close> remembers about the package of a process: the last
  attribution seen (\<^verbatim>\<open>attributionSnapshotByPid\<close>, with the time of the line and whether the process was
  reaped since), every attribution ever seen, folded to one or to ambiguous (\<^verbatim>\<open>attributionGenByPid\<close>), and
  what the start-up marker of Node said (\<^verbatim>\<open>nodeStartupMarkerByPid\<close>, \<^verbatim>\<open>nodeStartupAttributionByPid\<close>).
\<close>

record snapshot =
  sn_pkg :: string
  sn_lifecycle :: lifecycle_stage
  sn_recordedAtTs :: nat
  sn_stale :: bool

record generation =
  gn_pkg :: string
  gn_lifecycle :: lifecycle_stage
  gn_ambiguous :: bool

record startup_marker =
  sm_ts :: nat
  sm_pathological :: bool

record snap_state =
  attributionSnapshotByPid :: "int \<Rightarrow> snapshot option"
  attributionGenByPid :: "int \<Rightarrow> generation option"
  nodeStartupMarkerByPid :: "int \<Rightarrow> startup_marker option"
  nodeStartupAttributionByPid :: "int \<Rightarrow> attribution_result option"
  pidSawExit :: "int set"
  pidRecycled :: "int set"

definition snap_init :: snap_state where
  "snap_init = \<lparr>attributionSnapshotByPid = Map.empty, attributionGenByPid = Map.empty,
     nodeStartupMarkerByPid = Map.empty, nodeStartupAttributionByPid = Map.empty, pidSawExit = {}, pidRecycled = {}\<rparr>"

definition attribution_of :: "string \<Rightarrow> lifecycle_stage \<Rightarrow> attribution_result" where
  "attribution_of p l = \<lparr>ar_pkg = p, ar_lifecycle = l\<rparr>"

definition unattributed :: attribution_result where
  "unattributed = \<lparr>ar_pkg = ''<unattributed>'', ar_lifecycle = Install\<rparr>"

section \<open>Recording\<close>

definition newer_snapshot :: "attribution_result \<Rightarrow> nat \<Rightarrow> snapshot option \<Rightarrow> snapshot option" where
  "newer_snapshot attr ts existing =
     (let fresh = \<lparr>sn_pkg = ar_pkg attr, sn_lifecycle = ar_lifecycle attr, sn_recordedAtTs = ts, sn_stale = False\<rparr>
      in case existing of
           None \<Rightarrow> Some fresh
         | Some e \<Rightarrow> if sn_recordedAtTs e \<le> ts then Some fresh else Some e)"

definition fold_generation :: "attribution_result \<Rightarrow> generation option \<Rightarrow> generation option" where
  "fold_generation attr gen =
     (case gen of
        None \<Rightarrow> Some \<lparr>gn_pkg = ar_pkg attr, gn_lifecycle = ar_lifecycle attr, gn_ambiguous = False\<rparr>
      | Some g \<Rightarrow>
          if \<not> gn_ambiguous g \<and> (gn_pkg g \<noteq> ar_pkg attr \<or> gn_lifecycle g \<noteq> ar_lifecycle attr)
          then Some (g\<lparr>gn_ambiguous := True\<rparr>) else Some g)"

definition recordAttribution :: "int \<Rightarrow> attribution_result \<Rightarrow> nat \<Rightarrow> snap_state \<Rightarrow> snap_state" where
  "recordAttribution pid attr ts s =
     s\<lparr>attributionSnapshotByPid := (attributionSnapshotByPid s)
         (pid := newer_snapshot attr ts (attributionSnapshotByPid s pid)),
       attributionGenByPid := (attributionGenByPid s)(pid := fold_generation attr (attributionGenByPid s pid))\<rparr>"

text \<open>The exit line of a process whose \<^verbatim>\<open>/proc\<close> entry is gone.\<close>

definition markStale :: "int \<Rightarrow> snap_state \<Rightarrow> snap_state" where
  "markStale pid s =
     s\<lparr>attributionSnapshotByPid := (attributionSnapshotByPid s)
         (pid := map_option (\<lambda>e. e\<lparr>sn_stale := True\<rparr>) (attributionSnapshotByPid s pid))\<rparr>"

definition record_marker :: "int \<Rightarrow> nat \<Rightarrow> attribution_result option \<times> bool \<Rightarrow> snap_state \<Rightarrow> snap_state" where
  "record_marker pid ts cls s =
     s\<lparr>nodeStartupMarkerByPid := (nodeStartupMarkerByPid s)(pid \<mapsto> \<lparr>sm_ts = ts, sm_pathological = snd cls\<rparr>),
       nodeStartupAttributionByPid := (nodeStartupAttributionByPid s)(pid := fst cls)\<rparr>"

section \<open>Looking up\<close>

definition supersededByDifferentGenerationMarker :: "int \<Rightarrow> snapshot \<Rightarrow> snap_state \<Rightarrow> bool" where
  "supersededByDifferentGenerationMarker pid snap s =
     (case nodeStartupMarkerByPid s pid of
        None \<Rightarrow> False
      | Some marker \<Rightarrow>
          if sm_ts marker \<le> sn_recordedAtTs snap then False
          else (case nodeStartupAttributionByPid s pid of
                  Some attrib \<Rightarrow> ar_pkg attrib \<noteq> sn_pkg snap \<or> ar_lifecycle attrib \<noteq> sn_lifecycle snap
                | None \<Rightarrow> sm_pathological marker))"

definition snapshotAttribution :: "int \<Rightarrow> snap_state \<Rightarrow> attribution_result option" where
  "snapshotAttribution pid s =
     (case attributionSnapshotByPid s pid of
        None \<Rightarrow> None
      | Some snap \<Rightarrow>
          if supersededByDifferentGenerationMarker pid snap s then None
          else Some (attribution_of (sn_pkg snap) (sn_lifecycle snap)))"

definition freshSnapshotAttribution :: "int \<Rightarrow> snap_state \<Rightarrow> attribution_result option" where
  "freshSnapshotAttribution pid s =
     (case attributionSnapshotByPid s pid of
        None \<Rightarrow> None
      | Some snap \<Rightarrow>
          if sn_stale snap then None
          else if supersededByDifferentGenerationMarker pid snap s then None
          else Some (attribution_of (sn_pkg snap) (sn_lifecycle snap)))"

definition or_else :: "'a option \<Rightarrow> 'a option \<Rightarrow> 'a option" where
  "or_else a b = (case a of None \<Rightarrow> b | Some _ \<Rightarrow> a)"

text \<open>The chain for an event of the preload.\<close>

definition shim_attribution ::
  "attribution_result option \<Rightarrow> attribution_result option \<Rightarrow> int \<Rightarrow> snap_state \<Rightarrow> attribution_result option" where
  "shim_attribution shimAttrib result pid s =
     or_else shimAttrib (or_else result (or_else (freshSnapshotAttribution pid s)
       (or_else (nodeStartupAttributionByPid s pid) (snapshotAttribution pid s))))"

text \<open>The fallback of the samples of an event of strace: a stale snapshot does not count, no marker is asked.\<close>

definition sample_attribution :: "attribution_result option \<Rightarrow> int \<Rightarrow> snap_state \<Rightarrow> attribution_result" where
  "sample_attribution result pid s =
     (case result of
        Some r \<Rightarrow> r
      | None \<Rightarrow>
          (case attributionSnapshotByPid s pid of
             Some snap \<Rightarrow>
               if sn_stale snap then unattributed else attribution_of (sn_pkg snap) (sn_lifecycle snap)
           | None \<Rightarrow> unattributed))"

definition resolveDeferredAttribution :: "int set \<Rightarrow> int \<Rightarrow> snap_state \<Rightarrow> attribution_result option" where
  "resolveDeferredAttribution childParentReused pid s =
     (case attributionGenByPid s pid of
        None \<Rightarrow> None
      | Some gen \<Rightarrow>
          if gn_ambiguous gen \<or> pid \<in> pidRecycled s \<or> pid \<in> childParentReused then Some unattributed
          else Some (attribution_of (gn_pkg gen) (gn_lifecycle gen)))"

text \<open>The exit line itself, and a successful execution by a process whose exit line was read before it.\<close>

definition saw_exit :: "int \<Rightarrow> snap_state \<Rightarrow> snap_state" where
  "saw_exit pid s = s\<lparr>pidSawExit := insert pid (pidSawExit s)\<rparr>"

definition saw_exec :: "int \<Rightarrow> snap_state \<Rightarrow> snap_state" where
  "saw_exec pid s = (if pid \<in> pidSawExit s then s\<lparr>pidRecycled := insert pid (pidRecycled s)\<rparr> else s)"

section \<open>Deferred attribution does not depend on the order of the lines\<close>

text \<open>Everything the dispatcher does to this state.\<close>

datatype snap_op =
    Attributed int attribution_result nat
  | Stale int
  | Marker int nat "attribution_result option \<times> bool"
  | SawExit int
  | SawExec int

fun snap_do :: "snap_op \<Rightarrow> snap_state \<Rightarrow> snap_state" where
  "snap_do (Attributed pid attr ts) s = recordAttribution pid attr ts s"
| "snap_do (Stale pid) s = markStale pid s"
| "snap_do (Marker pid ts cls) s = record_marker pid ts cls s"
| "snap_do (SawExit pid) s = saw_exit pid s"
| "snap_do (SawExec pid) s = saw_exec pid s"

definition snap_run :: "snap_op list \<Rightarrow> snap_state \<Rightarrow> snap_state" where
  "snap_run = fold snap_do"

lemma snap_run_simps [simp]:
  "snap_run [] s = s" "snap_run (x # xs) s = snap_run xs (snap_do x s)"
  "snap_run (xs @ ys) s = snap_run ys (snap_run xs s)"
  by (simp_all add: snap_run_def)

text \<open>The attributions recorded for a process by a run.\<close>

definition recorded_for :: "int \<Rightarrow> snap_op list \<Rightarrow> attribution_result set" where
  "recorded_for pid xs = {attr. \<exists>ts. Attributed pid attr ts \<in> set xs}"

definition gen_of :: "attribution_result set \<Rightarrow> generation option \<Rightarrow> bool" where
  "gen_of A g \<longleftrightarrow>
     (case g of
        None \<Rightarrow> A = {}
      | Some x \<Rightarrow> attribution_of (gn_pkg x) (gn_lifecycle x) \<in> A \<and>
          (gn_ambiguous x \<longleftrightarrow> (\<exists>a\<in>A. a \<noteq> attribution_of (gn_pkg x) (gn_lifecycle x))))"

lemma attribution_of_eq [simp]:
  "attribution_of (ar_pkg a) (ar_lifecycle a) = a"
  "a = attribution_of p l \<longleftrightarrow> ar_pkg a = p \<and> ar_lifecycle a = l"
  "attribution_of p l = a \<longleftrightarrow> ar_pkg a = p \<and> ar_lifecycle a = l"
  by (cases a; auto simp: attribution_of_def)+

lemma gen_of_fold: "gen_of A g \<Longrightarrow> gen_of (insert a A) (fold_generation a g)"
  by (cases g) (auto simp: gen_of_def fold_generation_def)

lemma recorded_for_single [simp]:
  "recorded_for pid [Attributed p a ts] = (if p = pid then {a} else {})"
  "recorded_for pid [Stale p] = {}" "recorded_for pid [Marker p ts c] = {}"
  "recorded_for pid [SawExit p] = {}" "recorded_for pid [SawExec p] = {}"
  by (auto simp: recorded_for_def)

lemmas snap_do_defs = recordAttribution_def markStale_def record_marker_def saw_exit_def saw_exec_def

lemma gen_of_do:
  assumes "gen_of A (attributionGenByPid s pid)"
  shows "gen_of (A \<union> recorded_for pid [x]) (attributionGenByPid (snap_do x s) pid)"
  using assms by (cases x) (auto simp: snap_do_defs gen_of_fold)

lemma recorded_for_Cons: "recorded_for pid (x # xs) = recorded_for pid [x] \<union> recorded_for pid xs"
  by (auto simp: recorded_for_def)

lemma gen_of_run:
  "gen_of A (attributionGenByPid s pid) \<Longrightarrow>
   gen_of (A \<union> recorded_for pid xs) (attributionGenByPid (snap_run xs s) pid)"
proof (induction xs arbitrary: A s)
  case Nil
  then show ?case by (simp add: recorded_for_def)
next
  case (Cons x xs)
  from Cons.IH [OF gen_of_do [OF Cons.prems]] show ?case
    by (simp add: recorded_for_Cons [of pid x xs] Un_assoc)
qed

text \<open>C20: whatever the order in which the lines of the processes are read, an event whose attribution was put off
  is resolved from the set of attributions its process was ever given: none, no event; one, that one,
  unless the pid is known to have been reused; several, the package \<^verbatim>\<open><unattributed>\<close>, never one of them.\<close>

theorem deferred_attribution_exact:
  "resolveDeferredAttribution reused pid (snap_run xs snap_init) =
     (if recorded_for pid xs = {} then None
      else if is_singleton (recorded_for pid xs) \<and> pid \<notin> pidRecycled (snap_run xs snap_init) \<and> pid \<notin> reused
           then Some (the_elem (recorded_for pid xs))
      else Some unattributed)"
proof -
  have g: "gen_of (recorded_for pid xs) (attributionGenByPid (snap_run xs snap_init) pid)"
    using gen_of_run [of "{}" snap_init pid xs] by (simp add: gen_of_def snap_init_def)
  show ?thesis
  proof (cases "attributionGenByPid (snap_run xs snap_init) pid")
    case None
    with g show ?thesis by (simp add: gen_of_def resolveDeferredAttribution_def)
  next
    case (Some x)
    let ?a = "attribution_of (gn_pkg x) (gn_lifecycle x)"
    have a: "?a \<in> recorded_for pid xs" "gn_ambiguous x \<longleftrightarrow> (\<exists>b\<in>recorded_for pid xs. b \<noteq> ?a)"
      using g Some unfolding gen_of_def by simp_all
    then have "\<not> gn_ambiguous x \<longleftrightarrow> recorded_for pid xs = {?a}" by (auto simp del: attribution_of_eq(2,3))
    moreover have "is_singleton (recorded_for pid xs) \<longleftrightarrow> recorded_for pid xs = {?a}"
      using a(1) by (metis is_singletonE is_singletonI singletonD)
    ultimately show ?thesis
      using Some a(1) by (auto simp: resolveDeferredAttribution_def simp del: attribution_of_eq(2,3))
  qed
qed

lemma pidRecycled_run:
  "pid \<in> pidRecycled (snap_run xs snap_init) \<longleftrightarrow>
   (\<exists>as bs cs. xs = as @ SawExit pid # bs @ SawExec pid # cs)"
proof -
  have step: "pid \<in> pidSawExit (snap_run xs snap_init) \<longleftrightarrow> SawExit pid \<in> set xs" for xs
  proof (induction xs rule: rev_induct)
    case Nil
    show ?case by (simp add: snap_init_def)
  next
    case (snoc x xs)
    then show ?case
      by (cases x) (auto simp: snap_do_defs)
  qed
  show ?thesis
  proof (induction xs rule: rev_induct)
    case Nil
    show ?case by (simp add: snap_init_def)
  next
    case (snoc x xs)
    have split: "(\<exists>as bs cs. xs @ [x] = as @ SawExit pid # bs @ SawExec pid # cs) \<longleftrightarrow>
        (\<exists>as bs cs. xs = as @ SawExit pid # bs @ SawExec pid # cs) \<or> (x = SawExec pid \<and> SawExit pid \<in> set xs)"
      (is "?l \<longleftrightarrow> ?r")
    proof
      assume ?l
      then obtain as bs cs where e: "xs @ [x] = as @ SawExit pid # bs @ SawExec pid # cs" by blast
      show ?r
      proof (cases cs rule: rev_cases)
        case Nil
        with e have "xs = as @ SawExit pid # bs \<and> x = SawExec pid"
          by (metis append.assoc append_Cons append1_eq_conv)
        then show ?thesis by auto
      next
        case (snoc cs' c)
        with e have "xs = as @ SawExit pid # bs @ SawExec pid # cs'"
          by (metis append.assoc append_Cons append1_eq_conv)
        then show ?thesis by blast
      qed
    next
      assume ?r
      then show ?l by (auto simp: in_set_conv_decomp) (metis append.assoc append_Cons append_Nil)+
    qed
    show ?case unfolding split
      using snoc step [of xs]
      by (cases x) (auto simp: snap_do_defs)
  qed
qed

section \<open>A forged marker attributes nothing\<close>

fun touches :: "int \<Rightarrow> snap_op \<Rightarrow> bool" where
  "touches pid (Attributed p _ _) = (p = pid)"
| "touches pid (Marker p _ _) = (p = pid)"
| "touches pid _ = False"

text \<open>The package side of what a lookup sees; only the stale flag may change behind it.\<close>

definition snap_view :: "int \<Rightarrow> snap_state \<Rightarrow> (string \<times> lifecycle_stage \<times> nat) option \<times> startup_marker option \<times> attribution_result option" where
  "snap_view pid s = (map_option (\<lambda>e. (sn_pkg e, sn_lifecycle e, sn_recordedAtTs e)) (attributionSnapshotByPid s pid),
     nodeStartupMarkerByPid s pid, nodeStartupAttributionByPid s pid)"

lemma untouched_view: "\<forall>x\<in>set xs. \<not> touches pid x \<Longrightarrow> snap_view pid (snap_run xs s) = snap_view pid s"
proof (induction xs arbitrary: s)
  case (Cons x xs)
  have "snap_view pid (snap_do x s) = snap_view pid s"
    using Cons.prems
    by (cases x) (auto simp: snap_do_defs snap_view_def option.map_comp comp_def)
  with Cons show ?case by simp
qed simp

lemma recorded_before:
  assumes "\<forall>a t. Attributed pid a t \<in> set xs \<longrightarrow> t < ts" "attributionSnapshotByPid s pid = None"
  shows "\<forall>e. attributionSnapshotByPid (snap_run xs s) pid = Some e \<longrightarrow> sn_recordedAtTs e < ts"
  using assms
proof (induction xs rule: rev_induct)
  case (snoc x xs)
  then show ?case
    by (cases x) (auto simp: snap_do_defs newer_snapshot_def Let_def split: option.splits if_splits)
qed simp

text \<open>C21: when the start-up marker of a process carries a name or version no package can have, no attribution
  recorded for that pid before the marker reaches an event of the preload afterwards, whatever else
  happens to other processes; the event falls through to what the caller knows by itself, or to nothing.\<close>

theorem forged_marker_fails_closed:
  assumes "\<forall>a t. Attributed pid a t \<in> set before \<longrightarrow> t < ts" "\<forall>x\<in>set after. \<not> touches pid x"
  shows "shim_attribution shimAttrib result pid (snap_run (before @ Marker pid ts (None, True) # after) snap_init)
    = or_else shimAttrib result"
proof -
  let ?s = "snap_run before snap_init"
  have old: "\<forall>e. attributionSnapshotByPid ?s pid = Some e \<longrightarrow> sn_recordedAtTs e < ts"
    by (rule recorded_before [OF assms(1)]) (simp add: snap_init_def)
  have view: "snap_view pid (snap_run (before @ Marker pid ts (None, True) # after) snap_init) =
      snap_view pid (record_marker pid ts (None, True) ?s)"
    using untouched_view [OF assms(2)] by simp
  show ?thesis
    using view old
    by (cases "attributionSnapshotByPid ?s pid")
      (auto simp: shim_attribution_def freshSnapshotAttribution_def snapshotAttribution_def snap_view_def
        supersededByDifferentGenerationMarker_def record_marker_def or_else_def split: option.splits)
qed

theorem forged_marker_fails_closed_witness:
  "shim_attribution None None 7 (snap_run [Attributed 7 (attribution_of ''dep@1'' Install) 3, Marker 7 5 (None, True), Stale 7]
     snap_init) = None"
  using forged_marker_fails_closed [of 7 "[Attributed 7 (attribution_of ''dep@1'' Install) 3]" 5 "[Stale 7]" None None]
  by (simp add: or_else_def)

end
