(* ===== verification/ExecAudit.thy ===== *)
theory ExecAudit
  imports Snapshots ProcTrace
begin

text \<open>
  The cross-checks of \<^verbatim>\<open>src/guest/phase-install.ts\<close>: executions the kernel saw against those the preload
  announced, writes to the events file by processes that never loaded the preload, and opens whose
  path could not be resolved. Each finds its way into the lock as an \<^verbatim>\<open>exec\<close> event made up at the end.
\<close>

section \<open>Samples\<close>

record exec_sample =
  xs_argv0 :: string
  xs_prog :: string
  xs_pid :: int
  xs_ts :: nat
  xs_attr :: attribution_result

record forgery_sample =
  fg_pid :: int
  fg_ts :: nat
  fg_path :: string
  fg_attr :: attribution_result

record unresolved_sample =
  un_pid :: int
  un_ts :: nat
  un_path :: string
  un_kind :: string
  un_attr :: attribution_result

record audit_state =
  straceExecsByPid :: "(int, exec_sample list) js_map"
  shimExecCountByPid :: "(int, int) js_map"
  forgerySamples :: "forgery_sample list"
  unresolvedPathSamples :: "unresolved_sample list"
  shimLoadedPids :: "int set"

definition audit_init :: audit_state where
  "audit_init = \<lparr>straceExecsByPid = [], shimExecCountByPid = [], forgerySamples = [],
     unresolvedPathSamples = [], shimLoadedPids = {}\<rparr>"

section \<open>Counting executions\<close>

text \<open>\<^verbatim>\<open>map.get(pid) ?? d\<close>\<close>

definition get_or :: "'v \<Rightarrow> ('k, 'v) js_map \<Rightarrow> 'k \<Rightarrow> 'v" where
  "get_or d m k = (case map_of m k of None \<Rightarrow> d | Some v \<Rightarrow> v)"

definition count_shim_exec :: "int \<Rightarrow> exec_result \<Rightarrow> audit_state \<Rightarrow> audit_state" where
  "count_shim_exec pid res s =
     (let current = get_or 0 (shimExecCountByPid s) pid;
          next = (if res = ExecFailed then (if current > 0 then current - 1 else 0) else current + 1)
      in s\<lparr>shimExecCountByPid := map_set pid next (shimExecCountByPid s)\<rparr>)"

definition sample_exec_ok :: "attribution_result \<Rightarrow> spawn_event \<Rightarrow> audit_state \<Rightarrow> audit_state" where
  "sample_exec_ok attr e s =
     (let argv0 = (case sp_argv e of [] \<Rightarrow> [] | a # _ \<Rightarrow> a);
          samples = get_or [] (straceExecsByPid s) (sp_pid e) @
            [\<lparr>xs_argv0 = argv0, xs_prog = argv0, xs_pid = sp_pid e, xs_ts = sp_ts e, xs_attr = attr\<rparr>]
      in s\<lparr>straceExecsByPid := map_set (sp_pid e) samples (straceExecsByPid s)\<rparr>)"

section \<open>The events file\<close>

text \<open>\<^verbatim>\<open>path.basename\<close>: trailing slashes do not count.\<close>

definition path_basename :: "string \<Rightarrow> string" where
  "path_basename p = basename (rev (dropWhile (\<lambda>c. c = CHR ''/'') (rev p)))"

record events_file =
  ef_canonical :: "string option"
  ef_resolved :: "string option"

text \<open>\<^verbatim>\<open>fs.realpathSync\<close> is a parameter, \<open>None\<close> where it throws.\<close>

definition events_file_of :: "(string \<Rightarrow> string option) \<Rightarrow> string \<Rightarrow> string option \<Rightarrow> events_file" where
  "events_file_of realpath pcwd raw =
     (case raw of
        Some (c # cs) \<Rightarrow>
          \<lparr>ef_canonical = Some (case realpath (c # cs) of Some p \<Rightarrow> p | None \<Rightarrow> path_resolve pcwd [c # cs]),
           ef_resolved = Some (path_resolve pcwd [c # cs])\<rparr>
      | _ \<Rightarrow> \<lparr>ef_canonical = None, ef_resolved = None\<rparr>)"

definition SHIM_LIBRARY_PATH :: string where
  "SHIM_LIBRARY_PATH = ''/lib/libscriptjail.so''"

definition note_shim_load :: "raw_event \<Rightarrow> audit_state \<Rightarrow> audit_state" where
  "note_shim_load r s =
     (case r of
        ReadEv e \<Rightarrow>
          if fs_path e = SHIM_LIBRARY_PATH then s\<lparr>shimLoadedPids := insert (fs_pid e) (shimLoadedPids s)\<rparr> else s
      | _ \<Rightarrow> s)"

text \<open>A write to the events file, under any name for it, by a process that has not mapped the preload.
  The target of the open comes with the event.\<close>

definition forgery_target :: "events_file \<Rightarrow> string option \<Rightarrow> string \<Rightarrow> string option" where
  "forgery_target ef canonicalTarget rawPath =
     (case ef_canonical ef of
        None \<Rightarrow> None
      | Some events \<Rightarrow>
          if canonicalTarget = Some events \<or> path_basename rawPath = path_basename events
          then Some (case canonicalTarget of Some t \<Rightarrow> t | None \<Rightarrow> events) else None)"

definition note_forgery ::
  "events_file \<Rightarrow> string option \<Rightarrow> attribution_result \<Rightarrow> raw_event \<Rightarrow> audit_state \<Rightarrow> audit_state" where
  "note_forgery ef canonicalTarget attr r s =
     (case r of
        WriteEv e \<Rightarrow>
          if fs_pid e \<in> shimLoadedPids s then s
          else (case forgery_target ef canonicalTarget (fs_path e) of
                  None \<Rightarrow> s
                | Some p \<Rightarrow> s\<lparr>forgerySamples := forgerySamples s @
                    [\<lparr>fg_pid = fs_pid e, fg_ts = fs_ts e, fg_path = p, fg_attr = attr\<rparr>]\<rparr>)
      | _ \<Rightarrow> s)"

definition note_unresolved :: "attribution_result \<Rightarrow> raw_event \<Rightarrow> audit_state \<Rightarrow> audit_state" where
  "note_unresolved attr r s =
     (case fs_of r of
        None \<Rightarrow> s
      | Some e \<Rightarrow> s\<lparr>unresolvedPathSamples := unresolvedPathSamples s @
          [\<lparr>un_pid = fs_pid e, un_ts = fs_ts e, un_path = fs_path e,
            un_kind = (if is_read r then ''read'' else ''write''), un_attr = attr\<rparr>]\<rparr>)"

section \<open>The events made up at the end\<close>

definition synthetic :: "string \<Rightarrow> string option \<Rightarrow> bool \<Rightarrow> bool \<Rightarrow> bool \<Rightarrow> int \<Rightarrow> nat \<Rightarrow> attribution_result \<Rightarrow> attributed_event" where
  "synthetic prog argv0 bypass forgery unresolved pid ts attr =
     \<lparr>ev_raw = ExecEv \<lparr>ex_prog = prog, ex_argv0 = argv0, ex_envp_alloc_failed = False, ex_syscall_bypass = bypass,
        ex_events_file_forgery = forgery, ex_unresolved_path = unresolved, ex_result = ExecOk, ex_pid = pid,
        ex_ts = ts, ex_audit_blind = None, ex_argv = None, ex_exec_errno = None\<rparr>,
      ev_pkg = ar_pkg attr, ev_lifecycle = ar_lifecycle attr\<rparr>"

definition bypass_event :: "exec_sample \<Rightarrow> attributed_event" where
  "bypass_event x = synthetic (xs_prog x) (if xs_argv0 x = [] then None else Some (xs_argv0 x)) True False False
     (xs_pid x) (xs_ts x) (xs_attr x)"

definition bypass_tail :: "audit_state \<Rightarrow> int \<times> exec_sample list \<Rightarrow> exec_sample list" where
  "bypass_tail s p =
     (case p of (pid, samples) \<Rightarrow>
        let straceCount = int (length samples); shimNet = get_or 0 (shimExecCountByPid s) pid;
            shimCount = (if shimNet < 0 then 0 else shimNet)
        in if straceCount \<le> shimCount then []
           else drop (nat (straceCount - (straceCount - shimCount))) samples)"

definition synth_bypass :: "audit_state \<Rightarrow> attributed_event list" where
  "synth_bypass s = map bypass_event (concat (map (bypass_tail s) (straceExecsByPid s)))"

definition synth_forgery :: "audit_state \<Rightarrow> attributed_event list" where
  "synth_forgery s =
     map (\<lambda>x. synthetic (fg_path x) (Some (fg_path x)) False True False (fg_pid x) (fg_ts x) (fg_attr x)) (forgerySamples s)"

definition synth_unresolved :: "audit_state \<Rightarrow> attributed_event list" where
  "synth_unresolved s =
     map (\<lambda>x. let ident = un_kind x @ '':'' @ un_path x
              in synthetic ident (Some ident) False False True (un_pid x) (un_ts x) (un_attr x)) (unresolvedPathSamples s)"

section \<open>Runs of the counters\<close>

datatype audit_op =
    ShimExec int exec_result
  | StraceExec attribution_result spawn_event

fun audit_do :: "audit_op \<Rightarrow> audit_state \<Rightarrow> audit_state" where
  "audit_do (ShimExec pid res) s = count_shim_exec pid res s"
| "audit_do (StraceExec attr e) s = sample_exec_ok attr e s"

definition audit_run :: "audit_op list \<Rightarrow> audit_state \<Rightarrow> audit_state" where
  "audit_run = fold audit_do"

text \<open>The specification: what the preload announced for a process, in the order of the lines, and the
  executions the kernel saw.\<close>

fun shim_results :: "int \<Rightarrow> audit_op list \<Rightarrow> exec_result list" where
  "shim_results pid [] = []"
| "shim_results pid (ShimExec p res # xs) = (if p = pid then res # shim_results pid xs else shim_results pid xs)"
| "shim_results pid (StraceExec _ _ # xs) = shim_results pid xs"

fun strace_execs :: "int \<Rightarrow> audit_op list \<Rightarrow> spawn_event list" where
  "strace_execs pid [] = []"
| "strace_execs pid (StraceExec _ e # xs) = (if sp_pid e = pid then e # strace_execs pid xs else strace_execs pid xs)"
| "strace_execs pid (ShimExec _ _ # xs) = strace_execs pid xs"

definition net_execs :: "exec_result list \<Rightarrow> nat" where
  "net_execs = foldl (\<lambda>n res. if res = ExecFailed then n - 1 else n + 1) 0"

lemma net_execs_snoc [simp]:
  "net_execs [] = 0"
  "net_execs (rs @ [r]) = (if r = ExecFailed then net_execs rs - 1 else net_execs rs + 1)"
  by (simp_all add: net_execs_def)

lemma results_snoc [simp]:
  "shim_results pid (xs @ ys) = shim_results pid xs @ shim_results pid ys"
  "strace_execs pid (xs @ ys) = strace_execs pid xs @ strace_execs pid ys"
  by (induction xs rule: shim_results.induct) auto

lemma audit_run_snoc [simp]:
  "audit_run [] s = s" "audit_run (xs @ [x]) s = audit_do x (audit_run xs s)"
  by (simp_all add: audit_run_def)

lemma get_or_set [simp]: "get_or d (map_set k v m) k' = (if k' = k then v else get_or d m k')"
  by (simp add: get_or_def jm.get_put)

lemma count_run: "get_or 0 (shimExecCountByPid (audit_run xs audit_init)) pid = int (net_execs (shim_results pid xs))"
proof (induction xs rule: rev_induct)
  case Nil
  show ?case by (simp add: audit_init_def get_or_def)
next
  case (snoc x xs)
  then show ?case
    by (cases x) (auto simp: count_shim_exec_def sample_exec_ok_def Let_def)
qed

text \<open>The samples of a process are its executions, in order.\<close>

definition sample_of :: "exec_sample \<Rightarrow> spawn_event \<Rightarrow> bool" where
  "sample_of x e \<longleftrightarrow> xs_pid x = sp_pid e \<and> xs_ts x = sp_ts e \<and>
     xs_argv0 x = (case sp_argv e of [] \<Rightarrow> [] | a # _ \<Rightarrow> a) \<and> xs_prog x = xs_argv0 x"

lemma samples_run:
  "list_all2 sample_of (get_or [] (straceExecsByPid (audit_run xs audit_init)) pid) (strace_execs pid xs)"
proof (induction xs rule: rev_induct)
  case Nil
  show ?case by (simp add: audit_init_def get_or_def)
next
  case (snoc x xs)
  then show ?case
    by (cases x) (auto simp: count_shim_exec_def sample_exec_ok_def Let_def sample_of_def intro: list_all2_appendI)
qed

lemma samples_wf: "map_wf (straceExecsByPid (audit_run xs audit_init))"
proof (induction xs rule: rev_induct)
  case Nil
  show ?case by (simp add: audit_init_def jm.wf_empty)
next
  case (snoc x xs)
  then show ?case
    by (cases x) (auto simp: count_shim_exec_def sample_exec_ok_def Let_def jm.wf_put)
qed

section \<open>Every execution the preload missed leaves an event\<close>

definition bypasses_of :: "int \<Rightarrow> attributed_event list \<Rightarrow> exec_event list" where
  "bypasses_of pid evs = List.map_filter (\<lambda>ev. case ev_raw ev of
     ExecEv e \<Rightarrow> if ex_pid e = pid then Some e else None | _ \<Rightarrow> None) evs"

lemma bypasses_of_simps [simp]:
  "bypasses_of pid [] = []"
  "bypasses_of pid (xs @ ys) = bypasses_of pid xs @ bypasses_of pid ys"
  "bypasses_of pid (bypass_event x # evs) =
     (if xs_pid x = pid then [case ev_raw (bypass_event x) of ExecEv e \<Rightarrow> e] else []) @ bypasses_of pid evs"
  by (simp_all add: bypasses_of_def List.map_filter_def bypass_event_def synthetic_def)

lemma bypasses_none: "\<forall>x\<in>set xs. xs_pid x \<noteq> pid \<Longrightarrow> bypasses_of pid (map bypass_event xs) = []"
  by (induction xs) auto

lemma bypasses_all: "\<forall>x\<in>set xs. xs_pid x = pid \<Longrightarrow> length (bypasses_of pid (map bypass_event xs)) = length xs"
  by (induction xs) auto

lemma tail_drop: "bypass_tail s (pid, samples) =
    drop (nat (max 0 (get_or 0 (shimExecCountByPid s) pid))) samples"
  by (auto simp: bypass_tail_def Let_def max_def)

lemma bypasses_of_map:
  assumes "map_wf m" "\<And>p x. x \<in> set (get_or [] m p) \<Longrightarrow> xs_pid x = p"
  shows "length (bypasses_of pid (map bypass_event (concat (map (bypass_tail s) m)))) =
     length (bypass_tail s (pid, get_or [] m pid))"
  using assms
proof (induction m)
  case Nil
  show ?case by (simp add: get_or_def tail_drop)
next
  case (Cons q m)
  obtain p samples where q: "q = (p, samples)" by (cases q)
  have wf: "map_wf m" "map_of m p = None"
    using Cons.prems(1) by (auto simp: map_wf_def q map_of_eq_None_iff)
  have pid: "xs_pid x = p" if "x \<in> set samples" for x
    using Cons.prems(2) [of x p] that by (simp add: get_or_def q)
  have rest: "xs_pid x = p'" if "x \<in> set (get_or [] m p')" for x p'
    using Cons.prems(2) [of x p'] that wf(2) by (cases "p' = p") (auto simp: get_or_def q)
  note ih = Cons.IH [OF wf(1) rest]
  show ?case
  proof (cases "p = pid")
    case True
    have "get_or [] m pid = []" using wf(2) True by (simp add: get_or_def)
    then show ?thesis using ih pid True
      by (simp add: q get_or_def tail_drop bypasses_all in_set_dropD)
  next
    case False
    have "bypasses_of pid (map bypass_event (bypass_tail s (p, samples))) = []"
      by (rule bypasses_none) (use pid False in \<open>auto simp: tail_drop dest: in_set_dropD\<close>)
    then show ?thesis using ih False by (simp add: q get_or_def)
  qed
qed

lemma strace_execs_pid: "e \<in> set (strace_execs pid xs) \<Longrightarrow> sp_pid e = pid"
  by (induction pid xs rule: strace_execs.induct) (auto split: if_splits)

lemma bypass_count:
  "length (bypasses_of pid (synth_bypass (audit_run xs audit_init))) =
     length (strace_execs pid xs) - net_execs (shim_results pid xs)"
proof -
  let ?s = "audit_run xs audit_init"
  have own: "xs_pid x = p" if "x \<in> set (get_or [] (straceExecsByPid ?s) p)" for x p
  proof -
    let ?l = "get_or [] (straceExecsByPid ?s) p"
    note all = samples_run [of xs p, unfolded list_all2_conv_all_nth]
    from that obtain i where i: "i < length ?l" "?l ! i = x" unfolding in_set_conv_nth by blast
    then have "sample_of x (strace_execs p xs ! i)" "strace_execs p xs ! i \<in> set (strace_execs p xs)"
      using all by (blast, simp)
    then show ?thesis using strace_execs_pid by (simp add: sample_of_def)
  qed
  have "length (get_or [] (straceExecsByPid ?s) pid) = length (strace_execs pid xs)"
    using samples_run by (rule list_all2_lengthD)
  moreover have "length (bypasses_of pid (synth_bypass ?s)) =
      length (bypass_tail ?s (pid, get_or [] (straceExecsByPid ?s) pid))"
    unfolding synth_bypass_def by (rule bypasses_of_map [OF samples_wf]) (rule own)
  ultimately show ?thesis by (simp add: tail_drop count_run)
qed

text \<open>C18: after any interleaving of the two channels, the number of bypass events made up for a process is the
  number of its executions the kernel saw beyond those the preload has announced.\<close>

theorem bypass_count_exact:
  "length (bypasses_of pid (synth_bypass (audit_run xs audit_init))) =
     length (strace_execs pid xs) - net_execs (shim_results pid xs)"
  by (rule bypass_count)

section \<open>What failed attempts can and cannot do\<close>

definition oks :: "exec_result list \<Rightarrow> nat" where
  "oks rs = length (filter (\<lambda>r. r = ExecOk) rs)"

definition fails :: "exec_result list \<Rightarrow> nat" where
  "fails rs = length (filter (\<lambda>r. r = ExecFailed) rs)"

lemma net_bounds: "net_execs rs \<le> oks rs \<and> oks rs \<le> net_execs rs + fails rs"
proof (induction rs rule: rev_induct)
  case (snoc r rs)
  then show ?case by (cases r) (auto simp: oks_def fails_def)
qed (simp add: oks_def fails_def)

text \<open>C19: failed attempts through the C library can hide nothing and invent at most one event each: a process
  leaves at least as many bypass events as the kernel saw executions beyond the successful ones the preload
  announced, and at most one more for each failed one.\<close>

theorem bypass_count_bounds:
  "length (strace_execs pid xs) - oks (shim_results pid xs)
     \<le> length (bypasses_of pid (synth_bypass (audit_run xs audit_init))) \<and>
   length (bypasses_of pid (synth_bypass (audit_run xs audit_init)))
     \<le> length (strace_execs pid xs) - (oks (shim_results pid xs) - fails (shim_results pid xs))"
  using net_bounds [of "shim_results pid xs"] unfolding bypass_count by auto

text \<open>An attempt announced before the call and taken back after it cancels out.\<close>

lemma net_cancels: "net_execs (rs @ [ExecOk, ExecFailed]) = net_execs rs"
  using net_execs_snoc(2) [of "rs @ [ExecOk]" ExecFailed] by simp

text \<open>But a failure that was never announced, as a failing \<^verbatim>\<open>posix_spawn\<close> sends it, takes back an earlier
  success: a process that was started through the preload and then fails to start one more program leaves
  a bypass event although the kernel saw no execution the preload had not announced.\<close>

definition started_then_failed :: "spawn_event \<Rightarrow> audit_op list" where
  "started_then_failed e = [ShimExec (sp_pid e) ExecOk, StraceExec unattributed e, ShimExec (sp_pid e) ExecFailed]"

theorem failed_spawn_invents_bypass:
  "length (strace_execs (sp_pid e) (started_then_failed e)) = 1 \<and>
   oks (shim_results (sp_pid e) (started_then_failed e)) = 1 \<and>
   length (bypasses_of (sp_pid e) (synth_bypass (audit_run (started_then_failed e) audit_init))) = 1"
  unfolding bypass_count by (simp add: started_then_failed_def oks_def net_execs_def)

end
