(* ===== verification/TrackedCalls.thy ===== *)
theory TrackedCalls
  imports StraceParser ProcTrace
begin

text \<open>
  The lines of strace the loop of \<^verbatim>\<open>src/guest/phase-install.ts\<close> reads itself, before the parser sees them:
  \<^verbatim>\<open>chdir\<close>, \<^verbatim>\<open>fchdir\<close>, \<^verbatim>\<open>clone\<close> and its kin, the \<^verbatim>\<open>dup\<close> family, \<^verbatim>\<open>close\<close>, \<^verbatim>\<open>close_range\<close>, \<^verbatim>\<open>unshare\<close> and \<^verbatim>\<open>fcntl\<close>.
  One regular expression and one decoding of the flags each, and what a line of each kind then does to
  the tables of directories and descriptors. What the handlers behind the lines guarantee is in \<open>FdKernel\<close>,
  \<open>ProcTrace\<close> and \<open>DrainOrder\<close>; the lemmas at the end show where the decodings of one flag disagree.
\<close>

unbundle bit_operations_syntax

section \<open>Numbers\<close>

text \<open>\<^verbatim>\<open>parseInt(s, 16)\<close> of a text with the prefix, \<^verbatim>\<open>parseInt(s, base)\<close> of one without; \<open>None\<close> is \<^verbatim>\<open>NaN\<close>.\<close>

definition digits_prefix :: "(char \<Rightarrow> bool) \<Rightarrow> nat \<Rightarrow> string \<Rightarrow> int option" where
  "digits_prefix p base s =
     (let ds = takeWhile p s in if ds = [] then None else Some (int (digits_val base ds)))"

definition parse_signed :: "(char \<Rightarrow> bool) \<Rightarrow> nat \<Rightarrow> string \<Rightarrow> int option" where
  "parse_signed p base s =
     (if starts_with s ''-'' then map_option uminus (digits_prefix p base (drop 1 s)) else digits_prefix p base s)"

definition parse_hex :: "string \<Rightarrow> int option" where
  "parse_hex s = digits_prefix is_hex 16 (drop 2 s)"

definition parse_dec :: "string \<Rightarrow> int option" where
  "parse_dec s = parse_signed is_digit 10 s"

text \<open>\<^verbatim>\<open>/^-?\d+$/\<close>\<close>

definition is_decimal :: "string \<Rightarrow> bool" where
  "is_decimal s =
     (let ds = (if starts_with s ''-'' then drop 1 s else s) in ds \<noteq> [] \<and> list_all is_digit ds)"

section \<open>Pieces of the expressions\<close>

text \<open>\<^verbatim>\<open>-?\d+\<close>, and \<^verbatim>\<open>\b\<close> behind a digit.\<close>

definition rx_int :: "string matcher" where
  "rx_int = rx_bind (rx_opt (rx_lit ''-'')) (\<lambda>m. rx_bind (rep is_digit 1 None) (\<lambda>ds.
     rx_ret ((case m of Some x \<Rightarrow> x | None \<Rightarrow> []) @ ds)))"

definition rx_boundary :: "unit matcher" where
  "rx_boundary s = (if s = [] \<or> \<not> is_word (hd s) then [((), s)] else [])"

definition rx_spaces :: "string matcher" where
  "rx_spaces = rep is_space 0 None"

definition not_paren :: "char \<Rightarrow> bool" where
  "not_paren c = (c \<noteq> CHR '')'')"

text \<open>\<^verbatim>\<open>\)\s*=\s*(-?\d+)\b\<close>, and \<^verbatim>\<open>\s*,\s*\<close> before \<open>m\<close>.\<close>

definition rx_rc :: "string matcher" where
  "rx_rc = rx_bind (rx_lit '')'') (\<lambda>_. rx_bind rx_spaces (\<lambda>_. rx_bind (rx_lit ''='') (\<lambda>_.
     rx_bind rx_spaces (\<lambda>_. rx_bind rx_int (\<lambda>n. rx_bind rx_boundary (\<lambda>_. rx_ret n))))))"

definition rx_comma :: "'a matcher \<Rightarrow> 'a matcher" where
  "rx_comma m = rx_bind rx_spaces (\<lambda>_. rx_bind (rx_lit '','') (\<lambda>_. rx_bind rx_spaces (\<lambda>_. m)))"

definition rx_alt :: "'a matcher \<Rightarrow> 'a matcher \<Rightarrow> 'a matcher" where
  "rx_alt m m' s = m s @ m' s"

text \<open>The first match of an expression that begins with \<^verbatim>\<open>^\<close>.\<close>

definition rx_match :: "'a matcher \<Rightarrow> string \<Rightarrow> 'a option" where
  "rx_match m s = map_option fst (rx_first m s)"

section \<open>Lists of flags\<close>

definition split_bar :: "string \<Rightarrow> string list" where
  "split_bar s = foldr (\<lambda>c acc. if c = CHR ''|'' then [] # acc else case acc of [] \<Rightarrow> [[c]] | t # ts \<Rightarrow> (c # t) # ts) s [[]]"

text \<open>\<^verbatim>\<open>/^[A-Z_|\s]+$/\<close>\<close>

definition is_symbolic :: "string \<Rightarrow> bool" where
  "is_symbolic s = (s \<noteq> [] \<and> list_all (\<lambda>c. is_upper c \<or> c = CHR ''_'' \<or> c = CHR ''|'' \<or> is_space c) s)"

text \<open>The decoding the handlers of \<^verbatim>\<open>close_range\<close> and \<^verbatim>\<open>unshare\<close> share: \<open>table\<close> gives the bit of a word,
  \<open>hex\<close> tells what counts as the prefix of a hexadecimal number.\<close>

definition or_0 :: "int option \<Rightarrow> int" where
  "or_0 n = (case n of None \<Rightarrow> 0 | Some n \<Rightarrow> n)"

definition word_bits :: "(string \<Rightarrow> int option) \<Rightarrow> string \<Rightarrow> int" where
  "word_bits table tok = or_0 (table (trim tok))"

definition mixed_bits :: "(string \<Rightarrow> bool) \<Rightarrow> (string \<Rightarrow> int option) \<Rightarrow> string \<Rightarrow> int" where
  "mixed_bits hex table tok =
     (let t = trim tok
      in case table t of
           Some b \<Rightarrow> b
         | None \<Rightarrow> if hex t then or_0 (parse_hex t) else if is_decimal t then or_0 (parse_dec t) else 0)"

definition flag_bits :: "(string \<Rightarrow> bool) \<Rightarrow> (string \<Rightarrow> int option) \<Rightarrow> string \<Rightarrow> int" where
  "flag_bits hex table s =
     (if s = [] then 0
      else if is_symbolic s then foldl (\<lambda>bits tok. bits OR word_bits table tok) 0 (split_bar s)
      else if hex s then or_0 (parse_hex s)
      else if is_decimal s then or_0 (parse_dec s)
      else foldl (\<lambda>bits tok. bits OR mixed_bits hex table tok) 0 (split_bar s))"

definition hex_lower :: "string \<Rightarrow> bool" where
  "hex_lower s = starts_with s ''0x''"

definition hex_any :: "string \<Rightarrow> bool" where
  "hex_any s = (starts_with s ''0x'' \<or> starts_with s ''0X'')"

section \<open>clone\<close>

text \<open>\<^verbatim>\<open>/^(clone3?|vfork|fork)\b/\<close>\<close>

definition rx_clone :: "string matcher" where
  "rx_clone = rx_bind (rx_alt (rx_lit ''clone3'') (rx_alt (rx_lit ''clone'') (rx_alt (rx_lit ''vfork'') (rx_lit ''fork''))))
     (\<lambda>name. rx_bind rx_boundary (\<lambda>_. rx_ret name))"

definition rx_flags :: "(char \<Rightarrow> bool) \<Rightarrow> string matcher" where
  "rx_flags p = rx_bind (rx_lit ''flags='') (\<lambda>_. rep (\<lambda>c. p c \<or> c = CHR ''_'' \<or> c = CHR ''|'') 1 None)"

text \<open>\<^verbatim>\<open>/^0[xX][0-9a-fA-F]+$/\<close> and \<^verbatim>\<open>/^[0-9]+$/\<close>\<close>

definition flag_number :: "string \<Rightarrow> int option" where
  "flag_number tok =
     (if hex_any tok \<and> drop 2 tok \<noteq> [] \<and> list_all is_hex (drop 2 tok) then parse_hex tok
      else if tok \<noteq> [] \<and> list_all is_digit tok then digits_prefix is_digit 10 tok else None)"

definition untraced_token :: "string \<Rightarrow> bool" where
  "untraced_token tok =
     (tok = ''CLONE_UNTRACED'' \<or> (case flag_number tok of None \<Rightarrow> False | Some bits \<Rightarrow> bits AND 0x800000 \<noteq> 0))"

definition cloneFlagsHaveUntraced :: "string \<Rightarrow> bool" where
  "cloneFlagsHaveUntraced line =
     (case rx_search (rx_flags is_alnum) line of None \<Rightarrow> False | Some m \<Rightarrow> list_ex untraced_token (split_bar m))"

definition clone_flag_tokens :: "string \<Rightarrow> string list" where
  "clone_flag_tokens line =
     (case rx_search (rx_flags (\<lambda>c. is_upper c \<or> is_digit c)) line of None \<Rightarrow> [] | Some m \<Rightarrow> split_bar m)"

section \<open>What a line says\<close>

datatype tracked_call =
    Chdir string
  | Fchdir int
  | SplitChdir
  | Cloned bool "int option" bool bool
  | Dup int int bool
  | Close int int
  | CloseRange int int bool bool
  | Unshare bool bool
  | SetCloexec int "bool option"
  | UnknownFcntl
  | NoChange

text \<open>\<^verbatim>\<open>^chdir\("((?:[^"\\]|\\.)*)"\)\s*=\s*0\b\<close>\<close>

definition rx_quoted :: "string matcher" where
  "rx_quoted s = (case s of CHR 0x22 # t \<Rightarrow> (case quoted_raw t of None \<Rightarrow> [] | Some m \<Rightarrow> [m]) | _ \<Rightarrow> [])"

definition rx_zero :: "unit matcher" where
  "rx_zero = rx_bind (rx_lit '')'') (\<lambda>_. rx_bind rx_spaces (\<lambda>_. rx_bind (rx_lit ''='') (\<lambda>_.
     rx_bind rx_spaces (\<lambda>_. rx_bind (rx_lit ''0'') (\<lambda>_. rx_boundary)))))"

definition rx_chdir :: "string matcher" where
  "rx_chdir = rx_bind (rx_lit ''chdir('') (\<lambda>_. rx_bind rx_quoted (\<lambda>p. rx_bind rx_zero (\<lambda>_. rx_ret p)))"

definition rx_fchdir :: "string matcher" where
  "rx_fchdir = rx_bind (rx_lit ''fchdir('') (\<lambda>_. rx_bind rx_int (\<lambda>n. rx_bind rx_zero (\<lambda>_. rx_ret n)))"

definition split_cwd_mutation :: "string \<Rightarrow> bool" where
  "split_cwd_mutation line =
     (((starts_with line ''chdir('' \<or> starts_with line ''fchdir('') \<and> js_includes line ''<unfinished ...>'') \<or>
      (starts_with line ''<...'' \<and> (js_includes line ''chdir resumed'' \<or> js_includes line ''fchdir resumed'')))"

definition clone_call :: "string \<Rightarrow> string \<Rightarrow> tracked_call" where
  "clone_call name line =
     (let flagged = name \<in> {''clone'', ''clone3''};
          tokens = (if flagged then clone_flag_tokens line else [])
      in Cloned (flagged \<and> cloneFlagsHaveUntraced line) (Option.bind (rx_search rx_rc line) parse_dec)
           (''CLONE_FS'' \<in> set tokens) (''CLONE_FILES'' \<in> set tokens))"

text \<open>\<^verbatim>\<open>^(dup3?|dup2)\((-?\d+)(?:\s*,\s*(-?\d+))?(?:\s*,\s*([^)]*))?\)\s*=\s*(-?\d+)\b\<close>\<close>

definition rx_dup :: "(string \<times> string \<times> string option \<times> string option \<times> string) matcher" where
  "rx_dup = rx_bind (rx_alt (rx_lit ''dup3'') (rx_alt (rx_lit ''dup'') (rx_lit ''dup2''))) (\<lambda>op.
     rx_bind (rx_lit ''('') (\<lambda>_. rx_bind rx_int (\<lambda>old. rx_bind (rx_opt (rx_comma rx_int)) (\<lambda>new.
     rx_bind (rx_opt (rx_comma (rep not_paren 0 None))) (\<lambda>flags. rx_bind rx_rc (\<lambda>rc.
     rx_ret (op, old, new, flags, rc)))))))"

definition or_empty :: "string option \<Rightarrow> string" where
  "or_empty s = (case s of None \<Rightarrow> [] | Some s \<Rightarrow> s)"

definition dup3_number :: "string \<Rightarrow> int option" where
  "dup3_number tok =
     (if hex_lower tok then parse_hex tok
      else if starts_with tok ''0o'' \<or> (starts_with tok ''0'' \<and> drop 1 tok \<noteq> [] \<and> is_digit (hd (drop 1 tok)))
           then parse_signed is_octal 8 tok
      else parse_dec tok)"

definition dup3_cloexec :: "string \<Rightarrow> bool" where
  "dup3_cloexec tok =
     (tok \<noteq> [] \<and> (js_includes tok ''O_CLOEXEC'' \<or>
       (case dup3_number tok of None \<Rightarrow> False | Some n \<Rightarrow> n AND 0x80000 \<noteq> 0)))"

definition dup_call :: "string \<times> string \<times> string option \<times> string option \<times> string \<Rightarrow> tracked_call" where
  "dup_call m =
     (case m of (op, old, new, flags, rc) \<Rightarrow>
        case (parse_dec rc, parse_dec old) of
          (Some r, Some oldFd) \<Rightarrow>
            if r < 0 then NoChange
            else (case (if op = ''dup'' then Some r else parse_dec (or_empty new)) of
                    None \<Rightarrow> NoChange
                  | Some newFd \<Rightarrow>
                      if op = ''dup2'' \<and> oldFd = newFd then NoChange
                      else Dup oldFd newFd (op = ''dup3'' \<and> dup3_cloexec (trim (or_empty flags))))
        | _ \<Rightarrow> NoChange)"

text \<open>\<^verbatim>\<open>^close\((-?\d+)\)\s*=\s*(-?\d+)\b\<close>\<close>

definition rx_close :: "(string \<times> string) matcher" where
  "rx_close = rx_bind (rx_lit ''close('') (\<lambda>_. rx_bind rx_int (\<lambda>fd. rx_bind rx_rc (\<lambda>rc. rx_ret (fd, rc))))"

definition close_call :: "string \<times> string \<Rightarrow> tracked_call" where
  "close_call m =
     (case (parse_dec (fst m), parse_dec (snd m)) of (Some fd, Some rc) \<Rightarrow> Close fd rc | _ \<Rightarrow> NoChange)"

text \<open>\<^verbatim>\<open>^close_range\((-?\d+)\s*,\s*(-?\d+|0x[0-9a-fA-F]+|~?\d+U?)(?:\s*,\s*([^)]*))?\)\s*=\s*(-?\d+)\b\<close>\<close>

definition rx_last :: "string matcher" where
  "rx_last = rx_alt rx_int (rx_alt
     (rx_bind (rx_lit ''0x'') (\<lambda>x. rx_bind (rep is_hex 1 None) (\<lambda>ds. rx_ret (x @ ds))))
     (rx_bind (rx_opt (rx_lit ''~'')) (\<lambda>t. rx_bind (rep is_digit 1 None) (\<lambda>ds.
        rx_bind (rx_opt (rx_lit ''U'')) (\<lambda>u. rx_ret (or_empty t @ ds @ or_empty u))))))"

definition rx_close_range :: "(string \<times> string \<times> string option \<times> string) matcher" where
  "rx_close_range = rx_bind (rx_lit ''close_range('') (\<lambda>_. rx_bind rx_int (\<lambda>lo.
     rx_bind (rx_comma rx_last) (\<lambda>hi. rx_bind (rx_opt (rx_comma (rep not_paren 0 None))) (\<lambda>flags.
     rx_bind rx_rc (\<lambda>rc. rx_ret (lo, hi, flags, rc))))))"

definition close_range_last :: "string \<Rightarrow> int option" where
  "close_range_last s =
     (if hex_lower s then parse_hex s
      else if s \<in> {''~0U'', ''~0'', ''~0u''} then Some 0xFFFFFFFF else parse_dec s)"

definition close_range_words :: "string \<Rightarrow> int option" where
  "close_range_words = map_of [(''CLOSE_RANGE_UNSHARE'', 2), (''CLOSE_RANGE_CLOEXEC'', 4)]"

definition close_range_call :: "string \<times> string \<times> string option \<times> string \<Rightarrow> tracked_call" where
  "close_range_call m =
     (case m of (lo, hi, flags, rc) \<Rightarrow>
        case (parse_dec lo, close_range_last hi) of
          (Some low, Some high) \<Rightarrow>
            (let bits = flag_bits hex_lower close_range_words (trim (or_empty flags))
             in if parse_dec rc = Some 0 \<and> 0 \<le> low \<and> low \<le> high
                then CloseRange low high (bits AND 2 \<noteq> 0) (bits AND 4 \<noteq> 0) else NoChange)
        | _ \<Rightarrow> NoChange)"

text \<open>\<^verbatim>\<open>^unshare\(([^)]*)\)\s*=\s*(-?\d+)\b\<close>\<close>

definition rx_unshare :: "(string \<times> string) matcher" where
  "rx_unshare = rx_bind (rx_lit ''unshare('') (\<lambda>_. rx_bind (rep not_paren 0 None) (\<lambda>flags.
     rx_bind rx_rc (\<lambda>rc. rx_ret (flags, rc))))"

definition unshare_words :: "string \<Rightarrow> int option" where
  "unshare_words = map_of [(''CLONE_FILES'', 0x400), (''CLONE_FS'', 0x200), (''CLONE_NEWNS'', 0x20000),
     (''CLONE_NEWUSER'', 0x10000000)]"

definition unshare_call :: "string \<times> string \<Rightarrow> tracked_call" where
  "unshare_call m =
     (if parse_dec (snd m) = Some 0 then
        (let bits = flag_bits hex_any unshare_words (trim (fst m))
         in Unshare (bits AND 0x200 \<noteq> 0 \<or> bits AND 0x20000 \<noteq> 0 \<or> bits AND 0x10000000 \<noteq> 0) (bits AND 0x400 \<noteq> 0))
      else NoChange)"

text \<open>\<^verbatim>\<open>^(fcntl|fcntl64)\((-?\d+)\s*,\s*([A-Z_0-9]+)(?:\s*,\s*([^)]*))?\)\s*=\s*(-?\d+)\b\<close>\<close>

definition rx_fcntl :: "(string \<times> string \<times> string option \<times> string) matcher" where
  "rx_fcntl = rx_bind (rx_alt (rx_lit ''fcntl'') (rx_lit ''fcntl64'')) (\<lambda>_. rx_bind (rx_lit ''('') (\<lambda>_.
     rx_bind rx_int (\<lambda>fd. rx_bind (rx_comma (rep (\<lambda>c. is_upper c \<or> is_digit c \<or> c = CHR ''_'') 1 None)) (\<lambda>cmd.
     rx_bind (rx_opt (rx_comma (rep not_paren 0 None))) (\<lambda>a. rx_bind rx_rc (\<lambda>rc. rx_ret (fd, cmd, a, rc)))))))"

text \<open>The argument of \<^verbatim>\<open>F_SETFD\<close>; \<open>None\<close> where it is not understood.\<close>

definition setfd_token :: "string \<Rightarrow> int option" where
  "setfd_token t =
     (if t = ''FD_CLOEXEC'' then Some 1
      else if t = ''0'' then Some 0
      else if hex_lower t \<and> drop 2 t \<noteq> [] \<and> list_all is_hex (drop 2 t) then parse_hex t
      else if is_decimal t then parse_dec t
      else None)"

definition setfd_arg :: "string \<Rightarrow> bool option" where
  "setfd_arg a =
     (if a = ''FD_CLOEXEC'' then Some True
      else if a = ''0'' then Some False
      else if hex_lower a then map_option (\<lambda>n. n AND 1 \<noteq> 0) (parse_hex a)
      else if is_decimal a then map_option (\<lambda>n. n AND 1 \<noteq> 0) (parse_dec a)
      else if a \<noteq> [] then
        map_option (\<lambda>ns. foldl (OR) 0 ns AND 1 \<noteq> 0) (those (map (\<lambda>tok. setfd_token (trim tok)) (split_bar a)))
      else None)"

definition quiet_commands :: "string list" where
  "quiet_commands = [''F_GETFD'', ''F_GETFL'', ''F_SETFL'', ''F_SETLK'', ''F_SETLKW'', ''F_GETLK'', ''F_SETOWN'', ''F_GETOWN'',
     ''F_SETSIG'', ''F_GETSIG'', ''F_SETLEASE'', ''F_GETLEASE'', ''F_NOTIFY'', ''F_SETPIPE_SZ'', ''F_GETPIPE_SZ'',
     ''F_ADD_SEALS'', ''F_GET_SEALS'']"

definition fcntl_call :: "string \<times> string \<times> string option \<times> string \<Rightarrow> tracked_call" where
  "fcntl_call m =
     (case m of (fdText, cmd, a, rcText) \<Rightarrow>
        case (parse_dec fdText, parse_dec rcText) of
          (Some fd, Some rc) \<Rightarrow>
            if rc < 0 then NoChange
            else if cmd = ''F_DUPFD'' \<or> cmd = ''F_DUPFD_CLOEXEC'' then Dup fd rc (cmd = ''F_DUPFD_CLOEXEC'')
            else if cmd = ''F_SETFD'' then SetCloexec fd (setfd_arg (trim (or_empty a)))
            else if cmd \<in> set quiet_commands then NoChange
            else UnknownFcntl
        | _ \<Rightarrow> NoChange)"

text \<open>The tests of the loop, in its order; \<open>None\<close> goes to the parser.\<close>

definition tracked_line :: "string \<Rightarrow> tracked_call option" where
  "tracked_line line =
     (case rx_match rx_chdir line of Some p \<Rightarrow> Some (Chdir (unescape p)) | None \<Rightarrow>
     (case rx_match rx_fchdir line of
        Some n \<Rightarrow> Some (case parse_dec n of Some fd \<Rightarrow> Fchdir fd | None \<Rightarrow> NoChange) | None \<Rightarrow>
     (if split_cwd_mutation line then Some SplitChdir else
     (case rx_match rx_clone line of Some name \<Rightarrow> Some (clone_call name line) | None \<Rightarrow>
     (case rx_match rx_dup line of Some m \<Rightarrow> Some (dup_call m) | None \<Rightarrow>
     (case rx_match rx_close line of Some m \<Rightarrow> Some (close_call m) | None \<Rightarrow>
     (case rx_match rx_close_range line of Some m \<Rightarrow> Some (close_range_call m) | None \<Rightarrow>
     (case rx_match rx_unshare line of Some m \<Rightarrow> Some (unshare_call m) | None \<Rightarrow>
      map_option fcntl_call (rx_match rx_fcntl line)))))))))"

section \<open>What a line does\<close>

text \<open>The calls that change only the tables; a \<^verbatim>\<open>clone\<close> does more, and has its own handler.\<close>

definition tracked_step :: "string \<Rightarrow> int \<Rightarrow> int \<Rightarrow> tracked_call \<Rightarrow> proc_state \<Rightarrow> proc_state" where
  "tracked_step pcwd pid ts c st =
     (case c of
        Chdir target \<Rightarrow> (cwd_chdir pcwd pid ts target (fst st), snd st)
      | Fchdir fd \<Rightarrow> proc_fchdir pid ts fd st
      | SplitChdir \<Rightarrow> (cwd_split pid ts (fst st), snd st)
      | Dup old new cloexec \<Rightarrow> (fst st, fd_dup pid old new cloexec (snd st))
      | Close fd rc \<Rightarrow> (fst st, fd_close pid fd rc (snd st))
      | CloseRange lo hi unshare cloexec \<Rightarrow> (fst st, fd_close_range pid lo hi unshare cloexec (snd st))
      | Unshare detachCwd detachFds \<Rightarrow> proc_unshare pid detachCwd detachFds st
      | SetCloexec fd v \<Rightarrow> (fst st, fd_setfd pid fd v (snd st))
      | UnknownFcntl \<Rightarrow> (fst st, fdUnknownAdd pid (snd st))
      | _ \<Rightarrow> st)"

section \<open>Spellings of a flag\<close>

text \<open>The number that \<^verbatim>\<open>unshare\<close> takes for \<^verbatim>\<open>CLONE_FILES\<close> says nothing to the handler of a clone: its child is
  filed with a copy of the table it shares.\<close>

lemma numeric_clone_flags_ignored:
  "tracked_line ''unshare(0x400) = 0'' = Some (Unshare False True)"
  "tracked_line ''clone(child_stack=NULL, flags=CLONE_FILES|0x200) = 7'' = Some (Cloned False (Some 7) False True)"
  "tracked_line ''clone(child_stack=NULL, flags=0x400) = 7'' = Some (Cloned False (Some 7) False False)"
  by code_simp+

text \<open>In a list that starts with a hexadecimal word only that word counts.\<close>

lemma words_after_hex_lost:
  "tracked_line ''close_range(3, 9, CLOSE_RANGE_UNSHARE|0x4) = 0'' = Some (CloseRange 3 9 True True)"
  "tracked_line ''close_range(3, 9, 0x4|CLOSE_RANGE_UNSHARE) = 0'' = Some (CloseRange 3 9 False True)"
  by code_simp+

end
