(* ===== verification/Dispatcher.thy ===== *)
theory Dispatcher
  imports NodeBootstrap ShimLines ExecAudit Lineage TrackedCalls
begin

text \<open>
  The loop of \<^verbatim>\<open>runInstallPhase\<close> (\<^verbatim>\<open>src/guest/phase-install.ts\<close>) over the two channels: one handler per kind of
  line, composed of the operations of the other theories in the order the code calls them, and the end of
  the run. A handler returns nothing where \<^verbatim>\<open>nodeBootstrapSubtree\<close> does not return.
\<close>

section \<open>State\<close>

record phase_input =
  pi_emit :: emit_input
  pi_pcwd :: string
  pi_workDir :: string
  pi_rootSentinel :: "string option"
  pi_parse :: "string \<Rightarrow> json option"
  pi_events :: events_file

text \<open>Why the audit cannot be trusted; the code makes a sentence of it.\<close>

datatype tamper = Unparseable int string | UnknownSource int string | Untraced int

record deferred_null =
  dl_raw :: raw_event
  dl_pendingAtDefer :: bool

record phase_state =
  ph_emit :: emit_state
  ph_node :: node_state
  ph_snap :: snap_state
  ph_audit :: audit_state
  ph_proc :: proc_state
  ph_attr :: attribution
  ph_lineage :: lineage
  ph_deferredRel :: "deferred_rel list"
  ph_deferredNull :: "deferred_null list"
  ph_tamper :: "tamper option"
  ph_rootPid :: "int option"
  ph_dispatchTs :: nat

definition phase_init :: "phase_input \<Rightarrow> phase_state" where
  "phase_init inp =
     \<lparr>ph_emit = emit_init, ph_node = node_init, ph_snap = snap_init, ph_audit = audit_init,
      ph_proc = (cwd_init, fd_init),
      ph_attr = new_attribution (pi_rootSentinel inp) (ei_rootPkgKeys (pi_emit inp)), ph_lineage = lineage_init,
      ph_deferredRel = [], ph_deferredNull = [], ph_tamper = None, ph_rootPid = None, ph_dispatchTs = 0\<rparr>"

definition work_dir :: "phase_input \<Rightarrow> string" where
  "work_dir inp = path_resolve (pi_pcwd inp) [pi_workDir inp]"

section \<open>Small steps\<close>

definition setPhaseTamper :: "tamper \<Rightarrow> phase_state \<Rightarrow> phase_state" where
  "setPhaseTamper reason s = (if ph_tamper s = None then s\<lparr>ph_tamper := Some reason\<rparr> else s)"

definition emit_event :: "phase_input \<Rightarrow> attributed_event \<Rightarrow> phase_state \<Rightarrow> phase_state" where
  "emit_event inp ev s = s\<lparr>ph_emit := emit (pi_emit inp) ev (ph_emit s)\<rparr>"

definition emit_all :: "phase_input \<Rightarrow> attributed_event list \<Rightarrow> phase_state \<Rightarrow> phase_state" where
  "emit_all inp evs s = s\<lparr>ph_emit := fold (emit (pi_emit inp)) evs (ph_emit s)\<rparr>"

definition attribute_now :: "proc_reader \<Rightarrow> int \<Rightarrow> phase_state \<Rightarrow> attribution_result option \<times> phase_state" where
  "attribute_now reader pid s = (let (r, a) = attribute reader pid (ph_attr s) in (r, s\<lparr>ph_attr := a\<rparr>))"

definition record_attr :: "int \<Rightarrow> attribution_result option \<Rightarrow> nat \<Rightarrow> phase_state \<Rightarrow> phase_state" where
  "record_attr pid r ts s =
     (case r of None \<Rightarrow> s | Some a \<Rightarrow> s\<lparr>ph_snap := recordAttribution pid a ts (ph_snap s)\<rparr>)"

definition with_node :: "(node_state \<Rightarrow> node_state option) \<Rightarrow> phase_state \<Rightarrow> phase_state option" where
  "with_node f s = map_option (\<lambda>n. s\<lparr>ph_node := n\<rparr>) (f (ph_node s))"

definition flush_candidate :: "phase_input \<Rightarrow> int \<Rightarrow> phase_state \<Rightarrow> phase_state" where
  "flush_candidate inp pid s =
     (let (evs, n) = flushNodeBootstrapCandidate pid (ph_node s) in emit_all inp evs (s\<lparr>ph_node := n\<rparr>))"

definition attributed :: "raw_event \<Rightarrow> attribution_result \<Rightarrow> attributed_event" where
  "attributed r a = \<lparr>ev_raw = r, ev_pkg = ar_pkg a, ev_lifecycle = ar_lifecycle a\<rparr>"

section \<open>The first line of the root\<close>

definition seed_root :: "phase_input \<Rightarrow> int option \<Rightarrow> int \<Rightarrow> phase_state \<Rightarrow> phase_state" where
  "seed_root inp rootPid pid s =
     (if ph_rootPid s \<noteq> None \<or> rootPid \<noteq> Some pid then s
      else s\<lparr>ph_rootPid := Some pid,
             ph_proc := (cwdSet pid (work_dir inp) (fst (ph_proc s)), snd (ph_proc s)),
             ph_lineage := lineage_root pid (work_dir inp) (ph_lineage s)\<rparr>)"

section \<open>A line of the preload\<close>

definition client_starts :: "int \<Rightarrow> node_state \<Rightarrow> node_state" where
  "client_starts pid n = n\<lparr>
     completedPackageManagerClientPids := completedPackageManagerClientPids n - {pid},
     packageManagerClientPids := insert pid (packageManagerClientPids n)\<rparr>"

definition marker_node :: "int \<Rightarrow> nat \<Rightarrow> node_state \<Rightarrow> node_state" where
  "marker_node pid ts n =
     (let (wasCandidate, n) = confirmNodeBootstrapCandidate pid n;
          n = (if \<not> wasCandidate \<and> pid \<notin> nodeBootstrapFileCompletedPids n
               then n\<lparr>nodeBootstrapFilePendingPids := insert pid (nodeBootstrapFilePendingPids n)\<rparr> else n)
      in n\<lparr>nodeBootstrapEnvEndedTs := set_if_absent pid ts (nodeBootstrapEnvEndedTs n)\<rparr>)"

definition marker_line :: "phase_input \<Rightarrow> nat \<Rightarrow> string \<Rightarrow> int \<Rightarrow> nat \<Rightarrow> phase_state \<Rightarrow> phase_state option" where
  "marker_line inp lineTs line pid ts s =
     with_node (\<lambda>n. clearNodeBootstrapEnv pid (marker_node pid ts (if ph_rootPid s = Some pid then client_starts pid n else n)))
       (s\<lparr>ph_snap := record_marker pid lineTs
            (classifyShimNodeStartupMarker (pi_parse inp) line (pi_rootSentinel inp)
               (ei_rootPkgKeys (pi_emit inp))) (ph_snap s)\<rparr>)"

definition count_event :: "raw_event \<Rightarrow> phase_state \<Rightarrow> phase_state" where
  "count_event r s =
     (case r of
        ExecEv e \<Rightarrow> s\<lparr>ph_audit := count_shim_exec (ex_pid e) (ex_result e) (ph_audit s)\<rparr>
      | _ \<Rightarrow> s)"

definition filter_env :: "raw_event \<Rightarrow> phase_state \<Rightarrow> bool \<times> phase_state" where
  "filter_env r s = (let (filtered, n) = shouldFilterNodeBootstrapEnvRead r (ph_node s) in (filtered, s\<lparr>ph_node := n\<rparr>))"

definition shim_emit :: "phase_input \<Rightarrow> raw_event \<Rightarrow> attribution_result \<Rightarrow> phase_state \<Rightarrow> phase_state" where
  "shim_emit inp r a s =
     (let (buffered, n) = shouldBufferNodeBootstrapCandidateEnvRead (attributed r a) (ph_node s);
          s = s\<lparr>ph_node := n\<rparr>
      in if buffered then s
         else if shouldFilterPackageManagerClientEnvRead r (ph_node s) then s
         else emit_event inp (attributed r a) s)"

definition shim_event_line ::
  "phase_input \<Rightarrow> proc_reader \<Rightarrow> nat \<Rightarrow> string \<Rightarrow> raw_event \<Rightarrow> phase_state \<Rightarrow> phase_state" where
  "shim_event_line inp reader lineTs line r s =
     (let pid = raw_pid r;
          (result, s) = attribute_now reader pid s;
          shimAttrib = shimExecAttribution (pi_parse inp) line (pi_rootSentinel inp) (ei_rootPkgKeys (pi_emit inp));
          s = count_event r s;
          (filtered, s) = filter_env r s
      in if filtered then s
         else case shim_attribution shimAttrib result pid (ph_snap s) of
                None \<Rightarrow> s
              | Some a \<Rightarrow> shim_emit inp r a (record_attr pid (or_else shimAttrib result) lineTs s))"

definition MAX_PREFIX :: nat where
  "MAX_PREFIX = 100"

definition shim_record ::
  "phase_input \<Rightarrow> proc_reader \<Rightarrow> int \<Rightarrow> nat \<Rightarrow> string \<Rightarrow> phase_state \<Rightarrow> phase_state option" where
  "shim_record inp reader pid lineTs line s =
     (case parseShimLine (pi_parse inp) line of
        None \<Rightarrow> Some (setPhaseTamper (Unparseable pid (take MAX_PREFIX line)) s)
      | Some (NodeStartupDone p ts) \<Rightarrow> marker_line inp lineTs line p ts s
      | Some (ShimRaw r) \<Rightarrow> Some (shim_event_line inp reader lineTs line r s))"

section \<open>The exit line of a process\<close>

definition client_exits :: "int \<Rightarrow> node_state \<Rightarrow> node_state" where
  "client_exits pid n =
     (if pid \<in> packageManagerClientPids n
      then n\<lparr>packageManagerClientPids := packageManagerClientPids n - {pid},
             completedPackageManagerClientPids := insert pid (completedPackageManagerClientPids n)\<rparr>
      else n)"

definition exit_line :: "phase_input \<Rightarrow> proc_reader \<Rightarrow> int \<Rightarrow> nat \<Rightarrow> phase_state \<Rightarrow> phase_state" where
  "exit_line inp reader pid lineTs s =
     (let s = s\<lparr>ph_snap := saw_exit pid (ph_snap s)\<rparr>;
          s = flush_candidate inp pid s;
          s = s\<lparr>ph_node := client_exits pid (ph_node s)\<rparr>;
          s = s\<lparr>ph_attr := invalidate pid (ph_attr s)\<rparr>;
          (live, s) = attribute_now reader pid s;
          s = (if live = None then s\<lparr>ph_snap := markStale pid (ph_snap s)\<rparr> else record_attr pid live lineTs s)
      in s\<lparr>ph_attr := invalidate pid (ph_attr s)\<rparr>)"

section \<open>A clone line\<close>

definition fresh_or_sample ::
  "attribution_result option \<Rightarrow> proc_reader \<Rightarrow> int \<Rightarrow> phase_state \<Rightarrow> attribution_result option \<times> phase_state" where
  "fresh_or_sample known reader pid s = (case known of Some a \<Rightarrow> (Some a, s) | None \<Rightarrow> attribute_now reader pid s)"

definition usable_snapshot :: "int \<Rightarrow> snap_state \<Rightarrow> attribution_result option" where
  "usable_snapshot pid s =
     (case attributionSnapshotByPid s pid of
        None \<Rightarrow> None
      | Some snap \<Rightarrow> if sn_stale snap then None else Some (attribution_of (sn_pkg snap) (sn_lifecycle snap)))"

text \<open>The lineage and the tables; the directory of the parent as it stood before the line comes back.\<close>

definition clone_tables ::
  "int \<Rightarrow> int \<Rightarrow> nat \<Rightarrow> bool \<Rightarrow> bool \<Rightarrow> phase_state \<Rightarrow> string option \<times> phase_state" where
  "clone_tables pid childPid lineTs cloneFs cloneFiles s =
     (let (parentCwd, cs) = known_cwd pid (fst (ph_proc s));
          l = lineage_clone pid childPid (int lineTs) cloneFs parentCwd (ph_lineage s);
          p = proc_clone pid childPid cloneFs cloneFiles (cs, snd (ph_proc s));
          (l, cs) = settle_exec_cwd childPid (fst p) l
      in (parentCwd, s\<lparr>ph_lineage := l, ph_proc := (cs, snd p)\<rparr>))"

definition clone_deferred ::
  "proc_reader \<Rightarrow> int \<Rightarrow> int \<Rightarrow> bool \<Rightarrow> string option \<Rightarrow> phase_state \<Rightarrow> phase_state" where
  "clone_deferred reader pid childPid cloneFs parentCwd s =
     (let (forStamp, s) = fresh_or_sample (freshSnapshotAttribution pid (ph_snap s)) reader pid s
      in s\<lparr>ph_deferredRel := stampDeferredRelOpens childPid parentCwd cloneFs
             (map_option (\<lambda>a. (ar_pkg a, ar_lifecycle a)) forStamp) pid
             (childPid \<in> nodeBootstrapFilePendingPids (ph_node s)) (ph_deferredRel s)\<rparr>)"

definition clone_attribution :: "proc_reader \<Rightarrow> int \<Rightarrow> int \<Rightarrow> nat \<Rightarrow> phase_state \<Rightarrow> phase_state" where
  "clone_attribution reader pid childPid lineTs s =
     (let snap = usable_snapshot pid (ph_snap s);
          (parentAttrib, s) = fresh_or_sample snap reader pid s;
          s = (if snap = None then record_attr pid parentAttrib lineTs s else s)
      in record_attr childPid parentAttrib lineTs s)"

definition clone_child ::
  "proc_reader \<Rightarrow> int \<Rightarrow> int \<Rightarrow> nat \<Rightarrow> bool \<Rightarrow> bool \<Rightarrow> phase_state \<Rightarrow> phase_state" where
  "clone_child reader pid childPid lineTs cloneFs cloneFiles s =
     (let s = s\<lparr>ph_node := propagateNodeBootstrap pid childPid (ph_node s)\<rparr>;
          (parentCwd, s) = clone_tables pid childPid lineTs cloneFs cloneFiles s;
          s = clone_deferred reader pid childPid cloneFs parentCwd s;
          s = (if pid \<in> shimLoadedPids (ph_audit s)
               then s\<lparr>ph_audit := (ph_audit s)\<lparr>shimLoadedPids := insert childPid (shimLoadedPids (ph_audit s))\<rparr>\<rparr>
               else s)
      in clone_attribution reader pid childPid lineTs s)"

definition clone_line ::
  "proc_reader \<Rightarrow> int \<Rightarrow> nat \<Rightarrow> bool \<Rightarrow> int option \<Rightarrow> bool \<Rightarrow> bool \<Rightarrow> phase_state \<Rightarrow> phase_state" where
  "clone_line reader pid lineTs untraced child cloneFs cloneFiles s =
     (let s = (if untraced then setPhaseTamper (Untraced pid) s else s)
      in case child of
           None \<Rightarrow> s
         | Some childPid \<Rightarrow>
             if childPid \<le> 0 then s else clone_child reader pid childPid lineTs cloneFs cloneFiles s)"

section \<open>An event of strace\<close>

text \<open>The line without its first quoted text, in which \<^verbatim>\<open>O_CLOEXEC\<close> is looked for.\<close>

definition scan_line :: "string \<Rightarrow> string" where
  "scan_line line =
     (if CHR 0x22 \<notin> set line then line
      else before_char (CHR 0x22) line @
        (case quoted_raw (after_char (CHR 0x22) line) of None \<Rightarrow> [] | Some (_, rest) \<Rightarrow> rest))"

definition open_cloexec :: "string \<Rightarrow> bool" where
  "open_cloexec line = (\<not> starts_with line ''creat('' \<and> js_includes (scan_line line) ''O_CLOEXEC'')"

definition NODE_STARTUP_DONE_STRACE_PATH :: string where
  "NODE_STARTUP_DONE_STRACE_PATH = ''/tmp/script-jail-node-startup-done''"

text \<open>A successful execution.\<close>

definition client_forgotten :: "int \<Rightarrow> node_state \<Rightarrow> node_state" where
  "client_forgotten pid n = n\<lparr>packageManagerClientPids := packageManagerClientPids n - {pid},
     completedPackageManagerClientPids := completedPackageManagerClientPids n - {pid}\<rparr>"

definition begin_candidate :: "phase_input \<Rightarrow> int \<Rightarrow> phase_state \<Rightarrow> phase_state" where
  "begin_candidate inp pid s =
     (let (evs, n) = beginNodeBootstrapCandidate pid (ph_node s) in emit_all inp evs (s\<lparr>ph_node := n\<rparr>))"

definition exec_node :: "phase_input \<Rightarrow> string \<Rightarrow> spawn_event \<Rightarrow> phase_state \<Rightarrow> phase_state option" where
  "exec_node inp line e s =
     (if isNodeSpawn e line then with_node (beginNodeBootstrap (sp_pid e)) s
      else map_option (begin_candidate inp (sp_pid e)) (with_node (clearNodeBootstrap (sp_pid e)) s))"

definition exec_before :: "phase_input \<Rightarrow> int \<Rightarrow> phase_state \<Rightarrow> phase_state" where
  "exec_before inp pid s =
     (let s = s\<lparr>ph_snap := saw_exec pid (ph_snap s)\<rparr>;
          (l, cs) = note_exec_cwd pid (fst (ph_proc s)) (ph_lineage s);
          s = s\<lparr>ph_lineage := l, ph_proc := (cs, snd (ph_proc s))\<rparr>;
          s = flush_candidate inp pid s;
          s = s\<lparr>ph_node := client_forgotten pid (ph_node s)\<rparr>
      in s\<lparr>ph_audit := (ph_audit s)\<lparr>shimLoadedPids := shimLoadedPids (ph_audit s) - {pid}\<rparr>\<rparr>)"

definition exec_after :: "string \<Rightarrow> spawn_event \<Rightarrow> phase_state \<Rightarrow> phase_state" where
  "exec_after line e s =
     (let pid = sp_pid e; n = ph_node s;
          s = s\<lparr>ph_node := (if isPackageManagerClientSpawn e line
                 then n\<lparr>packageManagerClientPids := insert pid (packageManagerClientPids n)\<rparr> else n)\<rparr>
      in s\<lparr>ph_proc := (fst (ph_proc s), fd_exec pid (snd (ph_proc s)))\<rparr>)"

definition exec_step :: "phase_input \<Rightarrow> string \<Rightarrow> spawn_event \<Rightarrow> phase_state \<Rightarrow> phase_state option" where
  "exec_step inp line e s = map_option (exec_after line e) (exec_node inp line e (exec_before inp (sp_pid e) s))"

text \<open>The open of the marker path.\<close>

definition file_marker_node :: "int \<Rightarrow> nat \<Rightarrow> node_state \<Rightarrow> node_state" where
  "file_marker_node pid ts n =
     (let (_, n) = completeNodeBootstrapCandidateFileMarker pid n
      in n\<lparr>nodeBootstrapFileCompletedPids := insert pid (nodeBootstrapFileCompletedPids n),
           nodeBootstrapFileEndedTs := set_if_absent pid ts (nodeBootstrapFileEndedTs n)\<rparr>)"

definition file_marker :: "fs_event \<Rightarrow> phase_state \<Rightarrow> phase_state option" where
  "file_marker e s =
     with_node (\<lambda>n. clearNodeBootstrapFile (fs_pid e) (file_marker_node (fs_pid e) (fs_ts e) n)) s"

definition open_step :: "phase_input \<Rightarrow> string \<Rightarrow> raw_event \<Rightarrow> phase_state \<Rightarrow> phase_state" where
  "open_step inp line r s =
     (case fs_of r of
        Some e \<Rightarrow>
          (case (fs_errno e, fs_retFd e) of
             (None, Some fd) \<Rightarrow>
               s\<lparr>ph_proc := proc_open (pi_pcwd inp) (fs_pid e) (fs_dirfd e) (fs_path e) (int fd) (open_cloexec line)
                   (ph_proc s)\<rparr>
           | _ \<Rightarrow> s)
      | None \<Rightarrow> s)"

definition forgery_step :: "phase_input \<Rightarrow> attribution_result option \<Rightarrow> raw_event \<Rightarrow> phase_state \<Rightarrow> phase_state" where
  "forgery_step inp result r s =
     (case r of
        WriteEv e \<Rightarrow>
          if ef_canonical (pi_events inp) = None \<or> fs_pid e \<in> shimLoadedPids (ph_audit s) then s
          else (let (target, p) = canonicalizeOpenTarget (pi_pcwd inp) (fs_pid e) (fs_path e) (fs_dirfd e) (ph_proc s)
                in s\<lparr>ph_proc := p,
                     ph_audit := note_forgery (pi_events inp) target
                       (sample_attribution result (fs_pid e) (ph_snap s)) r (ph_audit s)\<rparr>)
      | _ \<Rightarrow> s)"

definition defer_rel :: "raw_event \<Rightarrow> (string \<times> lifecycle_stage) option \<Rightarrow> phase_state \<Rightarrow> phase_state" where
  "defer_rel r attr s =
     s\<lparr>ph_deferredRel := ph_deferredRel s @ [new_deferred r attr (raw_pid r \<in> everCwdShared (fst (ph_proc s)))]\<rparr>"

definition defer_null :: "raw_event \<Rightarrow> bool \<Rightarrow> phase_state \<Rightarrow> phase_state" where
  "defer_null r pending s = s\<lparr>ph_deferredNull := ph_deferredNull s @ [\<lparr>dl_raw = r, dl_pendingAtDefer = pending\<rparr>]\<rparr>"

definition canonical_for_emit :: "phase_input \<Rightarrow> fs_event \<Rightarrow> phase_state \<Rightarrow> string option \<times> phase_state" where
  "canonical_for_emit inp e s =
     (let (c, p) = canonicalizeForEmit (pi_pcwd inp) (fs_pid e) (fs_path e) (fs_dirfd e) (ph_proc s)
      in (c, s\<lparr>ph_proc := p\<rparr>))"

definition relative_open :: "fs_event \<Rightarrow> bool" where
  "relative_open e = (fs_dirfd e = None \<and> \<not> path_isAbsolute (fs_path e))"

text \<open>An event whose process has no package.\<close>

definition null_event :: "phase_input \<Rightarrow> raw_event \<Rightarrow> phase_state \<Rightarrow> phase_state" where
  "null_event inp r s =
     (case r of
        SpawnEv e \<Rightarrow>
          (case attributionSnapshotByPid (ph_snap s) (sp_pid e) of
             Some snap \<Rightarrow>
               emit_event inp (attributed r (if sn_stale snap then unattributed
                                             else attribution_of (sn_pkg snap) (sn_lifecycle snap))) s
           | None \<Rightarrow> defer_null r False s)
      | _ \<Rightarrow>
          (case fs_of r of
             None \<Rightarrow> s
           | Some e \<Rightarrow>
               if relative_open e then
                 (let (c, s) = canonical_for_emit inp e s in if c = None then defer_rel r None s else s)
               else if fs_dirfd e = None
                    then defer_null r (is_read r \<and> fs_pid e \<in> nodeBootstrapFilePendingPids (ph_node s)) s
               else s))"

definition is_events_file :: "phase_input \<Rightarrow> string \<Rightarrow> bool" where
  "is_events_file inp p =
     (ef_canonical (pi_events inp) \<noteq> None \<and>
      (Some p = ef_canonical (pi_events inp) \<or> Some p = ef_resolved (pi_events inp)))"

definition resolve_path :: "raw_event \<Rightarrow> fs_event \<Rightarrow> string \<Rightarrow> raw_event" where
  "resolve_path r e p = with_fs r (e\<lparr>fs_path := p\<rparr>)"

definition emit_unless_buffered :: "phase_input \<Rightarrow> attributed_event \<Rightarrow> phase_state \<Rightarrow> phase_state" where
  "emit_unless_buffered inp ev s =
     (let (buffered, n) = shouldBufferNodeBootstrapCandidateFileRead (pi_emit inp) ev (ph_node s);
          s = s\<lparr>ph_node := n\<rparr>
      in if buffered then s else emit_event inp ev s)"

text \<open>A read or write of a process whose package is known.\<close>

definition fs_step :: "phase_input \<Rightarrow> attribution_result \<Rightarrow> raw_event \<Rightarrow> fs_event \<Rightarrow> phase_state \<Rightarrow> phase_state" where
  "fs_step inp a r e s =
     (let (c, s) = canonical_for_emit inp e s
      in case c of
           None \<Rightarrow>
             if relative_open e then defer_rel r (Some (ar_pkg a, ar_lifecycle a)) s
             else s\<lparr>ph_audit := note_unresolved a r (ph_audit s)\<rparr>
         | Some p \<Rightarrow>
             if \<not> is_read r \<and> is_events_file inp p then s
             else (let r' = resolve_path r e p;
                       (filtered, n) = shouldFilterNodeBootstrapFileRead (pi_emit inp) r' (ph_node s);
                       s = s\<lparr>ph_node := n\<rparr>
                   in if filtered then s else emit_unless_buffered inp (attributed r' a) s))"

text \<open>What becomes of an event once its package is asked for: the answer, or \<open>None\<close>.\<close>

definition route_event :: "phase_input \<Rightarrow> attribution_result option \<Rightarrow> raw_event \<Rightarrow> phase_state \<Rightarrow> phase_state" where
  "route_event inp result r s =
     (case result of
        None \<Rightarrow> null_event inp r s
      | Some a \<Rightarrow> (case fs_of r of Some e \<Rightarrow> fs_step inp a r e s | None \<Rightarrow> emit_event inp (attributed r a) s))"

definition file_event :: "phase_input \<Rightarrow> proc_reader \<Rightarrow> string \<Rightarrow> raw_event \<Rightarrow> phase_state \<Rightarrow> phase_state" where
  "file_event inp reader line r s =
     (let (result, s) = attribute_now reader (raw_pid r) s;
          s = open_step inp line r s;
          s = s\<lparr>ph_audit := note_shim_load r (ph_audit s)\<rparr>;
          s = forgery_step inp result r s;
          s = record_attr (raw_pid r) result (event_ts r) s
      in route_event inp result r s)"

definition spawn_event_step :: "phase_input \<Rightarrow> proc_reader \<Rightarrow> spawn_event \<Rightarrow> phase_state \<Rightarrow> phase_state" where
  "spawn_event_step inp reader e s =
     (let (result, s) = attribute_now reader (sp_pid e) s;
          s = record_attr (sp_pid e) result (sp_ts e) s;
          s = (if sp_result e = SpawnOk
               then s\<lparr>ph_audit := sample_exec_ok (sample_attribution result (sp_pid e) (ph_snap s)) e (ph_audit s)\<rparr>
               else s)
      in route_event inp result (SpawnEv e) s)"

definition plain_event :: "phase_input \<Rightarrow> proc_reader \<Rightarrow> raw_event \<Rightarrow> phase_state \<Rightarrow> phase_state" where
  "plain_event inp reader r s =
     (let (result, s) = attribute_now reader (raw_pid r) s
      in route_event inp result r (record_attr (raw_pid r) result (event_ts r) s))"

definition strace_event ::
  "phase_input \<Rightarrow> proc_reader \<Rightarrow> string \<Rightarrow> raw_event \<Rightarrow> phase_state \<Rightarrow> phase_state option" where
  "strace_event inp reader line r s =
     (case r of
        SpawnEv e \<Rightarrow>
          map_option (spawn_event_step inp reader e)
            (if sp_result e = SpawnOk then exec_step inp line e s else Some s)
      | ReadEv e \<Rightarrow>
          if fs_path e = NODE_STARTUP_DONE_STRACE_PATH then file_marker e s
          else Some (file_event inp reader line r s)
      | WriteEv e \<Rightarrow> Some (file_event inp reader line r s)
      | _ \<Rightarrow> Some (plain_event inp reader r s))"

fun strace_events ::
  "phase_input \<Rightarrow> proc_reader \<Rightarrow> string \<Rightarrow> raw_event list \<Rightarrow> phase_state \<Rightarrow> phase_state option" where
  "strace_events inp reader line [] s = Some s"
| "strace_events inp reader line (r # rs) s =
     Option.bind (strace_event inp reader line r s) (strace_events inp reader line rs)"

section \<open>The loop\<close>

text \<open>One record of the iterator, with the process table as it stands when the record is read. \<open>it_ts\<close> is the
  time a canned runner supplies.\<close>

datatype source = Shim | Strace | OtherSource string

record item =
  it_pid :: int
  it_ts :: "nat option"
  it_source :: source
  it_line :: string
  it_reader :: proc_reader
  it_rootPid :: "int option"

definition strace_line ::
  "phase_input \<Rightarrow> proc_reader \<Rightarrow> int \<Rightarrow> nat \<Rightarrow> string \<Rightarrow> phase_state \<Rightarrow> phase_state option" where
  "strace_line inp reader pid lineTs line s =
     (if starts_with line ''+++'' \<and> ends_with line ''+++'' then Some (exit_line inp reader pid lineTs s)
      else case tracked_line line of
             Some (Cloned untraced child cloneFs cloneFiles) \<Rightarrow>
               Some (clone_line reader pid lineTs untraced child cloneFs cloneFiles s)
           | Some c \<Rightarrow> Some (s\<lparr>ph_proc := tracked_step (pi_pcwd inp) pid (int lineTs) c (ph_proc s)\<rparr>)
           | None \<Rightarrow>
               (case parseStraceLine line pid lineTs of
                  None \<Rightarrow> Some s
                | Some evs \<Rightarrow> strace_events inp reader line evs s))"

definition dispatch_item :: "phase_input \<Rightarrow> item \<Rightarrow> phase_state \<Rightarrow> phase_state option" where
  "dispatch_item inp it s =
     (let lineTs = (case it_ts it of Some t \<Rightarrow> t | None \<Rightarrow> ph_dispatchTs s);
          s = s\<lparr>ph_dispatchTs := ph_dispatchTs s + 1\<rparr>;
          s = seed_root inp (it_rootPid it) (it_pid it) s
      in case it_source it of
           Shim \<Rightarrow> shim_record inp (it_reader it) (it_pid it) lineTs (it_line it) s
         | Strace \<Rightarrow> strace_line inp (it_reader it) (it_pid it) lineTs (it_line it) s
         | OtherSource src \<Rightarrow> Some (setPhaseTamper (UnknownSource (it_pid it) (take 40 src)) s))"

fun dispatch_all :: "phase_input \<Rightarrow> item list \<Rightarrow> phase_state \<Rightarrow> phase_state option" where
  "dispatch_all inp [] s = Some s"
| "dispatch_all inp (it # its) s = Option.bind (dispatch_item inp it s) (dispatch_all inp its)"

section \<open>The end of the run\<close>

definition replay_rel_attr :: "deferred_rel \<Rightarrow> phase_state \<Rightarrow> attribution_result option" where
  "replay_rel_attr d s =
     (case dr_attr d of
        Some (p, l) \<Rightarrow> Some (attribution_of p l)
      | None \<Rightarrow>
          (case dr_inheritedAttrib d of
             Some (p, l) \<Rightarrow> Some (attribution_of p l)
           | None \<Rightarrow> resolveDeferredAttribution (childParentReused (ph_lineage s)) (raw_pid (dr_raw d)) (ph_snap s)))"

text \<open>Whether a replayed read fell into the start-up of Node, and the baseline it leaves.\<close>

definition replay_filter :: "phase_input \<Rightarrow> bool \<Rightarrow> raw_event \<Rightarrow> node_state \<Rightarrow> bool \<times> node_state" where
  "replay_filter inp inheritedPending r n =
     (case open_read (pi_emit inp) r of
        None \<Rightarrow> (False, n)
      | Some e \<Rightarrow>
          (let endedTs = nodeBootstrapFileEndedTs n (fs_pid e);
               ownWindow = (case endedTs of None \<Rightarrow> False | Some t \<Rightarrow> fs_ts e < t);
               readTimePending = ((inheritedPending \<and> (endedTs = None \<or> ownWindow)) \<or> ownWindow)
           in if readTimePending
              then (True, n\<lparr>nodeBootstrapFileReads := insert (fs_path e) (nodeBootstrapFileReads n)\<rparr>)
              else (fs_path e \<in> nodeBootstrapFileReads n, n)))"

definition replay_rel :: "phase_input \<Rightarrow> deferred_rel \<Rightarrow> phase_state \<Rightarrow> phase_state" where
  "replay_rel inp d s =
     (case (replay_rel_attr d s, fs_of (dr_raw d)) of
        (Some a, Some e) \<Rightarrow>
          (case deferred_path (pi_pcwd inp) (fst (ph_proc s)) (ph_lineage s) e d of
             None \<Rightarrow> s\<lparr>ph_audit := note_unresolved a (dr_raw d) (ph_audit s)\<rparr>
           | Some p \<Rightarrow>
               if \<not> is_read (dr_raw d) \<and> is_events_file inp p then s
               else (let r' = resolve_path (dr_raw d) e p;
                         (filtered, n) = replay_filter inp (dr_bootstrapPendingInherited d) r' (ph_node s);
                         s = s\<lparr>ph_node := n\<rparr>
                     in if filtered then s else emit_unless_buffered inp (attributed r' a) s))
      | _ \<Rightarrow> s)"

definition replay_null :: "phase_input \<Rightarrow> deferred_null \<Rightarrow> phase_state \<Rightarrow> phase_state" where
  "replay_null inp d s =
     (case resolveDeferredAttribution (childParentReused (ph_lineage s)) (raw_pid (dl_raw d)) (ph_snap s) of
        None \<Rightarrow> s
      | Some a \<Rightarrow>
          (case fs_of (dl_raw d) of
             None \<Rightarrow> emit_event inp (attributed (dl_raw d) a) s
           | Some e \<Rightarrow>
               (let (c, s) = canonical_for_emit inp e s
                in case c of
                     None \<Rightarrow> s
                   | Some p \<Rightarrow>
                       if \<not> is_read (dl_raw d) \<and> is_events_file inp p then s
                       else (let r' = resolve_path (dl_raw d) e p
                             in if open_read (pi_emit inp) r' \<noteq> None \<and> dl_pendingAtDefer d \<and>
                                   (case nodeBootstrapFileEndedTs (ph_node s) (fs_pid e) of
                                      None \<Rightarrow> True | Some t \<Rightarrow> fs_ts e < t)
                                then s else emit_unless_buffered inp (attributed r' a) s))))"

definition flush_candidates :: "phase_input \<Rightarrow> phase_state \<Rightarrow> phase_state" where
  "flush_candidates inp s =
     (let (evs, n) = flushAllNodeBootstrapCandidates (ph_node s) in emit_all inp evs (s\<lparr>ph_node := n\<rparr>))"

text \<open>Everybody the kernel or the preload saw executing.\<close>

definition executed_pids :: "audit_state \<Rightarrow> int set" where
  "executed_pids s =
     set (map fst (straceExecsByPid s)) \<union> set (map fst (filter (\<lambda>(pid, n). n > 0) (shimExecCountByPid s)))"

definition synthetic_events :: "audit_state \<Rightarrow> attributed_event list" where
  "synthetic_events s = synth_bypass s @ synth_forgery s @ synth_unresolved s"

definition finish_phase :: "phase_input \<Rightarrow> phase_state \<Rightarrow> phase_state" where
  "finish_phase inp s =
     (let s = (fold (replay_rel inp) (ph_deferredRel s) s)\<lparr>ph_deferredRel := []\<rparr>;
          s = (fold (replay_null inp) (ph_deferredNull s) s)\<lparr>ph_deferredNull := []\<rparr>;
          s = flush_candidates inp s;
          s = emit_all inp (synthetic_events (ph_audit s)) s;
          s = s\<lparr>ph_lineage := finalize_exec_cwd (executed_pids (ph_audit s)) (ph_lineage s)\<rparr>
      in s\<lparr>ph_emit := flush_root (pi_emit inp)
             (rootAnchored (work_dir inp) (ph_rootPid s) (pidRecycled (ph_snap s)) (fst (ph_proc s)) (ph_lineage s))
             (ph_emit s)\<rparr>)"

definition run_phase :: "phase_input \<Rightarrow> item list \<Rightarrow> phase_state option" where
  "run_phase inp its = map_option (finish_phase inp) (dispatch_all inp its (phase_init inp))"

end
