(* ===== verification/PhaseRun.thy ===== *)
theory PhaseRun
  imports Dispatcher
begin

text \<open>
  A whole run of \<^verbatim>\<open>runInstallPhase\<close> (\<^verbatim>\<open>src/guest/phase-install.ts\<close>), read as what it sends to the emitter.
  \<open>advances\<close> relates the states before and after a step: the events sent in between, the counts of
  executions, and that no verdict on the root is made up on the way. One rule per step, one for the
  composition; the theorems state what a run tells of the lines it was given.
\<close>

section \<open>What a step may do\<close>

text \<open>An event whose verdict on the root is still open. The preload's tampering events are the exception:
  their lines may carry one.\<close>

definition no_verdict :: "raw_event \<Rightarrow> bool" where
  "no_verdict r \<longleftrightarrow> anchor_field r = None \<or> anchor_field r = Some None \<or> (\<exists>e. r = EnvTamperEv e)"

definition buffers_open :: "node_state \<Rightarrow> bool" where
  "buffers_open n \<longleftrightarrow>
     (\<forall>pid evs. map_of (nodeBootstrapCandidateEventsByPid n) pid = Some evs \<longrightarrow> (\<forall>ev\<in>set evs. no_verdict (ev_raw ev)))"

text \<open>Who is filed below whom, for the loop over a process's descendants.\<close>

definition kids :: "node_state \<Rightarrow> (int \<times> int) set" where
  "kids n = node_edge (nodeBootstrapChildrenByPid n)"

lemma kids_upd [simp]:
  "kids (n\<lparr>nodeBootstrapEnvPendingPids := x1\<rparr>) = kids n"
  "kids (n\<lparr>nodeBootstrapFilePendingPids := x2\<rparr>) = kids n"
  "kids (n\<lparr>nodeBootstrapFileCompletedPids := x3\<rparr>) = kids n"
  "kids (n\<lparr>nodeBootstrapCandidateEventsByPid := x4\<rparr>) = kids n"
  "kids (n\<lparr>nodeBootstrapCandidateConfirmedPids := x5\<rparr>) = kids n"
  "kids (n\<lparr>nodeBootstrapCandidateFileMarkerPids := x6\<rparr>) = kids n"
  "kids (n\<lparr>nodeBootstrapEnvReads := x7\<rparr>) = kids n"
  "kids (n\<lparr>nodeBootstrapFileReads := x8\<rparr>) = kids n"
  "kids (n\<lparr>packageManagerClientPids := x9\<rparr>) = kids n"
  "kids (n\<lparr>completedPackageManagerClientPids := x10\<rparr>) = kids n"
  "kids (n\<lparr>nodeBootstrapFileEndedTs := x11\<rparr>) = kids n"
  "kids (n\<lparr>nodeBootstrapEnvEndedTs := x12\<rparr>) = kids n"
  by (simp_all add: kids_def)

definition queues_open :: "phase_state \<Rightarrow> bool" where
  "queues_open s \<longleftrightarrow> buffers_open (ph_node s) \<and> (\<forall>d\<in>set (ph_deferredRel s). no_verdict (dr_raw d)) \<and>
     (\<forall>d\<in>set (ph_deferredNull s). no_verdict (dl_raw d))"

definition audit_counts :: "audit_state \<Rightarrow> (int, exec_sample list) js_map \<times> (int, int) js_map" where
  "audit_counts a = (straceExecsByPid a, shimExecCountByPid a)"

definition advances :: "phase_input \<Rightarrow> audit_op list \<Rightarrow> phase_state \<Rightarrow> phase_state \<Rightarrow> bool" where
  "advances inp ops s s' \<longleftrightarrow>
     (\<exists>evs. ph_emit s' = fold (emit (pi_emit inp)) evs (ph_emit s) \<and>
        (queues_open s \<longrightarrow> queues_open s' \<and> (\<forall>ev\<in>set evs. no_verdict (ev_raw ev)))) \<and>
     audit_counts (ph_audit s') = audit_counts (fold audit_do ops (ph_audit s)) \<and>
     ph_tamper s' = ph_tamper s \<and> ph_dispatchTs s' = ph_dispatchTs s \<and> kids (ph_node s') \<subseteq> kids (ph_node s)"

lemma audit_counts_do:
  "audit_counts a = audit_counts b \<Longrightarrow> audit_counts (audit_do x a) = audit_counts (audit_do x b)"
  by (cases x) (simp_all add: audit_counts_def count_shim_exec_def sample_exec_ok_def Let_def)

lemma audit_counts_fold:
  "audit_counts a = audit_counts b \<Longrightarrow> audit_counts (fold audit_do ops a) = audit_counts (fold audit_do ops b)"
proof (induction ops arbitrary: a b)
  case (Cons x ops)
  from Cons.IH [OF audit_counts_do [OF Cons.prems]] show ?case by simp
qed simp

lemma adv_trans:
  assumes "advances inp ops s s'" "advances inp ops' s' s''"
  shows "advances inp (ops @ ops') s s''"
proof -
  from assms obtain evs evs' where
    "ph_emit s' = fold (emit (pi_emit inp)) evs (ph_emit s)"
    "queues_open s \<longrightarrow> queues_open s' \<and> (\<forall>ev\<in>set evs. no_verdict (ev_raw ev))"
    "ph_emit s'' = fold (emit (pi_emit inp)) evs' (ph_emit s')"
    "queues_open s' \<longrightarrow> queues_open s'' \<and> (\<forall>ev\<in>set evs'. no_verdict (ev_raw ev))"
    unfolding advances_def by blast
  then have "ph_emit s'' = fold (emit (pi_emit inp)) (evs @ evs') (ph_emit s)"
    "queues_open s \<longrightarrow> queues_open s'' \<and> (\<forall>ev\<in>set (evs @ evs'). no_verdict (ev_raw ev))" by auto
  moreover have "audit_counts (ph_audit s'') = audit_counts (fold audit_do (ops @ ops') (ph_audit s))"
    using assms audit_counts_fold [of "ph_audit s'" "fold audit_do ops (ph_audit s)" ops']
    by (simp add: advances_def)
  moreover have "ph_tamper s'' = ph_tamper s" "ph_dispatchTs s'' = ph_dispatchTs s" "kids (ph_node s'') \<subseteq> kids (ph_node s)"
    using assms by (auto simp: advances_def)
  ultimately show ?thesis unfolding advances_def by blast
qed

text \<open>A step without executions, before or after others.\<close>

lemma adv_quiet: "advances inp [] s s' \<Longrightarrow> advances inp ops s' s'' \<Longrightarrow> advances inp ops s s''"
  using adv_trans [of inp "[]" s s' ops s''] by simp

text \<open>Steps that send nothing.\<close>

definition idle :: "phase_state \<Rightarrow> phase_state \<Rightarrow> bool" where
  "idle s s' \<longleftrightarrow> ph_emit s' = ph_emit s \<and> audit_counts (ph_audit s') = audit_counts (ph_audit s) \<and>
     ph_tamper s' = ph_tamper s \<and> ph_dispatchTs s' = ph_dispatchTs s \<and> kids (ph_node s') \<subseteq> kids (ph_node s) \<and>
     (queues_open s \<longrightarrow> queues_open s')"

lemma adv_idle: "idle s s' \<Longrightarrow> advances inp [] s s'"
  by (auto simp: idle_def advances_def intro: exI [of _ "[]"])

lemma idle_trans: "idle s s' \<Longrightarrow> idle s' s'' \<Longrightarrow> idle s s''"
  by (auto simp: idle_def)

lemma idle_refl [simp]: "idle s s"
  by (simp add: idle_def)

lemma adv_refl: "advances inp [] s s"
  by (simp add: adv_idle)

lemma idle_adv: "idle s s' \<Longrightarrow> advances inp ops s' s'' \<Longrightarrow> advances inp ops s s''"
  by (rule adv_quiet [OF adv_idle])

lemma adv_emit: "no_verdict (ev_raw ev) \<Longrightarrow> advances inp [] s (emit_event inp ev s)"
  by (auto simp: advances_def emit_event_def queues_open_def intro!: exI [of _ "[ev]"])

section \<open>The node-bootstrap state\<close>

definition keeps_buffers :: "node_state \<Rightarrow> node_state \<Rightarrow> bool" where
  "keeps_buffers n n' \<longleftrightarrow> (buffers_open n \<longrightarrow> buffers_open n') \<and> kids n' \<subseteq> kids n"

lemma idle_node: "keeps_buffers (ph_node s) n \<Longrightarrow> idle s (s\<lparr>ph_node := n\<rparr>)"
  by (auto simp: idle_def queues_open_def keeps_buffers_def)

lemma keeps_same: "nodeBootstrapCandidateEventsByPid n' = nodeBootstrapCandidateEventsByPid n \<Longrightarrow>
    nodeBootstrapChildrenByPid n' = nodeBootstrapChildrenByPid n \<Longrightarrow> keeps_buffers n n'"
  by (simp add: keeps_buffers_def buffers_open_def kids_def)

lemma edges_delete: "node_edge (fold map_delete ks m) \<subseteq> node_edge m"
proof (induction ks arbitrary: m)
  case (Cons k ks)
  have "node_edge (map_delete k m) \<subseteq> node_edge m"
    by (auto simp: node_edge_def node_children_def jm.get_del split: if_splits)
  with Cons [of "map_delete k m"] show ?case by simp
qed simp

lemma keeps_trans: "keeps_buffers n n' \<Longrightarrow> keeps_buffers n' n'' \<Longrightarrow> keeps_buffers n n''"
  by (auto simp: keeps_buffers_def)

lemma keeps_forget: "keeps_buffers n (forget_candidate pid n)"
  by (auto simp: keeps_buffers_def buffers_open_def forget_candidate_def map_of_map_delete split: if_splits)

lemma keeps_put:
  "(buffers_open n \<Longrightarrow> \<forall>ev\<in>set evs. no_verdict (ev_raw ev)) \<Longrightarrow>
   keeps_buffers n (n\<lparr>nodeBootstrapCandidateEventsByPid := map_set pid evs (nodeBootstrapCandidateEventsByPid n)\<rparr>)"
  by (auto simp: keeps_buffers_def buffers_open_def jm.get_put split: if_splits)

lemma keeps_clear:
  "clearNodeBootstrap pid n = Some n' \<Longrightarrow> keeps_buffers n n'"
  "clearNodeBootstrapEnv pid n = Some n' \<Longrightarrow> keeps_buffers n n'"
  "clearNodeBootstrapFile pid n = Some n' \<Longrightarrow> keeps_buffers n n'"
  "beginNodeBootstrap pid n = Some n' \<Longrightarrow> keeps_buffers n n'"
  by (auto simp: clearNodeBootstrap_def clearNodeBootstrapEnv_def clearNodeBootstrapFile_def beginNodeBootstrap_def
      keeps_buffers_def buffers_open_def kids_def dest: subsetD [OF edges_delete])

lemma keeps_with_node:
  "with_node f s = Some s' \<Longrightarrow> (\<And>n'. f (ph_node s) = Some n' \<Longrightarrow> keeps_buffers (ph_node s) n') \<Longrightarrow> idle s s'"
  by (auto simp: with_node_def idle_node)

lemma flush_candidate_open:
  assumes "flushNodeBootstrapCandidate pid n = (evs, n')"
  shows "keeps_buffers n n'" "buffers_open n \<Longrightarrow> \<forall>ev\<in>set evs. no_verdict (ev_raw ev)"
  using assms keeps_forget [of n pid]
  by (auto simp: flushNodeBootstrapCandidate_def keeps_buffers_def buffers_open_def split: option.splits)

lemma begin_candidate_open:
  assumes "beginNodeBootstrapCandidate pid n = (evs, n')"
  shows "keeps_buffers n n'" "buffers_open n \<Longrightarrow> \<forall>ev\<in>set evs. no_verdict (ev_raw ev)"
proof -
  obtain m where m: "flushNodeBootstrapCandidate pid n = (evs, m)"
    and n': "nodeBootstrapCandidateEventsByPid n' = map_set pid [] (nodeBootstrapCandidateEventsByPid m)"
      "nodeBootstrapChildrenByPid n' = nodeBootstrapChildrenByPid m"
    using assms by (auto simp: beginNodeBootstrapCandidate_def Let_def split: prod.splits)
  have "keeps_buffers m n'" by (auto simp: keeps_buffers_def buffers_open_def kids_def n' jm.get_put split: if_splits)
  with flush_candidate_open(1) [OF m] show "keeps_buffers n n'" by (rule keeps_trans)
  show "buffers_open n \<Longrightarrow> \<forall>ev\<in>set evs. no_verdict (ev_raw ev)" by (rule flush_candidate_open(2) [OF m])
qed

lemma flush_each_open:
  "flush_each pids n = (evs, n') \<Longrightarrow> keeps_buffers n n' \<and> (buffers_open n \<longrightarrow> (\<forall>ev\<in>set evs. no_verdict (ev_raw ev)))"
proof (induction pids arbitrary: n evs)
  case Nil
  then show ?case by (simp add: keeps_buffers_def)
next
  case (Cons pid pids)
  obtain xs m ys where m: "flushNodeBootstrapCandidate pid n = (xs, m)" "flush_each pids m = (ys, n')" "evs = xs @ ys"
    using Cons.prems by (auto simp: Let_def split: prod.splits)
  note f = flush_candidate_open [OF m(1)] Cons.IH [OF m(2)]
  then show ?case using m(3) keeps_trans [OF f(1)] by (auto simp: keeps_buffers_def)
qed

lemma keeps_drop:
  "keeps_buffers n (dropNodeBootstrapCandidateAsNode pid n)"
  "keeps_buffers n (dropNodeBootstrapCandidateEnvReadsAsNode pid n)"
proof -
  show "keeps_buffers n (dropNodeBootstrapCandidateAsNode pid n)"
    using keeps_forget [of n pid]
    by (auto simp: dropNodeBootstrapCandidateAsNode_def keeps_buffers_def buffers_open_def split: option.splits)
  show "keeps_buffers n (dropNodeBootstrapCandidateEnvReadsAsNode pid n)"
    by (auto simp: dropNodeBootstrapCandidateEnvReadsAsNode_def keeps_buffers_def buffers_open_def jm.get_put
        split: option.splits if_splits)
qed

lemma keeps_confirm:
  "keeps_buffers n (snd (confirmNodeBootstrapCandidate pid n))"
  "keeps_buffers n (snd (completeNodeBootstrapCandidateFileMarker pid n))"
proof -
  have k: "keeps_buffers n m" if "keeps_buffers (n\<lparr>nodeBootstrapCandidateConfirmedPids := A\<rparr>) m" for A m
    using that by (simp add: keeps_buffers_def buffers_open_def)
  have k': "keeps_buffers n m" if "keeps_buffers (n\<lparr>nodeBootstrapCandidateFileMarkerPids := A\<rparr>) m" for A m
    using that by (simp add: keeps_buffers_def buffers_open_def)
  have refl: "keeps_buffers n n" by (rule keeps_same) simp_all
  show "keeps_buffers n (snd (confirmNodeBootstrapCandidate pid n))"
    unfolding confirmNodeBootstrapCandidate_def Let_def
    by (auto intro: refl k [OF keeps_drop(2)] k [OF keeps_trans [OF keeps_drop(2) keeps_drop(1)]])
  show "keeps_buffers n (snd (completeNodeBootstrapCandidateFileMarker pid n))"
    unfolding completeNodeBootstrapCandidateFileMarker_def Let_def
    by (auto intro: refl k' [OF keeps_drop(1)] keeps_same)
qed

lemma keeps_filters:
  "keeps_buffers n (snd (shouldFilterNodeBootstrapEnvRead r n))"
  "keeps_buffers n (snd (shouldFilterNodeBootstrapFileRead inp r n))"
  "keeps_buffers n (snd (replay_filter inp2 b r n))"
  by (auto simp: shouldFilterNodeBootstrapEnvRead_def shouldFilterNodeBootstrapFileRead_def
      replay_filter_def Let_def intro!: keeps_same split: raw_event.splits option.splits if_splits)

lemma propagate_open:
  "buffers_open n \<Longrightarrow> buffers_open (propagateNodeBootstrap parent child n)"
  "kids (propagateNodeBootstrap parent child n) \<subseteq> insert (child, parent) (kids n)"
  by (auto simp: propagateNodeBootstrap_def buffers_open_def kids_def node_edge_def node_children_def jm.get_put
      set_add_def Let_def split: if_splits option.splits)

lemma keeps_buffer:
  assumes "no_verdict (ev_raw ev)"
  shows "keeps_buffers n (snd (shouldBufferNodeBootstrapCandidateFileRead inp ev n))"
    "keeps_buffers n (snd (shouldBufferNodeBootstrapCandidateEnvRead ev n))"
proof -
  have "keeps_buffers n (snd (buffer_candidate pid A ev n))" for pid A
    using assms by (auto simp: buffer_candidate_def keeps_buffers_def buffers_open_def jm.get_put split: option.splits if_splits)
  then show "keeps_buffers n (snd (shouldBufferNodeBootstrapCandidateFileRead inp ev n))"
    "keeps_buffers n (snd (shouldBufferNodeBootstrapCandidateEnvRead ev n))"
    by (auto simp: shouldBufferNodeBootstrapCandidateFileRead_def shouldBufferNodeBootstrapCandidateEnvRead_def
        keeps_buffers_def split: option.splits raw_event.splits)
qed

section \<open>Small steps\<close>

lemma adv_emit_all:
  "queues_open s \<longrightarrow> (\<forall>ev\<in>set evs. no_verdict (ev_raw ev)) \<Longrightarrow> advances inp [] s (emit_all inp evs s)"
  by (auto simp: advances_def emit_all_def queues_open_def intro!: exI [of _ evs])

lemma adv_flush:
  assumes "keeps_buffers (ph_node s) n"
    "buffers_open (ph_node s) \<Longrightarrow> \<forall>ev\<in>set evs. no_verdict (ev_raw ev)"
  shows "advances inp [] s (emit_all inp evs (s\<lparr>ph_node := n\<rparr>))"
  using assms by (auto simp: advances_def emit_all_def queues_open_def keeps_buffers_def intro!: exI [of _ evs])

lemma adv_flush_candidate: "advances inp [] s (flush_candidate inp pid s)"
proof -
  obtain evs n where f: "flushNodeBootstrapCandidate pid (ph_node s) = (evs, n)" by fastforce
  show ?thesis using adv_flush [OF flush_candidate_open [OF f]] f by (simp add: flush_candidate_def)
qed

lemma idle_fields [simp]:
  "idle s (s\<lparr>ph_snap := sn\<rparr>)" "idle s (s\<lparr>ph_attr := at\<rparr>)" "idle s (s\<lparr>ph_proc := pr\<rparr>)" "idle s (s\<lparr>ph_lineage := li\<rparr>)"
  "idle s (s\<lparr>ph_rootPid := rp\<rparr>)"
  by (simp_all add: idle_def queues_open_def)

lemma idle_attribute: "attribute_now reader pid s = (r, s') \<Longrightarrow> idle s s'"
  by (auto simp: attribute_now_def split: prod.splits)

lemma idle_record: "idle s (record_attr pid r ts s)"
  by (simp add: record_attr_def split: option.splits)

lemma idle_canonical: "canonical_for_emit inp e s = (c, s') \<Longrightarrow> idle s s'"
  by (auto simp: canonical_for_emit_def split: prod.splits)

lemma idle_audit: "audit_counts a = audit_counts (ph_audit s) \<Longrightarrow> idle s (s\<lparr>ph_audit := a\<rparr>)"
  by (simp add: idle_def queues_open_def)

lemma counts_notes:
  "audit_counts (note_shim_load r a) = audit_counts a"
  "audit_counts (note_forgery ef t attr r a) = audit_counts a"
  "audit_counts (note_unresolved attr r a) = audit_counts a"
  "audit_counts (a\<lparr>shimLoadedPids := A\<rparr>) = audit_counts a"
  by (auto simp: audit_counts_def note_shim_load_def note_forgery_def note_unresolved_def
      split: raw_event.splits option.splits)

lemma idle_defer_rel: "no_verdict r \<Longrightarrow> idle s (defer_rel r a s)"
  by (auto simp: idle_def defer_rel_def queues_open_def new_deferred_def)

lemma idle_defer_null: "no_verdict r \<Longrightarrow> idle s (defer_null r b s)"
  by (auto simp: idle_def defer_null_def queues_open_def)

lemma adv_emit_unless_buffered: "no_verdict (ev_raw ev) \<Longrightarrow> advances inp [] s (emit_unless_buffered inp ev s)"
proof -
  assume v: "no_verdict (ev_raw ev)"
  let ?p = "shouldBufferNodeBootstrapCandidateFileRead (pi_emit inp) ev (ph_node s)"
  have "idle s (s\<lparr>ph_node := snd ?p\<rparr>)" by (rule idle_node) (rule keeps_buffer(1) [OF v])
  then show ?thesis
    using adv_emit [OF v] by (cases ?p) (auto simp: emit_unless_buffered_def Let_def adv_idle intro: idle_adv)
qed

section \<open>The handlers of the preload's lines\<close>

lemma idle_seed: "idle s (seed_root inp rp pid s)"
  by (simp add: seed_root_def idle_def queues_open_def)

lemma keeps_marks:
  "keeps_buffers n (client_starts pid n)" "keeps_buffers n (client_exits pid n)" "keeps_buffers n (client_forgotten pid n)"
  by (auto simp: client_starts_def client_exits_def client_forgotten_def intro: keeps_same)

lemma keeps_marker_node: "keeps_buffers n (marker_node pid ts n)"
proof -
  obtain b m where m: "confirmNodeBootstrapCandidate pid n = (b, m)" by fastforce
  have "keeps_buffers m (marker_node pid ts n)"
    by (rule keeps_same) (auto simp: marker_node_def m Let_def)
  with keeps_confirm(1) [of n pid] m show ?thesis by (auto intro: keeps_trans)
qed

lemma keeps_file_marker_node: "keeps_buffers n (file_marker_node pid ts n)"
proof -
  obtain b m where m: "completeNodeBootstrapCandidateFileMarker pid n = (b, m)" by fastforce
  have "keeps_buffers m (file_marker_node pid ts n)"
    by (rule keeps_same) (auto simp: file_marker_node_def m Let_def)
  with keeps_confirm(2) [of n pid] m show ?thesis by (auto intro: keeps_trans)
qed

lemma keeps_refl: "keeps_buffers n n"
  by (simp add: keeps_buffers_def)

lemma marker_line_idle:
  assumes "marker_line inp lineTs line pid ts s = Some s'"
  shows "idle s s'"
proof -
  let ?c = "\<lambda>n. if ph_rootPid s = Some pid then client_starts pid n else n"
  have "keeps_buffers n (?c n)" for n using keeps_marks(1) keeps_refl by simp
  then have "keeps_buffers n m" if "clearNodeBootstrapEnv pid (marker_node pid ts (?c n)) = Some m" for n m
    using keeps_clear(2) [OF that] keeps_marker_node keeps_trans by blast
  then have "idle (s\<lparr>ph_snap := sn\<rparr>) s'" if "with_node (\<lambda>n. clearNodeBootstrapEnv pid (marker_node pid ts (?c n)))
    (s\<lparr>ph_snap := sn\<rparr>) = Some s'" for sn
    by (rule keeps_with_node [OF that]) simp
  with assms show ?thesis unfolding marker_line_def by (blast intro: idle_trans [OF idle_fields(1)])
qed

lemma file_marker_idle: "file_marker e s = Some s' \<Longrightarrow> idle s s'"
  unfolding file_marker_def
  by (erule keeps_with_node) (blast intro: keeps_trans keeps_file_marker_node keeps_clear(3))

definition shim_ops :: "raw_event \<Rightarrow> audit_op list" where
  "shim_ops r = (case r of ExecEv e \<Rightarrow> [ShimExec (ex_pid e) (ex_result e)] | _ \<Rightarrow> [])"

lemma adv_audit:
  "audit_counts a = audit_counts (fold audit_do ops (ph_audit s)) \<Longrightarrow> advances inp ops s (s\<lparr>ph_audit := a\<rparr>)"
  by (auto simp: advances_def queues_open_def intro: exI [of _ "[]"])

lemma adv_count: "advances inp (shim_ops r) s (count_event r s)"
  by (auto simp: shim_ops_def count_event_def adv_refl intro: adv_audit split: raw_event.split)

lemma adv_append: "advances inp ops s s' \<Longrightarrow> advances inp [] s' s'' \<Longrightarrow> advances inp ops s s''"
  using adv_trans [of inp ops s s' "[]" s''] by simp

lemma idle_filter_env: "filter_env r s = (b, s') \<Longrightarrow> idle s s'"
  using keeps_filters(1) [of "ph_node s" r] by (auto simp: filter_env_def intro: idle_node split: prod.splits)

lemma adv_shim_emit:
  assumes v: "no_verdict r"
  shows "advances inp [] s (shim_emit inp r a s)"
proof -
  have ev: "no_verdict (ev_raw (attributed r a))" using v by (simp add: attributed_def)
  obtain b n where b: "shouldBufferNodeBootstrapCandidateEnvRead (attributed r a) (ph_node s) = (b, n)" by fastforce
  have "idle s (s\<lparr>ph_node := n\<rparr>)" by (rule idle_node) (use keeps_buffer(2) [OF ev, of "ph_node s"] b in simp)
  then show ?thesis using adv_emit [OF ev] b by (auto simp: shim_emit_def Let_def intro: adv_idle idle_adv)
qed

lemma shim_event_line_advances:
  assumes v: "no_verdict r"
  shows "advances inp (shim_ops r) s (shim_event_line inp reader lineTs line r s)"
proof -
  obtain result s1 where s1: "attribute_now reader (raw_pid r) s = (result, s1)" by fastforce
  obtain b s2 where s2: "filter_env r (count_event r s1) = (b, s2)" by fastforce
  have adv: "advances inp (shim_ops r) s s2"
    using idle_attribute [OF s1] adv_count idle_filter_env [OF s2] by (blast intro: idle_adv adv_append adv_idle)
  have "advances inp [] s2 (shim_emit inp r a (record_attr p x t s2))" for a p x t
    by (rule idle_adv [OF idle_record adv_shim_emit [OF v]])
  then show ?thesis
    using adv s1 s2 by (auto simp: shim_event_line_def Let_def intro: adv_append split: option.splits)
qed

section \<open>The handlers of the lines of strace\<close>

lemma exit_line_advances: "advances inp [] s (exit_line inp reader pid lineTs s)"
proof -
  let ?s = "flush_candidate inp pid (s\<lparr>ph_snap := saw_exit pid (ph_snap s)\<rparr>)"
  let ?t = "?s\<lparr>ph_node := client_exits pid (ph_node ?s)\<rparr>"
  obtain live u where u: "attribute_now reader pid (?t\<lparr>ph_attr := invalidate pid (ph_attr ?t)\<rparr>) = (live, u)" by fastforce
  define v where "v = (if live = None then u\<lparr>ph_snap := markStale pid (ph_snap u)\<rparr> else record_attr pid live lineTs u)"
  have eq: "exit_line inp reader pid lineTs s = v\<lparr>ph_attr := invalidate pid (ph_attr v)\<rparr>"
    using u unfolding exit_line_def v_def Let_def by simp
  have su: "idle ?s u"
    by (rule idle_trans [OF idle_trans [OF idle_node [OF keeps_marks(2)] idle_fields(2)] idle_attribute [OF u]])
  have uv: "idle u v" by (simp add: v_def idle_record)
  have "idle ?s (exit_line inp reader pid lineTs s)"
    unfolding eq by (rule idle_trans [OF idle_trans [OF su uv] idle_fields(2)])
  from idle_adv [OF idle_fields(1) adv_append [OF adv_flush_candidate adv_idle [OF this]]] show ?thesis .
qed

lemma idle_fresh_or_sample: "fresh_or_sample known reader pid s = (r, s') \<Longrightarrow> idle s s'"
  by (auto simp: fresh_or_sample_def idle_attribute split: option.splits)

lemma idle_clone_tables: "clone_tables pid childPid lineTs cloneFs cloneFiles s = (p, s') \<Longrightarrow> idle s s'"
  by (auto simp: clone_tables_def Let_def idle_def queues_open_def split: prod.splits)

lemma idle_clone_deferred: "idle s (clone_deferred reader pid childPid cloneFs parentCwd s)"
proof -
  obtain a s1 where a: "fresh_or_sample (freshSnapshotAttribution pid (ph_snap s)) reader pid s = (a, s1)" by fastforce
  have "dr_raw ` set (stampDeferredRelOpens c p fs at pid b ds) \<subseteq> dr_raw ` set ds" for c p fs at b ds
    by (auto simp: stampDeferredRelOpens_def Let_def image_iff)
  then have "idle s1 (clone_deferred reader pid childPid cloneFs parentCwd s)"
    using a by (fastforce simp: clone_deferred_def idle_def queues_open_def)
  with idle_fresh_or_sample [OF a] show ?thesis by (rule idle_trans)
qed

lemma idle_clone_attribution: "idle s (clone_attribution reader pid childPid lineTs s)"
proof -
  obtain a s1 where a: "fresh_or_sample (usable_snapshot pid (ph_snap s)) reader pid s = (a, s1)" by fastforce
  then show ?thesis
    using idle_trans [OF idle_fresh_or_sample [OF a] idle_record]
    by (auto simp: clone_attribution_def Let_def intro: idle_trans [OF _ idle_record])
qed

lemma clone_child_idle:
  "idle (s\<lparr>ph_node := propagateNodeBootstrap pid childPid (ph_node s)\<rparr>)
     (clone_child reader pid childPid lineTs cloneFs cloneFiles s)"
proof -
  let ?s = "s\<lparr>ph_node := propagateNodeBootstrap pid childPid (ph_node s)\<rparr>"
  obtain p s1 where p: "clone_tables pid childPid lineTs cloneFs cloneFiles ?s = (p, s1)" by fastforce
  let ?t = "clone_deferred reader pid childPid cloneFs p s1"
  have "idle ?s ?t" by (rule idle_trans [OF idle_clone_tables [OF p] idle_clone_deferred])
  moreover have "idle ?t (if b then ?t\<lparr>ph_audit := (ph_audit ?t)\<lparr>shimLoadedPids := A\<rparr>\<rparr> else ?t)" for b A
    by (simp add: idle_audit counts_notes)
  ultimately have "idle ?s (if b then ?t\<lparr>ph_audit := (ph_audit ?t)\<lparr>shimLoadedPids := A\<rparr>\<rparr> else ?t)" for b A
    by (rule idle_trans)
  from idle_trans [OF this idle_clone_attribution] show ?thesis
    unfolding clone_child_def Let_def p prod.case .
qed

lemma begin_candidate_advances: "advances inp [] s (begin_candidate inp pid s)"
proof -
  obtain evs n where f: "beginNodeBootstrapCandidate pid (ph_node s) = (evs, n)" by fastforce
  show ?thesis using adv_flush [OF begin_candidate_open [OF f]] f by (simp add: begin_candidate_def)
qed

lemma exec_node_advances: "exec_node inp line e s = Some s' \<Longrightarrow> advances inp [] s s'"
  by (auto simp: exec_node_def split: if_splits
      intro: adv_idle keeps_with_node keeps_clear idle_adv [OF keeps_with_node begin_candidate_advances])

lemma exec_before_advances: "advances inp [] s (exec_before inp pid s)"
proof -
  obtain l cs where l: "note_exec_cwd pid (fst (ph_proc s)) (ph_lineage s) = (l, cs)" by fastforce
  let ?s = "s\<lparr>ph_snap := saw_exec pid (ph_snap s), ph_lineage := l, ph_proc := (cs, snd (ph_proc s))\<rparr>"
  let ?t = "flush_candidate inp pid ?s"
  let ?A = "shimLoadedPids (ph_audit ?t) - {pid}"
  have s: "idle s ?s" by (simp add: idle_def queues_open_def)
  have t: "idle ?t (?t\<lparr>ph_node := client_forgotten pid (ph_node ?t), ph_audit := (ph_audit ?t)\<lparr>shimLoadedPids := ?A\<rparr>\<rparr>)"
    using idle_trans [OF idle_node [OF keeps_marks(3), of ?t pid] idle_audit [OF counts_notes(4), of _ ?A]] by simp
  have "exec_before inp pid s = ?t\<lparr>ph_node := client_forgotten pid (ph_node ?t), ph_audit := (ph_audit ?t)\<lparr>shimLoadedPids := ?A\<rparr>\<rparr>"
    using l by (simp add: exec_before_def Let_def)
  with idle_adv [OF s adv_append [OF adv_flush_candidate adv_idle [OF t]]] show ?thesis by simp
qed

lemma exec_after_idle: "idle s (exec_after line e s)"
  by (auto simp: exec_after_def Let_def idle_def queues_open_def buffers_open_def)

lemma exec_step_advances:
  assumes "exec_step inp line e s = Some s'"
  shows "advances inp [] s s'"
proof -
  obtain t where t: "exec_node inp line e (exec_before inp (sp_pid e) s) = Some t" "s' = exec_after line e t"
    using assms by (auto simp: exec_step_def)
  show ?thesis unfolding t(2)
    by (rule adv_quiet [OF exec_before_advances adv_append [OF exec_node_advances [OF t(1)] adv_idle [OF exec_after_idle]]])
qed

lemma idle_open_step: "idle s (open_step inp line r s)"
  by (simp add: open_step_def split: option.splits)

lemma idle_forgery_step: "idle s (forgery_step inp result r s)"
  by (auto simp: forgery_step_def idle_def queues_open_def counts_notes Let_def split: raw_event.splits prod.splits)

lemma null_event_advances:
  assumes v: "no_verdict r"
  shows "advances inp [] s (null_event inp r s)"
proof -
  have e: "advances inp [] s (emit_event inp (attributed r' a) s)" if "no_verdict r'" for r' a
    using that by (simp add: adv_emit attributed_def)
  have d: "advances inp [] s (defer_null r' b s)" if "no_verdict r'" for r' b
    by (rule adv_idle [OF idle_defer_null [OF that]])
  have c: "advances inp [] s s'" "no_verdict r' \<Longrightarrow> advances inp [] s (defer_rel r' None s')"
    if "canonical_for_emit inp x s = (c, s')" for x c s' r'
    using idle_canonical [OF that] idle_defer_rel [of r' s' None] by (auto intro: adv_idle idle_trans)
  show ?thesis
    using v by (auto simp: null_event_def Let_def e d adv_refl c split: raw_event.split option.split prod.split)
qed

lemma with_fs_verdict: "no_verdict r \<Longrightarrow> fs_of r = Some e \<Longrightarrow> no_verdict (resolve_path r e p)"
  by (cases r) (auto simp: no_verdict_def resolve_path_def)

lemma fs_step_advances:
  assumes v: "no_verdict r" and e: "fs_of r = Some e"
  shows "advances inp [] s (fs_step inp a r e s)"
proof -
  obtain c s1 where c: "canonical_for_emit inp e s = (c, s1)" by fastforce
  have v': "no_verdict (ev_raw (attributed (resolve_path r e p) a))" for p
    using with_fs_verdict [OF v e] by (simp add: attributed_def)
  have f: "advances inp [] s1 (s1\<lparr>ph_node := n\<rparr>)"
    "advances inp [] s1 (emit_unless_buffered inp (attributed (resolve_path r e p) a) (s1\<lparr>ph_node := n\<rparr>))"
    if "shouldFilterNodeBootstrapFileRead (pi_emit inp) r' (ph_node s1) = (b, n)" for r' b n p
  proof -
    have i: "idle s1 (s1\<lparr>ph_node := n\<rparr>)"
      using keeps_filters(2) [of "ph_node s1" "pi_emit inp" r'] that by (auto intro: idle_node)
    show "advances inp [] s1 (s1\<lparr>ph_node := n\<rparr>)" by (rule adv_idle [OF i])
    show "advances inp [] s1 (emit_unless_buffered inp (attributed (resolve_path r e p) a) (s1\<lparr>ph_node := n\<rparr>))"
      by (rule idle_adv [OF i adv_emit_unless_buffered [OF v']])
  qed
  have d: "advances inp [] s1 (defer_rel r x s1)" "advances inp [] s1 (s1\<lparr>ph_audit := note_unresolved a r (ph_audit s1)\<rparr>)" for x
    by (rule adv_idle, rule idle_defer_rel [OF v]) (rule adv_idle, rule idle_audit, rule counts_notes(3))
  have "advances inp [] s1 (fs_step inp a r e s)"
    using c by (auto simp: fs_step_def Let_def f d adv_refl split: option.split prod.split)
  with idle_canonical [OF c] show ?thesis by (rule idle_adv)
qed

lemma route_event_advances: "no_verdict r \<Longrightarrow> advances inp [] s (route_event inp result r s)"
  by (auto simp: route_event_def null_event_advances fs_step_advances adv_emit attributed_def split: option.split)

lemma file_event_advances:
  assumes "no_verdict r"
  shows "advances inp [] s (file_event inp reader line r s)"
proof -
  obtain result s1 where a: "attribute_now reader (raw_pid r) s = (result, s1)" by fastforce
  let ?t = "open_step inp line r s1"
  let ?u = "?t\<lparr>ph_audit := note_shim_load r (ph_audit ?t)\<rparr>"
  let ?v = "record_attr (raw_pid r) result (event_ts r) (forgery_step inp result r ?u)"
  have "idle ?t ?u" by (rule idle_audit) (rule counts_notes)
  then have "idle s ?v"
    by (rule idle_trans [OF idle_trans [OF idle_attribute [OF a] idle_open_step]
          idle_trans [OF _ idle_trans [OF idle_forgery_step idle_record]]])
  from idle_adv [OF this route_event_advances [OF assms]] show ?thesis
    unfolding file_event_def a Let_def prod.case .
qed

lemma plain_event_advances:
  assumes "no_verdict r"
  shows "advances inp [] s (plain_event inp reader r s)"
proof -
  obtain result s1 where a: "attribute_now reader (raw_pid r) s = (result, s1)" by fastforce
  from idle_adv [OF idle_trans [OF idle_attribute [OF a] idle_record] route_event_advances [OF assms]]
  show ?thesis unfolding plain_event_def a Let_def prod.case .
qed

text \<open>The successful executions of a process among the events of a line.\<close>

definition ok_spawns :: "int \<Rightarrow> raw_event list \<Rightarrow> spawn_event list" where
  "ok_spawns pid rs = List.map_filter (\<lambda>r. case r of
     SpawnEv e \<Rightarrow> if sp_result e = SpawnOk \<and> sp_pid e = pid then Some e else None | _ \<Rightarrow> None) rs"

lemma ok_spawns_simps [simp]:
  "ok_spawns pid [] = []"
  "ok_spawns pid (SpawnEv e # rs) = (if sp_result e = SpawnOk \<and> sp_pid e = pid then e # ok_spawns pid rs else ok_spawns pid rs)"
  "(\<forall>e. r \<noteq> SpawnEv e) \<Longrightarrow> ok_spawns pid (r # rs) = ok_spawns pid rs"
  by (auto simp: ok_spawns_def List.map_filter_def split: raw_event.splits)

text \<open>The steps of a run with what they count, for the theorem about executions.\<close>

definition counts :: "(int \<Rightarrow> exec_result list) \<Rightarrow> (int \<Rightarrow> spawn_event list) \<Rightarrow> audit_op list \<Rightarrow> bool" where
  "counts announced seen ops \<longleftrightarrow> (\<forall>pid. shim_results pid ops = announced pid \<and> strace_execs pid ops = seen pid)"

lemma spawn_event_advances:
  assumes v: "no_verdict (SpawnEv e)"
  shows "\<exists>ops. advances inp ops s (spawn_event_step inp reader e s) \<and> counts (\<lambda>_. []) (\<lambda>pid. ok_spawns pid [SpawnEv e]) ops"
proof -
  obtain result s1 where a: "attribute_now reader (sp_pid e) s = (result, s1)" by fastforce
  let ?t = "record_attr (sp_pid e) result (sp_ts e) s1"
  let ?attr = "sample_attribution result (sp_pid e) (ph_snap ?t)"
  let ?ops = "if sp_result e = SpawnOk then [StraceExec ?attr e] else []"
  define u where "u = (if sp_result e = SpawnOk
    then ?t\<lparr>ph_audit := sample_exec_ok ?attr e (ph_audit ?t)\<rparr> else ?t)"
  have "advances inp ?ops ?t u" by (auto simp: u_def adv_refl intro: adv_audit)
  then have "advances inp ?ops s u" by (rule idle_adv [OF idle_trans [OF idle_attribute [OF a] idle_record]])
  from adv_append [OF this route_event_advances [OF v]]
  have "advances inp ?ops s (spawn_event_step inp reader e s)"
    unfolding spawn_event_step_def a Let_def prod.case u_def .
  then show ?thesis by (rule exI [of _ ?ops, OF conjI]) (auto simp: counts_def)
qed

lemma counts_none: "counts (\<lambda>_. []) (\<lambda>_. []) []"
  by (simp add: counts_def)

lemma counts_append: "counts f g ops \<Longrightarrow> counts f' g' ops' \<Longrightarrow> counts (\<lambda>p. f p @ f' p) (\<lambda>p. g p @ g' p) (ops @ ops')"
  by (simp add: counts_def)

lemma strace_event_advances:
  assumes "strace_event inp reader line r s = Some s'" and v: "no_verdict r"
  shows "\<exists>ops. advances inp ops s s' \<and> counts (\<lambda>_. []) (\<lambda>pid. ok_spawns pid [r]) ops"
proof (cases "\<exists>e. r = SpawnEv e")
  case True
  then obtain e where r: "r = SpawnEv e" ..
  from assms(1) obtain t where t: "(if sp_result e = SpawnOk then exec_step inp line e s else Some s) = Some t"
    "s' = spawn_event_step inp reader e t" by (auto simp: strace_event_def r)
  have "advances inp [] s t" using t(1) by (auto simp: adv_refl exec_step_advances split: if_splits)
  with spawn_event_advances [of e inp t reader] v show ?thesis unfolding t(2) r by (blast intro: adv_quiet)
next
  case False
  have "advances inp [] s s'"
    using assms False
    by (auto simp: strace_event_def file_event_advances plain_event_advances split: raw_event.splits if_splits
        intro: adv_idle file_marker_idle)
  then show ?thesis using False by (intro exI [of _ "[]"]) (simp add: counts_def)
qed

lemma strace_events_advances:
  "strace_events inp reader line rs s = Some s' \<Longrightarrow> \<forall>r\<in>set rs. no_verdict r \<Longrightarrow>
   \<exists>ops. advances inp ops s s' \<and> counts (\<lambda>_. []) (\<lambda>pid. ok_spawns pid rs) ops"
proof (induction rs arbitrary: s)
  case Nil
  then show ?case by (auto intro: adv_refl counts_none)
next
  case (Cons r rs)
  then obtain t where t: "strace_event inp reader line r s = Some t" "strace_events inp reader line rs t = Some s'"
    by (auto simp: bind_eq_Some_conv)
  obtain ops ops' where o: "advances inp ops s t" "counts (\<lambda>_. []) (\<lambda>pid. ok_spawns pid [r]) ops"
    "advances inp ops' t s'" "counts (\<lambda>_. []) (\<lambda>pid. ok_spawns pid rs) ops'"
    using strace_event_advances [OF t(1)] Cons.IH [OF t(2)] Cons.prems(2) by auto
  have "ok_spawns pid (r # rs) = ok_spawns pid [r] @ ok_spawns pid rs" for pid
    by (simp add: ok_spawns_def List.map_filter_def)
  with adv_trans [OF o(1,3)] counts_append [OF o(2,4)] show ?case by auto
qed

section \<open>What the lines themselves say\<close>

text \<open>A line after which the audit cannot be trusted, the executions a line of the preload announces, and
  those a line of strace shows. None of them depends on the state of the run.\<close>

definition item_tamper :: "phase_input \<Rightarrow> item \<Rightarrow> tamper option" where
  "item_tamper inp it =
     (case it_source it of
        Shim \<Rightarrow> if parseShimLine (pi_parse inp) (it_line it) = None
                then Some (Unparseable (it_pid it) (take MAX_PREFIX (it_line it))) else None
      | Strace \<Rightarrow>
          if starts_with (it_line it) ''+++'' \<and> ends_with (it_line it) ''+++'' then None
          else (case tracked_line (it_line it) of
                  Some (Cloned True _ _ _) \<Rightarrow> Some (Untraced (it_pid it))
                | _ \<Rightarrow> None)
      | OtherSource src \<Rightarrow> Some (UnknownSource (it_pid it) (take 40 src)))"

definition announced_by :: "phase_input \<Rightarrow> item \<Rightarrow> int \<Rightarrow> exec_result list" where
  "announced_by inp it pid =
     (case it_source it of
        Shim \<Rightarrow> (case parseShimLine (pi_parse inp) (it_line it) of
                   Some (ShimRaw (ExecEv e)) \<Rightarrow> if ex_pid e = pid then [ex_result e] else []
                 | _ \<Rightarrow> [])
      | _ \<Rightarrow> [])"

definition item_time :: "nat \<Rightarrow> item \<Rightarrow> nat" where
  "item_time n it = (case it_ts it of Some t \<Rightarrow> t | None \<Rightarrow> n)"

definition seen_by :: "nat \<Rightarrow> item \<Rightarrow> int \<Rightarrow> spawn_event list" where
  "seen_by n it pid =
     (if it_source it = Strace \<and> \<not> (starts_with (it_line it) ''+++'' \<and> ends_with (it_line it) ''+++'') \<and>
         tracked_line (it_line it) = None
      then (case parseStraceLine (it_line it) (it_pid it) (item_time n it) of
              None \<Rightarrow> [] | Some evs \<Rightarrow> ok_spawns pid evs)
      else [])"

fun first_tamper :: "phase_input \<Rightarrow> item list \<Rightarrow> tamper option" where
  "first_tamper inp [] = None"
| "first_tamper inp (it # its) = or_else (item_tamper inp it) (first_tamper inp its)"

fun announced :: "phase_input \<Rightarrow> item list \<Rightarrow> int \<Rightarrow> exec_result list" where
  "announced inp [] pid = []"
| "announced inp (it # its) pid = announced_by inp it pid @ announced inp its pid"

fun seen :: "nat \<Rightarrow> item list \<Rightarrow> int \<Rightarrow> spawn_event list" where
  "seen n [] pid = []"
| "seen n (it # its) pid = seen_by n it pid @ seen (Suc n) its pid"

section \<open>One record\<close>

lemma parsed_no_verdict:
  assumes "parseStraceLine line pid ts = Some evs"
  shows "\<forall>r\<in>set evs. no_verdict r"
proof
  fix r assume "r \<in> set evs"
  from parsed_stamped [OF assms this] show "no_verdict r" by (cases r) (simp_all add: no_verdict_def)
qed

lemma shim_kinds:
  assumes "(if c1 then map_option ShimRaw a else if c2 then map_option ShimRaw b
    else if c3 then map_option (ShimRaw \<circ> ExecEv) x else if c4 then map_option (ShimRaw \<circ> EnvTamperEv) t
    else if c5 then y else None) = Some (ShimRaw r)"
  shows "a = Some r \<or> b = Some r \<or> (\<exists>e. r = ExecEv e) \<or> (\<exists>e. r = EnvTamperEv e) \<or> y = Some (ShimRaw r)"
  using assms by (auto split: if_splits)

lemma shim_no_verdict:
  assumes "parseShimLine parse line = Some (ShimRaw r)"
  shows "no_verdict r"
proof -
  obtain obj where obj: "parse line = Some obj"
    using assms unfolding parseShimLine_def by (cases "parse line") simp_all
  have "no_verdict r" if "env_read_line obj = Some r"
    using that by (auto simp: env_read_line_def no_verdict_def bind_eq_Some_conv)
  moreover have "no_verdict r" if "dlopen_line obj = Some r"
    using that by (auto simp: dlopen_line_def no_verdict_def bind_eq_Some_conv)
  moreover have "startup_line obj \<noteq> Some (ShimRaw r)"
    by (auto simp: startup_line_def bind_eq_Some_conv)
  moreover note shim_kinds [OF assms [unfolded parseShimLine_def obj option.case Let_def]]
  ultimately show ?thesis by (auto simp: no_verdict_def)
qed

lemma queues_tamper [simp]: "queues_open (s\<lparr>ph_tamper := t\<rparr>) \<longleftrightarrow> queues_open s"
  by (simp add: queues_open_def)

lemma idle_tamper: "idle s s' \<Longrightarrow> idle (s\<lparr>ph_tamper := t\<rparr>) (s'\<lparr>ph_tamper := t\<rparr>)"
  by (simp add: idle_def queues_tamper)

lemma setPhaseTamper_eq: "setPhaseTamper reason s = s\<lparr>ph_tamper := or_else (ph_tamper s) (Some reason)\<rparr>"
  by (auto simp: setPhaseTamper_def or_else_def split: option.split)

lemma shim_record_advances:
  assumes "shim_record inp reader pid lineTs line s = Some s'"
  shows "\<exists>ops. advances inp ops (s\<lparr>ph_tamper := or_else (ph_tamper s)
      (if parseShimLine (pi_parse inp) line = None then Some (Unparseable pid (take MAX_PREFIX line)) else None)\<rparr>) s' \<and>
    counts (\<lambda>p. case parseShimLine (pi_parse inp) line of
      Some (ShimRaw (ExecEv e)) \<Rightarrow> if ex_pid e = p then [ex_result e] else [] | _ \<Rightarrow> []) (\<lambda>_. []) ops"
proof (cases "parseShimLine (pi_parse inp) line")
  case None
  then show ?thesis using assms
    by (intro exI [of _ "[]"]) (auto simp: shim_record_def setPhaseTamper_eq adv_refl counts_def)
next
  case (Some ev)
  have same: "s\<lparr>ph_tamper := or_else (ph_tamper s) None\<rparr> = s" by (simp add: or_else_def split: option.split)
  show ?thesis
  proof (cases ev)
    case (ShimRaw r)
    then have "advances inp (shim_ops r) s s'"
      using assms Some shim_event_line_advances [OF shim_no_verdict] by (auto simp: shim_record_def)
    then show ?thesis unfolding Some ShimRaw
      by (intro exI [of _ "shim_ops r"]) (auto simp: same counts_def shim_ops_def split: raw_event.split)
  next
    case (NodeStartupDone p ts)
    then have "idle s s'" using assms Some by (auto simp: shim_record_def intro: marker_line_idle)
    then show ?thesis unfolding Some NodeStartupDone
      by (intro exI [of _ "[]"]) (auto simp: same counts_def adv_idle)
  qed
qed

lemma or_else_None [simp]: "or_else a None = a" "or_else None b = b"
  by (simp_all add: or_else_def split: option.split)

lemma or_else_assoc: "or_else (or_else a b) c = or_else a (or_else b c)"
  by (simp add: or_else_def split: option.split)

lemma same_tamper [simp]: "s\<lparr>ph_tamper := ph_tamper s\<rparr> = s"
  by simp

definition line_tamper :: "int \<Rightarrow> string \<Rightarrow> tamper option" where
  "line_tamper pid line =
     (if starts_with line ''+++'' \<and> ends_with line ''+++'' then None
      else (case tracked_line line of Some (Cloned True _ _ _) \<Rightarrow> Some (Untraced pid) | _ \<Rightarrow> None))"

definition line_spawns :: "int \<Rightarrow> nat \<Rightarrow> string \<Rightarrow> int \<Rightarrow> spawn_event list" where
  "line_spawns pid ts line p =
     (if \<not> (starts_with line ''+++'' \<and> ends_with line ''+++'') \<and> tracked_line line = None
      then (case parseStraceLine line pid ts of None \<Rightarrow> [] | Some evs \<Rightarrow> ok_spawns p evs) else [])"

text \<open>The edge a line adds.\<close>

definition line_edges :: "int \<Rightarrow> string \<Rightarrow> (int \<times> int) set" where
  "line_edges pid line =
     (case tracked_line line of Some (Cloned _ (Some child) _ _) \<Rightarrow> if child \<le> 0 then {} else {(child, pid)} | _ \<Rightarrow> {})"

definition grown :: "(int \<times> int) set \<Rightarrow> node_state \<Rightarrow> node_state \<Rightarrow> bool" where
  "grown E n n' \<longleftrightarrow> (buffers_open n \<longrightarrow> buffers_open n') \<and> kids n' \<subseteq> kids n \<union> E"

lemma grown_same: "grown E n n"
  by (auto simp: grown_def)

lemma same_node [simp]: "s\<lparr>ph_node := ph_node s\<rparr> = s" "s\<lparr>ph_tamper := t, ph_node := ph_node s\<rparr> = s\<lparr>ph_tamper := t\<rparr>"
  by simp_all

lemma clone_line_idle:
  "\<exists>n. grown (case child of None \<Rightarrow> {} | Some c \<Rightarrow> if c \<le> 0 then {} else {(c, pid)}) (ph_node s) n \<and>
     idle (s\<lparr>ph_tamper := or_else (ph_tamper s) (if u then Some (Untraced pid) else None), ph_node := n\<rparr>)
       (clone_line reader pid lineTs u child cloneFs cloneFiles s)"
proof -
  let ?t = "if u then setPhaseTamper (Untraced pid) s else s"
  have t: "?t = s\<lparr>ph_tamper := or_else (ph_tamper s) (if u then Some (Untraced pid) else None)\<rparr>"
    by (simp add: setPhaseTamper_eq)
  show ?thesis
  proof (cases "\<exists>c. child = Some c \<and> 0 < c")
    case True
    then obtain c where c: "child = Some c" "0 < c" by blast
    have "grown {(c, pid)} (ph_node s) (propagateNodeBootstrap pid c (ph_node s))"
      using propagate_open by (auto simp: grown_def)
    moreover have "ph_node ?t = ph_node s" by (simp add: t)
    ultimately show ?thesis
      using clone_child_idle [where s = ?t and pid = pid and childPid = c and reader = reader and lineTs = lineTs
          and cloneFs = cloneFs and cloneFiles = cloneFiles] c
      by (intro exI [of _ "propagateNodeBootstrap pid c (ph_node s)"]) (simp add: clone_line_def Let_def t)
  next
    case False
    then have "clone_line reader pid lineTs u child cloneFs cloneFiles s = ?t"
      by (auto simp: clone_line_def Let_def split: option.split)
    then show ?thesis unfolding t by (intro exI [of _ "ph_node s"]) (simp add: grown_same)
  qed
qed

lemma strace_line_advances:
  assumes "strace_line inp reader pid lineTs line s = Some s'"
  shows "\<exists>ops n. grown (line_edges pid line) (ph_node s) n \<and>
    advances inp ops (s\<lparr>ph_tamper := or_else (ph_tamper s) (line_tamper pid line), ph_node := n\<rparr>) s' \<and>
    counts (\<lambda>_. []) (line_spawns pid lineTs line) ops"
proof -
  have quiet: ?thesis if "advances inp ops s s'" "line_tamper pid line = None" "counts (\<lambda>_. []) (line_spawns pid lineTs line) ops" for ops
    using that grown_same by (intro exI [of _ ops] exI [of _ "ph_node s"]) simp
  show ?thesis
  proof (cases "starts_with line ''+++'' \<and> ends_with line ''+++''")
    case True
    then show ?thesis using assms exit_line_advances
      by (intro quiet [of "[]"]) (auto simp: strace_line_def line_tamper_def line_spawns_def counts_def)
  next
    case exit: False
    show ?thesis
    proof (cases "tracked_line line")
      case None
      have t: "line_tamper pid line = None" using None exit by (auto simp: line_tamper_def)
      show ?thesis
      proof (cases "parseStraceLine line pid lineTs")
        case N: None
        then show ?thesis using assms None exit t
          by (intro quiet [of "[]"]) (auto simp: strace_line_def line_spawns_def counts_def adv_refl)
      next
        case (Some evs)
        then have "strace_events inp reader line evs s = Some s'" using assms None exit by (auto simp: strace_line_def)
        from strace_events_advances [OF this parsed_no_verdict [OF Some]] obtain ops where
          "advances inp ops s s'" "counts (\<lambda>_. []) (\<lambda>pid. ok_spawns pid evs) ops" by blast
        moreover have "line_spawns pid lineTs line = (\<lambda>p. ok_spawns p evs)"
          using None exit Some by (auto simp: line_spawns_def fun_eq_iff)
        ultimately show ?thesis using t by (intro quiet [of ops]) simp_all
      qed
    next
      case (Some c)
      have ops: "counts (\<lambda>_. []) (line_spawns pid lineTs line) []" using Some by (simp add: line_spawns_def counts_def)
      show ?thesis
      proof (cases "\<exists>u child fs files. c = Cloned u child fs files")
        case True
        then obtain u child fs files where c: "c = Cloned u child fs files" by blast
        have "line_tamper pid line = (if u then Some (Untraced pid) else None)"
          "line_edges pid line = (case child of None \<Rightarrow> {} | Some c \<Rightarrow> if c \<le> 0 then {} else {(c, pid)})"
          using exit Some by (auto simp: line_tamper_def line_edges_def c split: bool.split option.split)
        moreover have "s' = clone_line reader pid lineTs u child fs files s"
          using assms exit Some by (simp add: strace_line_def c)
        moreover obtain n where "grown (case child of None \<Rightarrow> {} | Some c \<Rightarrow> if c \<le> 0 then {} else {(c, pid)}) (ph_node s) n"
          "idle (s\<lparr>ph_tamper := or_else (ph_tamper s) (if u then Some (Untraced pid) else None), ph_node := n\<rparr>)
             (clone_line reader pid lineTs u child fs files s)"
          using clone_line_idle by blast
        ultimately show ?thesis
          by (intro exI [of _ "[]"] exI [of _ n]) (simp only: ops adv_idle simp_thms)
      next
        case False
        have "s' = s\<lparr>ph_proc := tracked_step (pi_pcwd inp) pid (int lineTs) c (ph_proc s)\<rparr>"
          using assms exit Some False by (cases c) (simp_all add: strace_line_def)
        moreover have "line_tamper pid line = None"
          using exit Some False by (cases c) (auto simp: line_tamper_def)
        ultimately show ?thesis using ops by (intro quiet [of "[]"]) (simp_all add: adv_idle)
      qed
    qed
  qed
qed

text \<open>A record of any source.\<close>

definition item_edges :: "item \<Rightarrow> (int \<times> int) set" where
  "item_edges it = (if it_source it = Strace then line_edges (it_pid it) (it_line it) else {})"

lemma dispatch_item_advances:
  assumes "dispatch_item inp it s = Some s'"
  shows "\<exists>ops n. grown (item_edges it) (ph_node s) n \<and>
    advances inp ops (s\<lparr>ph_dispatchTs := Suc (ph_dispatchTs s), ph_tamper := or_else (ph_tamper s) (item_tamper inp it), ph_node := n\<rparr>) s' \<and>
    counts (announced_by inp it) (seen_by (ph_dispatchTs s) it) ops"
proof -
  let ?ts = "item_time (ph_dispatchTs s) it"
  let ?u = "s\<lparr>ph_dispatchTs := Suc (ph_dispatchTs s)\<rparr>"
  define t where "t = seed_root inp (it_rootPid it) (it_pid it) ?u"
  have seed: "ph_tamper t = ph_tamper s" "ph_node t = ph_node s" by (simp_all add: t_def seed_root_def)
  have i: "idle (?u\<lparr>ph_tamper := x, ph_node := n\<rparr>) (t\<lparr>ph_tamper := x, ph_node := n\<rparr>)" for x n
    by (simp add: t_def seed_root_def idle_def queues_open_def)
  have "\<exists>ops n. grown (item_edges it) (ph_node t) n \<and>
    advances inp ops (t\<lparr>ph_tamper := or_else (ph_tamper t) (item_tamper inp it), ph_node := n\<rparr>) s' \<and>
    counts (announced_by inp it) (seen_by (ph_dispatchTs s) it) ops"
  proof (cases "it_source it")
    case Shim
    then have "shim_record inp (it_reader it) (it_pid it) ?ts (it_line it) t = Some s'"
      using assms by (simp add: dispatch_item_def t_def item_time_def Let_def)
    from shim_record_advances [OF this] show ?thesis
      using Shim grown_same [of "{}" "ph_node t"] same_node(2) [of t]
      by (fastforce simp: item_tamper_def announced_by_def [abs_def] seen_by_def [abs_def] item_edges_def)
  next
    case Strace
    then have "strace_line inp (it_reader it) (it_pid it) ?ts (it_line it) t = Some s'"
      using assms by (simp add: dispatch_item_def t_def item_time_def Let_def)
    moreover have "item_tamper inp it = line_tamper (it_pid it) (it_line it)"
      "announced_by inp it = (\<lambda>_. [])" "item_edges it = line_edges (it_pid it) (it_line it)"
      "seen_by (ph_dispatchTs s) it = line_spawns (it_pid it) ?ts (it_line it)"
      using Strace by (simp_all add: item_tamper_def line_tamper_def announced_by_def seen_by_def line_spawns_def
          item_edges_def fun_eq_iff)
    ultimately show ?thesis using strace_line_advances by simp
  next
    case (OtherSource src)
    then have "s' = setPhaseTamper (UnknownSource (it_pid it) (take 40 src)) t"
      using assms by (simp add: dispatch_item_def t_def Let_def)
    then show ?thesis using OtherSource grown_same
      by (intro exI [of _ "[]"] exI [of _ "ph_node t"])
        (simp add: setPhaseTamper_eq item_tamper_def adv_refl counts_def announced_by_def seen_by_def)
  qed
  then obtain ops n where o: "grown (item_edges it) (ph_node s) n"
    "advances inp ops (t\<lparr>ph_tamper := or_else (ph_tamper s) (item_tamper inp it), ph_node := n\<rparr>) s'"
    "counts (announced_by inp it) (seen_by (ph_dispatchTs s) it) ops" unfolding seed by blast
  then show ?thesis using idle_adv [OF i] by blast
qed

section \<open>The whole run\<close>

text \<open>What the lines made of the state: the events sent, and the counts.\<close>

definition has_run :: "phase_input \<Rightarrow> (int \<Rightarrow> exec_result list) \<Rightarrow> (int \<Rightarrow> spawn_event list) \<Rightarrow> tamper option
    \<Rightarrow> (int \<times> int) set \<Rightarrow> phase_state \<Rightarrow> phase_state \<Rightarrow> bool" where
  "has_run inp f g t E s s' \<longleftrightarrow>
     (\<exists>ops evs. ph_emit s' = fold (emit (pi_emit inp)) evs (ph_emit s) \<and>
        (queues_open s \<longrightarrow> queues_open s' \<and> (\<forall>ev\<in>set evs. no_verdict (ev_raw ev))) \<and>
        audit_counts (ph_audit s') = audit_counts (fold audit_do ops (ph_audit s)) \<and> counts f g ops) \<and>
     ph_tamper s' = or_else (ph_tamper s) t \<and> kids (ph_node s') \<subseteq> kids (ph_node s) \<union> E"

lemma advances_has_run:
  assumes "grown E (ph_node s) n"
    and "advances inp ops (s\<lparr>ph_dispatchTs := k, ph_tamper := or_else (ph_tamper s) t, ph_node := n\<rparr>) s'" "counts f g ops"
  shows "has_run inp f g t E s s'" "ph_dispatchTs s' = k"
proof -
  have q: "queues_open s \<longrightarrow> queues_open (s\<lparr>ph_dispatchTs := k, ph_tamper := x, ph_node := n\<rparr>)" for x
    using assms(1) by (simp add: queues_open_def grown_def)
  show "has_run inp f g t E s s'" "ph_dispatchTs s' = k"
    using assms q by (auto simp: advances_def has_run_def grown_def)
qed

lemma has_run_then:
  assumes "has_run inp f g t E s s'" "has_run inp f' g' t' E' s' s''"
  shows "has_run inp (\<lambda>p. f p @ f' p) (\<lambda>p. g p @ g' p) (or_else t t') (E \<union> E') s s''"
proof -
  from assms obtain ops evs ops' evs' where r:
    "ph_emit s' = fold (emit (pi_emit inp)) evs (ph_emit s)"
    "queues_open s \<longrightarrow> queues_open s' \<and> (\<forall>ev\<in>set evs. no_verdict (ev_raw ev))"
    "audit_counts (ph_audit s') = audit_counts (fold audit_do ops (ph_audit s))" "counts f g ops"
    "ph_emit s'' = fold (emit (pi_emit inp)) evs' (ph_emit s')"
    "queues_open s' \<longrightarrow> queues_open s'' \<and> (\<forall>ev\<in>set evs'. no_verdict (ev_raw ev))"
    "audit_counts (ph_audit s'') = audit_counts (fold audit_do ops' (ph_audit s'))" "counts f' g' ops'"
    "ph_tamper s' = or_else (ph_tamper s) t" "ph_tamper s'' = or_else (ph_tamper s') t'"
    "kids (ph_node s') \<subseteq> kids (ph_node s) \<union> E" "kids (ph_node s'') \<subseteq> kids (ph_node s') \<union> E'"
    unfolding has_run_def by blast
  have "ph_emit s'' = fold (emit (pi_emit inp)) (evs @ evs') (ph_emit s)" using r(1,5) by simp
  moreover have "queues_open s \<longrightarrow> queues_open s'' \<and> (\<forall>ev\<in>set (evs @ evs'). no_verdict (ev_raw ev))"
    using r(2,6) by auto
  moreover have "audit_counts (ph_audit s'') = audit_counts (fold audit_do (ops @ ops') (ph_audit s))"
    using r(7) audit_counts_fold [OF r(3), of ops'] by simp
  moreover note counts_append [OF r(4,8)]
  moreover have "ph_tamper s'' = or_else (ph_tamper s) (or_else t t')" using r(9,10) by (simp add: or_else_assoc)
  moreover have "kids (ph_node s'') \<subseteq> kids (ph_node s) \<union> (E \<union> E')" using r(11,12) by blast
  ultimately show ?thesis unfolding has_run_def by blast
qed

lemma announced_Cons: "announced inp (it # its) = (\<lambda>p. announced_by inp it p @ announced inp its p)"
  by (simp add: fun_eq_iff)

lemma seen_Cons: "seen n (it # its) = (\<lambda>p. seen_by n it p @ seen (Suc n) its p)"
  by (simp add: fun_eq_iff)

text \<open>The clone edges of all lines.\<close>

definition clone_edges :: "item list \<Rightarrow> (int \<times> int) set" where
  "clone_edges its = \<Union> (item_edges ` set its)"

lemma clone_edges_simps [simp]: "clone_edges [] = {}" "clone_edges (it # its) = item_edges it \<union> clone_edges its"
  by (simp_all add: clone_edges_def)

lemma dispatch_all_run:
  "dispatch_all inp its s = Some s' \<Longrightarrow>
   has_run inp (announced inp its) (seen (ph_dispatchTs s) its) (first_tamper inp its) (clone_edges its) s s'"
proof (induction its arbitrary: s)
  case Nil
  then show ?case unfolding has_run_def
    by (intro conjI exI [of _ "[]"]) (auto simp: counts_def)
next
  case (Cons it its)
  then obtain t where t: "dispatch_item inp it s = Some t" "dispatch_all inp its t = Some s'"
    by (auto simp: bind_eq_Some_conv)
  obtain ops n where o: "grown (item_edges it) (ph_node s) n" "advances inp ops (s\<lparr>ph_dispatchTs := Suc (ph_dispatchTs s),
      ph_tamper := or_else (ph_tamper s) (item_tamper inp it), ph_node := n\<rparr>) t"
    "counts (announced_by inp it) (seen_by (ph_dispatchTs s) it) ops"
    using dispatch_item_advances [OF t(1)] by blast
  note one = advances_has_run [OF o]
  from has_run_then [OF one(1) Cons.IH [OF t(2)]] one(2) show ?case
    by (simp add: announced_Cons seen_Cons)
qed

section \<open>The end of the run\<close>

lemma replay_rel_advances:
  assumes v: "no_verdict (dr_raw d)"
  shows "advances inp [] s (replay_rel inp d s)"
proof (cases "replay_rel_attr d s = None \<or> fs_of (dr_raw d) = None")
  case True
  then show ?thesis by (auto simp: replay_rel_def adv_refl split: option.split)
next
  case False
  then obtain a e where ae: "replay_rel_attr d s = Some a" "fs_of (dr_raw d) = Some e" by auto
  have v': "no_verdict (ev_raw (attributed (resolve_path (dr_raw d) e p) a))" for p
    using with_fs_verdict [OF v ae(2)] by (simp add: attributed_def)
  have f: "advances inp [] s (s\<lparr>ph_node := n\<rparr>)"
    "advances inp [] s (emit_unless_buffered inp (attributed (resolve_path (dr_raw d) e p) a) (s\<lparr>ph_node := n\<rparr>))"
    if "replay_filter inp b r' (ph_node s) = (x, n)" for b r' x n p
  proof -
    have i: "idle s (s\<lparr>ph_node := n\<rparr>)" using keeps_filters(3) [of "ph_node s" inp b r'] that by (auto intro: idle_node)
    show "advances inp [] s (s\<lparr>ph_node := n\<rparr>)" by (rule adv_idle [OF i])
    show "advances inp [] s (emit_unless_buffered inp (attributed (resolve_path (dr_raw d) e p) a) (s\<lparr>ph_node := n\<rparr>))"
      by (rule idle_adv [OF i adv_emit_unless_buffered [OF v']])
  qed
  have n: "advances inp [] s (s\<lparr>ph_audit := note_unresolved a (dr_raw d) (ph_audit s)\<rparr>)"
    by (rule adv_idle, rule idle_audit, rule counts_notes)
  show ?thesis using ae by (auto simp: replay_rel_def Let_def f n adv_refl split: option.split prod.split)
qed

lemma replay_null_advances:
  assumes v: "no_verdict (dl_raw d)"
  shows "advances inp [] s (replay_null inp d s)"
proof -
  have e: "advances inp [] s (emit_event inp (attributed (dl_raw d) a) s)" for a
    using v by (simp add: adv_emit attributed_def)
  have "advances inp [] s t" "advances inp [] s (emit_unless_buffered inp (attributed (resolve_path (dl_raw d) x p) a) t)"
    if "canonical_for_emit inp x s = (c, t)" "fs_of (dl_raw d) = Some x" for x c t p a
  proof -
    note i = idle_canonical [OF that(1)]
    show "advances inp [] s t" by (rule adv_idle [OF i])
    have "no_verdict (ev_raw (attributed (resolve_path (dl_raw d) x p) a))"
      using with_fs_verdict [OF v that(2)] by (simp add: attributed_def)
    then show "advances inp [] s (emit_unless_buffered inp (attributed (resolve_path (dl_raw d) x p) a) t)"
      by (rule idle_adv [OF i adv_emit_unless_buffered])
  qed
  then show ?thesis by (auto simp: replay_null_def Let_def e adv_refl split: option.split prod.split)
qed

lemma fold_advances: "(\<And>d s. d \<in> set ds \<Longrightarrow> advances inp [] s (f d s)) \<Longrightarrow> advances inp [] s (fold f ds s)"
proof (induction ds arbitrary: s)
  case (Cons d ds)
  then show ?case by (auto intro: adv_quiet)
qed (simp add: adv_refl)

lemma flush_candidates_advances: "advances inp [] s (flush_candidates inp s)"
proof -
  obtain evs n where f: "flushAllNodeBootstrapCandidates (ph_node s) = (evs, n)" by fastforce
  note o = flush_each_open [OF f [unfolded flushAllNodeBootstrapCandidates_def]]
  show ?thesis using adv_flush [of s n evs] o f by (simp add: flush_candidates_def)
qed

lemma synthetic_no_verdict: "ev \<in> set (synthetic_events a) \<Longrightarrow> no_verdict (ev_raw ev)"
  by (auto simp: synthetic_events_def synth_bypass_def synth_forgery_def synth_unresolved_def bypass_event_def
      synthetic_def no_verdict_def Let_def)

definition final_anchor :: "phase_input \<Rightarrow> phase_state \<Rightarrow> int \<Rightarrow> bool" where
  "final_anchor inp s =
     rootAnchored (work_dir inp) (ph_rootPid s) (pidRecycled (ph_snap s)) (fst (ph_proc s)) (ph_lineage s)"

text \<open>Everything replayed and flushed, before the events are made up.\<close>

definition settle_phase :: "phase_input \<Rightarrow> phase_state \<Rightarrow> phase_state" where
  "settle_phase inp s =
     (let s = (fold (replay_rel inp) (ph_deferredRel s) s)\<lparr>ph_deferredRel := []\<rparr>;
          s = (fold (replay_null inp) (ph_deferredNull s) s)\<lparr>ph_deferredNull := []\<rparr>
      in flush_candidates inp s)"

lemma finish_settle:
  "ph_emit (finish_phase inp s) = flush_root (pi_emit inp) (final_anchor inp (finish_phase inp s))
     (fold (emit (pi_emit inp)) (synthetic_events (ph_audit (settle_phase inp s))) (ph_emit (settle_phase inp s)))"
  "ph_tamper (finish_phase inp s) = ph_tamper (settle_phase inp s)"
  by (simp_all add: finish_phase_def settle_phase_def final_anchor_def emit_all_def Let_def)

lemma idle_emptied: "idle s (s\<lparr>ph_deferredRel := []\<rparr>)" "idle s (s\<lparr>ph_deferredNull := []\<rparr>)"
  by (simp_all add: idle_def queues_open_def)

lemma settle_advances:
  assumes q: "queues_open s"
  shows "advances inp [] s (settle_phase inp s)"
proof -
  define t where "t = (fold (replay_rel inp) (ph_deferredRel s) s)\<lparr>ph_deferredRel := []\<rparr>"
  define u where "u = (fold (replay_null inp) (ph_deferredNull t) t)\<lparr>ph_deferredNull := []\<rparr>"
  have t: "advances inp [] s t" unfolding t_def
    by (rule adv_append [OF fold_advances [OF replay_rel_advances] adv_idle [OF idle_emptied(1)]])
      (use q in \<open>simp add: queues_open_def\<close>)
  then have "queues_open t" using q by (auto simp: advances_def)
  then have u: "advances inp [] t u" unfolding u_def
    by (intro adv_append [OF fold_advances [OF replay_null_advances] adv_idle [OF idle_emptied(2)]])
      (simp add: queues_open_def)
  have "settle_phase inp s = flush_candidates inp u" by (simp add: settle_phase_def t_def u_def Let_def)
  then show ?thesis using adv_append [OF adv_append [OF t u] flush_candidates_advances] by simp
qed

lemma init_open: "queues_open (phase_init inp)"
  by (simp add: queues_open_def phase_init_def buffers_open_def node_init_def)

text \<open>A run that returns, in one formula.\<close>

lemma run_emits:
  assumes "run_phase inp its = Some s"
  obtains evs a ops where
    "ph_emit s = flush_root (pi_emit inp) (final_anchor inp s) (fold (emit (pi_emit inp)) (evs @ synthetic_events a) emit_init)"
    "\<forall>ev\<in>set evs. no_verdict (ev_raw ev)" "audit_counts a = audit_counts (audit_run ops audit_init)"
    "counts (announced inp its) (seen 0 its) ops" "ph_tamper s = first_tamper inp its"
proof -
  obtain t where t: "dispatch_all inp its (phase_init inp) = Some t" "s = finish_phase inp t"
    using assms by (auto simp: run_phase_def)
  obtain ops evs where r: "ph_emit t = fold (emit (pi_emit inp)) evs emit_init" "queues_open t"
    "\<forall>ev\<in>set evs. no_verdict (ev_raw ev)" "audit_counts (ph_audit t) = audit_counts (audit_run ops audit_init)"
    "counts (announced inp its) (seen 0 its) ops" "ph_tamper t = first_tamper inp its"
    using dispatch_all_run [OF t(1)] init_open [of inp]
    unfolding has_run_def by (auto simp: phase_init_def audit_run_def)
  let ?u = "settle_phase inp t"
  obtain evs' where u: "ph_emit ?u = fold (emit (pi_emit inp)) evs' (ph_emit t)" "\<forall>ev\<in>set evs'. no_verdict (ev_raw ev)"
    "audit_counts (ph_audit ?u) = audit_counts (ph_audit t)" "ph_tamper ?u = ph_tamper t"
    using settle_advances [OF r(2), of inp] r(2) by (auto simp: advances_def)
  show thesis
  proof (rule that [of "evs @ evs'" "ph_audit ?u" ops])
    show "ph_emit s = flush_root (pi_emit inp) (final_anchor inp s)
        (fold (emit (pi_emit inp)) ((evs @ evs') @ synthetic_events (ph_audit ?u)) emit_init)"
      by (simp add: t(2) finish_settle u(1) r(1))
    show "ph_tamper s = first_tamper inp its" by (simp add: t(2) finish_settle(2) u(4) r(6))
  qed (use r u in auto)
qed

section \<open>When a run returns\<close>

lemma subtree_returns: "acyclic (kids n) \<Longrightarrow> \<exists>tree. nodeBootstrapSubtree pid n = Some tree"
proof -
  assume "acyclic (kids n)"
  then have "node_cyclic n pid = {}" by (auto simp: node_cyclic_def kids_def acyclic_def)
  then show ?thesis using subtree_returns_when [of pid n] by auto
qed

lemma clear_returns:
  assumes "acyclic (kids n)"
  shows "clearNodeBootstrap pid n \<noteq> None" "clearNodeBootstrapEnv pid n \<noteq> None"
    "clearNodeBootstrapFile pid n \<noteq> None" "beginNodeBootstrap pid n \<noteq> None"
  using subtree_returns [OF assms, of pid]
  by (auto simp: clearNodeBootstrap_def clearNodeBootstrapEnv_def clearNodeBootstrapFile_def beginNodeBootstrap_def)

lemma keeps_acyclic: "keeps_buffers n n' \<Longrightarrow> acyclic (kids n) \<Longrightarrow> acyclic (kids n')"
  by (auto simp: keeps_buffers_def intro: acyclic_subset)

lemma advances_acyclic: "advances inp ops s s' \<Longrightarrow> acyclic (kids (ph_node s)) \<Longrightarrow> acyclic (kids (ph_node s'))"
  by (auto simp: advances_def intro: acyclic_subset)

lemma with_node_returns: "f (ph_node s) \<noteq> None \<Longrightarrow> \<exists>s'. with_node f s = Some s'"
  by (auto simp: with_node_def)

lemma marker_line_returns:
  assumes "acyclic (kids (ph_node s))"
  shows "\<exists>s'. marker_line inp lineTs line pid ts s = Some s'"
proof -
  let ?n = "if ph_rootPid s = Some pid then client_starts pid (ph_node s) else ph_node s"
  have "keeps_buffers (ph_node s) ?n" using keeps_marks(1) keeps_refl by simp
  then have "acyclic (kids (marker_node pid ts ?n))"
    by (rule keeps_acyclic [OF keeps_trans [OF _ keeps_marker_node] assms])
  from clear_returns(2) [OF this, of pid] show ?thesis unfolding marker_line_def
    by (cases "ph_rootPid s = Some pid") (simp_all add: with_node_returns)
qed

lemma file_marker_returns:
  "acyclic (kids (ph_node s)) \<Longrightarrow> \<exists>s'. file_marker e s = Some s'"
  unfolding file_marker_def by (intro with_node_returns clear_returns keeps_acyclic [OF keeps_file_marker_node])

lemma exec_step_returns:
  assumes "acyclic (kids (ph_node s))"
  shows "\<exists>s'. exec_step inp line e s = Some s'"
proof -
  let ?t = "exec_before inp (sp_pid e) s"
  have a: "acyclic (kids (ph_node ?t))" by (rule advances_acyclic [OF exec_before_advances assms])
  have "\<exists>u. exec_node inp line e ?t = Some u"
    using clear_returns(1,4) [OF a] by (auto simp: exec_node_def with_node_def)
  then show ?thesis by (auto simp: exec_step_def)
qed

lemma strace_event_returns:
  assumes "acyclic (kids (ph_node s))"
  shows "\<exists>s'. strace_event inp reader line r s = Some s'"
  using exec_step_returns [OF assms] file_marker_returns [OF assms]
  by (cases r) (auto simp: strace_event_def)

lemma strace_events_returns:
  "acyclic (kids (ph_node s)) \<Longrightarrow> \<forall>r\<in>set rs. no_verdict r \<Longrightarrow> \<exists>s'. strace_events inp reader line rs s = Some s'"
proof (induction rs arbitrary: s)
  case (Cons r rs)
  obtain t where t: "strace_event inp reader line r s = Some t" using strace_event_returns [OF Cons.prems(1)] by blast
  then have "acyclic (kids (ph_node t))"
    using strace_event_advances [OF t] Cons.prems by (auto intro: advances_acyclic)
  with Cons.IH [of t] Cons.prems t show ?case by simp
qed simp

lemma dispatch_item_returns:
  assumes "acyclic (kids (ph_node s))"
  shows "\<exists>s'. dispatch_item inp it s = Some s'"
proof -
  define t where "t = seed_root inp (it_rootPid it) (it_pid it) (s\<lparr>ph_dispatchTs := Suc (ph_dispatchTs s)\<rparr>)"
  have t: "acyclic (kids (ph_node t))" using assms by (simp add: t_def seed_root_def)
  have "\<exists>s'. shim_record inp reader pid ts line t = Some s'" for reader pid ts line
    using marker_line_returns [OF t] by (auto simp: shim_record_def split: option.split shim_event.split)
  moreover have "\<exists>s'. strace_line inp reader pid ts line t = Some s'" for reader pid ts line
    using strace_events_returns [OF t parsed_no_verdict]
    by (auto simp: strace_line_def split: option.split tracked_call.split)
  ultimately show ?thesis
    by (auto simp: dispatch_item_def t_def [symmetric] Let_def split: source.split)
qed

lemma dispatch_all_returns:
  "acyclic (kids (ph_node s) \<union> clone_edges its) \<Longrightarrow> \<exists>s'. dispatch_all inp its s = Some s'"
proof (induction its arbitrary: s)
  case (Cons it its)
  have "acyclic (kids (ph_node s))" using Cons.prems by (rule acyclic_subset) auto
  then obtain t where t: "dispatch_item inp it s = Some t" using dispatch_item_returns by blast
  have "kids (ph_node t) \<subseteq> kids (ph_node s) \<union> item_edges it"
    using dispatch_item_advances [OF t] by (fastforce simp: grown_def advances_def)
  then have "acyclic (kids (ph_node t) \<union> clone_edges its)"
    by (intro acyclic_subset [OF Cons.prems]) auto
  with Cons.IH [of t] t show ?case by simp
qed simp

lemma run_returns:
  assumes "acyclic (clone_edges its)"
  shows "\<exists>s. run_phase inp its = Some s"
proof -
  have "kids (ph_node (phase_init inp)) = {}"
    by (simp add: phase_init_def kids_def node_init_def node_edge_def node_children_def)
  with dispatch_all_returns [of "phase_init inp" its inp] assms show ?thesis by (auto simp: run_phase_def)
qed

section \<open>What a run tells\<close>

text \<open>C6: tampering is noticed. A run whose clone lines never put a process below itself returns, and its reason
  not to trust the audit is the first line that gives one: a line of the preload's channel that does not parse
  or does not fit its schema, a clone that asks not to be traced, a record of an unknown source. No other line
  gives a reason, and a later one never replaces it.\<close>

theorem run_tamper_exact:
  assumes "acyclic (clone_edges its)"
  shows "map_option ph_tamper (run_phase inp its) = Some (first_tamper inp its)"
proof -
  from run_returns [OF assms] obtain s where s: "run_phase inp its = Some s" by blast
  from run_emits [OF s] show ?thesis by (metis s option.map(2))
qed

lemma exec_passed:
  assumes "ev_raw ev = ExecEv e" "ev \<in> set evs"
  shows "ev \<in> set (es_emitted (flush_root inp A (fold (emit inp) evs emit_init)))"
proof -
  have "\<not> waits_for_root inp ev" using assms(1) by (simp add: waits_for_root_def split: option.split)
  moreover have "applyProtectedPathsPolicy (ei_glob inp) (ei_matcher inp) ev = Some ev"
    using assms(1) by (simp add: applyProtectedPathsPolicy_def)
  ultimately show ?thesis unfolding emission_exact(1) passed_mem using assms(2) by force
qed

lemma synth_bypass_cong: "audit_counts a = audit_counts b \<Longrightarrow> synth_bypass a = synth_bypass b"
proof -
  assume "audit_counts a = audit_counts b"
  then have "straceExecsByPid a = straceExecsByPid b" "bypass_tail a = bypass_tail b"
    by (auto simp: audit_counts_def bypass_tail_def fun_eq_iff)
  then show ?thesis by (simp add: synth_bypass_def)
qed

lemma bypass_synth_mem:
  assumes "bypasses_of pid (synth_bypass a) \<noteq> []"
  shows "\<exists>ev e. ev \<in> set (synth_bypass a) \<and> ev_raw ev = ExecEv e \<and> ex_pid e = pid \<and> ex_syscall_bypass e"
proof -
  have "bypasses_of pid (map bypass_event xs) = []" if "\<forall>x\<in>set xs. xs_pid x \<noteq> pid" for xs
    using that by (rule bypasses_none)
  then obtain x where x: "x \<in> set (concat (map (bypass_tail a) (straceExecsByPid a)))" "xs_pid x = pid"
    using assms unfolding synth_bypass_def by blast
  then have "bypass_event x \<in> set (synth_bypass a)" by (simp add: synth_bypass_def)
  then show ?thesis using x(2)
    by (intro exI [of _ "bypass_event x"]) (auto simp: bypass_event_def synthetic_def)
qed

text \<open>The lines of a run show more successful executions of a process than its preload has announced.\<close>

definition missed_exec :: "phase_input \<Rightarrow> item list \<Rightarrow> int \<Rightarrow> bool" where
  "missed_exec inp its pid \<longleftrightarrow> net_execs (announced inp its pid) < length (seen 0 its pid)"

lemma missed_exec_emitted:
  assumes run: "run_phase inp its = Some s" and missed: "missed_exec inp its pid"
  shows "\<exists>ev\<in>set (es_emitted (ph_emit s)). \<exists>e. ev_raw ev = ExecEv e \<and> ex_pid e = pid \<and> ex_syscall_bypass e"
proof -
  from run_emits [OF run] obtain evs a ops where r:
    "ph_emit s = flush_root (pi_emit inp) (final_anchor inp s) (fold (emit (pi_emit inp)) (evs @ synthetic_events a) emit_init)"
    "audit_counts a = audit_counts (audit_run ops audit_init)" "counts (announced inp its) (seen 0 its) ops" by metis
  have "length (bypasses_of pid (synth_bypass a)) = length (seen 0 its pid) - net_execs (announced inp its pid)"
    using bypass_count [of pid ops] r(3) by (simp add: synth_bypass_cong [OF r(2)] counts_def)
  then have "bypasses_of pid (synth_bypass a) \<noteq> []" using missed by (auto simp: missed_exec_def)
  then obtain ev e where e: "ev \<in> set (synth_bypass a)" "ev_raw ev = ExecEv e" "ex_pid e = pid" "ex_syscall_bypass e"
    using bypass_synth_mem by blast
  have "ev \<in> set (evs @ synthetic_events a)" using e(1) by (simp add: synthetic_events_def)
  from exec_passed [OF e(2) this] e show ?thesis unfolding r(1) by blast
qed

text \<open>Every execution the preload missed is reported. When the lines of a run, in whatever order and
  interleaved with whatever else, show more successful executions of a process than its preload announced (net
  of the attempts it took back), the run returns and an \<^verbatim>\<open>exec\<close> event of that process marked as a bypass
  reaches the emitter.\<close>

theorem missed_exec_reported:
  assumes "acyclic (clone_edges its)" "missed_exec inp its pid"
  shows "\<exists>s. run_phase inp its = Some s \<and> (\<exists>ev\<in>set (es_emitted (ph_emit s)).
    \<exists>e. ev_raw ev = ExecEv e \<and> ex_pid e = pid \<and> ex_syscall_bypass e)"
  using run_returns [OF assms(1)] missed_exec_emitted [OF _ assms(2)] by blast

definition sample_phase :: phase_input where
  "sample_phase = \<lparr>pi_emit = \<lparr>ei_rootPkgKeys = None, ei_glob = sample_glob, ei_matcher = sample_matcher\<rparr>,
     pi_pcwd = ''/'', pi_workDir = ''/work'', pi_rootSentinel = None, pi_parse = (\<lambda>_. None),
     pi_events = \<lparr>ef_canonical = None, ef_resolved = None\<rparr>\<rparr>"

definition dead_reader :: proc_reader where
  "dead_reader = \<lparr>readPpid = (\<lambda>_. None), readEnviron = (\<lambda>_. None)\<rparr>"

definition sample_line :: "int \<Rightarrow> string \<Rightarrow> item" where
  "sample_line pid line = \<lparr>it_pid = pid, it_ts = None, it_source = Strace, it_line = line, it_reader = dead_reader,
     it_rootPid = None\<rparr>"

definition sample_exec_line :: string where
  "sample_exec_line = ''execve('' @ quoted ''/bin/true'' @ '', ['' @ quoted ''true'' @ ''], 0x7ffd) = 0''"

lemma sample_exec_tracked: "tracked_line sample_exec_line = None"
  by code_simp

lemma sample_exec_parsed: "map_option (\<lambda>evs. length (ok_spawns 7 evs)) (parseStraceLine sample_exec_line 7 0) = Some 1"
  by code_simp

lemma sample_exec_start: "starts_with sample_exec_line ''+++'' = False"
  by code_simp

lemma sample_edges: "line_edges pid sample_exec_line = {}" "item_edges (sample_line pid sample_exec_line) = {}"
  by (simp_all add: item_edges_def line_edges_def sample_line_def sample_exec_tracked)

lemma sample_missed: "missed_exec sample_phase [sample_line 7 sample_exec_line] 7"
proof -
  obtain evs where "parseStraceLine sample_exec_line 7 0 = Some evs" "length (ok_spawns 7 evs) = 1"
    using sample_exec_parsed by auto
  then show "missed_exec sample_phase [sample_line 7 sample_exec_line] 7"
    by (simp add: missed_exec_def announced_by_def seen_by_def sample_line_def sample_exec_tracked sample_exec_start item_time_def)
qed

theorem missed_exec_reported_witness:
  "\<exists>s. run_phase sample_phase [sample_line 7 sample_exec_line] = Some s \<and> (\<exists>ev\<in>set (es_emitted (ph_emit s)).
    \<exists>e. ev_raw ev = ExecEv e \<and> ex_pid e = 7 \<and> ex_syscall_bypass e)"
  by (rule missed_exec_reported) (simp_all add: sample_missed sample_edges acyclic_def)

theorem run_tamper_exact_witness:
  "map_option ph_tamper (run_phase sample_phase [(sample_line 7 ''x'')\<lparr>it_source := Shim\<rparr>, sample_line 7 sample_exec_line]) =
     Some (Some (Unparseable 7 ''x''))"
  by (subst run_tamper_exact)
    (simp_all add: sample_edges item_edges_def item_tamper_def parseShimLine_def sample_phase_def sample_line_def or_else_def
      MAX_PREFIX_def acyclic_def)

lemma claim_checked:
  assumes run: "run_phase inp its = Some s" and ev: "ev \<in> set (es_emitted (ph_emit s))"
    and root: "ei_rootPkgKeys (pi_emit inp) = Some keys" "ev_pkg ev \<in> keys"
    and kind: "anchor_field (ev_raw ev) \<noteq> None" "\<forall>e. ev_raw ev \<noteq> EnvTamperEv e"
  shows "anchor_field (ev_raw ev) = Some (Some (final_anchor inp s (raw_pid (ev_raw ev))))"
proof -
  from run_emits [OF run] obtain evs a where r:
    "ph_emit s = flush_root (pi_emit inp) (final_anchor inp s) (fold (emit (pi_emit inp)) (evs @ synthetic_events a) emit_init)"
    "\<forall>e\<in>set evs. no_verdict (ev_raw e)" by metis
  then have all: "\<forall>e\<in>set (evs @ synthetic_events a). no_verdict (ev_raw e)" using synthetic_no_verdict by auto
  from ev obtain e where e: "applyProtectedPathsPolicy (ei_glob (pi_emit inp)) (ei_matcher (pi_emit inp)) e = Some ev"
    "e \<in> set (filter (\<lambda>ev. \<not> waits_for_root (pi_emit inp) ev) (evs @ synthetic_events a) @
       map (stamp (final_anchor inp s)) (filter (waits_for_root (pi_emit inp)) (evs @ synthetic_events a)))"
    unfolding r(1) emission_exact passed_mem by blast
  note k = policy_keeps [OF e(1)]
  have tamper: "\<forall>t. ev_raw e \<noteq> EnvTamperEv t"
    using kind(2) e(1) by (auto simp: applyProtectedPathsPolicy_def)
  from e(2) consider "e \<in> set (evs @ synthetic_events a)" "\<not> waits_for_root (pi_emit inp) e"
    | d where "waits_for_root (pi_emit inp) d" "e = stamp (final_anchor inp s) d" by auto
  then show ?thesis
  proof cases
    case 1
    then have "no_verdict (ev_raw e)" using all by blast
    with 1 root kind(1) k tamper have False by (auto simp: waits_for_root_def no_verdict_def)
    then show ?thesis ..
  next
    case 2
    then show ?thesis using k by (simp add: stamp_def waits_for_root_def split: option.splits)
  qed
qed

lemma tamper_has_verdict:
  assumes run: "run_phase inp its = Some s" and ev: "ev \<in> set (es_emitted (ph_emit s))"
    and root: "ei_rootPkgKeys (pi_emit inp) = Some keys" "ev_pkg ev \<in> keys" and tamper: "ev_raw ev = EnvTamperEv t"
  shows "et_root_anchored t \<noteq> None"
proof -
  from run_emits [OF run] obtain evs a where r:
    "ph_emit s = flush_root (pi_emit inp) (final_anchor inp s) (fold (emit (pi_emit inp)) (evs @ synthetic_events a) emit_init)"
    by metis
  from ev obtain e where e: "applyProtectedPathsPolicy (ei_glob (pi_emit inp)) (ei_matcher (pi_emit inp)) e = Some ev"
    "e \<in> set (filter (\<lambda>ev. \<not> waits_for_root (pi_emit inp) ev) (evs @ synthetic_events a) @
       map (stamp (final_anchor inp s)) (filter (waits_for_root (pi_emit inp)) (evs @ synthetic_events a)))"
    unfolding r(1) emission_exact passed_mem by blast
  note k = policy_keeps [OF e(1)]
  have "anchor_field (ev_raw e) \<noteq> Some None"
    using e(2) k(3) root by (auto simp: waits_for_root_def stamp_def)
  then show ?thesis using k(1) tamper by (cases "et_root_anchored t") simp_all
qed

text \<open>C7: nobody claims the root unchecked. Every read, write, read of an environment variable, spawn and
  connection that leaves the run under a key of the audited package carries the verdict on its own process that
  the process tree, complete at the end of the run, gives. A report of tampering always carries a verdict, though
  its line may have brought its own. The events of an exec and a dlopen have no field for one.\<close>

theorem root_claims_checked:
  assumes run: "run_phase inp its = Some s" and ev: "ev \<in> set (es_emitted (ph_emit s))"
    and root: "ei_rootPkgKeys (pi_emit inp) = Some keys" "ev_pkg ev \<in> keys"
  shows "case ev_raw ev of
      ExecEv e \<Rightarrow> anchor_field (ev_raw ev) = None
    | DlopenEv e \<Rightarrow> anchor_field (ev_raw ev) = None
    | EnvTamperEv e \<Rightarrow> et_root_anchored e \<noteq> None
    | _ \<Rightarrow> anchor_field (ev_raw ev) = Some (Some (final_anchor inp s (raw_pid (ev_raw ev))))"
  using claim_checked [OF assms] tamper_has_verdict [OF assms] by (cases "ev_raw ev") simp_all

definition sample_root_phase :: phase_input where
  "sample_root_phase = sample_phase\<lparr>pi_emit := (pi_emit sample_phase)\<lparr>ei_rootPkgKeys := Some {''app''}\<rparr>\<rparr>"

definition sample_root_reader :: proc_reader where
  "sample_root_reader = \<lparr>readPpid = (\<lambda>_. None),
     readEnviron = (\<lambda>_. Some ([''npm_package_name'' \<mapsto> ''app'', ''npm_lifecycle_event'' \<mapsto> ''install'']))\<rparr>"

definition sample_failed_line :: string where
  "sample_failed_line = ''execve('' @ quoted ''/bin/gcc'' @ '', ['' @ quoted ''gcc'' @ ''], 0x7ffd) = -1 ENOENT (No such file)''"

definition sample_root_items :: "item list" where
  "sample_root_items = [(sample_line 7 sample_failed_line)\<lparr>it_reader := sample_root_reader\<rparr>]"

definition spawned_as :: "string \<Rightarrow> bool option \<Rightarrow> attributed_event \<Rightarrow> bool" where
  "spawned_as p v ev = (case ev_raw ev of SpawnEv e \<Rightarrow> ev_pkg ev = p \<and> sp_root_anchored e = v | _ \<Rightarrow> False)"

lemma sample_root_run:
  "(case run_phase sample_root_phase sample_root_items of None \<Rightarrow> False
    | Some s \<Rightarrow> list_ex (spawned_as ''app'' (Some False)) (es_emitted (ph_emit s)))"
  by code_simp

theorem root_claims_checked_witness:
  "\<exists>s ev. run_phase sample_root_phase sample_root_items = Some s \<and> ev \<in> set (es_emitted (ph_emit s)) \<and>
     anchor_field (ev_raw ev) = Some (Some (final_anchor sample_root_phase s (raw_pid (ev_raw ev)))) \<and>
     anchor_field (ev_raw ev) = Some (Some False)"
proof -
  obtain s ev where s: "run_phase sample_root_phase sample_root_items = Some s" "ev \<in> set (es_emitted (ph_emit s))"
    "spawned_as ''app'' (Some False) ev"
    using sample_root_run by (auto simp: list_ex_iff split: option.splits)
  then obtain e where e: "ev_raw ev = SpawnEv e" "ev_pkg ev = ''app''" "sp_root_anchored e = Some False"
    by (auto simp: spawned_as_def split: raw_event.splits)
  have "anchor_field (ev_raw ev) = Some (Some (final_anchor sample_root_phase s (raw_pid (ev_raw ev))))"
    using root_claims_checked [OF s(1,2), where keys = "{''app''}"] by (simp add: e sample_root_phase_def)
  with s e show ?thesis by auto
qed

end
