(* ===== verification/Redact.thy ===== *)
theory Redact
  imports JsString
begin

text \<open>
  \<^verbatim>\<open>src/shared/redact.ts\<close>: the masks put over the output of package managers before it reaches a log. The
  chain of seven regular expressions for the shapes of credentials, the mask for declared values, the mask
  for fragments of declared values, and the three redactors the guest and the host compose of them. The
  lemmas at the end say what the matcher of fragments holds and when it is capped.
\<close>

section \<open>\<^verbatim>\<open>String.replace\<close> with a global expression\<close>

abbreviation nl :: char where "nl \<equiv> CHR 0x0A"

text \<open>A matcher here also sees the character before the position, for \<^verbatim>\<open>\b\<close> and \<^verbatim>\<open>^\<close>, and its result is the
  replacement. No expression of the chain matches the empty string.\<close>

function replace_all :: "(char option \<Rightarrow> string matcher) \<Rightarrow> char option \<Rightarrow> string \<Rightarrow> string" where
  "replace_all m prev [] = []"
| "replace_all m prev (c # s) =
     (case m prev (c # s) of
        [] \<Rightarrow> c # replace_all m (Some c) s
      | (out, rest) # _ \<Rightarrow>
          if length rest < length (c # s)
          then out @ replace_all m (Some ((c # s) ! (length s - length rest))) rest
          else out @ c # replace_all m (Some c) s)"
  by pat_completeness auto
termination by (relation "measure (\<lambda>(m, prev, s). length s)") auto

text \<open>Literals regardless of case: the letters of the sources are ASCII.\<close>

definition rx_lit_ci :: "string \<Rightarrow> string matcher" where
  "rx_lit_ci p s =
     (if starts_with (to_lower s) (to_lower p) then [(take (length p) s, drop (length p) s)] else [])"

definition rx_one :: "(char \<Rightarrow> bool) \<Rightarrow> string matcher" where
  "rx_one p = rep p 1 (Some 1)"

definition rx_or :: "'a matcher \<Rightarrow> 'a matcher \<Rightarrow> 'a matcher" where
  "rx_or m n s = m s @ n s"

text \<open>\<^verbatim>\<open>\b\<close> before and after a word character.\<close>

definition word_before :: "char option \<Rightarrow> 'a matcher \<Rightarrow> 'a matcher" where
  "word_before prev m s = (case prev of Some c \<Rightarrow> if is_word c then [] else m s | None \<Rightarrow> m s)"

definition rx_word_end :: "unit matcher" where
  "rx_word_end s = (case s of [] \<Rightarrow> [((), s)] | c # _ \<Rightarrow> if is_word c then [] else [((), s)])"

section \<open>The shapes of credentials\<close>

text \<open>\<^verbatim>\<open>[^\S\n]\<close>, \<^verbatim>\<open>[^/\s@]\<close>, and the delimiters before a scheme-relative URL.\<close>

definition hspace :: "char \<Rightarrow> bool" where
  "hspace c = (is_space c \<and> c \<noteq> nl)"

definition userinfo :: "char \<Rightarrow> bool" where
  "userinfo c = (c \<noteq> CHR ''/'' \<and> \<not> is_space c \<and> c \<noteq> CHR ''@'')"

definition url_delim :: "char \<Rightarrow> bool" where
  "url_delim c = (is_space c \<or> c \<in> set (''=('' @ [CHR 0x27, CHR 0x22, CHR 0x60]))"

definition url_mask :: string where
  "url_mask = ''<REDACTED:URL-CREDENTIALS>@''"

definition rx_url :: "char option \<Rightarrow> string matcher" where
  "rx_url _ =
     rx_bind (rx_one (\<lambda>c. is_upper c \<or> is_lower c)) (\<lambda>a.
     rx_bind (rep (\<lambda>c. is_alnum c \<or> c \<in> set ''+.-'') 0 (Some 31)) (\<lambda>b.
     rx_bind (rx_lit ''://'') (\<lambda>p.
     rx_bind (rep userinfo 1 None) (\<lambda>_.
     rx_bind (rx_lit ''@'') (\<lambda>_. rx_ret (a @ b @ p @ url_mask))))))"

definition rx_relative_tail :: "string matcher" where
  "rx_relative_tail =
     rx_bind (rx_lit ''//'') (\<lambda>p.
     rx_bind (rep userinfo 1 None) (\<lambda>_.
     rx_bind (rx_lit ''@'') (\<lambda>_. rx_ret (p @ url_mask))))"

definition rx_relative_url :: "char option \<Rightarrow> string matcher" where
  "rx_relative_url prev =
     rx_or (\<lambda>s. if prev = None then rx_relative_tail s else [])
           (rx_bind (rx_one url_delim) (\<lambda>d. rx_bind rx_relative_tail (\<lambda>r. rx_ret (d @ r))))"

definition rx_auth_line :: "char option \<Rightarrow> string matcher" where
  "rx_auth_line _ =
     rx_bind (rx_or (rx_lit_ci ''_authToken'') (rx_or (rx_lit_ci ''_auth'') (rx_lit_ci ''_password''))) (\<lambda>k.
     rx_bind (rep hspace 0 None) (\<lambda>a.
     rx_bind (rx_lit ''='') (\<lambda>e.
     rx_bind (rep hspace 0 None) (\<lambda>b.
     rx_bind (rep (\<lambda>c. \<not> is_space c) 1 None) (\<lambda>_. rx_ret (k @ a @ e @ b @ ''<REDACTED>''))))))"

definition rx_bearer :: "char option \<Rightarrow> string matcher" where
  "rx_bearer _ =
     rx_bind (rx_lit ''Bearer'') (\<lambda>k.
     rx_bind (rep hspace 1 None) (\<lambda>a.
     rx_bind (rep (\<lambda>c. is_alnum c \<or> c \<in> set ''._~+/-'') 8 None) (\<lambda>_.
     rx_bind (rep (\<lambda>c. c = CHR ''='') 0 None) (\<lambda>_. rx_ret (k @ a @ ''<REDACTED>'')))))"

definition rx_npm_token :: "char option \<Rightarrow> string matcher" where
  "rx_npm_token prev = word_before prev
     (rx_bind (rx_lit ''npm_'') (\<lambda>_. rx_bind (rep is_alnum 36 None) (\<lambda>_.
      rx_bind rx_word_end (\<lambda>_. rx_ret ''<REDACTED:NPM-TOKEN>''))))"

definition rx_gh_token :: "char option \<Rightarrow> string matcher" where
  "rx_gh_token prev = word_before prev
     (rx_bind (rx_lit ''gh'') (\<lambda>_. rx_bind (rx_one (\<lambda>c. c \<in> set ''posur'')) (\<lambda>_. rx_bind (rx_lit ''_'') (\<lambda>_.
      rx_bind (rep is_alnum 36 None) (\<lambda>_. rx_bind rx_word_end (\<lambda>_. rx_ret ''<REDACTED:GH-TOKEN>''))))))"

definition rx_aws_key :: "char option \<Rightarrow> string matcher" where
  "rx_aws_key prev = word_before prev
     (rx_bind (rx_or (rx_lit ''AKIA'') (rx_lit ''ASIA'')) (\<lambda>_.
      rx_bind (rep (\<lambda>c. is_upper c \<or> is_digit c) 16 (Some 16)) (\<lambda>_.
      rx_bind rx_word_end (\<lambda>_. rx_ret ''<REDACTED:AWS-KEY>''))))"

definition credential_shapes :: "(char option \<Rightarrow> string matcher) list" where
  "credential_shapes =
     [rx_url, rx_relative_url, rx_auth_line, rx_bearer, rx_npm_token, rx_gh_token, rx_aws_key]"

definition redactCredentialShapes :: "string \<Rightarrow> string" where
  "redactCredentialShapes text = fold (\<lambda>m. replace_all m None) credential_shapes text"

section \<open>Declared values\<close>

text \<open>\<^verbatim>\<open>text.split(v).join(repl)\<close> for a value that is not empty.\<close>

function split_on :: "string \<Rightarrow> string \<Rightarrow> string list" where
  "split_on v [] = [[]]"
| "split_on v (c # s) =
     (if v \<noteq> [] \<and> starts_with (c # s) v then [] # split_on v (drop (length v) (c # s))
      else (c # hd (split_on v s)) # tl (split_on v s))"
  by pat_completeness auto
termination by (relation "measure (\<lambda>(v, s). length s)") (auto simp: Suc_le_eq)

definition mask_value :: "string \<Rightarrow> string \<Rightarrow> string \<Rightarrow> string" where
  "mask_value repl v out = join repl (split_on v out)"

definition bracketed :: "string \<Rightarrow> string" where
  "bracketed label = ''<'' @ label @ ''>''"

definition longest_first :: "string list \<Rightarrow> string list" where
  "longest_first vs = sort_key (\<lambda>v. - int (length v)) vs"

definition maskExactValues :: "string \<Rightarrow> string list \<Rightarrow> string \<Rightarrow> nat \<Rightarrow> string" where
  "maskExactValues text vs label minLen =
     fold (mask_value (bracketed label)) (longest_first (filter (\<lambda>v. minLen \<le> length v) (js_uniq vs))) text"

section \<open>Fragments of declared values\<close>

definition DEFAULT_MIN_FRAGMENT :: nat where "DEFAULT_MIN_FRAGMENT = 8"

definition MAX_FRAGMENT_VALUE_CHARS :: nat where "MAX_FRAGMENT_VALUE_CHARS = 2 * 1024 * 1024"

definition FRAGMENT_MAX_GRAMS :: nat where "FRAGMENT_MAX_GRAMS = 2 ^ 22"

record fragment_matcher =
  fm_grams :: "string set"
  fm_capped :: bool
  fm_minFragment :: nat

fun chars_exceed :: "nat \<Rightarrow> string list \<Rightarrow> bool" where
  "chars_exceed n [] = False"
| "chars_exceed n (v # vs) =
     (let n = n + length v in if n > MAX_FRAGMENT_VALUE_CHARS then True else chars_exceed n vs)"

text \<open>The windows of the values, in the order the two loops reach them.\<close>

definition windows :: "nat \<Rightarrow> string \<Rightarrow> string list" where
  "windows k v = (if length v \<le> k then [] else map (\<lambda>i. take k (drop i v)) [0 ..< Suc (length v - k)])"

fun add_grams :: "nat \<Rightarrow> string list \<Rightarrow> string set \<Rightarrow> string set \<times> bool" where
  "add_grams cap [] grams = (grams, False)"
| "add_grams cap (g # gs) grams =
     (let grams = insert g grams in if cap \<le> card grams then (grams, True) else add_grams cap gs grams)"

definition buildFragmentMatcher :: "string list \<Rightarrow> nat \<Rightarrow> fragment_matcher" where
  "buildFragmentMatcher vs k =
     (let unique = js_uniq vs
      in if chars_exceed 0 unique then \<lparr>fm_grams = {}, fm_capped = True, fm_minFragment = k\<rparr>
         else let (grams, capped) = add_grams FRAGMENT_MAX_GRAMS (concat (map (windows k) unique)) {}
              in \<lparr>fm_grams = grams, fm_capped = capped, fm_minFragment = k\<rparr>)"

text \<open>The number of further windows in the set, one position after the other; \<open>s\<close> starts at the first.\<close>

fun run_length :: "string set \<Rightarrow> nat \<Rightarrow> string \<Rightarrow> nat" where
  "run_length grams k [] = 0"
| "run_length grams k (_ # s) = (if k \<le> length s \<and> take k s \<in> grams then Suc (run_length grams k s) else 0)"

text \<open>The scan; \<open>s\<close> starts at \<^verbatim>\<open>i\<close>. A floor of 0, which no caller passes, would not end.\<close>

function scan_fragments :: "string set \<Rightarrow> nat \<Rightarrow> string \<Rightarrow> string \<Rightarrow> string" where
  "scan_fragments grams k repl s =
     (if k = 0 \<or> length s < k then s
      else if take k s \<in> grams then repl @ scan_fragments grams k repl (drop (run_length grams k s + k) s)
      else hd s # scan_fragments grams k repl (tl s))"
  by pat_completeness auto
termination by (relation "measure (\<lambda>(grams, k, repl, s). length s)") auto

declare scan_fragments.simps [simp del]

definition maskValueFragmentsWith :: "string \<Rightarrow> fragment_matcher \<Rightarrow> string \<Rightarrow> string" where
  "maskValueFragmentsWith text m label =
     (if length text < fm_minFragment m then text
      else if fm_capped m then bracketed label
      else if fm_grams m = {} then text
      else scan_fragments (fm_grams m) (fm_minFragment m) (bracketed label) text)"

definition maskValueFragments :: "string \<Rightarrow> string list \<Rightarrow> string \<Rightarrow> nat \<Rightarrow> string" where
  "maskValueFragments text vs label k = maskValueFragmentsWith text (buildFragmentMatcher vs k) label"

definition deriveSensitiveValues :: "string list \<Rightarrow> string list" where
  "deriveSensitiveValues args =
     concat (map (\<lambda>t. t # (if CHR ''='' \<in> set t then [after_char (CHR ''='') t] else [])) args)"

section \<open>The three redactors\<close>

text \<open>The guest's, over the environment: \<^verbatim>\<open>createSensitiveRedactor\<close> of \<^verbatim>\<open>src/guest/agent.ts\<close>.\<close>

definition declared_values :: "string list \<Rightarrow> (string \<Rightarrow> string option) \<Rightarrow> (string \<times> string) list" where
  "declared_values names env =
     sort_key (\<lambda>e. - int (length (snd e)))
       (filter (\<lambda>e. 1 \<le> length (snd e)) (List.map_filter (\<lambda>n. map_option (Pair n) (env n)) names))"

definition createSensitiveRedactor :: "string list \<Rightarrow> (string \<Rightarrow> string option) \<Rightarrow> string \<Rightarrow> string" where
  "createSensitiveRedactor names env text =
     (let vs = declared_values names env;
          out = fold (\<lambda>(n, v). mask_value (bracketed (''REDACTED:'' @ n)) v) vs text;
          out = maskValueFragmentsWith out (buildFragmentMatcher (map snd vs) DEFAULT_MIN_FRAGMENT) ''REDACTED:SECRET''
      in redactCredentialShapes out)"

text \<open>The host's, over the captured output of the first part and over each line of the second part of the
  install in \<^verbatim>\<open>src/action/host-install.ts\<close>; the latter refuses to start when the matcher is capped.\<close>

definition redactCaptured :: "string \<Rightarrow> string list \<Rightarrow> string" where
  "redactCaptured text sensitive =
     redactCredentialShapes (maskExactValues text sensitive ''REDACTED:USER-ARG'' 4)"

definition host_line :: "string list \<Rightarrow> string list \<Rightarrow> string \<Rightarrow> string option" where
  "host_line sensitive userArgs line =
     (let m = buildFragmentMatcher sensitive DEFAULT_MIN_FRAGMENT
      in if fm_capped m then None
         else let safe = maskExactValues line sensitive ''REDACTED:ENV'' 1;
                  safe = maskValueFragmentsWith safe m ''REDACTED:ENV'';
                  safe = maskExactValues safe (deriveSensitiveValues userArgs) ''REDACTED:USER-ARG'' 4
              in Some (redactCredentialShapes safe))"

section \<open>The matcher\<close>

lemma join_Cons: "ss \<noteq> [] \<Longrightarrow> join sep (s # ss) = s @ sep @ join sep ss"
  by (cases ss) simp_all

lemma split_on_ne: "split_on v s \<noteq> []"
  by (cases s) auto

lemma set_windows: "f \<in> set (windows k v) \<longleftrightarrow> k < length v \<and> length f = k \<and> sublist f v"
proof -
  have "(\<exists>i \<le> length v - k. f = take k (drop i v)) \<longleftrightarrow> length f = k \<and> sublist f v" if "k < length v"
  proof
    assume "\<exists>i \<le> length v - k. f = take k (drop i v)"
    then show "length f = k \<and> sublist f v"
      using that by (auto intro: sublist_order.order_trans [OF sublist_take sublist_drop])
  next
    assume f: "length f = k \<and> sublist f v"
    then obtain a b where v: "v = a @ f @ b" by (auto simp: sublist_def)
    with f show "\<exists>i \<le> length v - k. f = take k (drop i v)" by (intro exI [of _ "length a"]) auto
  qed
  moreover have "f \<in> set (windows k v) \<longleftrightarrow> k < length v \<and> (\<exists>i \<le> length v - k. f = take k (drop i v))"
    by (simp add: windows_def image_iff atLeast0LessThan lessThan_Suc_atMost Bex_def del: upt_Suc)
  ultimately show ?thesis by blast
qed

lemma add_grams_all: "\<not> snd (add_grams cap gs G) \<Longrightarrow> fst (add_grams cap gs G) = G \<union> set gs"
  by (induction cap gs G rule: add_grams.induct) (auto simp: Let_def)

lemma matcher_grams:
  assumes "\<not> fm_capped (buildFragmentMatcher vs k)" "v \<in> set vs" "f \<in> set (windows k v)"
  shows "f \<in> fm_grams (buildFragmentMatcher vs k)"
  using assms by (auto simp: buildFragmentMatcher_def Let_def split_beta add_grams_all split: if_splits)

lemma matcher_floor [simp]: "fm_minFragment (buildFragmentMatcher vs k) = k"
  by (simp add: buildFragmentMatcher_def Let_def split_beta)

text \<open>How large the set can get: the second cap is never reached.\<close>

lemma chars_exceed_iff: "n \<le> MAX_FRAGMENT_VALUE_CHARS \<Longrightarrow>
    chars_exceed n vs \<longleftrightarrow> n + sum_list (map length vs) > MAX_FRAGMENT_VALUE_CHARS"
  by (induction n vs rule: chars_exceed.induct) (auto simp: Let_def)

lemma add_grams_capped: "finite G \<Longrightarrow> card G + length gs < cap \<Longrightarrow> \<not> snd (add_grams cap gs G)"
proof (induction cap gs G rule: add_grams.induct)
  case (2 cap g gs G)
  have "card (insert g G) \<le> Suc (card G)" by (simp add: card_insert_le_m1 card.insert_remove)
  with 2 show ?case by (auto simp: Let_def)
qed simp

lemma windows_length: "0 < k \<Longrightarrow> length (windows k v) \<le> length v"
  by (auto simp: windows_def)

lemma capped_iff:
  assumes "0 < k"
  shows "fm_capped (buildFragmentMatcher vs k) \<longleftrightarrow> sum_list (map length (js_uniq vs)) > MAX_FRAGMENT_VALUE_CHARS"
proof -
  let ?u = "js_uniq vs" and ?gs = "concat (map (windows k) (js_uniq vs))"
  have "length (concat (map (windows k) us)) \<le> sum_list (map length us)" for us
    by (induction us) (auto simp: add_mono windows_length [OF assms])
  then have "length ?gs \<le> sum_list (map length ?u)" .
  then have "\<not> chars_exceed 0 ?u \<Longrightarrow> \<not> snd (add_grams FRAGMENT_MAX_GRAMS ?gs {})"
    by (intro add_grams_capped) (auto simp: chars_exceed_iff MAX_FRAGMENT_VALUE_CHARS_def FRAGMENT_MAX_GRAMS_def)
  then show ?thesis by (auto simp: buildFragmentMatcher_def Let_def split_beta chars_exceed_iff)
qed

end
