(* ===== verification/RedactLines.thy ===== *)
theory RedactLines
  imports Redact
begin

text \<open>
  The line-local contract of \<^verbatim>\<open>src/shared/redact.ts\<close>: redacting a text line by line gives what redacting the
  whole text gives, for the chain of shapes always, and for the redactor of the guest when no declared value
  spans a line.
\<close>

named_theorems line_rules

section \<open>Within a line\<close>

text \<open>A matcher that does not look beyond a newline, with what holds of its captures and its remainder.\<close>

definition line_local :: "('a \<Rightarrow> bool) \<Rightarrow> 'a matcher \<Rightarrow> bool" where
  "line_local P m \<longleftrightarrow> (\<forall>s. nl \<notin> set s \<longrightarrow>
     (\<forall>t. m (s @ nl # t) = map (\<lambda>(a, r). (a, r @ nl # t)) (m s)) \<and> (\<forall>(a, r)\<in>set (m s). P a \<and> suffix r s))"

abbreviation one_line :: "string \<Rightarrow> bool" where "one_line s \<equiv> nl \<notin> set s"

lemma line_localD:
  assumes "line_local P m" "one_line s"
  shows "m (s @ nl # t) = map (\<lambda>(a, r). (a, r @ nl # t)) (m s)"
    and "(a, r) \<in> set (m s) \<Longrightarrow> P a" and "(a, r) \<in> set (m s) \<Longrightarrow> suffix r s"
    and "(a, r) \<in> set (m s) \<Longrightarrow> one_line r"
proof -
  have all: "m (s @ nl # t) = map (\<lambda>(a, r). (a, r @ nl # t)) (m s)" "\<forall>(a, r)\<in>set (m s). P a \<and> suffix r s" for t
    using assms unfolding line_local_def by blast+
  show "m (s @ nl # t) = map (\<lambda>(a, r). (a, r @ nl # t)) (m s)" by (rule all(1))
  show "P a" "suffix r s" "one_line r" if "(a, r) \<in> set (m s)"
    using all(2) that assms(2) by (auto simp: suffix_def)
qed

lemma line_bind:
  assumes m: "line_local P m" and f: "\<And>a. P a \<Longrightarrow> line_local Q (f a)"
  shows "line_local Q (rx_bind m f)"
  unfolding line_local_def
proof (intro allI impI conjI)
  fix s t assume s: "one_line s"
  have "f a (r @ nl # t) = map (\<lambda>(a, r). (a, r @ nl # t)) (f a r)" if "(a, r) \<in> set (m s)" for a r
    using line_localD(1) [OF f] line_localD(2,4) [OF m s that] by blast
  then show "rx_bind m f (s @ nl # t) = map (\<lambda>(a, r). (a, r @ nl # t)) (rx_bind m f s)"
    by (simp add: rx_bind_def line_localD(1) [OF m s] map_concat o_def split_beta cong: map_cong)
  show "\<forall>(b, r)\<in>set (rx_bind m f s). Q b \<and> suffix r s"
    using line_localD(2,3,4) [OF m s] line_localD(2,3) [OF f]
    by (fastforce simp: rx_bind_def intro: suffix_order.trans)
qed

lemmas line_bind_str [line_rules] = line_bind [where P = one_line]

lemma line_ret [line_rules]: "P a \<Longrightarrow> line_local P (rx_ret a)"
  by (simp add: line_local_def rx_ret_def)

lemma line_or [line_rules]: "line_local P m \<Longrightarrow> line_local P n \<Longrightarrow> line_local P (rx_or m n)"
  by (auto simp: line_local_def rx_or_def)

lemma starts_with_line: "one_line p \<Longrightarrow> starts_with (s @ nl # t) p = starts_with s p"
proof (induction s p rule: starts_with.induct)
  case (2 c cs)
  then show ?case by auto
qed auto

lemma line_lit [line_rules]: "one_line p \<Longrightarrow> line_local one_line (rx_lit p)"
  using starts_with_length [of _ p] by (auto simp: line_local_def rx_lit_def starts_with_line suffix_drop)

lemma is_nl: "c = nl \<longleftrightarrow> of_char c = (10 :: nat)"
  using of_char_eq_iff [of c nl, where 'a = nat] by simp

lemma lower_char_nl [simp]: "lower_char nl = nl"
  by (simp add: lower_char_def)

lemma lower_nl [simp]: "lower_char c = nl \<longleftrightarrow> c = nl" "nl = lower_char c \<longleftrightarrow> c = nl"
proof -
  have "of_char (lower_char c) \<noteq> (10 :: nat)" if "of_char c \<noteq> (10 :: nat)"
    using that by (simp add: lower_char_def Let_def)
  then show "lower_char c = nl \<longleftrightarrow> c = nl" using is_nl lower_char_nl by metis
  then show "nl = lower_char c \<longleftrightarrow> c = nl" by metis
qed

lemma line_lit_ci [line_rules]: "one_line p \<Longrightarrow> line_local one_line (rx_lit_ci p)"
proof -
  assume p: "one_line p"
  have "one_line (to_lower p)" using p by (auto simp: to_lower_def)
  then have "starts_with (to_lower (s @ nl # t)) (to_lower p) = starts_with (to_lower s) (to_lower p)" for s t
    using starts_with_line [of "to_lower p" "to_lower s" "to_lower t"] lower_nl(1) [of nl] by (simp add: to_lower_def)
  moreover have "length p \<le> length s" if "starts_with (to_lower s) (to_lower p)" for s
    using starts_with_length [OF that] by (simp add: to_lower_def)
  ultimately show ?thesis
    by (auto simp: line_local_def rx_lit_ci_def suffix_drop dest: in_set_takeD)
qed

lemma line_rep [line_rules]: "\<not> p nl \<Longrightarrow> line_local one_line (rep p lo hi)"
proof -
  assume p: "\<not> p nl"
  have w: "takeWhile p (s @ nl # t) = takeWhile p s" for s t
    using p by (induction s) auto
  have cut: "take n (s @ u) = take n s" "drop n (s @ u) = drop n s @ u"
    if "n \<in> set (rev [lo ..< Suc (case hi of None \<Rightarrow> length (takeWhile p s) | Some h \<Rightarrow> min h (length (takeWhile p s)))])" for n s u
  proof -
    have "n \<le> length (takeWhile p s)" using that by (auto split: option.splits)
    with length_takeWhile_le [of p s] show "take n (s @ u) = take n s" "drop n (s @ u) = drop n s @ u" by simp_all
  qed
  show ?thesis
    unfolding line_local_def rep_def Let_def w map_map
    by (intro allI impI conjI map_cong refl) (auto simp only: cut o_def prod.case, auto simp: suffix_drop dest: in_set_takeD)
qed

lemma line_one [line_rules]: "\<not> p nl \<Longrightarrow> line_local one_line (rx_one p)"
  by (simp add: rx_one_def line_rep)

lemma line_word_end [line_rules]: "line_local (\<lambda>_. True) rx_word_end"
proof -
  have "\<not> is_word nl" by code_simp
  then show ?thesis by (auto simp: line_local_def rx_word_end_def split: list.split)
qed

lemma line_bind_end [line_rules]: "line_local Q (f ()) \<Longrightarrow> line_local Q (rx_bind rx_word_end f)"
  by (rule line_bind [OF line_word_end]) simp

lemma line_word_before [line_rules]: "line_local P m \<Longrightarrow> line_local P (word_before prev m)"
  by (auto simp: line_local_def word_before_def split: option.split)


lemma class_nl [simp]: "\<not> is_upper nl" "\<not> is_lower nl" "\<not> is_digit nl" "\<not> is_alnum nl" "is_space nl"
  by (simp_all add: is_upper_def is_lower_def is_digit_def is_alnum_def is_space_def less_eq_char_def Let_def)

lemma relative_tail_line: "line_local one_line rx_relative_tail"
  unfolding rx_relative_tail_def by (auto simp: url_mask_def userinfo_def intro!: line_rules)

text \<open>What replacing needs of an expression: it reads no further than the line, and after a newline it
  behaves as at the start of the text.\<close>

definition line_expr :: "(char option \<Rightarrow> string matcher) \<Rightarrow> bool" where
  "line_expr m \<longleftrightarrow> (\<forall>prev s. s \<noteq> [] \<longrightarrow> one_line s \<longrightarrow>
       (\<forall>t. m prev (s @ nl # t) = map (\<lambda>(a, r). (a, r @ nl # t)) (m prev s)) \<and>
       (\<forall>(a, r)\<in>set (m prev s). one_line a \<and> suffix r s)) \<and>
     (\<forall>prev t. replace_all m prev (nl # t) = nl # replace_all m None t)"

definition line_wise :: "(string \<Rightarrow> string) \<Rightarrow> bool" where
  "line_wise f \<longleftrightarrow> (\<forall>s. one_line s \<longrightarrow> one_line (f s) \<and> (\<forall>t. f (s @ nl # t) = f s @ nl # f t))"

lemma replace_all_line:
  "line_expr m \<Longrightarrow> one_line s \<Longrightarrow> one_line (replace_all m prev s) \<and>
    replace_all m prev (s @ nl # t) = replace_all m prev s @ nl # replace_all m None t"
proof (induction m prev s rule: replace_all.induct)
  case (1 m prev)
  then show ?case by (simp add: line_expr_def)
next
  case (2 m prev c s)
  have same: "m prev ((c # s) @ nl # t) = map (\<lambda>(a, r). (a, r @ nl # t)) (m prev (c # s))"
    and out: "\<forall>(a, r)\<in>set (m prev (c # s)). one_line a \<and> suffix r (c # s)"
    using 2(4,5) unfolding line_expr_def by (metis list.distinct(1))+
  show ?case
  proof (cases "m prev (c # s)")
    case Nil
    with same 2(1) [OF Nil 2(4)] 2(5) show ?thesis by auto
  next
    case (Cons x more)
    obtain a r where x: "x = (a, r)" by (cases x)
    have a: "one_line a" "suffix r (c # s)" using out Cons x by auto
    then have r: "one_line r" using 2(5) set_mono_suffix by blast
    show ?thesis
    proof (cases "length r < length (c # s)")
      case True
      have ix: "(c # s @ nl # t) ! (length s - length r) = (c # s) ! (length s - length r)"
        using nth_append_left [of "length s - length r" "c # s" "nl # t"] by simp
      from 2(2) [OF Cons x [symmetric] True 2(4) r] same Cons x a(1) True ix show ?thesis by auto
    next
      case False
      with out Cons x have "r = c # s" by (metis (no_types, lifting) case_prodD list.set_intros(1) not_less suffix_length_less suffix_order.order_iff_strict)
      with 2(3) [OF Cons x [symmetric] False 2(4)] 2(5) same Cons x a(1) False show ?thesis by auto
    qed
  qed
qed

lemma line_wise_replace: "line_expr m \<Longrightarrow> line_wise (replace_all m None)"
  using replace_all_line by (simp add: line_wise_def)

lemma line_wise_fold: "(\<forall>m\<in>set ms. line_expr m) \<Longrightarrow> line_wise (fold (\<lambda>m. replace_all m None) ms)"
proof (induction ms)
  case (Cons m ms)
  then show ?case using line_wise_replace [of m] by (simp add: line_wise_def)
qed (simp add: line_wise_def)

lemma line_exprI:
  assumes m: "\<And>prev. line_local one_line (m prev)" and none: "\<And>prev. m prev [] = []" and nl: "m (Some nl) = m None"
  shows "line_expr m"
proof -
  have "m prev (nl # t) = []" for prev t using line_localD(1) [OF m, of "[]" prev t] none by simp
  moreover have "replace_all m (Some nl) t = replace_all m None t" for t by (cases t) (simp_all add: nl)
  ultimately show ?thesis using m unfolding line_expr_def line_local_def by simp
qed

lemma at_end [simp]:
  "rx_lit (c # p) [] = []" "rx_lit_ci (c # p) [] = []" "0 < n \<Longrightarrow> rep q n hi [] = []" "rx_one q [] = []"
  "rx_or m1 m2 [] = m1 [] @ m2 []" "word_before prev m [] = []" if "m [] = []"
  using that by (auto simp: rx_lit_def rx_lit_ci_def rx_one_def rx_or_def word_before_def to_lower_def split: option.split)

lemma at_end_bind [simp]: "m [] = [] \<Longrightarrow> rx_bind m f [] = []"
  by (simp add: rx_bind_def)

lemma after_nl [simp]: "word_before (Some nl) m = word_before None m"
proof -
  have "\<not> is_word nl" by code_simp
  then show ?thesis by (auto simp: word_before_def fun_eq_iff)
qed

lemmas shape_defs = rx_url_def rx_auth_line_def rx_bearer_def rx_npm_token_def rx_gh_token_def rx_aws_key_def

lemma shape_line_exprs:
  "line_expr rx_url" "line_expr rx_auth_line" "line_expr rx_bearer"
  "line_expr rx_npm_token" "line_expr rx_gh_token" "line_expr rx_aws_key"
  by (rule line_exprI; auto simp: shape_defs url_mask_def userinfo_def hspace_def intro!: line_rules)+

lemma relative_url_at:
  "rx_relative_url prev s = (if prev = None then rx_relative_tail s else []) @
     (case s of [] \<Rightarrow> []
      | c # s' \<Rightarrow> if url_delim c then map (\<lambda>(a, r). (c # a, r)) (rx_relative_tail s') else [])"
  by (auto simp: rx_relative_url_def rx_or_def rx_bind_def rx_ret_def rx_one_def rep_def Let_def upt_rec split_def
      concat_map_singleton split: list.split)

lemma relative_tail_shorter: "(a, r) \<in> set (rx_relative_tail s) \<Longrightarrow> length r < length s"
  using starts_with_length [of s "''//''"]
  by (auto simp: rx_relative_tail_def rx_bind_def rx_ret_def rx_lit_def rep_def Let_def split: if_splits)

lemma relative_url_line: "line_expr rx_relative_url"
proof -
  have far: "rx_relative_tail (s @ nl # t) = map (\<lambda>(a, r). (a, r @ nl # t)) (rx_relative_tail s)"
    "\<forall>(a, r)\<in>set (rx_relative_tail s). one_line a \<and> suffix r s" if "one_line s" for s t
    using line_localD [OF relative_tail_line that] by blast+
  have none: "rx_relative_tail [] = []" by (simp add: rx_relative_tail_def)
  have at_nl: "replace_all rx_relative_url prev (nl # t) = nl # replace_all rx_relative_url None t" for prev t
  proof -
    have m: "rx_relative_url prev (nl # t) = map (\<lambda>(a, r). (nl # a, r)) (rx_relative_tail t)"
      using far(1) [of "[]" t] none by (simp add: relative_url_at url_delim_def)
    show ?thesis
    proof (cases "rx_relative_tail t")
      case Nil
      then have "rx_relative_url (Some nl) t = rx_relative_url None t" by (simp add: relative_url_at)
      then have "replace_all rx_relative_url (Some nl) t = replace_all rx_relative_url None t" by (cases t) simp_all
      with m Nil show ?thesis by simp
    next
      case (Cons x more)
      obtain a r where x: "x = (a, r)" by (cases x)
      have short: "length r < length t" using relative_tail_shorter [of a r t] Cons x by simp
      then obtain c s where t: "t = c # s" by (cases t) auto
      with short have "(nl # t) ! (length t - length r) = t ! (length s - length r)"
        by (simp add: Suc_diff_le less_Suc_eq_le)
      with m Cons x short t show ?thesis by (simp add: relative_url_at)
    qed
  qed
  have ext: "rx_relative_url prev (c # s @ nl # t) = map (\<lambda>(a, r). (a, r @ nl # t)) (rx_relative_url prev (c # s))"
    if "one_line (c # s)" for prev c s t
    using far(1) [OF that] far(1) [of s t] that by (simp add: relative_url_at o_def split_beta)
  have out: "\<forall>(a, r)\<in>set (rx_relative_url prev (c # s)). one_line a \<and> suffix r (c # s)"
    if "one_line (c # s)" for prev c s
    using far(2) [OF that] far(2) [of s] that by (auto simp: relative_url_at suffix_Cons)
  have "(\<forall>t. rx_relative_url prev (s @ nl # t) = map (\<lambda>(a, r). (a, r @ nl # t)) (rx_relative_url prev s)) \<and>
      (\<forall>(a, r)\<in>set (rx_relative_url prev s). one_line a \<and> suffix r s)" if s: "s \<noteq> []" "one_line s" for prev s
  proof (cases s)
    case (Cons c s')
    with s(2) have "one_line (c # s')" by simp
    from ext [OF this] out [OF this] show ?thesis unfolding Cons append_Cons by blast
  qed (use s in simp)
  then show ?thesis using at_nl unfolding line_expr_def by blast
qed

lemma shapes_line: "m \<in> set credential_shapes \<Longrightarrow> line_expr m"
  using shape_line_exprs relative_url_line by (auto simp: credential_shapes_def)

lemma join_line: "\<forall>l\<in>set ls. one_line l \<Longrightarrow> line_wise f \<Longrightarrow> ls \<noteq> [] \<Longrightarrow> f (join [nl] ls) = join [nl] (map f ls)"
  by (induction "[nl]" ls rule: join.induct) (auto simp: line_wise_def)


text \<open>The rows of a text, and the contract of the file: redacting row by row is redacting the text.\<close>

definition rows :: "string \<Rightarrow> string list" where
  "rows s = foldr (\<lambda>c acc. if c = nl then [] # acc else case acc of [] \<Rightarrow> [[c]] | r # rs \<Rightarrow> (c # r) # rs) s [[]]"

lemma rows_one_line: "rows s \<noteq> [] \<and> (\<forall>r\<in>set (rows s). one_line r)"
  by (induction s) (auto simp: rows_def split: list.split)

lemma join_rows: "join [nl] (rows s) = s"
proof (induction s)
  case (Cons c s)
  obtain r rs where r: "rows s = r # rs" using rows_one_line by (meson list.exhaust)
  with Cons show ?case by (cases rs) (auto simp: rows_def)
qed (simp add: rows_def)

lemma shapes_line_wise: "line_wise redactCredentialShapes"
proof -
  have "redactCredentialShapes = fold (\<lambda>m. replace_all m None) credential_shapes"
    by (simp add: fun_eq_iff redactCredentialShapes_def)
  then show ?thesis using line_wise_fold shapes_line by metis
qed

text \<open>C12: the line-local contract. Redacting the shapes of credentials row by row gives exactly what redacting
  the whole text gives, so a caller that sees one line at a time misses nothing a caller of the whole buffer
  would mask, and masks nothing more.\<close>

theorem shapes_line_local: "redactCredentialShapes text = join [nl] (map redactCredentialShapes (rows text))"
  using join_line [OF _ shapes_line_wise, of "rows text"] rows_one_line join_rows by metis

section \<open>Line by line\<close>

lemma mask_value_simps [simp]:
  "mask_value repl v [] = []"
  "mask_value repl v (c # s) =
     (if v \<noteq> [] \<and> starts_with (c # s) v then repl @ mask_value repl v (drop (length v) (c # s))
      else c # mask_value repl v s)"
proof -
  have "join repl ((c # hd ps) # tl ps) = c # join repl ps" if "ps \<noteq> []" for c ps
    using that by (cases ps; cases "tl ps") auto
  then show "mask_value repl v [] = []" "mask_value repl v (c # s) =
     (if v \<noteq> [] \<and> starts_with (c # s) v then repl @ mask_value repl v (drop (length v) (c # s))
      else c # mask_value repl v s)"
    using split_on_ne by (auto simp: mask_value_def join_Cons)
qed

lemma mask_value_line: "one_line v \<Longrightarrow> one_line repl \<Longrightarrow> line_wise (mask_value repl v)"
proof -
  assume v: "one_line v" and r: "one_line repl"
  have "one_line s \<Longrightarrow> one_line (mask_value repl v s) \<and>
      mask_value repl v (s @ nl # t) = mask_value repl v s @ nl # mask_value repl v t" for s t
  proof (induction s rule: length_induct)
    case (1 s)
    show ?case
    proof (cases s)
      case Nil
      then show ?thesis using v by (cases v) auto
    next
      case (Cons c s')
      have "starts_with (c # s' @ nl # t) v = starts_with (c # s') v"
        using starts_with_line [OF v, of "c # s'" t] by simp
      moreover have "drop (length v) (c # s' @ nl # t) = drop (length v) (c # s') @ nl # t"
        if "starts_with (c # s') v" using starts_with_length [OF that] by (cases v) auto
      moreover have "one_line (drop (length v) (c # s'))" using 1(2) Cons by (auto dest: in_set_dropD)
      ultimately show ?thesis using 1 Cons r by (cases "v \<noteq> [] \<and> starts_with (c # s') v") (auto simp: Suc_le_eq)
    qed
  qed
  then show "line_wise (mask_value repl v)" by (simp add: line_wise_def)
qed

lemma run_length_le: "run_length G k s + k \<le> length s \<or> run_length G k s = 0"
  by (induction G k s rule: run_length.induct) auto

lemma window_line:
  assumes "\<forall>g\<in>G. one_line g"
  shows "k \<le> length (s @ nl # t) \<and> take k (s @ nl # t) \<in> G \<longleftrightarrow> k \<le> length s \<and> take k s \<in> G"
proof (cases "k \<le> length s")
  case False
  then have "nl \<in> set (take k (s @ nl # t))" by (cases "k - length s") auto
  with assms False show ?thesis by blast
qed auto

lemma run_length_line:
  assumes "\<forall>g\<in>G. one_line g" "0 < k"
  shows "s \<noteq> [] \<Longrightarrow> run_length G k (s @ nl # t) = run_length G k s"
proof (induction s)
  case (Cons c s)
  have "s \<noteq> []" if "k \<le> length s \<and> take k s \<in> G" using that assms(2) by auto
  with Cons.IH show ?case
    unfolding append_Cons run_length.simps(2) window_line [OF assms(1)] by simp
qed simp

lemma scan_short: "k = 0 \<or> length s < k \<Longrightarrow> scan_fragments G k repl s = s"
  by (subst scan_fragments.simps) simp

lemma scan_gram:
  "0 < k \<Longrightarrow> k \<le> length s \<and> take k s \<in> G \<Longrightarrow>
    scan_fragments G k repl s = repl @ scan_fragments G k repl (drop (run_length G k s + k) s)"
  by (subst scan_fragments.simps) simp

lemma scan_char:
  "\<not> (k \<le> length (c # s) \<and> take k (c # s) \<in> G) \<Longrightarrow> scan_fragments G k repl (c # s) = c # scan_fragments G k repl s"
proof (cases "k = 0 \<or> length (c # s) < k")
  case True
  then show ?thesis using scan_short [of k "c # s" G repl] scan_short [of k s G repl] by auto
next
  case False
  then show "\<not> (k \<le> length (c # s) \<and> take k (c # s) \<in> G) \<Longrightarrow> ?thesis"
    by (subst scan_fragments.simps) simp
qed

lemma scan_over:
  assumes "\<forall>g\<in>G. one_line g"
  shows "length s < k \<Longrightarrow> scan_fragments G k repl (s @ nl # t) = s @ nl # scan_fragments G k repl t"
proof (induction s)
  case Nil
  have "\<not> (k \<le> length (nl # t) \<and> take k (nl # t) \<in> G)" using window_line [OF assms, of k "[]" t] Nil by simp
  from scan_char [OF this] show ?case by simp
next
  case (Cons c s)
  have "\<not> (k \<le> length (c # s @ nl # t) \<and> take k (c # s @ nl # t) \<in> G)"
    using window_line [OF assms, of k "c # s" t] Cons.prems by simp
  from scan_char [OF this] Cons show ?case by simp
qed

lemma scan_line:
  assumes G: "\<forall>g\<in>G. one_line g" and k: "0 < k" and r: "one_line repl"
  shows "line_wise (scan_fragments G k repl)"
proof -
  have "one_line s \<Longrightarrow> one_line (scan_fragments G k repl s) \<and>
      scan_fragments G k repl (s @ nl # t) = scan_fragments G k repl s @ nl # scan_fragments G k repl t" for s t
  proof (induction s rule: length_induct)
    case (1 s)
    consider "length s < k" | "k \<le> length s \<and> take k s \<in> G" | "k \<le> length s" "take k s \<notin> G" by linarith
    then show ?case
    proof cases
      case 1
      with scan_over [OF G 1] \<open>one_line s\<close> show ?thesis by (simp add: scan_short)
    next
      case 2
      let ?n = "run_length G k s + k"
      have n: "?n \<le> length s" "s \<noteq> []" using run_length_le [of G k s] 2 k by auto
      have "drop ?n (s @ nl # t) = drop ?n s @ nl # t" using n(1) by simp
      then have "scan_fragments G k repl (s @ nl # t) = repl @ scan_fragments G k repl (drop ?n s @ nl # t)"
        using scan_gram [OF k 2 [folded window_line [OF G, of k s t]]] run_length_line [OF G k n(2)] by metis
      moreover have "length (drop ?n s) < length s" "one_line (drop ?n s)"
        using n k \<open>one_line s\<close> by (auto dest: in_set_dropD)
      ultimately show ?thesis using 1(1) r scan_gram [OF k 2] by simp
    next
      case 3
      then obtain c s' where s: "s = c # s'" using k by (cases s) auto
      have "scan_fragments G k repl (c # s' @ nl # t) = c # scan_fragments G k repl (s' @ nl # t)"
        using scan_char [of k c "s' @ nl # t"] window_line [OF G, of k s t] 3 s by auto
      with 3 1 s scan_char [of k c s' G repl] show ?thesis by auto
    qed
  qed
  then show ?thesis by (simp add: line_wise_def)
qed

lemma line_wise_comp: "line_wise f \<Longrightarrow> line_wise g \<Longrightarrow> line_wise (\<lambda>s. f (g s))"
  by (simp add: line_wise_def)

lemma line_wise_fold_masks: "(\<forall>x\<in>set xs. line_wise (h x)) \<Longrightarrow> line_wise (fold h xs)"
proof (induction xs)
  case (Cons x xs)
  then show ?case by (simp add: line_wise_def)
qed (simp add: line_wise_def)

lemma scan_empty: "scan_fragments {} k repl s = s"
proof (induction s)
  case (Cons c s)
  then show ?case by (simp add: scan_char)
qed (cases k; simp add: scan_short)

lemma fragments_scan:
  "\<not> fm_capped m \<Longrightarrow> maskValueFragmentsWith s m l = scan_fragments (fm_grams m) (fm_minFragment m) (bracketed l) s"
  by (auto simp: maskValueFragmentsWith_def scan_short scan_empty)

lemma bracketed_line: "one_line l \<Longrightarrow> one_line (bracketed l)"
  by (simp add: bracketed_def)

lemma grams_line:
  assumes "\<forall>v\<in>set vs. one_line v" "\<not> fm_capped (buildFragmentMatcher vs k)"
  shows "\<forall>g\<in>fm_grams (buildFragmentMatcher vs k). one_line g"
proof
  fix g assume "g \<in> fm_grams (buildFragmentMatcher vs k)"
  with assms(2) have "\<exists>v\<in>set vs. g \<in> set (windows k v)"
    by (auto simp: buildFragmentMatcher_def Let_def split_beta add_grams_all split: if_splits)
  then obtain v where "v \<in> set vs" "sublist g v" using set_windows by blast
  with assms(1) set_mono_sublist show "one_line g" by blast
qed

text \<open>The redactor of the guest works line by line too, when no declared value spans a line and the
  matcher is not capped.\<close>

lemma guest_line_wise:
  assumes one: "\<forall>(n, v)\<in>set (declared_values names env). one_line n \<and> one_line v"
    and fits: "\<not> fm_capped (buildFragmentMatcher (map snd (declared_values names env)) DEFAULT_MIN_FRAGMENT)"
  shows "line_wise (createSensitiveRedactor names env)"
proof -
  let ?vs = "declared_values names env"
  have 1: "line_wise (fold (\<lambda>(n, v). mask_value (bracketed (''REDACTED:'' @ n)) v) ?vs)"
    using one by (intro line_wise_fold_masks) (auto intro!: mask_value_line bracketed_line)
  have 2: "line_wise (\<lambda>s. maskValueFragmentsWith s (buildFragmentMatcher (map snd ?vs) DEFAULT_MIN_FRAGMENT) ''REDACTED:SECRET'')"
    unfolding fragments_scan [OF fits]
    using grams_line [OF _ fits] one
    by (intro scan_line) (auto simp: DEFAULT_MIN_FRAGMENT_def bracketed_def split_beta)
  from line_wise_comp [OF shapes_line_wise line_wise_comp [OF 2 1]] show ?thesis
    by (simp add: createSensitiveRedactor_def [abs_def] Let_def)
qed

end
