(* ===== verification/RedactSecrets.thy ===== *)
theory RedactSecrets
  imports Redact
begin

text \<open>
  What the redactors of \<open>Redact\<close> can let through. The locale \<open>veil\<close> is the contract of a mask: it writes
  only pieces of its text and labels in brackets. Every mask of the chain is an interpretation; the
  compositions follow, and with them that no declared secret survives, whole or in pieces.
\<close>

section \<open>What a mask can leave\<close>

text \<open>A mask writes nothing but pieces of its text and labels in angle brackets. So a piece of its output
  without brackets was in the text, or is part of a label.\<close>

abbreviation unbracketed :: "string \<Rightarrow> bool" where
  "unbracketed f \<equiv> CHR ''<'' \<notin> set f \<and> CHR ''>'' \<notin> set f"

definition in_label :: "string set \<Rightarrow> string \<Rightarrow> bool" where
  "in_label labels f \<longleftrightarrow> (\<exists>l\<in>labels. sublist f l)"

locale veil =
  fixes mask :: "string \<Rightarrow> string" and labels :: "string set"
  assumes leaves: "unbracketed f \<Longrightarrow> sublist f (mask s) \<Longrightarrow> sublist f s \<or> in_label labels f"

lemma veil_id: "veil (\<lambda>s. s) {}"
  by unfold_locales simp

lemma veil_comp:
  assumes f: "veil f L" and g: "veil g M"
  shows "veil (\<lambda>s. f (g s)) (L \<union> M)"
proof
  fix x s assume u: "unbracketed x" and "sublist x (f (g s))"
  with veil.leaves [OF f u] have "sublist x (g s) \<or> in_label L x" by blast
  with veil.leaves [OF g u] show "sublist x s \<or> in_label (L \<union> M) x" by (auto simp: in_label_def)
qed

lemma veil_mono: "veil f L \<Longrightarrow> L \<subseteq> M \<Longrightarrow> veil f M"
  unfolding veil_def in_label_def by blast

lemma veil_fold: "(\<forall>x\<in>set xs. veil (h x) L) \<Longrightarrow> veil (fold h xs) L"
proof (induction xs)
  case Nil
  show ?case using veil_mono [OF veil_id, of L] by (simp add: id_def)
next
  case (Cons x xs)
  then have "veil (\<lambda>s. fold h xs (h x s)) (L \<union> L)" by (intro veil_comp) auto
  then show ?case by (simp add: comp_def)
qed

text \<open>An unbracketed piece does not cross a bracket.\<close>

lemma sublist_around:
  assumes "c \<notin> set f" "sublist f (a @ c # b)"
  shows "sublist f a \<or> sublist f b"
proof -
  have head: "f = []" if "prefix f (c # d)" for d using that assms(1) by (cases f) auto
  from assms(2) consider "sublist f a" | "prefix f (c # b)" | "sublist f b"
    | x y where "f = x @ y" "suffix x a" "prefix y (c # b)"
    unfolding sublist_append sublist_Cons_right by blast
  then show ?thesis
  proof cases
    case 4
    with assms(1) have "y = []" by (cases y) auto
    with 4 show ?thesis by auto
  qed (use head in auto)
qed

lemma sublist_bracketed:
  assumes "unbracketed f" "sublist f (bracketed l @ b)"
  shows "sublist f l \<or> sublist f b"
proof -
  have "sublist f [] \<or> sublist f (l @ CHR ''>'' # b)"
    using sublist_around [of "CHR ''<''" f "[]" "l @ CHR ''>'' # b"] assms by (simp add: bracketed_def)
  then show ?thesis using sublist_around [of "CHR ''>''" f l b] assms(1) by auto
qed

lemma prefix_bracketed: "unbracketed f \<Longrightarrow> prefix f (bracketed l @ b) \<Longrightarrow> f = []"
  by (cases f) (auto simp: bracketed_def)

text \<open>Masking a value.\<close>

lemma split_on_hd: "prefix (hd (split_on v s)) s"
  by (induction v s rule: split_on.induct) auto

lemma split_pieces: "p \<in> set (split_on v s) \<Longrightarrow> sublist p s"
proof (induction v s rule: split_on.induct)
  case (2 v c s)
  show ?case
  proof (cases "v \<noteq> [] \<and> starts_with (c # s) v")
    case True
    with 2 have "p = [] \<or> sublist p (drop (length v) (c # s))" by auto
    then show ?thesis by (metis sublist_Nil_left sublist_drop sublist_order.order_trans)
  next
    case False
    with "2.prems" consider "p = c # hd (split_on v s)" | "p \<in> set (tl (split_on v s))" by auto
    then show ?thesis
    proof cases
      case 1
      then show ?thesis using split_on_hd [of v s] by (simp add: prefix_imp_sublist)
    next
      case 2
      then have "p \<in> set (split_on v s)" using split_on_ne [of v s] by (meson list.set_sel(2))
      with "2.IH"(2) False show ?thesis by (meson sublist_Cons_right)
    qed
  qed
qed simp

lemma split_avoids: "v \<noteq> [] \<Longrightarrow> p \<in> set (split_on v s) \<Longrightarrow> \<not> sublist v p"
proof (induction v s arbitrary: p rule: split_on.induct)
  case (2 v c s)
  show ?case
  proof (cases "starts_with (c # s) v")
    case True
    with 2 show ?thesis by auto
  next
    case False
    with "2.prems" consider "p = c # hd (split_on v s)" | "p \<in> set (tl (split_on v s))" by auto
    then show ?thesis
    proof cases
      case 1
      have "\<not> prefix v p"
      proof
        assume "prefix v p"
        moreover have "prefix p (c # s)" using split_on_hd 1 by simp
        ultimately show False using False by (metis starts_with_prefix prefix_order.order_trans)
      qed
      moreover have "\<not> sublist v (hd (split_on v s))"
        using "2.IH"(2) False "2.prems"(1) list.set_sel(1) [OF split_on_ne] by blast
      ultimately show ?thesis using 1 by (simp add: sublist_Cons_right)
    next
      case 2
      then have "p \<in> set (split_on v s)" using split_on_ne [of v s] by (meson list.set_sel(2))
      with "2.IH"(2) False "2.prems"(1) show ?thesis by blast
    qed
  qed
qed simp

lemma join_leaves:
  "ps \<noteq> [] \<Longrightarrow> unbracketed f \<Longrightarrow> sublist f (join (bracketed l) ps) \<Longrightarrow> (\<exists>p\<in>set ps. sublist f p) \<or> sublist f l"
proof (induction "bracketed l" ps rule: join.induct)
  case (3 s t ss)
  from 3(4) have "sublist f (s @ CHR ''<'' # l @ CHR ''>'' # join (bracketed l) (t # ss))" by (simp add: bracketed_def)
  then consider "sublist f s" | "sublist f l" | "sublist f (join (bracketed l) (t # ss))"
    using sublist_around [of "CHR ''<''" f s] sublist_around [of "CHR ''>''" f l] 3(3) by blast
  then show ?case using 3 by cases auto
qed auto

lemma veil_mask_value: "veil (mask_value (bracketed l) v) {l}"
proof
  fix f s assume "unbracketed f" "sublist f (mask_value (bracketed l) v s)"
  then have "(\<exists>p\<in>set (split_on v s). sublist f p) \<or> sublist f l"
    using join_leaves split_on_ne unfolding mask_value_def by blast
  then show "sublist f s \<or> in_label {l} f"
    using split_pieces sublist_order.order_trans unfolding in_label_def by blast
qed

lemma mask_value_gone:
  "v \<noteq> [] \<Longrightarrow> unbracketed v \<Longrightarrow> sublist v (mask_value (bracketed l) v s) \<Longrightarrow> sublist v l"
  using join_leaves [OF split_on_ne] split_avoids unfolding mask_value_def by blast

interpretation exact: veil "mask_value (bracketed l) v" "{l}" for l v
  by (rule veil_mask_value)


text \<open>Masking fragments.\<close>

lemma scan_prefix: "unbracketed p \<Longrightarrow> prefix p (scan_fragments G k (bracketed l) s) \<Longrightarrow> prefix p s"
proof (induction G k "bracketed l" s arbitrary: p rule: scan_fragments.induct)
  case (1 G k s)
  consider "k = 0 \<or> length s < k" | "\<not> (k = 0 \<or> length s < k)" "take k s \<in> G" | "\<not> (k = 0 \<or> length s < k)" "take k s \<notin> G"
    by blast
  then show ?case
  proof cases
    case 1
    with "1.prems" show ?thesis by (subst (asm) scan_fragments.simps) simp
  next
    case 2
    with "1.prems"(2) have "prefix p (bracketed l @ scan_fragments G k (bracketed l) (drop (run_length G k s + k) s))"
      by (subst (asm) scan_fragments.simps) simp
    then have "p = []" by (rule prefix_bracketed [OF "1.prems"(1)])
    then show ?thesis by simp
  next
    case 3
    then obtain c s' where s: "s = c # s'" by (cases s) auto
    with 3 "1.prems" have "p = [] \<or> (\<exists>p'. p = c # p' \<and> prefix p' (scan_fragments G k (bracketed l) s'))"
      by (subst (asm) scan_fragments.simps) (auto simp: prefix_Cons)
    with "1.hyps"(2) [OF 3] "1.prems"(1) s show ?thesis by auto
  qed
qed

lemma scan_leaves:
  "unbracketed f \<Longrightarrow> sublist f (scan_fragments G k (bracketed l) s) \<Longrightarrow>
    (sublist f s \<and> \<not> (f \<in> G \<and> length f = k \<and> 0 < k)) \<or> sublist f l"
proof (induction G k "bracketed l" s rule: scan_fragments.induct)
  case (1 G k s)
  consider "k = 0 \<or> length s < k" | "\<not> (k = 0 \<or> length s < k)" "take k s \<in> G" | "\<not> (k = 0 \<or> length s < k)" "take k s \<notin> G"
    by blast
  then show ?case
  proof cases
    case 1
    with "1.prems" show ?thesis by (subst (asm) scan_fragments.simps) (auto dest: sublist_length_le)
  next
    case 2
    with "1.prems" have "sublist f (bracketed l @ scan_fragments G k (bracketed l) (drop (run_length G k s + k) s))"
      by (subst (asm) scan_fragments.simps) simp
    with sublist_bracketed [OF "1.prems"(1)] "1.hyps"(1) [OF 2 "1.prems"(1)] show ?thesis
      by (meson sublist_drop sublist_order.order_trans)
  next
    case 3
    then obtain c s' where s: "s = c # s'" by (cases s) auto
    with 3 "1.prems" have "prefix f (c # scan_fragments G k (bracketed l) s') \<or> sublist f (scan_fragments G k (bracketed l) s')"
      by (subst (asm) scan_fragments.simps) (auto simp: sublist_Cons_right)
    then show ?thesis
    proof
      assume p: "prefix f (c # scan_fragments G k (bracketed l) s')"
      have "prefix f s"
      proof (cases f)
        case (Cons d f')
        with p "1.prems"(1) scan_prefix [of f' G k l s'] s show ?thesis by auto
      qed simp
      moreover have "f = take k s" if "length f = k" using \<open>prefix f s\<close> that by (auto simp: prefix_def)
      ultimately show ?thesis using 3 by auto
    next
      assume "sublist f (scan_fragments G k (bracketed l) s')"
      with "1.hyps"(2) [OF 3 "1.prems"(1)] s show ?thesis by (auto simp: sublist_Cons_right)
    qed
  qed
qed

lemma veil_fragments: "veil (\<lambda>s. maskValueFragmentsWith s m l) {l}"
proof
  fix f s assume u: "unbracketed f" "sublist f (maskValueFragmentsWith s m l)"
  then show "sublist f s \<or> in_label {l} f"
    using scan_leaves [OF u(1)] sublist_bracketed [OF u(1), of l "[]"]
    by (auto simp: maskValueFragmentsWith_def in_label_def split: if_splits)
qed

lemma fragment_gone:
  assumes v: "v \<in> set vs" "f \<in> set (windows k v)" "0 < k" and f: "unbracketed f"
    and left: "sublist f (maskValueFragmentsWith s (buildFragmentMatcher vs k) l)"
  shows "sublist f l"
proof -
  let ?m = "buildFragmentMatcher vs k"
  have len: "length f = k" using v(2) set_windows by blast
  consider "length s < k" | "k \<le> length s" "fm_capped ?m" | "k \<le> length s" "\<not> fm_capped ?m" by linarith
  then show ?thesis
  proof cases
    case 1
    with left len show ?thesis by (auto simp: maskValueFragmentsWith_def dest: sublist_length_le)
  next
    case 2
    with left sublist_bracketed [OF f, of l "[]"] len v(3) show ?thesis by (auto simp: maskValueFragmentsWith_def)
  next
    case 3
    then have g: "f \<in> fm_grams ?m" using matcher_grams v by blast
    with 3 left have "sublist f (scan_fragments (fm_grams ?m) k (bracketed l) s)"
      by (auto simp: maskValueFragmentsWith_def split: if_splits)
    with scan_leaves [OF f this] g len v(3) show ?thesis by blast
  qed
qed

text \<open>The shapes: what a matcher consumes, related to its result.\<close>

definition consumes :: "(string \<Rightarrow> 'a \<Rightarrow> bool) \<Rightarrow> 'a matcher \<Rightarrow> bool" where
  "consumes P m \<longleftrightarrow> (\<forall>s a r. (a, r) \<in> set (m s) \<longrightarrow> (\<exists>x. s = x @ r \<and> P x a))"

named_theorems consume_rules

lemma consumesD: "consumes P m \<Longrightarrow> (a, r) \<in> set (m s) \<Longrightarrow> \<exists>x. s = x @ r \<and> P x a"
  by (simp add: consumes_def)

lemma consumes_bind:
  assumes m: "consumes P m" and f: "\<And>x a. P x a \<Longrightarrow> consumes (\<lambda>y b. Q (x @ y) b) (f a)"
  shows "consumes Q (rx_bind m f)"
  unfolding consumes_def
proof (intro allI impI)
  fix s b r assume "(b, r) \<in> set (rx_bind m f s)"
  then obtain a r' where 1: "(a, r') \<in> set (m s)" and 2: "(b, r) \<in> set (f a r')" by (force simp: rx_bind_def)
  from consumesD [OF m 1] obtain x where x: "s = x @ r'" "P x a" by blast
  from consumesD [OF f [OF x(2)] 2] obtain y where "r' = y @ r" "Q (x @ y) b" by blast
  with x(1) show "\<exists>x. s = x @ r \<and> Q x b" by (intro exI [of _ "x @ y"]) simp
qed

lemma consumes_ret [consume_rules]: "Q [] a \<Longrightarrow> consumes Q (rx_ret a)"
  by (simp add: consumes_def rx_ret_def)

lemma consumes_or [consume_rules]: "consumes Q m \<Longrightarrow> consumes Q n \<Longrightarrow> consumes Q (rx_or m n)"
  by (auto simp: consumes_def rx_or_def)

lemma consumes_before [consume_rules]: "consumes Q m \<Longrightarrow> consumes Q (word_before prev m)"
  by (auto simp: consumes_def word_before_def split: option.split)

lemma eats: "consumes (\<lambda>x a. a = x) (rx_lit_ci p)" "consumes (\<lambda>x a. a = x) (rep q lo hi)"
  "consumes (\<lambda>x a. a = x) (rx_one q)" "consumes (\<lambda>x a. x = p \<and> a = p) (rx_lit p)"
  "consumes (\<lambda>x a. x = []) rx_word_end"
  by (auto simp: consumes_def rx_lit_def rx_lit_ci_def rep_def rx_one_def rx_word_end_def Let_def
      dest: starts_with_split split: list.splits)

lemma consumes_seq [consume_rules]:
  "(\<And>x. consumes (\<lambda>y b. Q (x @ y) b) (f x)) \<Longrightarrow> consumes Q (rx_bind (rx_lit_ci p) f)"
  "(\<And>x. consumes (\<lambda>y b. Q (x @ y) b) (f x)) \<Longrightarrow> consumes Q (rx_bind (rep q lo hi) f)"
  "(\<And>x. consumes (\<lambda>y b. Q (x @ y) b) (f x)) \<Longrightarrow> consumes Q (rx_bind (rx_one q) f)"
  "consumes (\<lambda>y b. Q (p @ y) b) (f p) \<Longrightarrow> consumes Q (rx_bind (rx_lit p) f)"
  "consumes Q (g ()) \<Longrightarrow> consumes Q (rx_bind rx_word_end g)"
  by (rule consumes_bind [OF eats(1)], blast) (rule consumes_bind [OF eats(2)], blast,
    rule consumes_bind [OF eats(3)], blast, rule consumes_bind [OF eats(4)], blast,
    rule consumes_bind [OF eats(5)], simp)

definition masked :: "string set \<Rightarrow> string \<Rightarrow> string \<Rightarrow> bool" where
  "masked L x a \<longleftrightarrow> (\<exists>pre mid post l. x = pre @ mid @ post \<and> a = pre @ bracketed l @ post \<and> l \<in> L)"

definition shape_labels :: "string set" where
  "shape_labels = {''REDACTED:URL-CREDENTIALS'', ''REDACTED'', ''REDACTED:NPM-TOKEN'', ''REDACTED:GH-TOKEN'',
     ''REDACTED:AWS-KEY''}"

lemma maskedI:
  "a = bracketed l \<Longrightarrow> l \<in> L \<Longrightarrow> masked L x a"
  "x = pre @ mid @ post \<Longrightarrow> a = pre @ bracketed l @ post \<Longrightarrow> l \<in> L \<Longrightarrow> masked L x a"
  unfolding masked_def by (metis append.left_neutral append.right_neutral, blast)

lemma masks_npm: "consumes (masked shape_labels) (rx_npm_token prev)"
  unfolding rx_npm_token_def
  by (intro consume_rules maskedI(1) [where l = "''REDACTED:NPM-TOKEN''"]) (simp_all add: bracketed_def shape_labels_def)

lemma masks_gh: "consumes (masked shape_labels) (rx_gh_token prev)"
  unfolding rx_gh_token_def
  by (intro consume_rules maskedI(1) [where l = "''REDACTED:GH-TOKEN''"]) (simp_all add: bracketed_def shape_labels_def)

lemma eats_either: "consumes (\<lambda>x a. a = x) m \<Longrightarrow> consumes (\<lambda>x a. a = x) n \<Longrightarrow>
    (\<And>x. consumes (\<lambda>y b. Q (x @ y) b) (f x)) \<Longrightarrow> consumes Q (rx_bind (rx_or m n) f)"
  by (rule consumes_bind [OF consumes_or [where Q = "\<lambda>x a. a = x"]]) auto

lemma eats_lit: "consumes (\<lambda>x a. a = x) (rx_lit p)"
  using eats(4) [of p] unfolding consumes_def by blast

lemma masks_aws: "consumes (masked shape_labels) (rx_aws_key prev)"
  unfolding rx_aws_key_def
  by (intro consumes_before eats_either eats_lit consume_rules maskedI(1) [where l = "''REDACTED:AWS-KEY''"])
    (simp_all add: bracketed_def shape_labels_def)

lemma masks_url: "consumes (masked shape_labels) (rx_url prev)"
  unfolding rx_url_def
  by (intro consume_rules maskedI(2) [where post = "''@''" and l = "''REDACTED:URL-CREDENTIALS''"])
    (auto simp: bracketed_def url_mask_def shape_labels_def)

lemma relative_consumes:
  "consumes (\<lambda>x a. \<exists>u. x = ''//'' @ u @ ''@'' \<and> a = ''//'' @ url_mask) rx_relative_tail"
  unfolding rx_relative_tail_def by (intro consume_rules) auto

lemma masks_relative: "consumes (masked shape_labels) (rx_relative_url prev)"
proof -
  have tail: "masked shape_labels (d @ ''//'' @ u @ ''@'') (d @ ''//'' @ url_mask)" for d u
    by (rule maskedI(2) [of _ "d @ ''//''" u "''@''" _ "''REDACTED:URL-CREDENTIALS''"])
      (auto simp: url_mask_def bracketed_def shape_labels_def)
  have "consumes (masked shape_labels) (\<lambda>s. if prev = None then rx_relative_tail s else [])"
    unfolding consumes_def
  proof (intro allI impI)
    fix s a r assume "(a, r) \<in> set (if prev = None then rx_relative_tail s else [])"
    then have "(a, r) \<in> set (rx_relative_tail s)" by (simp split: if_splits)
    from consumesD [OF relative_consumes this] tail [of "[]"]
    show "\<exists>x. s = x @ r \<and> masked shape_labels x a" by auto
  qed
  moreover have "consumes (masked shape_labels) (rx_bind (rx_one url_delim) (\<lambda>d. rx_bind rx_relative_tail (\<lambda>r. rx_ret (d @ r))))"
    using tail by (intro consume_rules consumes_bind [OF relative_consumes]) auto
  ultimately show ?thesis unfolding rx_relative_url_def by (rule consumes_or)
qed

lemma masks_bearer: "consumes (masked shape_labels) (rx_bearer prev)"
  unfolding rx_bearer_def
  by (intro consume_rules maskedI(2) [where post = "[]" and l = "''REDACTED''"])
    (auto simp: bracketed_def shape_labels_def)

lemma masks_auth: "consumes (masked shape_labels) (rx_auth_line prev)"
  unfolding rx_auth_line_def
  by (intro eats_either eats(1) consumes_or consume_rules maskedI(2) [where post = "[]" and l = "''REDACTED''"])
    (auto simp: bracketed_def shape_labels_def)

lemma replace_prefix:
  assumes "\<And>prev. consumes (masked L) (m prev)" "unbracketed p" "prefix p (replace_all m prev s)"
  shows "prefix p s"
  using assms
proof (induction m prev s arbitrary: p rule: replace_all.induct)
  case (2 m prev c s)
  show ?case
  proof (cases "m prev (c # s)")
    case Nil
    with 2(6) have "p = [] \<or> (\<exists>p'. p = c # p' \<and> prefix p' (replace_all m (Some c) s))" by (auto simp: prefix_Cons)
    with 2(1) [OF Nil 2(4)] 2(5) show ?thesis by auto
  next
    case (Cons x more)
    obtain a r where x: "x = (a, r)" by (cases x)
    from consumesD [OF 2(4), of a r prev "c # s"] Cons x obtain y where "c # s = y @ r" "masked L y a" by auto
    then obtain pre mid post l where y: "c # s = pre @ mid @ post @ r" "a = pre @ bracketed l @ post"
      by (auto simp: masked_def)
    obtain rest where "replace_all m prev (c # s) = pre @ CHR ''<'' # rest"
      using Cons x y(2) by (cases "length r < length (c # s)") (auto simp: bracketed_def)
    with 2(5,6) have "prefix p (pre @ CHR ''<'' # rest)" "CHR ''<'' \<notin> set p" by auto
    then have "prefix p pre" by (auto simp: prefix_append prefix_Cons)
    then show ?thesis unfolding y(1) by (simp add: prefix_prefix)
  qed
qed simp

lemma replace_leaves:
  assumes "\<And>prev. consumes (masked L) (m prev)" "unbracketed f" "sublist f (replace_all m prev s)"
  shows "sublist f s \<or> in_label L f"
  using assms
proof (induction m prev s rule: replace_all.induct)
  case (2 m prev c s)
  show ?case
  proof (cases "m prev (c # s)")
    case Nil
    with 2(6) consider "prefix f (replace_all m prev (c # s))" | "sublist f (replace_all m (Some c) s)"
      by (auto simp: sublist_Cons_right)
    then show ?thesis
    proof cases
      case 1
      then have "prefix f (c # s)" by (rule replace_prefix [where m = m and L = L, OF 2(4,5)])
      then show ?thesis by blast
    next
      case 2
      with "2.IH"(1) [OF Nil "2.prems"(1,2)] show ?thesis by (auto simp: sublist_Cons_right)
    qed
  next
    case (Cons x more)
    obtain a r where x: "x = (a, r)" by (cases x)
    from consumesD [OF 2(4), of a r prev "c # s"] Cons x obtain y where "c # s = y @ r" "masked L y a" by auto
    then obtain pre mid post l where y: "c # s = pre @ mid @ post @ r" "a = pre @ bracketed l @ post" "l \<in> L"
      by (auto simp: masked_def)
    let ?rest = "if length r < length (c # s) then replace_all m (Some ((c # s) ! (length s - length r))) r
      else c # replace_all m (Some c) s"
    have out: "replace_all m prev (c # s) = pre @ CHR ''<'' # l @ CHR ''>'' # post @ ?rest"
      using Cons x y(2) by (simp add: bracketed_def)
    have pre: "prefix p r" if p: "unbracketed p" "prefix p ?rest" for p
    proof (cases "length r < length (c # s)")
      case True
      with p(2) have "prefix p (replace_all m (Some ((c # s) ! (length s - length r))) r)" by simp
      then show ?thesis by (rule replace_prefix [where m = m and L = L, OF 2(4) p(1)])
    next
      case False
      with y(1) have "r = c # s" by (auto simp: append_eq_conv_conj)
      with False p have "p = [] \<or> (\<exists>p'. p = c # p' \<and> unbracketed p' \<and> prefix p' (replace_all m (Some c) s))"
        by (auto simp: prefix_Cons)
      with replace_prefix [where m = m and L = L, OF 2(4)] \<open>r = c # s\<close> show ?thesis by auto
    qed
    have sub: "sublist f r \<or> in_label L f" if f: "sublist f ?rest"
    proof (cases "length r < length (c # s)")
      case True
      with f "2.IH"(2) [OF Cons x [symmetric] True "2.prems"(1,2)] show ?thesis by auto
    next
      case False
      with y(1) have "r = c # s" by (auto simp: append_eq_conv_conj)
      with False f pre [of f] 2(5) "2.IH"(3) [OF Cons x [symmetric] False "2.prems"(1,2)] show ?thesis
        by (auto simp: sublist_Cons_right)
    qed
    from 2(5,6) out consider "sublist f pre" | "sublist f l" | "sublist f (post @ ?rest)"
      using sublist_around [of "CHR ''<''" f pre] sublist_around [of "CHR ''>''" f l] by metis
    then show ?thesis
    proof cases
      case 1
      then show ?thesis unfolding y(1) by (simp add: sublist_append)
    next
      case 2
      with y(3) show ?thesis by (auto simp: in_label_def)
    next
      case 3
      then consider "sublist f post" | "sublist f ?rest" | u w where "f = u @ w" "suffix u post" "prefix w ?rest"
        unfolding sublist_append by blast
      then show ?thesis
      proof cases
        case 1
        then show ?thesis unfolding y(1) by (simp add: sublist_append)
      next
        case 2
        with sub show ?thesis unfolding y(1) by (auto simp: sublist_append)
      next
        case 3
        with 2(5) pre [of w] have "prefix w r" by simp
        with 3 have "sublist f (post @ r)" unfolding sublist_append by blast
        then show ?thesis unfolding y(1) by (simp add: sublist_append)
      qed
    qed
  qed
qed simp


lemma shapes_masked: "m \<in> set credential_shapes \<Longrightarrow> consumes (masked shape_labels) (m prev)"
  using masks_url masks_relative masks_auth masks_bearer masks_npm masks_gh masks_aws
  by (auto simp: credential_shapes_def)

lemma veil_shapes: "veil redactCredentialShapes shape_labels"
proof -
  have "veil (replace_all m None) shape_labels" if "m \<in> set credential_shapes" for m
    by unfold_locales (rule replace_leaves [where m = m, OF shapes_masked [OF that]])
  then have "veil (fold (\<lambda>m. replace_all m None) credential_shapes) shape_labels" by (intro veil_fold) auto
  then show ?thesis by (simp add: redactCredentialShapes_def [abs_def])
qed

lemma veil_exact: "veil (\<lambda>s. maskExactValues s vs l n) {l}"
  unfolding maskExactValues_def by (rule veil_fold) (simp add: veil_mask_value)

interpretation fragments: veil "\<lambda>s. maskValueFragmentsWith s m l" "{l}" for m l
  by (rule veil_fragments)

interpretation shapes: veil redactCredentialShapes shape_labels
  by (rule veil_shapes)

section \<open>What the redactors let through\<close>

definition guest_labels :: "string list \<Rightarrow> string set" where
  "guest_labels names = shape_labels \<union> {''REDACTED:SECRET''} \<union> (\<lambda>n. ''REDACTED:'' @ n) ` set names"

lemma in_label_simps [simp]:
  "in_label {} f = False" "in_label (insert l L) f \<longleftrightarrow> sublist f l \<or> in_label L f"
  "in_label (L \<union> M) f \<longleftrightarrow> in_label L f \<or> in_label M f" "in_label (g ` A) f \<longleftrightarrow> (\<exists>a\<in>A. sublist f (g a))"
  by (auto simp: in_label_def)

lemma veil_guest_step:
  assumes "n \<in> set names"
  shows "veil (mask_value (bracketed (''REDACTED:'' @ n)) v) (guest_labels names)"
  using assms by (intro veil_mono [OF veil_mask_value]) (auto simp: guest_labels_def)

lemma declared_mem: "(n, v) \<in> set (declared_values names env) \<longleftrightarrow> n \<in> set names \<and> env n = Some v \<and> v \<noteq> []"
  by (auto simp: declared_values_def map_filter_def Suc_le_eq image_iff)

text \<open>After a row of masks, each of which veils, the value of one of them is gone.\<close>

lemma fold_gone:
  assumes veils: "\<forall>y\<in>set xs. veil (h y) L" and x: "x \<in> set xs"
    and gone: "\<And>s. sublist f (h x s) \<Longrightarrow> in_label L f" and f: "unbracketed f" "sublist f (fold h xs s)"
  shows "in_label L f"
proof -
  from x obtain as bs where xs: "xs = as @ x # bs" by (auto simp: in_set_conv_decomp)
  have "veil (fold h bs) L" using veils xs by (intro veil_fold) simp
  from veil.leaves [OF this f(1)] f(2) gone show ?thesis unfolding xs by auto
qed

text \<open>C8: no declared secret of the guest survives its redactor, whole or in pieces. No non-empty value of a
  protected variable, however short, and no eight characters in a row of a longer one, occur anywhere in the
  redacted text, in whatever text they stood. Two exceptions are premises: a piece that has an angle bracket, and
  one that is part of a label the masks write (the value \<^verbatim>\<open>SECRET\<close> occurs in \<^verbatim>\<open><REDACTED:SECRET>\<close>).\<close>

theorem guest_secret_gone:
  assumes "n \<in> set names" "env n = Some v" "f = v \<and> v \<noteq> [] \<or> f \<in> set (windows DEFAULT_MIN_FRAGMENT v)"
    "unbracketed f" "\<not> in_label (guest_labels names) f"
  shows "\<not> sublist f (createSensitiveRedactor names env text)"
proof
  let ?vs = "declared_values names env"
  let ?h = "\<lambda>(n, v). mask_value (bracketed (''REDACTED:'' @ n)) v"
  let ?e = "fold ?h ?vs text"
  assume "sublist f (createSensitiveRedactor names env text)"
  then have m: "sublist f (maskValueFragmentsWith ?e (buildFragmentMatcher (map snd ?vs) DEFAULT_MIN_FRAGMENT)
      ''REDACTED:SECRET'')"
    using shapes.leaves [OF assms(4)] assms(5) unfolding createSensitiveRedactor_def Let_def
    by (auto simp: guest_labels_def)
  from assms(3) show False
  proof
    assume v: "f = v \<and> v \<noteq> []"
    then have mem: "(n, v) \<in> set ?vs" using assms(1,2) by (simp add: declared_mem)
    have veils: "\<forall>y\<in>set ?vs. veil (?h y) (guest_labels names)"
    proof
      fix y assume "y \<in> set ?vs"
      obtain n' v' where y: "y = (n', v')" by fastforce
      with \<open>y \<in> set ?vs\<close> show "veil (?h y) (guest_labels names)" using veil_guest_step [of n' names v'] declared_mem [of n' v'] by auto
    qed
    have gone: "in_label (guest_labels names) f" if "sublist f (?h (n, v) s)" for s
      using mask_value_gone [of v _ s] v that assms(1,4) by (auto simp: guest_labels_def)
    from m fragments.leaves [OF assms(4)] assms(5) have e: "sublist f ?e"
      by (auto simp: guest_labels_def)
    have "in_label (guest_labels names) f"
      by (rule fold_gone [where h = ?h and xs = ?vs, OF veils mem _ assms(4) e]) (rule gone)
    with assms(5) show False by contradiction
  next
    assume w: "f \<in> set (windows DEFAULT_MIN_FRAGMENT v)"
    then have "v \<noteq> []" using set_windows by auto
    then have "v \<in> set (map snd ?vs)" using assms(1,2) declared_mem [of n v] by force
    from fragment_gone [OF this w _ assms(4) m] assms(5) show False
      by (auto simp: guest_labels_def DEFAULT_MIN_FRAGMENT_def)
  qed
qed

text \<open>C9: no line that the second part of a host install writes shows a declared secret. When the matcher covers
  all the values of the process environment that count as sensitive, the line written for a line of the output
  contains none of these values, however short, and no eight characters in a row of one, whatever else stands on
  the line. Two exceptions are premises: a piece that has an angle bracket, and one that is part of a label the
  masks write (the value \<^verbatim>\<open>ENV\<close> occurs in \<^verbatim>\<open><REDACTED:ENV>\<close>). The statement is about one line: of a value that the
  output splits over two lines, each of them may show fewer than eight characters in a row.\<close>

theorem host_secret_gone:
  assumes "host_line sensitive userArgs line = Some out" "v \<in> set sensitive"
    "f = v \<and> v \<noteq> [] \<or> f \<in> set (windows DEFAULT_MIN_FRAGMENT v)"
    "unbracketed f" "\<not> in_label (shape_labels \<union> {''REDACTED:ENV'', ''REDACTED:USER-ARG''}) f"
  shows "\<not> sublist f out"
proof
  let ?m = "buildFragmentMatcher sensitive DEFAULT_MIN_FRAGMENT"
  let ?e = "maskExactValues line sensitive ''REDACTED:ENV'' 1"
  let ?u = "deriveSensitiveValues userArgs"
  assume out: "sublist f out"
  have "out = redactCredentialShapes (maskExactValues (maskValueFragmentsWith ?e ?m ''REDACTED:ENV'') ?u ''REDACTED:USER-ARG'' 4)"
    using assms(1) by (auto simp: host_line_def Let_def split: if_splits)
  with out shapes.leaves [OF assms(4)] assms(5)
  have "sublist f (maskExactValues (maskValueFragmentsWith ?e ?m ''REDACTED:ENV'') ?u ''REDACTED:USER-ARG'' 4)" by auto
  with veil.leaves [OF veil_exact assms(4)] assms(5)
  have m: "sublist f (maskValueFragmentsWith ?e ?m ''REDACTED:ENV'')" by auto
  from assms(3) show False
  proof
    assume v: "f = v \<and> v \<noteq> []"
    from m fragments.leaves [OF assms(4)] assms(5) have e: "sublist f ?e" by auto
    have mem: "v \<in> set (longest_first (filter (\<lambda>v. 1 \<le> length v) (js_uniq sensitive)))"
      using assms(2) v by (auto simp: longest_first_def Suc_le_eq)
    have gone: "in_label {''REDACTED:ENV''} f" if "sublist f (mask_value (bracketed ''REDACTED:ENV'') v s)" for s
      using mask_value_gone [of v "''REDACTED:ENV''" s] v that assms(4) by simp
    have "in_label {''REDACTED:ENV''} f"
      by (rule fold_gone [where h = "mask_value (bracketed ''REDACTED:ENV'')", OF _ mem _ assms(4) e [unfolded maskExactValues_def]])
        (simp add: veil_mask_value, rule gone)
    with assms(5) show False by simp
  next
    assume "f \<in> set (windows DEFAULT_MIN_FRAGMENT v)"
    from fragment_gone [OF assms(2) this _ assms(4) m] assms(5) show False
      by (auto simp: DEFAULT_MIN_FRAGMENT_def)
  qed
qed


definition sample_env :: "string \<Rightarrow> string option" where
  "sample_env n = (if n = ''TOKEN'' then Some ''hunter2-hunter2'' else None)"

lemmas label_simps = guest_labels_def shape_labels_def sublist_Cons_right prefix_Cons

theorem guest_secret_gone_witness:
  "\<not> sublist ''ter2-hun'' (createSensitiveRedactor [''TOKEN''] sample_env ''login failed for hunter2-hunter'')"
proof -
  have "''ter2-hun'' \<in> set (windows DEFAULT_MIN_FRAGMENT ''hunter2-hunter2'')" by code_simp
  then show ?thesis
    by (intro guest_secret_gone [where n = "''TOKEN''" and v = "''hunter2-hunter2''"])
      (simp_all add: sample_env_def label_simps)
qed

theorem host_secret_gone_witness:
  "\<exists>out. host_line [''hunter2''] [''--omit=dev''] ''token hunter2 //u@h'' = Some out \<and> \<not> sublist ''hunter2'' out"
proof -
  have "\<not> fm_capped (buildFragmentMatcher [''hunter2''] DEFAULT_MIN_FRAGMENT)"
    by (subst capped_iff) (simp_all add: DEFAULT_MIN_FRAGMENT_def MAX_FRAGMENT_VALUE_CHARS_def js_uniq_def)
  then obtain out where out: "host_line [''hunter2''] [''--omit=dev''] ''token hunter2 //u@h'' = Some out"
    by (simp add: host_line_def Let_def)
  from host_secret_gone [OF this, of "''hunter2''" "''hunter2''"] have "\<not> sublist ''hunter2'' out"
    by (simp add: label_simps)
  with out show ?thesis by blast
qed

text \<open>The host refuses to stream the output of the second part exactly when the distinct declared values
  have more than two million characters in total; the backstop on the number of windows is never reached.\<close>

theorem host_refuses_iff:
  "host_line sensitive userArgs line = None \<longleftrightarrow> sum_list (map length (js_uniq sensitive)) > MAX_FRAGMENT_VALUE_CHARS"
  using capped_iff [of DEFAULT_MIN_FRAGMENT sensitive] by (simp add: host_line_def Let_def DEFAULT_MIN_FRAGMENT_def)

text \<open>But a piece of a value is not always masked as a whole, as the comment of the scan has it: where two
  declared values overlap, the scan leaves the run at its end and goes on behind it, and the rest of a window
  that started inside is written.\<close>

lemma overlapping_fragment_left:
  "maskValueFragments ''ABCDEFGHIJ'' [''0ABCDEFGH'', ''CDEFGHIJ0''] ''R'' DEFAULT_MIN_FRAGMENT = ''<R>IJ''"
proof -
  have "add_grams FRAGMENT_MAX_GRAMS [''0ABCDEFG'', ''ABCDEFGH'', ''CDEFGHIJ'', ''DEFGHIJ0''] {} =
      ({''0ABCDEFG'', ''ABCDEFGH'', ''CDEFGHIJ'', ''DEFGHIJ0''}, False)"
    by (simp add: FRAGMENT_MAX_GRAMS_def insert_commute)
  then show ?thesis
    by (simp add: maskValueFragments_def maskValueFragmentsWith_def buildFragmentMatcher_def js_uniq_def windows_def
        DEFAULT_MIN_FRAGMENT_def MAX_FRAGMENT_VALUE_CHARS_def scan_fragments.simps bracketed_def upt_rec)
qed

end
