(* ===== verification/OutputTail.thy ===== *)
theory OutputTail
  imports RedactLines RedactSecrets
begin

text \<open>
  The two readers of a child's output: \<^verbatim>\<open>attachStdoutTailCollector\<close> of \<^verbatim>\<open>src/guest/agent.ts\<close>, which keeps a
  bounded tail of redacted lines, and \<^verbatim>\<open>makeLineSink\<close> of \<^verbatim>\<open>src/action/host-install.ts\<close>, which forwards whole
  lines. Chunks come decoded, as Node's \<^verbatim>\<open>StringDecoder\<close> hands them on. The lemmas of the locale
  \<open>line_redactor\<close> say that the tail does not depend on how the output was cut into chunks.
\<close>

section \<open>The collector\<close>

text \<open>The length of a text in UTF-8 bytes; a Latin-1 character above ASCII takes two.\<close>

definition byte_length :: "string \<Rightarrow> nat" where
  "byte_length s = sum_list (map (\<lambda>c. if (of_char c :: nat) < 128 then 1 else 2) s)"

text \<open>The longest end of a text that fits, cut between characters.\<close>

fun capTail :: "nat \<Rightarrow> string \<Rightarrow> string" where
  "capTail cap [] = []"
| "capTail cap (c # s) = (if byte_length (c # s) \<le> cap then c # s else capTail cap s)"

definition PHASE_B_STDOUT_TAIL_BYTES :: nat where "PHASE_B_STDOUT_TAIL_BYTES = 16384"

text \<open>The cap the agent chooses: room for the longest protected value, even an unmasked one.\<close>

definition maxProtectedValueBytes :: "string list \<Rightarrow> (string \<Rightarrow> string option) \<Rightarrow> nat" where
  "maxProtectedValueBytes names env =
     fold (\<lambda>name m. case env name of
              None \<Rightarrow> m
            | Some v \<Rightarrow> (let n = byte_length v in if m < n then n else m)) names 0"

definition stdoutTailBytes :: "string list \<Rightarrow> (string \<Rightarrow> string option) \<Rightarrow> nat" where
  "stdoutTailBytes names env = max PHASE_B_STDOUT_TAIL_BYTES (4096 + maxProtectedValueBytes names env + 4096)"

definition PHASE_B_STDOUT_PENDING_MAX_BYTES :: nat where "PHASE_B_STDOUT_PENDING_MAX_BYTES = 1048576"

record collector =
  co_redact :: "string \<Rightarrow> string"
  co_cap :: nat
  co_pendingMax :: nat

text \<open>Without a redactor the collector keeps the text as it is.\<close>

definition new_collector :: "(string \<Rightarrow> string) option \<Rightarrow> nat \<Rightarrow> nat \<Rightarrow> collector" where
  "new_collector redact cap pendingMaxBytes =
     \<lparr>co_redact = (case redact of Some f \<Rightarrow> f | None \<Rightarrow> (\<lambda>s. s)), co_cap = cap,
      co_pendingMax = max pendingMaxBytes cap\<rparr>"

record tail_state =
  ts_redactedTail :: string
  ts_pending :: string
  ts_pendingBytes :: nat
  ts_poisoned :: bool

definition tail_init :: tail_state where
  "tail_init = \<lparr>ts_redactedTail = [], ts_pending = [], ts_pendingBytes = 0, ts_poisoned = False\<rparr>"

text \<open>The dash of the sources is outside Latin-1; here and below it is a hyphen.\<close>

definition truncMarker :: "nat \<Rightarrow> string" where
  "truncMarker pendingMax =
     nl # ''<script-jail: stdout capture stopped '' @ [CHR ''-''] @ '' unterminated line over '' @ nat_str pendingMax @
     ''B (possible split secret); tail suppressed>'' @ [nl]"

definition appendRedacted :: "collector \<Rightarrow> string \<Rightarrow> tail_state \<Rightarrow> tail_state" where
  "appendRedacted co s st = st\<lparr>ts_redactedTail := capTail (co_cap co) (ts_redactedTail st @ s)\<rparr>"

definition poison :: "collector \<Rightarrow> tail_state \<Rightarrow> tail_state" where
  "poison co st =
     (appendRedacted co (truncMarker (co_pendingMax co)) st)\<lparr>ts_poisoned := True, ts_pending := [], ts_pendingBytes := 0\<rparr>"

function drain_loop :: "collector \<Rightarrow> tail_state \<Rightarrow> tail_state" where
  "drain_loop co st =
     (if nl \<in> set (ts_pending st)
      then drain_loop co (appendRedacted co (co_redact co (before_char nl (ts_pending st) @ [nl]))
             (st\<lparr>ts_pending := after_char nl (ts_pending st)\<rparr>))
      else st)"
  by pat_completeness auto
termination
proof (relation "measure (\<lambda>(co, st). length (ts_pending st))", goal_cases)
  case (2 co st)
  then show ?case using before_after_char [OF 2, THEN arg_cong [where f = length]]
    by (simp add: appendRedacted_def)
qed simp

declare drain_loop.simps [simp del]

definition drainCompleteLines :: "collector \<Rightarrow> tail_state \<Rightarrow> tail_state" where
  "drainCompleteLines co st =
     (let st = drain_loop co st in st\<lparr>ts_pendingBytes := byte_length (ts_pending st)\<rparr>)"

definition tail_data :: "collector \<Rightarrow> string \<Rightarrow> tail_state \<Rightarrow> tail_state" where
  "tail_data co decoded st =
     (if ts_poisoned st then st
      else if decoded = [] then st
      else let st = st\<lparr>ts_pending := ts_pending st @ decoded\<rparr>;
               st = (if nl \<in> set decoded then drainCompleteLines co st
                     else st\<lparr>ts_pendingBytes := ts_pendingBytes st + byte_length decoded\<rparr>)
           in if ts_pendingBytes st > co_pendingMax co then poison co st else st)"

definition tail_end :: "collector \<Rightarrow> string \<Rightarrow> tail_state \<Rightarrow> tail_state" where
  "tail_end co rest st =
     (if ts_poisoned st then st else drainCompleteLines co (st\<lparr>ts_pending := ts_pending st @ rest\<rparr>))"

definition tail_get :: "collector \<Rightarrow> tail_state \<Rightarrow> string" where
  "tail_get co st =
     (let finalPending = (if ts_poisoned st \<or> ts_pending st = [] then [] else co_redact co (ts_pending st))
      in capTail (co_cap co) (ts_redactedTail st @ finalPending))"

section \<open>The line sink\<close>

definition HOST_PART2_MAX_LINE_BYTES :: nat where "HOST_PART2_MAX_LINE_BYTES = 1048576"

definition HOST_PART2_POISON_MARKER :: string where
  "HOST_PART2_POISON_MARKER = ''[script-jail] (oversized output line truncated)''"

definition HOST_PART2_TRUNCATED_MARKER :: string where
  "HOST_PART2_TRUNCATED_MARKER = ''[script-jail] (trailing output dropped - pipe held open past grace)''"

record sink_state =
  sk_pending :: string
  sk_poisoned :: bool

definition sink_init :: sink_state where
  "sink_init = \<lparr>sk_pending = [], sk_poisoned = False\<rparr>"

text \<open>The complete lines of the pending text, the first dropped when the sink is poisoned.\<close>

function sink_lines :: "string \<Rightarrow> bool \<Rightarrow> string list \<times> string \<times> bool" where
  "sink_lines pending poisoned =
     (if nl \<in> set pending
      then let (ls, rest) = sink_lines (after_char nl pending) False
           in (if poisoned then ls else before_char nl pending # ls, rest)
      else ([], pending, poisoned))"
  by pat_completeness auto
termination
proof (relation "measure (\<lambda>(pending, poisoned). length pending)", goal_cases)
  case (2 pending poisoned)
  then show ?case using before_after_char [OF 2, THEN arg_cong [where f = length]] by simp
qed simp

declare sink_lines.simps [simp del]

definition sink_data :: "nat \<Rightarrow> string \<Rightarrow> sink_state \<Rightarrow> string list \<times> sink_state" where
  "sink_data maxBytes decoded st =
     (let (ls, pending, poisoned) = sink_lines (sk_pending st @ decoded) (sk_poisoned st)
      in if poisoned then (ls, \<lparr>sk_pending = [], sk_poisoned = True\<rparr>)
         else if length pending > maxBytes then (ls @ [HOST_PART2_POISON_MARKER], \<lparr>sk_pending = [], sk_poisoned = True\<rparr>)
         else (ls, \<lparr>sk_pending = pending, sk_poisoned = False\<rparr>))"

definition sink_finalize :: "bool \<Rightarrow> string \<Rightarrow> sink_state \<Rightarrow> string list \<times> sink_state" where
  "sink_finalize streamEnded rest st =
     (let pending = sk_pending st @ rest
      in if sk_poisoned st then ([], \<lparr>sk_pending = [], sk_poisoned = False\<rparr>)
         else if pending = [] then ([], st\<lparr>sk_pending := pending\<rparr>)
         else ([if streamEnded then pending else HOST_PART2_TRUNCATED_MARKER], \<lparr>sk_pending = [], sk_poisoned = False\<rparr>))"


section \<open>The tail is that of the redacted text\<close>

lemma byte_length_simps [simp]:
  "byte_length [] = 0" "byte_length (a @ b) = byte_length a + byte_length b"
  by (simp_all add: byte_length_def)

lemma byte_length_prefix: "prefix a b \<Longrightarrow> byte_length a \<le> byte_length b"
  by (auto simp: prefix_def)

lemma capTail_suffix: "suffix (capTail cap s) s"
  by (induction cap s rule: capTail.induct) (auto simp: suffix_Cons)

lemma capTail_append: "capTail cap (capTail cap a @ b) = capTail cap (a @ b)"
proof (induction a)
  case (Cons c a)
  have "byte_length (c # a) \<le> byte_length (c # a @ b)" using byte_length_prefix [of "c # a" "c # a @ b"] by simp
  with Cons show ?case by auto
qed simp

text \<open>Text that ends with a line.\<close>

definition complete :: "string \<Rightarrow> bool" where
  "complete a \<longleftrightarrow> a = [] \<or> last a = nl"

lemma complete_Nil [simp]: "complete []"
  by (simp add: complete_def)

lemma complete_line [simp]: "complete (l @ [nl])"
  by (simp add: complete_def)

lemma complete_append: "complete a \<Longrightarrow> complete b \<Longrightarrow> complete (a @ b)"
  by (cases "b = []") (auto simp: complete_def)

lemma complete_cases:
  assumes "complete a" "a \<noteq> []"
  obtains l b where "a = l @ nl # b" "one_line l" "complete b"
proof -
  from assms have "nl \<in> set a" by (metis complete_def last_in_set)
  then obtain l b where ab: "a = l @ nl # b" "one_line l" by (metis split_list_first)
  with assms(1) have "complete b" by (auto simp: complete_def split: if_splits)
  with ab that show thesis by blast
qed

lemma rows_Cons: "rows (c # s) = (if c = nl then [] # rows s else (c # hd (rows s)) # tl (rows s))"
proof -
  obtain r rs where "rows s = r # rs" using rows_one_line by (meson list.exhaust)
  then show ?thesis by (simp add: rows_def)
qed

lemma rows_line: "one_line l \<Longrightarrow> rows (l @ nl # b) = l # rows b"
  by (induction l) (auto simp: rows_Cons)

lemma rows_last: "one_line l \<Longrightarrow> rows l = [l]"
  by (induction l) (auto simp: rows_Cons, simp add: rows_def)

lemma rows_prefix: "one_line l \<Longrightarrow> \<exists>r. hd (rows (l @ b)) = l @ r"
  by (induction l) (auto simp: rows_Cons)

lemma rows_complete: "complete a \<Longrightarrow> \<exists>ls. rows (a @ b) = ls @ rows b"
proof (induction a rule: length_induct)
  case (1 a)
  show ?case
  proof (cases "a = []")
    case False
    with 1(2) obtain l c where a: "a = l @ nl # c" "one_line l" "complete c" by (rule complete_cases)
    then obtain ls where "rows (c @ b) = ls @ rows b"
      using 1(1) [rule_format, of c] by auto
    with a have "rows (a @ b) = (l # ls) @ rows b" by (simp add: rows_line)
    then show ?thesis by blast
  qed auto
qed

lemma row_started:
  assumes "complete a" "one_line l"
  shows "\<exists>r\<in>set (rows (a @ l @ b)). prefix l r"
proof -
  obtain ls where "rows (a @ l @ b) = ls @ rows (l @ b)" using rows_complete [OF assms(1)] by blast
  moreover obtain r where "hd (rows (l @ b)) = l @ r" using rows_prefix [OF assms(2)] by blast
  moreover have "hd (rows (l @ b)) \<in> set (rows (l @ b))" using rows_one_line by (intro hd_in_set) blast
  ultimately show ?thesis by (metis UnI2 prefixI set_append)
qed

text \<open>A row only grows when text is added.\<close>

lemma rows_extend:
  "\<exists>ls l. rows out = ls @ [l] \<and> rows (out @ rest) = ls @ (l @ hd (rows rest)) # tl (rows rest)"
proof (induction out)
  case Nil
  have "rows rest \<noteq> []" using rows_one_line by blast
  then show ?case by (intro exI [of _ "[]"]) (simp add: rows_def)
next
  case (Cons c out)
  then obtain ls l where "rows out = ls @ [l]" "rows (out @ rest) = ls @ (l @ hd (rows rest)) # tl (rows rest)" by blast
  then show ?case
    by (cases "c = nl"; cases ls) (auto simp: rows_Cons Cons_eq_append_conv)
qed

lemma row_grows:
  assumes "r \<in> set (rows out)" "byte_length r > n"
  shows "\<exists>r\<in>set (rows (out @ rest)). byte_length r > n"
proof -
  obtain ls l where "rows out = ls @ [l]" "rows (out @ rest) = ls @ (l @ hd (rows rest)) # tl (rows rest)"
    using rows_extend by blast
  with assms show ?thesis by (cases "r \<in> set ls") auto
qed

locale line_redactor =
  fixes redact :: "string \<Rightarrow> string"
  assumes lines: "line_wise redact" and no_input: "redact [] = []"
begin

lemma no_text: "redact [] = []" "capTail cap (redact []) = []"
  by (simp_all add: no_input)

lemma redact_complete: "complete a \<Longrightarrow> redact (a @ b) = redact a @ redact b"
proof (induction a rule: length_induct)
  case (1 a)
  show ?case
  proof (cases "a = []")
    case False
    with 1(2) obtain l c where a: "a = l @ nl # c" "one_line l" "complete c" by (rule complete_cases)
    then have "redact (c @ b) = redact c @ redact b" using 1(1) [rule_format, of c] by simp
    with a lines show ?thesis by (simp add: line_wise_def)
  qed (simp add: no_input)
qed

text \<open>What has been committed: the redaction of the complete part of the output, cut to the cap.\<close>

definition committed :: "collector \<Rightarrow> string \<Rightarrow> tail_state \<Rightarrow> bool" where
  "committed co a st \<longleftrightarrow> complete a \<and> ts_redactedTail st = capTail (co_cap co) (redact a)"

lemma commit:
  assumes "committed co a st" "complete b"
  shows "committed co (a @ b) (appendRedacted co (redact b) st)"
  using assms by (auto simp: committed_def appendRedacted_def capTail_append complete_append redact_complete)

lemma drain_commits:
  "co_redact co = redact \<Longrightarrow> committed co a st \<Longrightarrow>
    \<exists>b. ts_pending st = b @ ts_pending (drain_loop co st) \<and> one_line (ts_pending (drain_loop co st)) \<and>
    committed co (a @ b) (drain_loop co st) \<and> ts_poisoned (drain_loop co st) = ts_poisoned st"
proof (induction co st arbitrary: a rule: drain_loop.induct)
  case (1 co st)
  show ?case
  proof (cases "nl \<in> set (ts_pending st)")
    case True
    let ?l = "before_char nl (ts_pending st)" and ?rest = "after_char nl (ts_pending st)"
    let ?st = "appendRedacted co (redact (?l @ [nl])) (st\<lparr>ts_pending := ?rest\<rparr>)"
    have split: "ts_pending st = (?l @ [nl]) @ ?rest" using before_after_char [OF True] by simp
    have loop: "drain_loop co st = drain_loop co ?st" using True 1(2) by (subst drain_loop.simps) simp
    have "committed co (a @ ?l @ [nl]) ?st"
      using commit [of co a "st\<lparr>ts_pending := ?rest\<rparr>" "?l @ [nl]"] 1(3) by (simp add: committed_def)
    with 1(1) [of "a @ ?l @ [nl]"] True 1(2) obtain b where
      "?rest = b @ ts_pending (drain_loop co ?st)" "one_line (ts_pending (drain_loop co ?st))"
      "committed co ((a @ ?l @ [nl]) @ b) (drain_loop co ?st)" "ts_poisoned (drain_loop co ?st) = ts_poisoned st"
      by (auto simp: appendRedacted_def)
    with split loop show ?thesis by (intro exI [of _ "(?l @ [nl]) @ b"]) (metis append.assoc)
  next
    case False
    with 1(3) show ?thesis by (intro exI [of _ "[]"]) (simp add: drain_loop.simps)
  qed
qed

text \<open>The state after any part of the output: the complete lines committed, the rest pending; or poisoned by
  a line that outgrew the bound.\<close>

definition tail_holds :: "collector \<Rightarrow> string \<Rightarrow> tail_state \<Rightarrow> bool" where
  "tail_holds co out st \<longleftrightarrow>
     (\<not> ts_poisoned st \<and> one_line (ts_pending st) \<and> ts_pendingBytes st = byte_length (ts_pending st) \<and>
        (\<exists>a. out = a @ ts_pending st \<and> committed co a st)) \<or>
     (ts_poisoned st \<and> (\<exists>r\<in>set (rows out). byte_length r > co_pendingMax co))"

lemma tail_holds_init: "tail_holds co [] tail_init"
  by (auto simp: tail_holds_def tail_init_def committed_def no_text)

lemma drained_holds:
  assumes co: "co_redact co = redact" and a: "committed co a st" "out = a @ ts_pending st" and "\<not> ts_poisoned st"
  shows "tail_holds co out (drainCompleteLines co st) \<and> \<not> ts_poisoned (drainCompleteLines co st)"
proof -
  from drain_commits [OF co a(1)] obtain b where
    "ts_pending st = b @ ts_pending (drain_loop co st)" "one_line (ts_pending (drain_loop co st))"
    "committed co (a @ b) (drain_loop co st)" "ts_poisoned (drain_loop co st) = ts_poisoned st" by blast
  with assms show ?thesis
    by (auto simp: tail_holds_def drainCompleteLines_def Let_def committed_def intro!: exI [of _ "a @ b"])
qed

lemma outgrown:
  assumes "tail_holds co out st" "\<not> ts_poisoned st" "co_pendingMax co < ts_pendingBytes st"
  shows "tail_holds co out (poison co st)"
proof -
  from assms(1,2) obtain a where a: "out = a @ ts_pending st" "complete a" "one_line (ts_pending st)"
    "ts_pendingBytes st = byte_length (ts_pending st)" by (auto simp: tail_holds_def committed_def)
  with row_started [of a "ts_pending st" "[]"] obtain r where "r \<in> set (rows out)" "prefix (ts_pending st) r" by auto
  with a assms(3) byte_length_prefix [of "ts_pending st" r] show ?thesis by (auto simp: tail_holds_def poison_def intro!: bexI [of _ r])
qed

lemma data_holds:
  assumes co: "co_redact co = redact" and st: "tail_holds co out st"
  shows "tail_holds co (out @ d) (tail_data co d st)"
proof (cases "ts_poisoned st \<or> d = []")
  case True
  with st row_grows show ?thesis by (auto simp: tail_data_def tail_holds_def)
next
  case False
  let ?st = "st\<lparr>ts_pending := ts_pending st @ d\<rparr>"
  let ?st' = "if nl \<in> set d then drainCompleteLines co ?st else ?st\<lparr>ts_pendingBytes := ts_pendingBytes st + byte_length d\<rparr>"
  from st False obtain a where a: "committed co a st" "out = a @ ts_pending st" "one_line (ts_pending st)"
    "ts_pendingBytes st = byte_length (ts_pending st)" by (auto simp: tail_holds_def)
  have "tail_holds co (out @ d) ?st' \<and> \<not> ts_poisoned ?st'"
  proof (cases "nl \<in> set d")
    case True
    have "committed co a ?st" using a(1) by (simp add: committed_def)
    with drained_holds [OF co this, of "out @ d"] a(2) False True show ?thesis by simp
  next
    case no_nl: False
    with a False show ?thesis by (auto simp: tail_holds_def committed_def intro!: exI [of _ a])
  qed
  moreover have "tail_data co d st = (if ts_pendingBytes ?st' > co_pendingMax co then poison co ?st' else ?st')"
    using False by (auto simp: tail_data_def Let_def)
  ultimately show ?thesis using outgrown by auto
qed

lemma fold_holds:
  "co_redact co = redact \<Longrightarrow> tail_holds co out st \<Longrightarrow> tail_holds co (out @ concat ds) (fold (tail_data co) ds st)"
proof (induction ds arbitrary: out st)
  case (Cons d ds)
  from Cons.IH [OF Cons.prems(1) data_holds [OF Cons.prems, of d]] show ?case by simp
qed simp

text \<open>However the output was cut into chunks.\<close>

lemma tail_is_cut:
  assumes co: "co_redact co = redact"
    and short: "\<forall>r\<in>set (rows (concat ds @ rest)). byte_length r \<le> co_pendingMax co"
  shows "tail_get co (tail_end co rest (fold (tail_data co) ds tail_init)) = capTail (co_cap co) (redact (concat ds @ rest))"
proof -
  let ?st = "fold (tail_data co) ds tail_init"
  have h: "tail_holds co (concat ds) ?st" using fold_holds [OF co tail_holds_init] by simp
  have np: "\<not> ts_poisoned ?st"
  proof
    assume "ts_poisoned ?st"
    with h obtain r where "r \<in> set (rows (concat ds))" "byte_length r > co_pendingMax co" by (auto simp: tail_holds_def)
    with row_grows [OF this, of rest] short show False by fastforce
  qed
  with h obtain a where a: "committed co a ?st" "concat ds = a @ ts_pending ?st" by (auto simp: tail_holds_def)
  let ?st' = "tail_end co rest ?st"
  have "committed co a (?st\<lparr>ts_pending := ts_pending ?st @ rest\<rparr>)" using a(1) by (simp add: committed_def)
  from drained_holds [OF co this, of "concat ds @ rest"] a(2) np
  have "tail_holds co (concat ds @ rest) ?st'" "\<not> ts_poisoned ?st'" by (simp_all add: tail_end_def)
  then obtain b where b: "committed co b ?st'" "concat ds @ rest = b @ ts_pending ?st'" by (auto simp: tail_holds_def)
  then have "redact (concat ds @ rest) = redact b @ redact (ts_pending ?st')"
    by (metis committed_def redact_complete)
  moreover have "co_redact co [] = []" using no_input co by simp
  ultimately show ?thesis using b(1) co \<open>\<not> ts_poisoned ?st'\<close>
    by (auto simp: tail_get_def Let_def committed_def capTail_append no_text)
qed

end


interpretation shapes_tail: line_redactor redactCredentialShapes
  by unfold_locales (rule shapes_line_wise, code_simp)

lemma guest_nothing: "createSensitiveRedactor names env [] = []"
proof -
  have "fold (\<lambda>(n, v). mask_value (bracketed (''REDACTED:'' @ n)) v) vs [] = []" for vs :: "(string \<times> string) list"
    by (induction vs) (auto simp: mask_value_def)
  then show ?thesis using shapes_tail.no_input
    by (simp add: createSensitiveRedactor_def maskValueFragmentsWith_def buildFragmentMatcher_def Let_def split_beta
        DEFAULT_MIN_FRAGMENT_def)
qed

text \<open>The redactor of the guest, under the conditions that make it work line by line.\<close>

lemma guest_line_redactor:
  assumes "\<forall>(n, v)\<in>set (declared_values names env). one_line n \<and> one_line v"
    and "\<not> fm_capped (buildFragmentMatcher (map snd (declared_values names env)) DEFAULT_MIN_FRAGMENT)"
  shows "line_redactor (createSensitiveRedactor names env)"
  by unfold_locales (use guest_line_wise [OF assms] guest_nothing in blast)+

text \<open>The rows of a text that grows: the last one goes on.\<close>

lemma rows_butlast: "rows (out @ d) = butlast (rows out) @ rows (last (rows out) @ d)"
proof -
  obtain ls l where r: "rows out = ls @ [l]" "rows (out @ d) = ls @ (l @ hd (rows d)) # tl (rows d)"
    using rows_extend by blast
  with rows_one_line [of out] have "one_line l" by auto
  then have "rows (l @ d) = (l @ hd (rows d)) # tl (rows d)" using rows_extend [of l d] by (auto simp: rows_last)
  with r show ?thesis by simp
qed

lemma before_one_line: "one_line (before_char nl s)"
  using set_takeWhileD by (fastforce simp: before_char_def)

lemma sink_lines_rows:
  "sink_lines s p = (if p then tl (butlast (rows s)) else butlast (rows s), last (rows s), p \<and> butlast (rows s) = [])"
proof (induction s p rule: sink_lines.induct)
  case (1 s p)
  show ?case
  proof (cases "nl \<in> set s")
    case True
    have "rows s = rows (before_char nl s @ nl # after_char nl s)"
      using before_after_char [OF True] by (rule arg_cong [OF sym])
    then have "rows s = before_char nl s # rows (after_char nl s)"
      by (simp add: rows_line before_one_line)
    moreover have "rows (after_char nl s) \<noteq> []" using rows_one_line by blast
    ultimately show ?thesis using 1 True by (subst sink_lines.simps) auto
  qed (subst sink_lines.simps, simp add: rows_last)
qed

text \<open>The whole life of a sink: the lines it passes on.\<close>

definition sink_holds :: "nat \<Rightarrow> string \<Rightarrow> string list \<times> sink_state \<Rightarrow> bool" where
  "sink_holds maxBytes out = (\<lambda>(ls, st).
     set ls \<subseteq> set (butlast (rows out)) \<union> {HOST_PART2_POISON_MARKER} \<and>
     sk_pending st = (if sk_poisoned st then [] else last (rows out)) \<and>
     ((\<forall>r\<in>set (rows out). length r \<le> maxBytes) \<longrightarrow> \<not> sk_poisoned st \<and> ls = butlast (rows out)))"

definition sink_step :: "nat \<Rightarrow> string \<Rightarrow> string list \<times> sink_state \<Rightarrow> string list \<times> sink_state" where
  "sink_step maxBytes d = (\<lambda>(ls, st). let (new, st) = sink_data maxBytes d st in (ls @ new, st))"

definition sink_run :: "nat \<Rightarrow> string list \<Rightarrow> bool \<Rightarrow> string \<Rightarrow> string list" where
  "sink_run maxBytes ds streamEnded rest =
     (let (ls, st) = fold (sink_step maxBytes) ds ([], sink_init) in ls @ fst (sink_finalize streamEnded rest st))"

lemma sink_step_holds:
  assumes "sink_holds maxBytes out r"
  shows "sink_holds maxBytes (out @ d) (sink_step maxBytes d r)"
proof (cases r)
  case (Pair ls st)
  let ?l = "last (rows out)"
  have l: "one_line ?l" "rows out \<noteq> []" "rows d \<noteq> []" using rows_one_line last_in_set by blast+
  have ext: "rows (out @ d) = butlast (rows out) @ rows (?l @ d)" by (rule rows_butlast)
  have lrow: "rows (?l @ d) = (?l @ hd (rows d)) # tl (rows d)" using rows_extend [of ?l d] l(1) by (auto simp: rows_last)
  have tl: "tl (butlast (rows d)) = butlast (tl (rows d))" "butlast (rows d) = [] \<longleftrightarrow> tl (rows d) = []"
    "tl (rows d) \<noteq> [] \<Longrightarrow> last (rows d) = last (tl (rows d))"
    using l(3) by (cases "rows d"; simp)+
  show ?thesis
  proof (cases "sk_poisoned st")
    case True
    from assms Pair True have h: "set ls \<subseteq> set (butlast (rows out)) \<union> {HOST_PART2_POISON_MARKER}" "sk_pending st = []"
      "\<not> (\<forall>r\<in>set (rows out). length r \<le> maxBytes)" by (auto simp: sink_holds_def)
    have long: "\<not> (\<forall>r\<in>set (rows (out @ d)). length r \<le> maxBytes)"
      using h(3) l(2) unfolding ext lrow by (cases "rows out" rule: rev_cases) auto
    show ?thesis using h l long unfolding Pair
      by (auto simp: sink_holds_def sink_step_def sink_data_def sink_lines_rows True Let_def tl ext lrow butlast_append
          split: if_splits dest: in_set_butlastD)
  next
    case False
    from assms Pair False have h: "set ls \<subseteq> set (butlast (rows out)) \<union> {HOST_PART2_POISON_MARKER}" "sk_pending st = ?l"
      by (auto simp: sink_holds_def)
    let ?new = "rows (?l @ d)"
    have ne: "?new \<noteq> []" using rows_one_line by blast
    have all: "(\<forall>r\<in>set (rows out). length r \<le> maxBytes) \<and> length (last ?new) \<le> maxBytes"
      if "\<forall>r\<in>set (rows (out @ d)). length r \<le> maxBytes"
      using that l(2) ne unfolding ext lrow by (cases "rows out" rule: rev_cases) auto
    have ls: "(\<forall>r\<in>set (rows out). length r \<le> maxBytes) \<longrightarrow> ls = butlast (rows out)"
      using assms Pair False by (auto simp: sink_holds_def)
    have cut: "butlast (rows (out @ d)) = butlast (rows out) @ butlast ?new" "last (rows (out @ d)) = last ?new"
      using ne by (simp_all add: ext butlast_append)
    have step: "sink_step maxBytes d r = (if maxBytes < length (last ?new)
        then (ls @ butlast ?new @ [HOST_PART2_POISON_MARKER], \<lparr>sk_pending = [], sk_poisoned = True\<rparr>)
        else (ls @ butlast ?new, \<lparr>sk_pending = last ?new, sk_poisoned = False\<rparr>))"
      by (simp add: Pair sink_step_def sink_data_def sink_lines_rows False h(2) Let_def)
    show ?thesis
    proof (cases "maxBytes < length (last ?new)")
      case True
      with all have "\<not> (\<forall>r\<in>set (rows (out @ d)). length r \<le> maxBytes)" by fastforce
      with True h(1) show ?thesis by (auto simp: step sink_holds_def cut)
    next
      case False
      then show ?thesis using h(1) ls all by (auto simp: step sink_holds_def cut)
    qed
  qed
qed

lemma sink_fold_holds: "sink_holds maxBytes out r \<Longrightarrow> sink_holds maxBytes (out @ concat ds) (fold (sink_step maxBytes) ds r)"
proof (induction ds arbitrary: out r)
  case (Cons d ds)
  from Cons.IH [OF sink_step_holds [OF Cons.prems, of d]] show ?case by simp
qed simp

lemma sink_run_holds: "sink_holds maxBytes (concat ds) (fold (sink_step maxBytes) ds ([], sink_init))"
  using sink_fold_holds [of maxBytes "[]" "([], sink_init)" ds] by (simp add: sink_holds_def sink_init_def rows_def)

lemma sink_finalize_cases:
  "fst (sink_finalize streamEnded [] st) =
     (if sk_poisoned st \<or> sk_pending st = [] then [] else [if streamEnded then sk_pending st else HOST_PART2_TRUNCATED_MARKER])"
  by (simp add: sink_finalize_def Let_def)

section \<open>What the readers pass on\<close>

lemma fold_max: "m \<le> fold (\<lambda>x m. max m (g x)) xs (m :: nat)" "x \<in> set xs \<Longrightarrow> g x \<le> fold (\<lambda>x m. max m (g x)) xs m"
proof (induction xs arbitrary: m)
  case (Cons a xs)
  {
    case 1
    show ?case using Cons.IH(1) [of "max m (g a)"] by simp
  next
    case 2
    then show ?case using Cons.IH [of "max m (g a)"] by auto
  }
qed simp_all

lemma maxProtectedValueBytes_max:
  "maxProtectedValueBytes names env =
     fold (\<lambda>name m. max m (case env name of None \<Rightarrow> 0 | Some v \<Rightarrow> byte_length v)) names 0"
  unfolding maxProtectedValueBytes_def
  by (intro arg_cong [where f = "\<lambda>f. fold f names 0"]) (auto simp: fun_eq_iff max_def Let_def split: option.splits)

lemma protected_fits: "n \<in> set names \<Longrightarrow> env n = Some v \<Longrightarrow> byte_length v + 8192 \<le> stdoutTailBytes names env"
  using fold_max(2) [of n names "\<lambda>name. case env name of None \<Rightarrow> 0 | Some v \<Rightarrow> byte_length v" 0]
  by (simp add: stdoutTailBytes_def maxProtectedValueBytes_max)

text \<open>C10: the tail of the install's output that the collector returns is the tail of the redacted output, however
  the output was cut into chunks. With the cap that the agent chooses for its protected values, when the declared
  names and values are one line each, the matcher is not capped and no line outgrows the bound of the buffer, the
  collector returns the last bytes (whole characters) of what the guest's redactor makes of the complete output;
  and the cap has room for every protected value. So a declared secret is never missed because it straddles two
  chunks, and nothing of the cap is spent on text before redaction.\<close>

theorem tail_of_redacted_output:
  assumes "co = new_collector (Some (createSensitiveRedactor names env)) (stdoutTailBytes names env) PHASE_B_STDOUT_PENDING_MAX_BYTES"
    and "\<forall>(n, v)\<in>set (declared_values names env). one_line n \<and> one_line v"
    and "\<not> fm_capped (buildFragmentMatcher (map snd (declared_values names env)) DEFAULT_MIN_FRAGMENT)"
    and "\<forall>r\<in>set (rows (concat ds)). byte_length r \<le> co_pendingMax co"
  shows "tail_get co (tail_end co [] (fold (tail_data co) ds tail_init)) =
           capTail (stdoutTailBytes names env) (createSensitiveRedactor names env (concat ds)) \<and>
         (\<forall>(n, v)\<in>set (declared_values names env). byte_length v + 8192 \<le> stdoutTailBytes names env)"
proof (rule conjI)
  show "tail_get co (tail_end co [] (fold (tail_data co) ds tail_init)) =
      capTail (stdoutTailBytes names env) (createSensitiveRedactor names env (concat ds))"
    using line_redactor.tail_is_cut [OF guest_line_redactor [OF assms(2,3)], of co ds "[]"] assms(4)
    by (simp add: assms(1) new_collector_def)
  show "\<forall>(n, v)\<in>set (declared_values names env). byte_length v + 8192 \<le> stdoutTailBytes names env"
    using protected_fits by (auto simp: declared_mem)
qed

text \<open>C11: the second part of a host install passes on whole lines only. Whatever the chunks, each line handed to
  the redactor and the log is a line of the output that its newline or the end of the stream completed, or one of
  the two fixed markers; of a stream that did not end the unfinished last line is never passed on, in whole or in
  part. When no line outgrows the bound, the lines passed on are all complete ones in order, then the last one of
  an ended stream, or the marker that something was dropped.\<close>

theorem sink_whole_lines:
  "set (sink_run maxBytes ds streamEnded []) \<subseteq>
     set (if streamEnded then rows (concat ds) else butlast (rows (concat ds))) \<union> {HOST_PART2_POISON_MARKER} \<union>
     (if streamEnded then {} else {HOST_PART2_TRUNCATED_MARKER}) \<and>
   ((\<forall>r\<in>set (rows (concat ds)). length r \<le> maxBytes) \<longrightarrow>
     sink_run maxBytes ds streamEnded [] = butlast (rows (concat ds)) @
       (if last (rows (concat ds)) = [] then []
        else [if streamEnded then last (rows (concat ds)) else HOST_PART2_TRUNCATED_MARKER]))"
proof -
  obtain ls st where r: "fold (sink_step maxBytes) ds ([], sink_init) = (ls, st)" by fastforce
  have "last (rows (concat ds)) \<in> set (rows (concat ds))" using rows_one_line last_in_set by blast
  with sink_run_holds [of maxBytes ds] show ?thesis
    by (auto simp: sink_run_def sink_finalize_cases r sink_holds_def split: if_splits dest: in_set_butlastD)
qed

theorem sink_whole_lines_witness:
  "sink_run 80 [''added 1 pack'', ''age'' @ nl # ''tok'', ''en hun''] False [] =
     [''added 1 package'', HOST_PART2_TRUNCATED_MARKER]"
proof -
  have "rows (concat [''added 1 pack'', ''age'' @ nl # ''tok'', ''en hun'']) = [''added 1 package'', ''token hun'']"
    by (simp add: rows_def)
  with sink_whole_lines [of 80 "[''added 1 pack'', ''age'' @ nl # ''tok'', ''en hun'']" False] show ?thesis by simp
qed

theorem tail_of_redacted_output_witness:
  "let co = new_collector (Some (createSensitiveRedactor [''TOKEN''] sample_env)) (stdoutTailBytes [''TOKEN''] sample_env) PHASE_B_STDOUT_PENDING_MAX_BYTES
   in tail_get co (tail_end co [] (fold (tail_data co) [''login hun'', ''ter2-hunter2'' @ [nl], ''done''] tail_init)) =
        capTail (stdoutTailBytes [''TOKEN''] sample_env) (createSensitiveRedactor [''TOKEN''] sample_env (''login hunter2-hunter2'' @ nl # ''done''))"
proof -
  have d: "declared_values [''TOKEN''] sample_env = [(''TOKEN'', ''hunter2-hunter2'')]" by code_simp
  have "\<not> fm_capped (buildFragmentMatcher (map snd (declared_values [''TOKEN''] sample_env)) DEFAULT_MIN_FRAGMENT)"
    unfolding d by (subst capped_iff) (simp_all add: DEFAULT_MIN_FRAGMENT_def MAX_FRAGMENT_VALUE_CHARS_def js_uniq_def)
  moreover have "\<forall>(n, v)\<in>set (declared_values [''TOKEN''] sample_env). one_line n \<and> one_line v" by code_simp
  moreover have whole: "concat [''login hun'', ''ter2-hunter2'' @ [nl], ''done''] = ''login hunter2-hunter2'' @ nl # ''done''" by simp
  moreover define co where "co = new_collector (Some (createSensitiveRedactor [''TOKEN''] sample_env)) (stdoutTailBytes [''TOKEN''] sample_env)
      PHASE_B_STDOUT_PENDING_MAX_BYTES"
  moreover have "\<forall>r\<in>set (rows (concat [''login hun'', ''ter2-hunter2'' @ [nl], ''done''])). byte_length r \<le> co_pendingMax co"
    unfolding whole co_def by (simp add: rows_def PHASE_B_STDOUT_PENDING_MAX_BYTES_def byte_length_def new_collector_def le_max_iff_disj)
  ultimately show ?thesis
    unfolding Let_def whole [symmetric] by (intro conjunct1 [OF tail_of_redacted_output]) simp_all
qed

end
