(* ===== verification/Spec2Isabelle.thy ===== *)
theory Spec2Isabelle
  imports DiffGate InstallArgs Attribution RootAnchor StraceParser Backend ProcTrace NodeBootstrap ShimLines
    DrainOrder PhaseRun OutputTail
begin

text \<open>
  A verification development for script-jail, which runs the lifecycle scripts of npm, pnpm and yarn
  installs in a sandbox, records what they did, and keeps the record in a lock file that a pull
  request must not change silently.

  The program. The host (\<^verbatim>\<open>src/action\<close>, \<^verbatim>\<open>src/cli\<close>, \<^verbatim>\<open>src/shared\<close>) picks a backend, hands it a copy of the
  repository and the sanitized install arguments, and receives the lock. The guest
  (\<^verbatim>\<open>src/guest\<close>) fetches the packages without scripts, then runs the scripts under strace and a
  preload library. Each line of strace becomes raw events (\<^verbatim>\<open>strace-parser.ts\<close>); each event is
  attributed to a package and a lifecycle stage from the environment of its process or of an
  ancestor (\<^verbatim>\<open>attribution.ts\<close>); events that claim the audited root are checked against the process
  tree (\<^verbatim>\<open>root-anchor.ts\<close>); file events pass the protected-paths policy (\<^verbatim>\<open>protected-paths.ts\<close>). The
  attributed events are normalised into one block of lists per package and stage
  (\<^verbatim>\<open>src/lock/normalize.ts\<close>, \<^verbatim>\<open>tokenize.ts\<close>, \<^verbatim>\<open>private-realpath.ts\<close>) and rendered as YAML (\<^verbatim>\<open>render.ts\<close>).
  The host compares the lock with the committed one and scans it for signs that the audit was
  bypassed (\<^verbatim>\<open>src/action/diff.ts\<close>).

  The theories, in the order of that path:

  \<^item> \<open>Prelude\<close>: the result type of code that throws, loops that stop at a throw, canonical lists
    (locale \<open>canonicaliser\<close>), the JavaScript \<^verbatim>\<open>Map\<close> (locale \<open>js_map_spec\<close>), ancestor chains.
  \<^item> \<open>JsString\<close>: the string operations and the regular-expression matchers the sources use. A
    string is a list of Latin-1 code units.
  \<^item> \<open>Schema\<close>: the events and blocks of \<^verbatim>\<open>src/lock/schema.ts\<close>, one record per \<^verbatim>\<open>z.object\<close>.
  \<^item> \<open>StraceParser\<close>: \<^verbatim>\<open>src/guest/strace-parser.ts\<close>, every system call it reads. Its lemmas invert
    strace's quoting, read a whole line, order the stream, and state what the parser loses.
  \<^item> \<open>Tokenize\<close>: \<^verbatim>\<open>tokenize.ts\<close> and \<^verbatim>\<open>private-realpath.ts\<close>; longest root, idempotence, injectivity.
  \<^item> \<open>Attribution\<close>: \<^verbatim>\<open>attribution.ts\<close>, the class as a state with its cache; the walk finds the nearest
    attributing ancestor, the root's own processes land in the root's keys, the cache is coherent.
  \<^item> \<open>RootAnchor\<close>: \<^verbatim>\<open>root-anchor.ts\<close>, and the path condition it decides.
  \<^item> \<open>ProtectedPaths\<close>: \<^verbatim>\<open>protected-paths.ts\<close>.
  \<^item> \<open>Normalize\<close>: \<^verbatim>\<open>normalize.ts\<close>. \<open>event_verdict\<close> is the decision of the loop's body (skip, throw, or
    record), \<open>event_entries\<close> its \<^verbatim>\<open>switch\<close>, \<open>finish_block\<close> the final pass over a block.
  \<^item> \<open>Render\<close>: \<^verbatim>\<open>render.ts\<close>, up to the call of the YAML library.
  \<^item> \<open>DiffGate\<close>: \<^verbatim>\<open>diff.ts\<close> and the \<^verbatim>\<open>Lock\<close> schema it validates with.
  \<^item> \<open>PmCommands\<close>, \<open>InstallArgs\<close>: \<^verbatim>\<open>src/shared/pm-commands.ts\<close>, and the argument vectors built from it in
    the guest and on the host (locale \<open>argument_filter\<close>, interpreted for both allowlists).
  \<^item> \<open>Backend\<close>: \<^verbatim>\<open>src/action/backend/select.ts\<close>, with the trace of the calls it makes.
  \<^item> \<open>SharingGroups\<close>, \<open>FdTable\<close>, \<open>FdEvents\<close>: the descriptor tables of \<^verbatim>\<open>phase-install.ts\<close>. A union-find over
    pids (\<^verbatim>\<open>findFdRoot\<close>, \<^verbatim>\<open>rootedFd\<close>), the maps keyed by root or pid as one record \<open>fd_state\<close>, one operation
    per helper (\<^verbatim>\<open>unionFd\<close>, \<^verbatim>\<open>detachFdGroup\<close>, the markers and tombstones), and one per handler
    (\<open>fd_opened\<close>, \<open>fd_dup\<close>, \<open>fd_close\<close>, \<open>fd_close_range\<close>, \<open>fd_setfd\<close>, \<open>fd_unshare\<close>, \<open>fd_exec\<close>, \<open>fd_clone\<close>).
    The locale \<open>group_keyed\<close> is the contract of state that is kept per group.
  \<^item> \<open>FdViews\<close>, \<open>FdFrames\<close>, \<open>FdClone\<close>: what each handler does to what a process sees, which bookkeeping it may
    write, and the clone line of a process without history.
  \<^item> \<open>FdKernel\<close>: a kernel with shared and private tables as the step relation \<open>k_step\<close>, and the proof that
    the tracker, fed in order, is never wrong about it (\<open>fd_sim\<close>); the limits of that out of order.
  \<^item> \<open>PathPosix\<close>: \<^verbatim>\<open>path.resolve\<close> and \<^verbatim>\<open>path.isAbsolute\<close> of \<^verbatim>\<open>node:path\<close>.
  \<^item> \<open>CwdTable\<close>, \<open>CwdViews\<close>: the working directories of \<^verbatim>\<open>phase-install.ts\<close>, on the same groups (locale
    \<open>group_state\<close>), and what their operations do to what a process sees.
  \<^item> \<open>ProcTrace\<close>: directories and descriptors together, \<^verbatim>\<open>canonicalizeOpenTarget\<close> and
    \<^verbatim>\<open>canonicalizeForEmit\<close>, the kernel both follow (\<open>watched\<close>), and the proof that an emitted path is the
    path of the access.
  \<^item> \<open>TrackedCalls\<close>: the expressions \<^verbatim>\<open>phase-install.ts\<close> reads the tracked calls with, and their flags.
  \<^item> \<open>Lineage\<close>, \<open>DrainOrder\<close>: the process tree of the clone lines, the deferred relative paths and how their
    directory is recovered; any reading of the streams gives the same outcome.
  \<^item> \<open>NodeBootstrap\<close>: telling Node's own start-up from what a script does.
  \<^item> \<open>ShimLines\<close>, \<open>Snapshots\<close>: the lines of the preload's channel, and the remembered attributions of a pid with
    their generations.
  \<^item> \<open>ExecAudit\<close>: executions of strace against those the preload announced, and the synthetic events.
  \<^item> \<open>Emission\<close>: \<^verbatim>\<open>emitFinal\<close>, \<^verbatim>\<open>emit\<close> and the flush of the events that claim the root.
  \<^item> \<open>Dispatcher\<close>, \<open>PhaseRun\<close>: the loop over both channels with one handler per kind of line, and a whole run
    (\<open>run_phase\<close>): when it returns, when it reports tampering, what it emits.
  \<^item> \<open>Redact\<close>, \<open>RedactSecrets\<close>, \<open>RedactLines\<close>: \<^verbatim>\<open>src/shared/redact.ts\<close> and the redactors of \<^verbatim>\<open>agent.ts\<close> and
    \<^verbatim>\<open>host-install.ts\<close>; which secrets they let through (locale \<open>veil\<close>), and that they work line by line.
  \<^item> \<open>OutputTail\<close>: the bounded tail of the guest (locale \<open>line_redactor\<close>) and the line sink of the host.
  \<^item> this theory: the properties that span components, from an event to the verdict of the host.

  Parameters. \<^verbatim>\<open>micromatch\<close> (\<open>glob\<close>), the YAML library (\<open>stringify\<close>, \<open>parseYaml\<close>), the diff library, the
  WHATWG \<^verbatim>\<open>URL\<close> parser, the JSON parser, the process table (\<open>proc_reader\<close>), the backends and the file
  system are arguments of the definitions that use them. One law is assumed of them, where a
  property needs it: that the YAML library parses what it wrote (\<open>yaml_round_trip\<close>), and that the
  sidecar's text parses to the flags that were written.

  Bounds. The two walks of the process tree stop after 1024 steps, as in the sources
  (\<open>MAX_DEPTH\<close>, \<open>ANCHOR_MAX_DEPTH\<close>), the walk for a directory after 100000 (\<open>LINEAGE_CAP\<close>). \<^verbatim>\<open>findFdRoot\<close> loops
  without a bound: \<open>find_loop\<close> is that loop as a partial function, \<open>find_root\<close> takes as many hops as there are
  pointers, and \<open>find_root_returns\<close> shows that after any sequence of lines the two agree. \<^verbatim>\<open>nodeBootstrapSubtree\<close> may
  not return, so it and everything up to \<open>run_phase\<close> has an option for its value; \<open>subtree_returns_iff\<close> says when it
  returns, and \<open>run_returns\<close> that a run does when the clone lines put no process below itself. The matcher of
  fragments is capped as in the sources (\<open>FRAGMENT_MAX_GRAMS\<close>, \<open>MAX_FRAGMENT_VALUE_CHARS\<close>). Every other loop is
  structural or has a proved measure.

  Conditions. The kernels of \<open>FdKernel\<close> and \<open>ProcTrace\<close> may give the pid of a dead process out again; the
  guarantees of the trackers need that no pid is given out twice in a run, which is a premise there, and
  \<open>reused_pid_goes_stale\<close> and \<open>reused_pid_regrouped\<close> show why. The renderer writes packages into a plain object, and
  \<^verbatim>\<open>z.record\<close> skips one key, so what is filed under \<^verbatim>\<open>__proto__\<close> is lost; the properties about the gate say so.

  Not modelled: text outside Latin-1; numbers beyond the range of exact JavaScript integers; the orchestration of
  \<^verbatim>\<open>agent.ts\<close> and its environment filters; the environment and the launch of the host install of \<^verbatim>\<open>host-install.ts\<close>;
  the wire protocol, the preflight checks, the artifact and root-filesystem builds, the dispatcher of the macOS
  backend, and the native code of the preload and of the macOS launcher.
\<close>

section \<open>From the lines of a run to the verdict of the host\<close>

text \<open>An event of the trace after which the audit cannot be trusted is an entry of the rendered lock, and the
  scan finds it there, unless its package has the one name that the renderer cannot use as a key.\<close>

lemma bypass_reaches_gate:
  assumes out: "normalize evs ctx = Inr out" and ev: "ev \<in> set evs" "bypass_signal (ev_raw ev)"
    and lib: "yaml_round_trip stringify parseYaml (render_doc (input\<lparr>ri_packages := out\<rparr>))"
    and key: "ev_pkg ev \<noteq> ''__proto__''"
  shows "\<exists>e. mk_entry (ev_pkg ev) (stage_name (ev_lifecycle ev)) e
     \<in> set (findAuditBypass parseYaml (render stringify (input\<lparr>ri_packages := out\<rparr>)))"
proof -
  from ev obtain s where s: "in_lock out (ev_pkg ev) (ev_lifecycle ev) FAuditBypass s"
    using in_lock_bypass [OF out, of "ev_pkg ev" "ev_lifecycle ev"] by blast
  with bypass_entry_nonempty [OF out s] scan_rendered(1) [OF out lib] key show ?thesis by blast
qed

text \<open>C1: an execution outside the preload cannot pass the gate. When the lines of strace show more
  successful executions of a process than the preload announced, in any order and among any other lines, the
  phase returns with an \<^verbatim>\<open>exec\<close> event of that process marked as a bypass, and from whatever lock is rendered
  from what it emitted, the host's scan reports an entry for the package and the stage of that event, unless the
  package is called \<^verbatim>\<open>__proto__\<close>. The clone lines must not put a process below itself, and the YAML library
  must parse what it wrote.\<close>

theorem unannounced_exec_fails_gate:
  assumes "acyclic (clone_edges its)" "missed_exec inp its pid"
  shows "\<exists>s ev e. run_phase inp its = Some s \<and> ev \<in> set (es_emitted (ph_emit s)) \<and>
     ev_raw ev = ExecEv e \<and> ex_pid e = pid \<and> ex_syscall_bypass e \<and>
     (\<forall>out stringify parseYaml. normalize (es_emitted (ph_emit s)) ctx = Inr out \<and>
        yaml_round_trip stringify parseYaml (render_doc (input\<lparr>ri_packages := out\<rparr>)) \<and>
        ev_pkg ev \<noteq> ''__proto__'' \<longrightarrow>
        (\<exists>u. mk_entry (ev_pkg ev) (stage_name (ev_lifecycle ev)) u
           \<in> set (findAuditBypass parseYaml (render stringify (input\<lparr>ri_packages := out\<rparr>)))))"
proof -
  obtain s where run: "run_phase inp its = Some s" using run_returns [OF assms(1)] by blast
  from missed_exec_emitted [OF run assms(2)] obtain ev e where ev: "ev \<in> set (es_emitted (ph_emit s))"
    "ev_raw ev = ExecEv e" "ex_pid e = pid" "ex_syscall_bypass e" by blast
  then have "bypass_signal (ev_raw ev)" by simp
  from bypass_reaches_gate [OF _ ev(1) this] run ev show ?thesis by blast
qed

text \<open>A context in which every package but the root has a directory, so that normalisation never throws.\<close>

definition sample_claim_ctx :: normalize_context where
  "sample_claim_ctx = sample_ctx\<lparr>nc_rootPkgKeys := Some {''app''},
     nc_pkgDirs := (\<lambda>p. if p = ''app'' then None else Some ''/work/node_modules/dep'')\<rparr>"

lemma sample_claim_total: "\<exists>out. normalize evs sample_claim_ctx = Inr out"
  using loop_fails_iff [of sample_claim_ctx evs "[]"]
  by (cases "rfold (normalize_step sample_claim_ctx) evs []")
    (auto simp: normalize_def event_verdict_def sample_claim_ctx_def claimsRoot_def Let_def split: if_splits)

lemma sample_exec_key:
  "(case run_phase sample_phase [sample_line 7 sample_exec_line] of None \<Rightarrow> True
    | Some s \<Rightarrow> list_all (\<lambda>ev. ev_pkg ev \<noteq> ''__proto__'') (es_emitted (ph_emit s)))"
  by code_simp

theorem unannounced_exec_fails_gate_witness:
  "\<exists>s out. run_phase sample_phase [sample_line 7 sample_exec_line] = Some s \<and>
     normalize (es_emitted (ph_emit s)) sample_claim_ctx = Inr out \<and>
     findAuditBypass (\<lambda>_. Some (render_doc (sample_input\<lparr>ri_packages := out\<rparr>)))
       (render (\<lambda>_ _. ''text'') (sample_input\<lparr>ri_packages := out\<rparr>)) \<noteq> []"
proof -
  have "acyclic (clone_edges [sample_line 7 sample_exec_line])" by (simp add: sample_edges acyclic_def)
  from unannounced_exec_fails_gate [OF this sample_missed, of sample_claim_ctx sample_input] obtain s ev where
    s: "run_phase sample_phase [sample_line 7 sample_exec_line] = Some s" "ev \<in> set (es_emitted (ph_emit s))"
    "\<And>out stringify parseYaml. normalize (es_emitted (ph_emit s)) sample_claim_ctx = Inr out \<Longrightarrow>
       yaml_round_trip stringify parseYaml (render_doc (sample_input\<lparr>ri_packages := out\<rparr>)) \<Longrightarrow>
       ev_pkg ev \<noteq> ''__proto__'' \<Longrightarrow>
       \<exists>u. mk_entry (ev_pkg ev) (stage_name (ev_lifecycle ev)) u
         \<in> set (findAuditBypass parseYaml (render stringify (sample_input\<lparr>ri_packages := out\<rparr>)))"
    by blast
  have key: "ev_pkg ev \<noteq> ''__proto__''" using sample_exec_key s(1,2) by (simp add: list_all_iff)
  obtain out where out: "normalize (es_emitted (ph_emit s)) sample_claim_ctx = Inr out"
    using sample_claim_total by blast
  have "yaml_round_trip (\<lambda>_ _. ''text'') (\<lambda>_. Some (render_doc (sample_input\<lparr>ri_packages := out\<rparr>)))
      (render_doc (sample_input\<lparr>ri_packages := out\<rparr>))"
    by (simp add: yaml_round_trip_def)
  from s(3) [OF out this key] s(1) out show ?thesis by fastforce
qed

text \<open>C2: a dependency that passes itself off as the audited package is found out. When the tree at the end
  of the run does not anchor the process of a spawn, a connection or a read of an environment variable that was
  emitted under a key of the root, the lock normalised from the run lists the entry of that event (the command
  with its outcome, the endpoint or the name of the variable) under its package and stage with the tag
  \<^verbatim>\<open><FORGED_ROOT>\<close> before it, also in install mode.\<close>

theorem unanchored_claim_surfaces:
  assumes run: "run_phase inp its = Some s" and ev: "ev \<in> set (es_emitted (ph_emit s))"
    and root: "ei_rootPkgKeys (pi_emit inp) = Some keys" "ev_pkg ev \<in> keys" "claimsRoot ctx (ev_pkg ev)"
    and kind: "(\<exists>e. ev_raw ev = SpawnEv e) \<or> (\<exists>e. ev_raw ev = ConnectEv e) \<or> (\<exists>e. ev_raw ev = EnvReadEv e)"
    and foreign: "\<not> final_anchor inp s (raw_pid (ev_raw ev))"
    and out: "normalize (es_emitted (ph_emit s)) ctx = Inr out"
  shows "\<exists>f u. event_entries (canonicalizeTokenizeRoots (nc_roots ctx)) (nc_pkgDirs ctx (ev_pkg ev)) None [] (ev_raw ev) =
       [(f, u)] \<and>
     in_lock out (ev_pkg ev) (ev_lifecycle ev) f (''<FORGED_ROOT> '' @ u)"
proof -
  let ?es = "event_entries (canonicalizeTokenizeRoots (nc_roots ctx)) (nc_pkgDirs ctx (ev_pkg ev)) None"
  have "anchor_field (ev_raw ev) = Some (Some (final_anchor inp s (raw_pid (ev_raw ev))))"
    by (rule claim_checked [OF run ev root(1,2)]) (use kind in auto)
  then have forged: "isForgedRoot True (ev_raw ev)" using kind foreign by (auto simp: isForgedRoot_def)
  have fs: "fs_of (ev_raw ev) = None" "event_fs_path os (ev_raw ev) = None" for os
    using kind by (auto simp: event_fs_path_def)
  have "\<not> isSystemNoise (ev_raw ev) None os (canonicalizeTokenizeRoots (nc_roots ctx))" for os
    using kind by (auto simp: isSystemNoise_def)
  with forged root(3) fs have verdict: "event_verdict ctx ev = Record (?es ''<FORGED_ROOT> '' (ev_raw ev))"
    by (simp add: event_verdict_def install_mode_drops_def Let_def)
  have "\<exists>f u. ?es [] (ev_raw ev) = [(f, u)] \<and> ?es ''<FORGED_ROOT> '' (ev_raw ev) = [(f, ''<FORGED_ROOT> '' @ u)]"
    using kind by (cases "\<exists>e. ev_raw ev = SpawnEv e \<and> sp_result e = SpawnOk") (auto simp: Let_def)
  then obtain f u where fu: "?es [] (ev_raw ev) = [(f, u)]" "?es ''<FORGED_ROOT> '' (ev_raw ev) = [(f, ''<FORGED_ROOT> '' @ u)]"
    by blast
  with verdict have "records ctx ev (ev_pkg ev) (ev_lifecycle ev) f (''<FORGED_ROOT> '' @ u)"
    by (simp add: records_iff)
  with forged_in_lock [OF out ev] fu(1) show ?thesis by blast
qed

lemma sample_claim_run:
  "(case run_phase sample_root_phase sample_root_items of None \<Rightarrow> False
    | Some s \<Rightarrow> list_ex (\<lambda>ev. spawned_as ''app'' (Some False) ev \<and> ev_lifecycle ev = Install \<and>
          \<not> final_anchor sample_root_phase s (raw_pid (ev_raw ev))) (es_emitted (ph_emit s)))"
  by code_simp

theorem unanchored_claim_surfaces_witness:
  "\<exists>s ev out f u. run_phase sample_root_phase sample_root_items = Some s \<and> ev \<in> set (es_emitted (ph_emit s)) \<and>
     normalize (es_emitted (ph_emit s)) sample_claim_ctx = Inr out \<and>
     event_entries (canonicalizeTokenizeRoots (nc_roots sample_claim_ctx)) (nc_pkgDirs sample_claim_ctx ''app'') None []
       (ev_raw ev) = [(f, u)] \<and>
     in_lock out ''app'' Install f (''<FORGED_ROOT> '' @ u)"
proof -
  obtain s ev out where s: "run_phase sample_root_phase sample_root_items = Some s" "ev \<in> set (es_emitted (ph_emit s))"
    "spawned_as ''app'' (Some False) ev" "ev_lifecycle ev = Install"
    "\<not> final_anchor sample_root_phase s (raw_pid (ev_raw ev))"
    "normalize (es_emitted (ph_emit s)) sample_claim_ctx = Inr out"
    using sample_claim_run sample_claim_total by (fastforce simp: list_ex_iff split: option.splits)
  have e: "\<exists>e. ev_raw ev = SpawnEv e" "ev_pkg ev = ''app''" using s(3) by (auto simp: spawned_as_def split: raw_event.splits)
  note claim = unanchored_claim_surfaces [OF s(1,2) _ _ _ _ s(5,6), where keys = "{''app''}"]
  have "\<exists>f u. event_entries (canonicalizeTokenizeRoots (nc_roots sample_claim_ctx)) (nc_pkgDirs sample_claim_ctx (ev_pkg ev))
       None [] (ev_raw ev) = [(f, u)] \<and> in_lock out (ev_pkg ev) (ev_lifecycle ev) f (''<FORGED_ROOT> '' @ u)"
    by (rule claim) (simp_all add: e sample_root_phase_def sample_claim_ctx_def sample_ctx_def claimsRoot_def)
  with s e show ?thesis by metis
qed

section \<open>From an event of the trace to the verdict of the host\<close>

text \<open>C3: the bypass gate cannot be disarmed. When the trace holds one event after which the audit
  cannot be trusted (an exec outside the envelope, a write to the events file, an unresolved path,
  the loss of the audit descriptor), then scanning the generated lock reports an entry for the
  event's package and stage: no filter of the normalisation, no deduplication, no other event and
  no property of the committed lock prevents it. The one exception is a package called \<^verbatim>\<open>__proto__\<close>, which
  the renderer loses. The YAML library is assumed to parse what it wrote.\<close>

theorem bypass_gate_fires:
  assumes "normalize evs ctx = Inr out" and "ev \<in> set evs" "bypass_signal (ev_raw ev)"
    and "yaml_round_trip stringify parseYaml (render_doc (input\<lparr>ri_packages := out\<rparr>))"
    and "ev_pkg ev \<noteq> ''__proto__''"
  shows "\<exists>e. mk_entry (ev_pkg ev) (stage_name (ev_lifecycle ev)) e
     \<in> set (findAuditBypass parseYaml (render stringify (input\<lparr>ri_packages := out\<rparr>)))"
  by (rule bypass_reaches_gate [OF assms])

theorem bypass_gate_fires_witness:
  "\<exists>out. normalize [sample_exec] sample_ctx = Inr out \<and>
     (\<exists>e. mk_entry ''dep@2'' ''postinstall'' e
        \<in> set (findAuditBypass (\<lambda>_. Some (render_doc (sample_input\<lparr>ri_packages := out\<rparr>)))
                (render (\<lambda>_ _. ''text'') (sample_input\<lparr>ri_packages := out\<rparr>))))"
proof -
  obtain out where out: "normalize [sample_exec] sample_ctx = Inr out"
    using sample_exec_normalize by blast
  have "yaml_round_trip (\<lambda>_ _. ''text'') (\<lambda>_. Some (render_doc (sample_input\<lparr>ri_packages := out\<rparr>)))
      (render_doc (sample_input\<lparr>ri_packages := out\<rparr>))"
    by (simp add: yaml_round_trip_def)
  from bypass_gate_fires [OF out _ _ this, of sample_exec] out show ?thesis
    by (auto simp: sample_exec_def)
qed

text \<open>The exception is real: a process chooses the name of its package with \<^verbatim>\<open>npm_package_name\<close>, and without a
  version the name is the key. Nothing that is filed under \<^verbatim>\<open>__proto__\<close> is seen by the gate.\<close>

lemma proto_package_escapes_gate:
  assumes "normalize evs ctx = Inr out"
    and "yaml_round_trip stringify parseYaml (render_doc (input\<lparr>ri_packages := out\<rparr>))"
  shows "mk_entry ''__proto__'' st e \<notin> set (findAuditBypass parseYaml (render stringify (input\<lparr>ri_packages := out\<rparr>)))"
  using scan_rendered(1) [OF assms] by simp

text \<open>C4: a failed probe of a protected path surfaces. Whatever the outcome (no such file, no access),
  when the path of a read or write matches a protected pattern, the policy passes the event on and the lock
  normalised from what it passed lists the path under its token with the tag \<^verbatim>\<open><HIDDEN>\<close>, even where an ordinary
  access to the same path is system noise or an install-mode drop; before that tag stands only the one of a
  forged root, after it only that of a write into another package, and only a path inside the package itself is
  not listed.\<close>

theorem protected_probe_surfaces:
  assumes mem: "ev \<in> set trace" and fs: "fs_of (ev_raw ev) = Some e" and failed: "fs_errno e \<noteq> None"
    and protected: "isProtected glob m (fs_path e)"
    and run: "normalize (List.map_filter (applyProtectedPathsPolicy glob m) trace) ctx = Inr out"
    and t: "t = normalizeVolatilePath (tokenize (the (event_fs_path (case nc_os ctx of None \<Rightarrow> Linux | Some os \<Rightarrow> os) (ev_raw ev)))
               (canonicalizeTokenizeRoots (nc_roots ctx)) (nc_pkgDirs ctx (ev_pkg ev)))"
    and outside: "\<not> isInsidePkg t"
  shows "in_lock out (ev_pkg ev) (ev_lifecycle ev)
     (if is_read (ev_raw ev) then FExternalReads else FEscapedWrites)
     ((if isForgedRoot (claimsRoot ctx (ev_pkg ev)) (ev_raw ev) then ''<FORGED_ROOT> '' else []) @ ''<HIDDEN> '' @
      (if \<not> is_read (ev_raw ev) \<and> isCrossPackage t then ''<CROSS_PACKAGE> '' else []) @ t)"
proof -
  let ?os = "case nc_os ctx of None \<Rightarrow> Linux | Some os \<Rightarrow> os"
  let ?evs = "List.map_filter (applyProtectedPathsPolicy glob m) trace"
  let ?pre = "if isForgedRoot (claimsRoot ctx (ev_pkg ev)) (ev_raw ev) then ''<FORGED_ROOT> '' else []"
  define e' where "e' = stripTransport (e\<lparr>fs_hidden := True\<rparr>)"
  define ev' where "ev' = ev\<lparr>ev_raw := with_fs (ev_raw ev) e'\<rparr>"
  have policy: "applyProtectedPathsPolicy glob m ev = Some ev'"
    using fs failed protected by (auto simp: applyProtectedPathsPolicy_def ev'_def e'_def)
  have e': "ev' = ev\<lparr>ev_raw := with_fs (ev_raw ev) e'\<rparr>" "fs_hidden e'" "fs_path e' = fs_path e"
    "fs_root_anchored e' = fs_root_anchored e"
    by (simp_all add: ev'_def e'_def stripTransport_def)
  have mem': "ev' \<in> set ?evs" using mem policy by (force simp: List.map_filter_def)
  have fs': "fs_of (ev_raw ev') = Some e'" "is_read (ev_raw ev') = is_read (ev_raw ev)"
    and meta: "ev_pkg ev' = ev_pkg ev" "ev_lifecycle ev' = ev_lifecycle ev"
    using fs e' by simp_all
  have path: "event_fs_path ?os (ev_raw ev') = event_fs_path ?os (ev_raw ev)"
    unfolding event_fs_path_def fs fs'(1) by (simp add: e'(3))
  have forged: "isForgedRoot (claimsRoot ctx (ev_pkg ev)) (ev_raw ev') = isForgedRoot (claimsRoot ctx (ev_pkg ev)) (ev_raw ev)"
    using fs e' by (cases "ev_raw ev") (simp_all add: isForgedRoot_def)
  have quiet: "\<not> isSystemNoise (ev_raw ev') (event_fs_path ?os (ev_raw ev')) ?os
      (canonicalizeTokenizeRoots (nc_roots ctx))" "\<not> install_mode_drops ctx ev'"
    using fs' e'(2) by (auto simp: isSystemNoise_def install_mode_drops_def split: raw_event.splits)
  have "\<not> (\<exists>x. event_verdict ctx ev' = Fail x)"
    using run mem' loop_fails_iff [of ctx ?evs "[]"] by (auto simp: normalize_def)
  then have verdict: "event_verdict ctx ev' = Record (event_entries
      (canonicalizeTokenizeRoots (nc_roots ctx)) (nc_pkgDirs ctx (ev_pkg ev))
      (event_fs_path ?os (ev_raw ev)) ?pre (ev_raw ev'))"
    using quiet path meta forged by (auto simp: event_verdict_def Let_def split: if_splits)
  let ?f = "if is_read (ev_raw ev) then FExternalReads else FEscapedWrites"
  let ?post = "if \<not> is_read (ev_raw ev) \<and> isCrossPackage t then ''<CROSS_PACKAGE> '' else []"
  have some: "event_fs_path ?os (ev_raw ev) = Some (the (event_fs_path ?os (ev_raw ev)))"
    using fs by (simp add: event_fs_path_def)
  have "(?f, ?pre @ ''<HIDDEN> '' @ ?post @ t) \<in> set (event_entries (canonicalizeTokenizeRoots (nc_roots ctx))
      (nc_pkgDirs ctx (ev_pkg ev)) (event_fs_path ?os (ev_raw ev)) ?pre (ev_raw ev'))"
    using fs' e'(2) outside by (subst some, cases "ev_raw ev'") (simp_all add: t [symmetric] hidden_tag_def Let_def)
  with verdict meta have "records ctx ev' (ev_pkg ev) (ev_lifecycle ev) ?f (?pre @ ''<HIDDEN> '' @ ?post @ t)"
    unfolding records_iff by blast
  moreover have "?f \<noteq> FSpawnAttempts" "?f \<noteq> FSpawnBlocked" by simp_all
  ultimately show ?thesis using in_lock_iff [OF run] mem' by blast
qed

definition sample_os_ctx :: normalize_context where
  "sample_os_ctx = sample_ctx\<lparr>nc_pkgDirs := (\<lambda>_. Some ''/work/node_modules/dep'')\<rparr>"

lemma sample_os_total: "\<exists>out. normalize evs sample_os_ctx = Inr out"
  using loop_fails_iff [of sample_os_ctx evs "[]"]
  by (cases "rfold (normalize_step sample_os_ctx) evs []")
    (auto simp: normalize_def event_verdict_def sample_os_ctx_def Let_def split: if_splits)

theorem protected_probe_surfaces_witness:
  "\<exists>out. normalize (List.map_filter (applyProtectedPathsPolicy sample_glob sample_matcher) [sample_probe]) sample_os_ctx =
       Inr out \<and>
     in_lock out ''dep@1'' Install FExternalReads ''<HIDDEN> $HOME/.npmrc''"
proof -
  obtain e where e: "fs_of (ev_raw sample_probe) = Some e" "fs_path e = ''/root/.npmrc''"
    "fs_errno e \<noteq> None" "is_read (ev_raw sample_probe)" "fs_root_anchored e = None"
    and meta: "ev_pkg sample_probe = ''dep@1''" "ev_lifecycle sample_probe = Install"
    by (simp add: sample_probe_def)
  obtain out where out: "normalize (List.map_filter (applyProtectedPathsPolicy sample_glob sample_matcher) [sample_probe])
      sample_os_ctx = Inr out"
    using sample_os_total by blast
  have t: "''$HOME/.npmrc'' = normalizeVolatilePath (tokenize (the (event_fs_path
      (case nc_os sample_os_ctx of None \<Rightarrow> Linux | Some os \<Rightarrow> os) (ev_raw sample_probe)))
      (canonicalizeTokenizeRoots (nc_roots sample_os_ctx)) (nc_pkgDirs sample_os_ctx (ev_pkg sample_probe)))"
    using e(1,2) by (simp add: event_fs_path_def sample_os_ctx_def sample_ctx_def sample_roots_def
        canonicalizeTokenizeRoots_def stripTrailingSlashes_def tokenize_def sorted_prefixes_def
        token_prefixes_def pathHasPrefix_def token_result_def normalizeVolatilePath_def
        debug_log_at_def debug_log_template_def)
  have protected: "isProtected sample_glob sample_matcher (fs_path e)" using sample_protected e(2) by simp
  have "\<not> isForgedRoot (claimsRoot sample_os_ctx ''dep@1'') (ev_raw sample_probe)"
    by (simp add: isForgedRoot_def claimsRoot_def sample_os_ctx_def sample_ctx_def)
  moreover have "\<not> isInsidePkg ''$HOME/.npmrc''" by (simp add: isInsidePkg_def)
  ultimately show ?thesis
    using protected_probe_surfaces [OF _ e(1,3) protected out t] out e(4) meta by auto
qed

section \<open>What the exemption of protected paths leaves out\<close>

text \<open>
  The exemption from system noise is for events marked hidden, and the policy marks only failed
  accesses. A successful read of a protected path below a noise prefix passes the policy unmarked
  and is then dropped as noise.
\<close>

definition sample_noise_read :: attributed_event where
  "sample_noise_read =
     \<lparr>ev_raw = ReadEv \<lparr>fs_path = ''/proc/self/environ'', fs_pid = 7, fs_ts = 0, fs_hidden = False,
        fs_errno = None, fs_dirfd = None, fs_retFd = None, fs_root_anchored = None\<rparr>,
      ev_pkg = ''dep@1'', ev_lifecycle = Install\<rparr>"

lemma successful_protected_read_dropped:
  defines "m \<equiv> newProtectedPathsMatcher [''/proc/self/environ''] sample_roots None"
  shows "isProtected sample_glob m ''/proc/self/environ''"
    and "applyProtectedPathsPolicy sample_glob m sample_noise_read = Some sample_noise_read"
    and "normalize [sample_noise_read] sample_os_ctx = Inr []"
proof -
  show p: "isProtected sample_glob m ''/proc/self/environ''"
    by (simp add: m_def isProtected_def newProtectedPathsMatcher_def normalizePattern_def matcher_canon_def
        sample_roots_def canonicalizeTokenizeRoots_def stripTrailingSlashes_def tokenize_def
        sorted_prefixes_def token_prefixes_def pathHasPrefix_def sample_glob_def eval_nat_numeral Let_def)
  show "applyProtectedPathsPolicy sample_glob m sample_noise_read = Some sample_noise_read"
    using p by (simp add: applyProtectedPathsPolicy_def sample_noise_read_def)
  show "normalize [sample_noise_read] sample_os_ctx = Inr []"
    by (simp add: normalize_def normalize_step_def event_verdict_def sample_noise_read_def sample_os_ctx_def
        sample_ctx_def sample_roots_def canonicalizeTokenizeRoots_def stripTrailingSlashes_def
        event_fs_path_def isSystemNoise_def isUnderRoot_def SYSTEM_NOISE_PREFIXES_def finish_lock_def
        eval_nat_numeral Let_def)
qed

end
